(* ===== verification/Prelude.thy ===== *)
theory Prelude
  imports Main "HOL-Library.AList" "HOL-Library.Char_ord" "HOL-Library.List_Lexorder"
    "HOL-Library.Multiset"
begin

text \<open>
  What every component of the development shares: the model's names for Go's strings, times
  and durations, the few string operations of Go's standard library the program calls, an
  association-list reading of Go maps, and the collections of facts the components' proofs
  are driven by.
\<close>

section \<open>Collections\<close>

named_theorems go_str \<open>equations of the string helpers\<close>
named_theorems frame \<open>what an operation leaves unchanged\<close>
named_theorems inv_intros \<open>an operation keeps its component's invariant\<close>

section \<open>Types\<close>

text \<open>
  Go strings are byte strings. A time is the number of nanoseconds since the Unix epoch, and
  \<open>zero_time\<close> is Go's zero \<open>time.Time\<close> (1 January of year 1). A duration is a
  number of nanoseconds; every duration the program builds is far below the \<open>int64\<close> bound.
\<close>

type_synonym gostring = string
type_synonym gtime = int
type_synonym duration = int

abbreviation second :: duration where "second \<equiv> 1000000000"
abbreviation minute :: duration where "minute \<equiv> 60000000000"
abbreviation hour :: duration where "hour \<equiv> 3600000000000"

definition zero_time :: gtime where
  "zero_time = - 62135596800000000000"

text \<open>Seconds since the epoch: \<open>time.Time.Unix\<close>, and back: \<open>time.Unix(s, 0)\<close>.\<close>

definition unix_of :: "gtime \<Rightarrow> int" where
  "unix_of t = t div second"

definition time_of_unix :: "int \<Rightarrow> gtime" where
  "time_of_unix s = s * second"

lemma time_of_unix_of_le: "time_of_unix (unix_of t) \<le> t"
proof -
  have "t - t mod second \<le> t" by simp
  moreover have "t div second * second = t - t mod second"
    by (metis minus_mod_eq_div_mult)
  ultimately show ?thesis by (simp add: time_of_unix_def unix_of_def)
qed

lemma time_of_unix_of_gt: "t - second < time_of_unix (unix_of t)"
proof -
  have "t mod second < second" by simp
  moreover have "t div second * second = t - t mod second"
    by (metis minus_mod_eq_div_mult)
  ultimately show ?thesis by (simp add: time_of_unix_def unix_of_def)
qed

section \<open>Strings\<close>

text \<open>
  \<open>strings.ToLower\<close>, \<open>strings.EqualFold\<close> and \<open>strings.TrimSpace\<close> on ASCII;
  a byte above 127 is left as it is, where Go would fold or trim the letter it belongs to.
\<close>

definition lower_char :: "char \<Rightarrow> char" where
  "lower_char c = (let n = of_char c :: nat in if 65 \<le> n \<and> n \<le> 90 then char_of (n + 32) else c)"

definition to_lower :: "gostring \<Rightarrow> gostring" where
  "to_lower s = map lower_char s"

definition equal_fold :: "gostring \<Rightarrow> gostring \<Rightarrow> bool" where
  "equal_fold a b = (to_lower a = to_lower b)"

definition is_space :: "char \<Rightarrow> bool" where
  "is_space c = (let n = of_char c :: nat in n = 32 \<or> (9 \<le> n \<and> n \<le> 13))"

definition trim_space :: "gostring \<Rightarrow> gostring" where
  "trim_space s = rev (dropWhile is_space (rev (dropWhile is_space s)))"

definition has_prefix :: "gostring \<Rightarrow> gostring \<Rightarrow> bool" where
  "has_prefix p s = (take (length p) s = p)"

text \<open>\<open>strings.Split(s, sep)\<close> for a one-byte separator, and \<open>strings.Join\<close>.\<close>

fun split_on :: "char \<Rightarrow> gostring \<Rightarrow> gostring list" where
  "split_on d [] = [[]]"
| "split_on d (c # cs) =
     (if c = d then [] # split_on d cs
      else (case split_on d cs of [] \<Rightarrow> [[c]] | w # ws \<Rightarrow> (c # w) # ws))"

fun join_on :: "char \<Rightarrow> gostring list \<Rightarrow> gostring" where
  "join_on d [] = []"
| "join_on d [w] = w"
| "join_on d (w # ws) = w @ d # join_on d ws"

lemma lower_char_idem [simp]: "lower_char (lower_char c) = lower_char c"
  by (auto simp: lower_char_def Let_def)

lemma to_lower_idem [simp]: "to_lower (to_lower s) = to_lower s"
  by (simp add: to_lower_def)

lemma equal_fold_refl [simp]: "equal_fold a a"
  by (simp add: equal_fold_def)

lemma equal_fold_sym: "equal_fold a b \<Longrightarrow> equal_fold b a"
  by (simp add: equal_fold_def)

lemma equal_fold_trans: "equal_fold a b \<Longrightarrow> equal_fold b c \<Longrightarrow> equal_fold a c"
  by (simp add: equal_fold_def)

lemma trim_space_id: "s = [] \<or> \<not> is_space (hd s) \<and> \<not> is_space (last s) \<Longrightarrow> trim_space s = s"
proof -
  assume s: "s = [] \<or> \<not> is_space (hd s) \<and> \<not> is_space (last s)"
  have "dropWhile is_space s = s" using s by (cases s) auto
  moreover have "dropWhile is_space (rev s) = rev s" using s by (cases s rule: rev_cases) auto
  ultimately show ?thesis by (simp add: trim_space_def)
qed

lemma split_on_nonempty [simp]: "split_on d s \<noteq> []"
  by (induction s) (auto split: list.splits)

lemma split_on_no_sep: "d \<notin> set w \<Longrightarrow> split_on d w = [w]"
  by (induction w) auto

lemma split_on_append_sep: "d \<notin> set w \<Longrightarrow> split_on d (w @ d # s) = w # split_on d s"
  by (induction w) auto

lemma split_join:
  "ws \<noteq> [] \<Longrightarrow> (\<forall>w\<in>set ws. d \<notin> set w) \<Longrightarrow> split_on d (join_on d ws) = ws"
  by (induction d ws rule: join_on.induct) (auto simp: split_on_no_sep split_on_append_sep)

lemma split_on_pieces: "w \<in> set (split_on d s) \<Longrightarrow> d \<notin> set w"
  by (induction s arbitrary: w) (auto split: if_splits list.splits)

lemma join_split [simp]: "join_on d (split_on d s) = s"
proof (induction s)
  case Nil
  then show ?case by simp
next
  case (Cons c cs)
  then show ?case
    by (cases "split_on d cs"; cases "tl (split_on d cs)") (auto split: list.splits)
qed

section \<open>Go maps as association lists\<close>

text \<open>
  A Go map the code measures with \<open>len\<close> or ranges over is an association list with
  distinct keys; \<open>AList.update\<close> and \<open>AList.delete\<close> store and delete.
\<close>

definition keys_distinct :: "('k \<times> 'v) list \<Rightarrow> bool" where
  "keys_distinct m = distinct (map fst m)"

lemma keys_distinct_Nil [simp]: "keys_distinct []"
  by (simp add: keys_distinct_def)

lemma keys_distinct_update [inv_intros]: "keys_distinct m \<Longrightarrow> keys_distinct (AList.update k v m)"
  by (simp add: keys_distinct_def distinct_update)

lemma keys_distinct_delete [inv_intros]: "keys_distinct m \<Longrightarrow> keys_distinct (AList.delete k m)"
  by (simp add: keys_distinct_def distinct_delete)

lemma keys_distinct_filter [inv_intros]: "keys_distinct m \<Longrightarrow> keys_distinct (filter p m)"
  by (induction m) (auto simp: keys_distinct_def)

lemma map_of_update_iff:
  "map_of (AList.update k v m) k' = (if k' = k then Some v else map_of m k')"
  by (simp add: update_conv)

lemma map_of_delete_iff:
  "map_of (AList.delete k m) k' = (if k' = k then None else map_of m k')"
  by (simp add: delete_conv)

lemma map_of_filter_distinct:
  assumes "keys_distinct m"
  shows "map_of (filter p m) k =
    (case map_of m k of None \<Rightarrow> None | Some v \<Rightarrow> if p (k, v) then Some v else None)"
  using assms
proof (induction m)
  case Nil
  then show ?case by simp
next
  case (Cons a m)
  obtain k' v' where a: "a = (k', v')" by (cases a)
  from Cons.prems a have "k' \<notin> fst ` set m" and d: "keys_distinct m"
    by (auto simp: keys_distinct_def)
  then have none: "map_of m k' = None" by (simp add: map_of_eq_None_iff)
  then have "map_of (filter p m) k' = None"
    using \<open>k' \<notin> fst ` set m\<close> by (auto simp: map_of_eq_None_iff)
  then show ?case using Cons.IH [OF d] a none by (auto split: option.splits)
qed

lemma update_new: "k \<notin> fst ` set m \<Longrightarrow> AList.update k v m = m @ [(k, v)]"
  by (induction m) auto

lemmas go_map = map_of_update_iff map_of_delete_iff

lemma distinct_map_filter: "distinct (map f xs) \<Longrightarrow> distinct (map f (filter P xs))"
  by (induction xs) auto

end
