(* ===== verification/Lockout.thy ===== *)
theory Lockout
  imports Prelude
begin

text \<open>
  \<open>internal/sectionlock/lockout.go\<close>: the in-memory brute-force counter. The map of
  entries is an association list with distinct keys; the clock reading each method takes is an
  argument. The fingerprint of a credential (a truncated SHA-256) is a parameter.
\<close>

section \<open>State and operations\<close>

definition failure_threshold :: int where "failure_threshold = 5"
definition base_backoff :: duration where "base_backoff = 60 * second"
definition max_backoff :: duration where "max_backoff = 15 * minute"
definition max_tracked_identities :: nat where "max_tracked_identities = 256"
definition identity_retention :: duration where "identity_retention = hour"

lemmas lockout_consts = failure_threshold_def base_backoff_def max_backoff_def
  max_tracked_identities_def identity_retention_def

record lockout_entry =
  le_failures :: int
  le_backoff :: duration
  le_until :: gtime
  le_last_seen :: gtime

type_synonym lockout = "(gostring \<times> lockout_entry) list"

definition new_lockout :: lockout where
  "new_lockout = []"

definition locked :: "lockout \<Rightarrow> gostring \<Rightarrow> gtime \<Rightarrow> duration \<times> bool" where
  "locked l identity now =
     (case map_of l identity of
        None \<Rightarrow> (0, False)
      | Some e \<Rightarrow> if now < le_until e then (le_until e - now, True) else (0, False))"

definition prune_locked :: "lockout \<Rightarrow> gtime \<Rightarrow> lockout" where
  "prune_locked l now =
     (if length l \<le> max_tracked_identities then l
      else filter (\<lambda>(i, e). \<not> (identity_retention < now - le_last_seen e \<and> \<not> now < le_until e)) l)"

definition empty_entry :: lockout_entry where
  "empty_entry = \<lparr>le_failures = 0, le_backoff = 0, le_until = zero_time, le_last_seen = zero_time\<rparr>"

definition next_backoff :: "duration \<Rightarrow> duration" where
  "next_backoff b =
     (if b = 0 then base_backoff
      else if max_backoff \<le> b then max_backoff
      else if max_backoff < b * 2 then max_backoff else b * 2)"

definition fail_entry :: "lockout_entry \<Rightarrow> gtime \<Rightarrow> lockout_entry" where
  "fail_entry e0 now =
     (let e = e0\<lparr>le_failures := le_failures e0 + 1, le_last_seen := now\<rparr> in
      if le_failures e < failure_threshold then e
      else let b = next_backoff (le_backoff e) in e\<lparr>le_backoff := b, le_until := now + b\<rparr>)"

definition fail :: "lockout \<Rightarrow> gostring \<Rightarrow> gtime \<Rightarrow> lockout" where
  "fail l identity now =
     (let e0 = (case map_of l identity of None \<Rightarrow> empty_entry | Some e \<Rightarrow> e);
          e = fail_entry e0 now;
          l' = AList.update identity e l
      in if le_failures e < failure_threshold then l' else prune_locked l' now)"

definition reset :: "lockout \<Rightarrow> gostring \<Rightarrow> lockout" where
  "reset l identity = AList.delete identity l"

definition transfer :: "lockout \<Rightarrow> gostring \<Rightarrow> gostring \<Rightarrow> lockout" where
  "transfer l src dst =
     (if src = [] \<or> dst = [] \<or> src = dst then l
      else case map_of l src of
        None \<Rightarrow> l
      | Some e \<Rightarrow> AList.update dst e (AList.delete src l))"

section \<open>Identities\<close>

text \<open>
  \<open>fp\<close> is \<open>fingerprint\<close>; \<open>split_host_port\<close> is \<open>net.SplitHostPort\<close>'s
  host, \<open>None\<close> when it returns an error. \<open>identity_of\<close> is \<open>Identity\<close>: the identity
  the middleware put in the request context, else the transport-level peer.
\<close>

definition key_identity :: "(gostring \<Rightarrow> gostring) \<Rightarrow> gostring \<Rightarrow> gostring" where
  "key_identity fp presented = ''key:'' @ fp presented"

definition session_identity :: "(gostring \<Rightarrow> gostring) \<Rightarrow> gostring \<Rightarrow> gostring" where
  "session_identity fp token = ''session:'' @ fp token"

definition ip_identity :: "(gostring \<Rightarrow> gostring option) \<Rightarrow> gostring \<Rightarrow> gostring" where
  "ip_identity split_host_port remote_addr =
     ''ip:'' @ (case split_host_port remote_addr of Some h \<Rightarrow> h | None \<Rightarrow> remote_addr)"

definition identity_of ::
  "(gostring \<Rightarrow> gostring option) \<Rightarrow> gostring option \<Rightarrow> gostring \<Rightarrow> gostring" where
  "identity_of split_host_port ctx_identity remote_addr =
     (case ctx_identity of Some i \<Rightarrow> i | None \<Rightarrow> ip_identity split_host_port remote_addr)"

lemma identity_nonempty [simp]:
  "key_identity fp k \<noteq> []" "session_identity fp t \<noteq> []" "ip_identity sh r \<noteq> []"
  by (simp_all add: key_identity_def session_identity_def ip_identity_def)

lemma identity_kinds_distinct [simp]:
  "key_identity fp k \<noteq> session_identity fp t" "session_identity fp t \<noteq> key_identity fp k"
  "key_identity fp k \<noteq> ip_identity sh r" "session_identity fp t \<noteq> ip_identity sh r"
  by (simp_all add: key_identity_def session_identity_def ip_identity_def)

section \<open>The entries' invariant\<close>

text \<open>The backoff of an entry with \<open>f\<close> failures: 1, 2, 4, 8 and then 15 minutes.\<close>

definition backoff_of :: "int \<Rightarrow> duration" where
  "backoff_of f =
     (if f < failure_threshold then 0
      else min max_backoff (base_backoff * 2 ^ nat (f - failure_threshold)))"

definition entry_ok :: "lockout_entry \<Rightarrow> bool" where
  "entry_ok e \<longleftrightarrow> 1 \<le> le_failures e \<and> le_backoff e = backoff_of (le_failures e) \<and>
     le_until e = (if le_failures e < failure_threshold then zero_time
                   else le_last_seen e + backoff_of (le_failures e))"

definition lockout_ok :: "lockout \<Rightarrow> bool" where
  "lockout_ok l \<longleftrightarrow> keys_distinct l \<and> (\<forall>e\<in>snd ` set l. entry_ok e)"

lemma lockout_okD: "lockout_ok l \<Longrightarrow> map_of l i = Some e \<Longrightarrow> entry_ok e"
  unfolding lockout_ok_def by (metis image_eqI map_of_SomeD snd_conv)

lemma backoff_of_step:
  assumes "failure_threshold \<le> f + 1"
  shows "next_backoff (backoff_of f) = backoff_of (f + 1)"
proof (cases "f < failure_threshold")
  case True
  then have "f + 1 = failure_threshold" using assms by simp
  then show ?thesis using True by (simp add: backoff_of_def next_backoff_def lockout_consts)
next
  case False
  define n where "n = nat (f - failure_threshold)"
  have n: "nat (f + 1 - failure_threshold) = Suc n" using False by (simp add: n_def)
  have one: "(1::int) \<le> 2 ^ n" by simp
  show ?thesis
  proof (cases "n < 4")
    case True
    then have "n = 0 \<or> n = 1 \<or> n = 2 \<or> n = 3" by arith
    then show ?thesis using False n n_def [symmetric]
      by (auto simp: backoff_of_def next_backoff_def lockout_consts)
  next
    case big: False
    then have "(2::int) ^ 4 \<le> 2 ^ n" by (intro power_increasing) auto
    then show ?thesis using False n n_def [symmetric]
      by (simp add: backoff_of_def next_backoff_def lockout_consts)
  qed
qed

lemma fail_entry_ok:
  assumes "entry_ok e \<or> e = empty_entry"
  shows "entry_ok (fail_entry e now)"
proof -
  have f: "0 \<le> le_failures e" "le_backoff e = backoff_of (le_failures e)"
    and u: "le_failures e < failure_threshold \<Longrightarrow> le_until e = zero_time"
    using assms by (auto simp: entry_ok_def empty_entry_def backoff_of_def lockout_consts)
  show ?thesis
  proof (cases "le_failures e + 1 < failure_threshold")
    case True
    then show ?thesis using f u
      by (simp add: fail_entry_def entry_ok_def Let_def backoff_of_def)
  next
    case False
    then show ?thesis using f backoff_of_step [of "le_failures e"]
      by (simp add: fail_entry_def entry_ok_def Let_def)
  qed
qed

section \<open>What each operation changes\<close>

lemma map_of_prune:
  "keys_distinct l \<Longrightarrow> map_of (prune_locked l now) j =
     (case map_of l j of
        None \<Rightarrow> None
      | Some e \<Rightarrow> if length l \<le> max_tracked_identities \<or> \<not> identity_retention < now - le_last_seen e \<or>
          now < le_until e then Some e else None)"
  by (auto simp: prune_locked_def map_of_filter_distinct split: option.split)

lemma le_last_seen_fail [simp]: "le_last_seen (fail_entry e now) = now"
  by (simp add: fail_entry_def Let_def)

lemma le_failures_fail [simp]: "le_failures (fail_entry e now) = le_failures e + 1"
  by (simp add: fail_entry_def Let_def)

definition entry_before :: "lockout \<Rightarrow> gostring \<Rightarrow> lockout_entry" where
  "entry_before l i = (case map_of l i of None \<Rightarrow> empty_entry | Some e \<Rightarrow> e)"

lemma map_of_fail_same:
  "keys_distinct l \<Longrightarrow> map_of (fail l i now) i = Some (fail_entry (entry_before l i) now)"
  by (simp add: fail_def Let_def map_of_prune keys_distinct_update go_map entry_before_def
      identity_retention_def)

lemma map_of_fail_other:
  assumes "keys_distinct l" and "j \<noteq> i"
  shows "map_of (fail l i now) j = map_of l j \<or>
    (map_of (fail l i now) j = None \<and> (\<exists>e. map_of l j = Some e \<and>
       identity_retention < now - le_last_seen e \<and> le_until e \<le> now))"
  using assms
  by (auto simp: fail_def Let_def map_of_prune keys_distinct_update go_map split: option.split)

lemma lockout_ok_new [simp]: "lockout_ok new_lockout"
  by (simp add: lockout_ok_def new_lockout_def)

lemma lockout_okI:
  "keys_distinct l \<Longrightarrow> (\<And>i e. map_of l i = Some e \<Longrightarrow> entry_ok e) \<Longrightarrow> lockout_ok l"
  unfolding lockout_ok_def keys_distinct_def
  by (metis (no_types, lifting) imageE map_of_eq_Some_iff prod.collapse)

lemma keys_distinct_prune [simp]: "keys_distinct l \<Longrightarrow> keys_distinct (prune_locked l now)"
  by (simp add: prune_locked_def keys_distinct_filter)

lemma keys_distinct_fail: "keys_distinct l \<Longrightarrow> keys_distinct (fail l i now)"
  by (simp add: fail_def Let_def keys_distinct_update)

lemma lockout_ok_distinct: "lockout_ok l \<Longrightarrow> keys_distinct l"
  by (simp add: lockout_ok_def)

lemma entry_before_ok: "lockout_ok l \<Longrightarrow> entry_ok (entry_before l i) \<or> entry_before l i = empty_entry"
  by (auto simp: entry_before_def dest: lockout_okD split: option.split)

lemma lockout_ok_fail [inv_intros]: "lockout_ok l \<Longrightarrow> lockout_ok (fail l i now)"
proof (rule lockout_okI)
  assume ok: "lockout_ok l"
  note d = lockout_ok_distinct [OF ok]
  show "keys_distinct (fail l i now)" using d by (rule keys_distinct_fail)
  fix j e
  assume j: "map_of (fail l i now) j = Some e"
  show "entry_ok e"
  proof (cases "j = i")
    case True
    then show ?thesis
      using j map_of_fail_same [OF d] fail_entry_ok [OF entry_before_ok [OF ok]] by auto
  next
    case False
    then show ?thesis using j map_of_fail_other [OF d False, of now] lockout_okD [OF ok] by auto
  qed
qed

lemma lockout_ok_reset [inv_intros]: "lockout_ok l \<Longrightarrow> lockout_ok (reset l i)"
  by (rule lockout_okI)
    (auto simp: reset_def go_map lockout_ok_def keys_distinct_delete dest: lockout_okD
      split: if_splits intro: lockout_okD)

lemma map_of_transfer:
  "map_of (transfer l src dst) j =
     (if src = [] \<or> dst = [] \<or> src = dst \<or> map_of l src = None then map_of l j
      else if j = dst then map_of l src else if j = src then None else map_of l j)"
  by (auto simp: transfer_def go_map split: option.split)

lemma lockout_ok_transfer [inv_intros]: "lockout_ok l \<Longrightarrow> lockout_ok (transfer l src dst)"
proof (rule lockout_okI)
  assume ok: "lockout_ok l"
  show "keys_distinct (transfer l src dst)"
    using lockout_ok_distinct [OF ok]
    by (simp add: transfer_def keys_distinct_update keys_distinct_delete split: option.split)
  fix j e
  assume "map_of (transfer l src dst) j = Some e"
  then show "entry_ok e"
    using lockout_okD [OF ok] by (auto simp: map_of_transfer split: if_splits)
qed

text \<open>The verdict alone, the part of \<open>Locked\<close> the gate branches on.\<close>

definition refused :: "lockout \<Rightarrow> gostring \<Rightarrow> gtime \<Rightarrow> bool" where
  "refused l i t = snd (locked l i t)"

lemma refused_iff: "refused l i t \<longleftrightarrow> (\<exists>e. map_of l i = Some e \<and> t < le_until e)"
  by (auto simp: refused_def locked_def split: option.split)

lemma refused_fail_other [frame]:
  assumes "keys_distinct l" and "j \<noteq> i" and "now \<le> t"
  shows "refused (fail l i now) j t = refused l j t"
  using map_of_fail_other [OF assms(1,2), of now] assms(3) unfolding refused_iff
  by (elim disjE) (simp, fastforce)

lemma refused_reset [frame]: "refused (reset l i) j t = (j \<noteq> i \<and> refused l j t)"
  by (auto simp: refused_iff reset_def go_map)

section \<open>The counter as the gate sees it\<close>

text \<open>
  The interface the PIN check relies on: a refusal verdict per identity, a wrong-PIN and a
  right-PIN event, each of which touches the verdict of its own identity only.
\<close>

datatype 'i attempt = Wrong 'i gtime | Right 'i

fun apply_attempt ::
  "('s \<Rightarrow> 'i \<Rightarrow> gtime \<Rightarrow> 's) \<Rightarrow> ('s \<Rightarrow> 'i \<Rightarrow> 's) \<Rightarrow> 's \<Rightarrow> 'i attempt \<Rightarrow> 's" where
  "apply_attempt f r s (Wrong i now) = f s i now"
| "apply_attempt f r s (Right i) = r s i"

fun by_another :: "'i \<Rightarrow> gtime \<Rightarrow> 'i attempt \<Rightarrow> bool" where
  "by_another j t (Wrong i now) = (i \<noteq> j \<and> now \<le> t)"
| "by_another j t (Right i) = (i \<noteq> j)"

locale attempt_counter =
  fixes good :: "'s \<Rightarrow> bool"
    and is_refused :: "'s \<Rightarrow> 'i \<Rightarrow> gtime \<Rightarrow> bool"
    and wrong_pin :: "'s \<Rightarrow> 'i \<Rightarrow> gtime \<Rightarrow> 's"
    and right_pin :: "'s \<Rightarrow> 'i \<Rightarrow> 's"
  assumes good_wrong: "good s \<Longrightarrow> good (wrong_pin s i now)"
    and good_right: "good s \<Longrightarrow> good (right_pin s i)"
    and wrong_frame: "good s \<Longrightarrow> j \<noteq> i \<Longrightarrow> now \<le> t \<Longrightarrow>
      is_refused (wrong_pin s i now) j t = is_refused s j t"
    and right_verdict: "good s \<Longrightarrow> is_refused (right_pin s i) j t = (j \<noteq> i \<and> is_refused s j t)"
begin

lemma good_attempts: "good s \<Longrightarrow> good (foldl (apply_attempt wrong_pin right_pin) s as)"
proof (induction as arbitrary: s)
  case (Cons a as)
  then show ?case by (cases a) (simp_all add: good_wrong good_right)
qed simp

lemma others_frame:
  "good s \<Longrightarrow> list_all (by_another j t) as \<Longrightarrow>
     is_refused (foldl (apply_attempt wrong_pin right_pin) s as) j t = is_refused s j t"
proof (induction as arbitrary: s)
  case (Cons a as)
  then show ?case
    by (cases a) (auto simp: good_wrong good_right wrong_frame right_verdict)
qed simp

lemma cleared_stays_clear:
  "good s \<Longrightarrow> list_all (by_another j t) as \<Longrightarrow>
     \<not> is_refused (foldl (apply_attempt wrong_pin right_pin) (right_pin s j) as) j t"
  using others_frame [OF good_right] by (simp add: right_verdict)

end

interpretation lo: attempt_counter lockout_ok refused fail reset
proof
  fix s :: lockout and i now assume "lockout_ok s"
  then show "lockout_ok (fail s i now)" by (rule lockout_ok_fail)
next
  fix s :: lockout and i assume "lockout_ok s"
  then show "lockout_ok (reset s i)" by (rule lockout_ok_reset)
next
  fix s :: lockout and j i :: gostring and now t :: gtime
  assume "lockout_ok s" "j \<noteq> i" "now \<le> t"
  then show "refused (fail s i now) j t = refused s j t"
    by (simp add: refused_fail_other lockout_ok_distinct)
next
  fix s :: lockout and i j t
  show "refused (reset s i) j t = (j \<noteq> i \<and> refused s j t)" by (rule refused_reset)
qed

section \<open>Guessing runs\<close>

text \<open>
  A run of wrong guesses by any number of identities: a guess made while its identity is
  refused is not evaluated and does not count. \<open>attempts\<close> is the log of the evaluated
  guesses.
\<close>

fun attempts :: "lockout \<Rightarrow> (gostring \<times> gtime) list \<Rightarrow> (gostring \<times> gtime) list" where
  "attempts l [] = []"
| "attempts l ((i, t) # es) =
     (if refused l i t then attempts l es else (i, t) # attempts (fail l i t) es)"

definition evaluated :: "lockout \<Rightarrow> gostring \<Rightarrow> (gostring \<times> gtime) list \<Rightarrow> gtime list" where
  "evaluated l i es = map snd (filter (\<lambda>(j, t). j = i) (attempts l es))"

lemma evaluated_simps [simp]:
  "evaluated l i [] = []"
  "evaluated l i ((j, t) # es) =
     (if refused l j t then evaluated l i es
      else if j = i then t # evaluated (fail l j t) i es else evaluated (fail l j t) i es)"
  by (simp_all add: evaluated_def)

lemma evaluated_times: "set (evaluated l i es) \<subseteq> snd ` set es"
proof (induction es arbitrary: l)
  case (Cons a es)
  then show ?case by (cases a) (auto split: if_splits dest: subsetD [OF Cons.IH])
qed simp

text \<open>\<open>total_backoff f k\<close>: the refusals that \<open>k\<close> more guesses wait for after \<open>f\<close> failures.\<close>

fun total_backoff :: "int \<Rightarrow> nat \<Rightarrow> duration" where
  "total_backoff f 0 = 0"
| "total_backoff f (Suc k) = backoff_of f + total_backoff (f + 1) k"

lemma backoff_nonneg: "0 \<le> backoff_of f"
  by (simp add: backoff_of_def lockout_consts)

lemma backoff_saturated: "9 \<le> f \<Longrightarrow> backoff_of f = max_backoff"
proof -
  assume f: "9 \<le> f"
  then have "(2::int) ^ 4 \<le> 2 ^ nat (f - 5)" by (intro power_increasing) auto
  then show ?thesis using f by (simp add: backoff_of_def lockout_consts)
qed

lemma total_backoff_saturated: "9 \<le> f \<Longrightarrow> total_backoff f k = int k * max_backoff"
  by (induction k arbitrary: f) (simp_all add: backoff_saturated algebra_simps)

lemma total_backoff_closed: "total_backoff 1 (k + 8) = int (k + 1) * max_backoff"
proof -
  have "total_backoff 1 (k + 8) = 60 * second + 120 * second + 240 * second + 480 * second +
      total_backoff 9 k"
    by (simp add: eval_nat_numeral backoff_of_def lockout_consts)
  then show ?thesis by (simp add: total_backoff_saturated algebra_simps max_backoff_def)
qed

lemma not_refused_wait:
  assumes "lockout_ok l" and "map_of l i = Some e" and "\<not> refused l i t" and "le_last_seen e \<le> t"
  shows "le_last_seen e + backoff_of (le_failures e) \<le> t"
  using lockout_okD [OF assms(1,2)] assms(2-4)
  by (auto simp: refused_iff entry_ok_def backoff_of_def split: if_splits)

lemma solo_elapsed:
  "lockout_ok l \<Longrightarrow> map_of l i = Some e \<Longrightarrow> sorted (le_last_seen e # map snd es) \<Longrightarrow>
   list_all (\<lambda>(j, t). j = i) es \<Longrightarrow> length (evaluated l i es) = Suc k \<Longrightarrow>
     le_last_seen e + total_backoff (le_failures e) (Suc k) \<le> last (evaluated l i es)"
proof (induction es arbitrary: l e k)
  case (Cons a es)
  obtain t where a: "a = (i, t)" using Cons.prems(4) by (cases a) auto
  show ?case
  proof (cases "refused l i t")
    case True
    then show ?thesis using Cons.IH [of l e k] Cons.prems a by auto
  next
    case False
    have w: "le_last_seen e + backoff_of (le_failures e) \<le> t"
      using not_refused_wait [OF Cons.prems(1,2) False] Cons.prems(3) a by simp
    let ?l = "fail l i t"
    have m: "map_of ?l i = Some (fail_entry e t)"
      using map_of_fail_same [OF lockout_ok_distinct [OF Cons.prems(1)]] Cons.prems(2)
      by (simp add: entry_before_def)
    show ?thesis
    proof (cases k)
      case 0
      then show ?thesis using w a False Cons.prems(5) by simp
    next
      case (Suc k')
      have "t + total_backoff (le_failures e + 1) (Suc k') \<le> last (evaluated ?l i es)"
        using Cons.IH [of ?l "fail_entry e t" k'] lockout_ok_fail [OF Cons.prems(1)] m
          Cons.prems a False Suc by auto
      then show ?thesis using w a False Suc Cons.prems(5) by (cases "evaluated ?l i es") auto
    qed
  qed
qed simp

lemma solo_elapsed_new:
  "sorted (map snd es) \<Longrightarrow> list_all (\<lambda>(j, t). j = i) es \<Longrightarrow>
   length (evaluated new_lockout i es) = Suc k \<Longrightarrow>
     hd (evaluated new_lockout i es) + total_backoff 1 k \<le> last (evaluated new_lockout i es)"
proof (induction es)
  case (Cons a es)
  obtain t where a: "a = (i, t)" using Cons.prems(2) by (cases a) auto
  let ?l = "fail new_lockout i t"
  have nr: "\<not> refused new_lockout i t" by (simp add: refused_iff new_lockout_def)
  have m: "map_of ?l i = Some (fail_entry empty_entry t)"
    using map_of_fail_same [of new_lockout i t] by (simp add: new_lockout_def entry_before_def)
  have f: "le_failures (fail_entry empty_entry t) = 1" by (simp add: empty_entry_def)
  show ?case
  proof (cases k)
    case 0
    then show ?thesis using a nr Cons.prems(3) by simp
  next
    case (Suc k')
    then have "t + total_backoff 1 (Suc k') \<le> last (evaluated ?l i es)"
      using solo_elapsed [OF lockout_ok_fail [OF lockout_ok_new] m, of es k'] Cons.prems a nr f by auto
    then show ?thesis using a nr Suc Cons.prems(3) by (cases "evaluated ?l i es") auto
  qed
qed simp

section \<open>Guessing runs with any number of identities\<close>

text \<open>
  Pruning forgets an identity that has been quiet for an hour, so other identities' failures
  can restart a run. Newest first, \<open>rl\<close> is the log of one identity's evaluated guesses:
  the entry's counter is followed by a gap of at least the first backoff.
\<close>

definition spaced :: "gtime list \<Rightarrow> bool" where
  "spaced rl = (\<forall>n. n + 5 < length rl \<longrightarrow> rl ! (n + 5) + base_backoff \<le> rl ! n)"

definition tracks :: "lockout \<Rightarrow> gostring \<Rightarrow> gtime \<Rightarrow> gtime list \<Rightarrow> bool" where
  "tracks l i now rl =
     (case map_of l i of
        None \<Rightarrow> rl = [] \<or> hd rl + base_backoff \<le> now
      | Some e \<Rightarrow> rl \<noteq> [] \<and> le_last_seen e = hd rl \<and>
          (nat (le_failures e) < 5 \<and> nat (le_failures e) < length rl \<longrightarrow>
             rl ! nat (le_failures e) + base_backoff \<le> rl ! (nat (le_failures e) - 1)))"

lemma desc_nth: "sorted_wrt (\<ge>) (xs :: gtime list) \<Longrightarrow> m \<le> n \<Longrightarrow> n < length xs \<Longrightarrow> xs ! n \<le> xs ! m"
  using sorted_wrt_nth_less [of "(\<ge>)" xs m n] by (cases "m = n") auto

lemma spaced_Cons:
  "spaced (t # rl) \<longleftrightarrow> spaced rl \<and> (4 < length rl \<longrightarrow> rl ! 4 + base_backoff \<le> t)"
proof
  assume s: "spaced (t # rl)"
  have "spaced rl" unfolding spaced_def
  proof (intro allI impI)
    fix n assume "n + 5 < length rl"
    then show "rl ! (n + 5) + base_backoff \<le> rl ! n"
      using s [unfolded spaced_def, rule_format, of "Suc n"] by (simp add: add.commute)
  qed
  then show "spaced rl \<and> (4 < length rl \<longrightarrow> rl ! 4 + base_backoff \<le> t)"
    using s [unfolded spaced_def, rule_format, of 0] by simp
next
  assume s: "spaced rl \<and> (4 < length rl \<longrightarrow> rl ! 4 + base_backoff \<le> t)"
  show "spaced (t # rl)" unfolding spaced_def
  proof (intro allI impI)
    fix n assume n: "n + 5 < length (t # rl)"
    show "(t # rl) ! (n + 5) + base_backoff \<le> (t # rl) ! n"
      using s n by (cases n) (auto simp: spaced_def add.commute)
  qed
qed

lemma tracks_later: "tracks l i now rl \<Longrightarrow> now \<le> t \<Longrightarrow> tracks l i t rl"
  by (auto simp: tracks_def split: option.splits)

lemma tracks_other:
  assumes "lockout_ok l" and "tracks l i now rl" and "now \<le> t" and "j \<noteq> i"
  shows "tracks (fail l j t) i t rl"
  using map_of_fail_other [OF lockout_ok_distinct [OF assms(1)] assms(4) [symmetric], of t]
proof
  assume "map_of (fail l j t) i = map_of l i"
  then show ?thesis using tracks_later [OF assms(2,3)] by (simp add: tracks_def)
next
  assume "map_of (fail l j t) i = None \<and> (\<exists>e. map_of l i = Some e \<and>
      identity_retention < t - le_last_seen e \<and> le_until e \<le> t)"
  then show ?thesis using assms(2) by (auto simp: tracks_def lockout_consts)
qed

lemma tracks_same:
  assumes ok: "lockout_ok l" and tr: "tracks l i now rl" and t: "now \<le> t" "\<forall>x\<in>set rl. x \<le> now"
    and nr: "\<not> refused l i t" and d: "sorted_wrt (\<ge>) rl" and s: "spaced rl"
  shows "spaced (t # rl) \<and> tracks (fail l i t) i t (t # rl)"
proof (cases "map_of l i")
  case None
  then have h: "rl = [] \<or> hd rl + base_backoff \<le> t" using tr t by (auto simp: tracks_def)
  have "map_of (fail l i t) i = Some (fail_entry empty_entry t)"
    using map_of_fail_same [OF lockout_ok_distinct [OF ok]] None by (simp add: entry_before_def)
  then have "tracks (fail l i t) i t (t # rl)"
    using h by (auto simp: tracks_def empty_entry_def hd_conv_nth)
  moreover have "4 < length rl \<Longrightarrow> rl ! 4 + base_backoff \<le> t"
    using h desc_nth [OF d, of 0 4] by (cases "rl = []") (auto simp: hd_conv_nth)
  ultimately show ?thesis using s by (simp add: spaced_Cons)
next
  case (Some e)
  define f where "f = nat (le_failures e)"
  have e: "entry_ok e" using lockout_okD [OF ok Some] .
  then have f: "le_failures e = int f" "1 \<le> f" by (auto simp: f_def entry_ok_def)
  have tr': "rl \<noteq> []" "le_last_seen e = rl ! 0"
    "f < 5 \<Longrightarrow> f < length rl \<Longrightarrow> rl ! f + base_backoff \<le> rl ! (f - 1)"
    using tr Some by (auto simp: tracks_def f_def hd_conv_nth)
  have hd_le: "rl ! 0 \<le> t" using t tr'(1) by (cases rl) auto
  have m: "map_of (fail l i t) i = Some (fail_entry e t)"
    using map_of_fail_same [OF lockout_ok_distinct [OF ok]] Some by (simp add: entry_before_def)
  have "tracks (fail l i t) i t (t # rl)"
  proof -
    have nf: "nat (le_failures (fail_entry e t)) = Suc f" using f by simp
    have "rl ! f + base_backoff \<le> (t # rl) ! f" if "Suc f < 5" "f < length rl"
      using tr'(3) that f(2) by (cases f) auto
    then show ?thesis by (simp add: tracks_def m nf del: le_failures_fail)
  qed
  moreover have "rl ! 4 + base_backoff \<le> t" if l4: "4 < length rl"
  proof (cases "f < 5")
    case True
    then have "rl ! f + base_backoff \<le> rl ! (f - 1)" using tr'(3) l4 by simp
    moreover have "rl ! 4 \<le> rl ! f" "rl ! (f - 1) \<le> rl ! 0"
      using desc_nth [OF d, of f 4] desc_nth [OF d, of 0 "f - 1"] True l4 by auto
    ultimately show ?thesis using hd_le by linarith
  next
    case False
    then have "rl ! 0 + backoff_of (le_failures e) \<le> t"
      using not_refused_wait [OF ok Some nr] tr'(2) hd_le by simp
    moreover have "base_backoff \<le> backoff_of (le_failures e)"
      using False f by (simp add: backoff_of_def lockout_consts)
    moreover have "rl ! 4 \<le> rl ! 0" using desc_nth [OF d, of 0 4] l4 by simp
    ultimately show ?thesis by linarith
  qed
  ultimately show ?thesis using s by (simp add: spaced_Cons)
qed

lemma spaced_run:
  "lockout_ok l \<Longrightarrow> tracks l i now rl \<Longrightarrow> \<forall>x\<in>set rl. x \<le> now \<Longrightarrow> sorted_wrt (\<ge>) rl \<Longrightarrow> spaced rl \<Longrightarrow>
   sorted (now # map snd es) \<Longrightarrow> spaced (rev (evaluated l i es) @ rl)"
proof (induction es arbitrary: l now rl)
  case (Cons a es)
  obtain j t where a: "a = (j, t)" by (cases a)
  have t: "now \<le> t" "sorted (t # map snd es)" "\<forall>x\<in>set rl. x \<le> t"
    using Cons.prems(3,6) a by (auto intro: order_trans)
  consider "refused l j t" | "\<not> refused l j t" "j \<noteq> i" | "\<not> refused l j t" "j = i" by blast
  then show ?case
  proof cases
    case 1
    then show ?thesis
      using Cons.IH [OF Cons.prems(1) tracks_later [OF Cons.prems(2) t(1)] t(3) Cons.prems(4,5) t(2)] a
      by simp
  next
    case 2
    then show ?thesis
      using Cons.IH [OF lockout_ok_fail [OF Cons.prems(1)]
          tracks_other [OF Cons.prems(1,2) t(1) 2(2)] t(3) Cons.prems(4,5) t(2)] a by simp
  next
    case 3
    have "spaced (t # rl) \<and> tracks (fail l i t) i t (t # rl)"
      using tracks_same [OF Cons.prems(1,2) t(1) Cons.prems(3)] 3 Cons.prems(4,5) by simp
    then show ?thesis
      using Cons.IH [of "fail l i t" t "t # rl"] lockout_ok_fail [OF Cons.prems(1)] t Cons.prems(4) a 3
      by simp
  qed
qed simp

section \<open>Properties\<close>

text \<open>The states the counter can be in: any interleaving of its operations, at any times.\<close>

inductive lockout_reach :: "lockout \<Rightarrow> bool" where
  new: "lockout_reach new_lockout"
| fail: "lockout_reach l \<Longrightarrow> lockout_reach (fail l i now)"
| reset: "lockout_reach l \<Longrightarrow> lockout_reach (reset l i)"
| transfer: "lockout_reach l \<Longrightarrow> lockout_reach (transfer l src dst)"

lemma lockout_reach_ok: "lockout_reach l \<Longrightarrow> lockout_ok l"
  by (induction rule: lockout_reach.induct) (auto intro: inv_intros)

text \<open>
  The refusal window of a tracked identity is a function of its failure count and of its
  last failure alone, in every reachable state: none below five consecutive wrong PINs, then
  one minute after the last of them, doubled by each further one up to fifteen minutes.
\<close>

theorem refusal_window:
  assumes "lockout_reach l" and "map_of l i = Some e"
  shows "1 \<le> le_failures e \<and>
    le_until e = (if le_failures e < 5 then zero_time
      else le_last_seen e + min (15 * minute) (minute * 2 ^ nat (le_failures e - 5)))"
  using lockout_okD [OF lockout_reach_ok [OF assms(1)] assms(2)]
  by (auto simp: entry_ok_def backoff_of_def lockout_consts)

theorem refusal_window_witness:
  "(let l = foldl (\<lambda>l t. fail l ''ip:10.0.0.7'' t) new_lockout [0, 1, 2, 3, 4, 5] in
      lockout_reach l \<and> (\<exists>e. map_of l ''ip:10.0.0.7'' = Some e \<and> le_until e = 5 + 2 * minute))"
proof -
  let ?l = "foldl (\<lambda>l t. fail l ''ip:10.0.0.7'' t) new_lockout [0, 1, 2, 3, 4, 5]"
  have r: "lockout_reach ?l" by (simp add: lockout_reach.intros)
  have "map_of ?l ''ip:10.0.0.7'' =
      Some \<lparr>le_failures = 6, le_backoff = 2 * minute, le_until = 5 + 2 * minute, le_last_seen = 5\<rparr>"
    by code_simp
  then show ?thesis using r refusal_window [OF r, of "''ip:10.0.0.7''"] by (simp add: Let_def)
qed

text \<open>
  Guessing is slow. However an identity times its wrong guesses, nine of them that are
  evaluated take at least fifteen minutes, and every further one at least fifteen minutes more.
\<close>

theorem guess_time_bound:
  assumes "sorted (map snd es)" and "list_all (\<lambda>(j, t). j = i) es"
    and "9 \<le> length (evaluated new_lockout i es)"
  shows "hd (evaluated new_lockout i es) + (int (length (evaluated new_lockout i es)) - 8) * (15 * minute)
    \<le> last (evaluated new_lockout i es)"
proof -
  obtain k where k: "length (evaluated new_lockout i es) = Suc (k + 8)"
    using assms(3) by (metis add.commute add_Suc_right le_Suc_ex numeral_eq_Suc plus_1_eq_Suc
        pred_numeral_simps(3))
  then have "int (length (evaluated new_lockout i es)) - 8 = int (k + 1)" by simp
  then show ?thesis
    using solo_elapsed_new [OF assms(1,2) k] unfolding total_backoff_closed
    by (simp add: max_backoff_def)
qed

theorem guess_time_bound_witness:
  "(let es = map (\<lambda>n. (''key:1f'', int n * 10 * minute)) [0..<14];
        ev = evaluated new_lockout ''key:1f'' es
    in length ev = 11 \<and> hd ev + 3 * (15 * minute) \<le> last ev)"
proof -
  let ?es = "map (\<lambda>n. (''key:1f'', int n * 10 * minute)) [0..<14]"
  have s: "sorted (map snd ?es)" "list_all (\<lambda>(j, t). j = ''key:1f'') ?es" by code_simp+
  have l: "length (evaluated new_lockout ''key:1f'' ?es) = 11" by code_simp
  show ?thesis unfolding Let_def using guess_time_bound [OF s] l by simp
qed



text \<open>
  One person's wrong PINs never refuse another: whatever attempts other identities make
  up to a time, an identity that was not refused at that time before them is not refused after.
\<close>

theorem no_cross_refusal:
  assumes "lockout_reach l" and "list_all (by_another j t) as" and "\<not> refused l j t"
  shows "\<not> refused (foldl (apply_attempt fail reset) l as) j t"
  using lo.others_frame [OF lockout_reach_ok [OF assms(1)] assms(2)] assms(3) by simp

theorem no_cross_refusal_witness:
  "\<not> refused (foldl (apply_attempt fail reset) new_lockout
       (map (Wrong ''session:aa'') [1, 2, 3, 4, 5, 6])) ''session:bb'' 6"
proof -
  have "list_all (by_another ''session:bb'' 6) (map (Wrong ''session:aa'') [1, 2, 3, 4, 5, 6])"
    by simp
  moreover have "\<not> refused new_lockout ''session:bb'' 6" by code_simp
  ultimately show ?thesis using no_cross_refusal [OF lockout_reach.new] by blast
qed

text \<open>
  Rotating the API key keeps the failure count: the counter, with its refusal, moves to
  the new key's bucket; the old bucket and no other is emptied. A caller with no failures gets
  no bucket.
\<close>

theorem transfer_moves_counter:
  assumes "old \<noteq> new" and "old \<noteq> []" and "new \<noteq> []"
  shows "map_of (transfer l old new) new =
       (case map_of l old of None \<Rightarrow> map_of l new | Some e \<Rightarrow> Some e) \<and>
     map_of (transfer l old new) old = None \<and>
     (\<forall>i. i \<noteq> old \<and> i \<noteq> new \<longrightarrow> map_of (transfer l old new) i = map_of l i)"
  using assms by (auto simp: map_of_transfer split: option.split)

theorem transfer_moves_counter_witness:
  "map_of (transfer (fail new_lockout ''key:1'' 7) ''key:1'' ''key:2'') ''key:1'' = None"
  using transfer_moves_counter [of "''key:1''" "''key:2''" "fail new_lockout ''key:1'' 7"] by simp

text \<open>
  The bound on tracked identities does not bound the map: pruning runs only when a
  failure reaches the threshold, so \<open>n\<close> identities that fail once each leave \<open>n\<close>
  entries, however long ago they failed.
\<close>

theorem tracked_unbounded:
  "\<exists>l. lockout_reach l \<and> length l = n \<and>
     (\<forall>e\<in>snd ` set l. le_last_seen e = 0 \<and> le_failures e = 1)"
proof (induction n)
  case 0
  then show ?case by (intro exI [of _ new_lockout]) (simp add: lockout_reach.new, simp add: new_lockout_def)
next
  case (Suc n)
  then obtain l where l: "lockout_reach l" "length l = n"
    "\<forall>e\<in>snd ` set l. le_last_seen e = 0 \<and> le_failures e = 1" by blast
  obtain i where i: "i \<notin> fst ` set l"
    using ex_new_if_finite [OF infinite_UNIV_listI, of "fst ` set l"] by blast
  then have none: "map_of l i = None" by (simp add: map_of_eq_None_iff)
  have eq: "fail l i 0 = l @ [(i, fail_entry empty_entry 0)]"
    using i by (simp add: fail_def Let_def none update_new, simp add: fail_entry_def empty_entry_def
        lockout_consts)
  have fe: "le_last_seen (fail_entry empty_entry 0) = 0" "le_failures (fail_entry empty_entry 0) = 1"
    by (simp_all, simp add: empty_entry_def)
  have "lockout_reach (fail l i 0)" using l(1) by (rule lockout_reach.fail)
  moreover have "length (fail l i 0) = Suc n" using l(2) eq by simp
  moreover have "\<forall>e\<in>snd ` set (fail l i 0). le_last_seen e = 0 \<and> le_failures e = 1"
    unfolding eq using l(3) fe by (simp del: le_last_seen_fail le_failures_fail)
  ultimately show ?case by blast
qed

end
