(* ===== verification/Secrets.thy ===== *)
theory Secrets
  imports Prelude
begin

text \<open>
  \<open>internal/secrets/secrets.go\<close>: sealing values under the app's master key. The AEAD
  (AES-256-GCM) is a parameter, \<open>seal nonce plaintext aad\<close> and
  \<open>open nonce ciphertext aad\<close>, whose contract is \<open>aead_ok\<close>; the fresh nonce of each
  call is an argument, \<open>None\<close> when the random source fails. The standard base64 encoding
  the values are stored in is modelled in full.
\<close>

section \<open>Base64\<close>

definition b64_alphabet :: gostring where
  "b64_alphabet = ''ABCDEFGHIJKLMNOPQRSTUVWXYZabcdefghijklmnopqrstuvwxyz0123456789+/''"

definition enc6 :: "nat \<Rightarrow> char" where
  "enc6 k = b64_alphabet ! k"

fun index_from :: "nat \<Rightarrow> char \<Rightarrow> gostring \<Rightarrow> nat option" where
  "index_from k c [] = None"
| "index_from k c (x # xs) = (if x = c then Some k else index_from (Suc k) c xs)"

definition dec6 :: "char \<Rightarrow> nat option" where
  "dec6 c = index_from 0 c b64_alphabet"

abbreviation byte :: "char \<Rightarrow> nat" where "byte c \<equiv> of_char c"

fun b64_encode :: "gostring \<Rightarrow> gostring" where
  "b64_encode [] = []"
| "b64_encode [a] =
     (let n = byte a * 65536 in [enc6 (n div 262144), enc6 (n div 4096 mod 64), CHR ''='', CHR ''=''])"
| "b64_encode [a, b] =
     (let n = byte a * 65536 + byte b * 256
      in [enc6 (n div 262144), enc6 (n div 4096 mod 64), enc6 (n div 64 mod 64), CHR ''=''])"
| "b64_encode (a # b # c # r) =
     (let n = byte a * 65536 + byte b * 256 + byte c
      in enc6 (n div 262144) # enc6 (n div 4096 mod 64) # enc6 (n div 64 mod 64) # enc6 (n mod 64) #
         b64_encode r)"

text \<open>\<open>None\<close> is a \<open>CorruptInputError\<close>; line breaks are skipped before decoding.\<close>

fun b64_quads :: "gostring \<Rightarrow> gostring option" where
  "b64_quads [] = Some []"
| "b64_quads (p # q # r # s # rest) =
     (case (dec6 p, dec6 q) of
        (Some i, Some j) \<Rightarrow>
          if r = CHR ''='' then
            (if s = CHR ''='' \<and> rest = [] then Some [char_of ((i * 262144 + j * 4096) div 65536)]
             else None)
          else (case dec6 r of
             None \<Rightarrow> None
           | Some k \<Rightarrow>
               if s = CHR ''='' then
                 (let n = i * 262144 + j * 4096 + k * 64
                  in if rest = [] then Some [char_of (n div 65536), char_of (n div 256 mod 256)]
                     else None)
               else (case (dec6 s, b64_quads rest) of
                  (Some l, Some out) \<Rightarrow>
                    (let n = i * 262144 + j * 4096 + k * 64 + l
                     in Some (char_of (n div 65536) # char_of (n div 256 mod 256) #
                              char_of (n mod 256) # out))
                | _ \<Rightarrow> None))
      | _ \<Rightarrow> None)"
| "b64_quads _ = None"

definition b64_decode :: "gostring \<Rightarrow> gostring option" where
  "b64_decode s = b64_quads (filter (\<lambda>c. c \<noteq> CHR 0x0A \<and> c \<noteq> CHR 0x0D) s)"

lemma enc6_cases:
  "k < 64 \<Longrightarrow> dec6 (enc6 k) = Some k \<and> enc6 k \<noteq> CHR ''='' \<and> enc6 k \<noteq> CHR 0x0A \<and> enc6 k \<noteq> CHR 0x0D"
proof -
  have "\<forall>k\<in>set [0..<64]. dec6 (enc6 k) = Some k \<and> enc6 k \<noteq> CHR ''='' \<and> enc6 k \<noteq> CHR 0x0A \<and>
      enc6 k \<noteq> CHR 0x0D" by code_simp
  then show "k < 64 \<Longrightarrow> ?thesis" by auto
qed

lemma dec6_enc6 [simp]: "k < 64 \<Longrightarrow> dec6 (enc6 k) = Some k"
  and enc6_pad [simp]: "k < 64 \<Longrightarrow> enc6 k \<noteq> CHR ''=''"
  and enc6_lf [simp]: "k < 64 \<Longrightarrow> enc6 k \<noteq> CHR 0x0A"
  and enc6_cr [simp]: "k < 64 \<Longrightarrow> enc6 k \<noteq> CHR 0x0D"
  using enc6_cases by auto

lemma sextets: "(n div 262144) * 262144 + (n div 4096 mod 64) * 4096 + (n div 64 mod 64) * 64 + n mod 64 = (n::nat)"
proof -
  have "n = (n div 64) * 64 + n mod 64" by simp
  moreover have "n div 64 = (n div 4096) * 64 + n div 64 mod 64"
    using div_mult_mod_eq [of "n div 64" 64] by (simp add: div_mult2_eq [symmetric])
  moreover have "n div 4096 = (n div 262144) * 64 + n div 4096 mod 64"
    using div_mult_mod_eq [of "n div 4096" 64] by (simp add: div_mult2_eq [symmetric])
  ultimately show ?thesis by linarith
qed

lemma byte_bound: "byte c < 256"
  using of_char_mod_256 [of c, where 'a=nat] mod_less_divisor [of 256 "byte c"] by simp

lemma octets:
  assumes "a < 256" and "b < 256" and "c < (256::nat)" and "n = a * 65536 + b * 256 + c"
  shows "n div 65536 = a" "n div 256 mod 256 = b" "n mod 256 = c" "n div 262144 < 64"
proof -
  show "n div 65536 = a" using assms by (intro div_nat_eqI) auto
  have q: "n div 256 = a * 256 + b" using assms by (intro div_nat_eqI) auto
  show "n div 256 mod 256 = b" unfolding q using assms(2) by simp
  have "n mod 256 = n - n div 256 * 256" by (simp add: minus_div_mult_eq_mod)
  then show "n mod 256 = c" unfolding q using assms(4) by simp
  have "n < 64 * 262144" using assms by linarith
  then show "n div 262144 < 64" by (simp add: less_mult_imp_div_less)
qed

lemma char_of_byte: "m mod 256 = byte c \<Longrightarrow> char_of m = c"
  by (metis char_of_mod_256 char_of_char)

lemma b64_no_breaks: "filter (\<lambda>c. c \<noteq> CHR 0x0A \<and> c \<noteq> CHR 0x0D) (b64_encode xs) = b64_encode xs"
proof (induction xs rule: b64_encode.induct)
  case (2 a)
  have "byte a * 65536 div 262144 < 64" using octets(4) [of "byte a" 0 0] byte_bound [of a] by simp
  then show ?case by (simp add: Let_def)
next
  case (3 a b)
  have "(byte a * 65536 + byte b * 256) div 262144 < 64"
    using octets(4) [of "byte a" "byte b" 0] byte_bound by simp
  then show ?case by (simp add: Let_def)
next
  case (4 a b c r)
  have "(byte a * 65536 + byte b * 256 + byte c) div 262144 < 64"
    using octets(4) [of "byte a" "byte b" "byte c"] byte_bound by simp
  then show ?case using 4 by (simp add: Let_def)
qed simp

lemma b64_quads_encode: "b64_quads (b64_encode xs) = Some xs"
proof (induction xs rule: b64_encode.induct)
  case (2 a)
  define n where "n = byte a * 65536 + 0 * 256 + 0"
  note o = octets [OF byte_bound [of a] _ _ n_def, simplified]
  have "n mod 64 = 0" "n div 64 mod 64 = 0" by (simp_all add: n_def div_mult_swap)
  then have "n div 262144 * 262144 + n div 4096 mod 64 * 4096 = n" using sextets [of n] by simp
  moreover have "byte a * 65536 = n" by (simp add: n_def)
  ultimately show ?case using o by (simp add: Let_def)
next
  case (3 a b)
  define n where "n = byte a * 65536 + byte b * 256 + 0"
  note o = octets [OF byte_bound [of a] byte_bound [of b] _ n_def, simplified]
  have "n mod 64 = 0" by (simp add: n_def)
  then have "n div 262144 * 262144 + n div 4096 mod 64 * 4096 + n div 64 mod 64 * 64 = n"
    using sextets [of n] by simp
  moreover have "byte a * 65536 + byte b * 256 = n" by (simp add: n_def)
  ultimately show ?case using o char_of_byte [OF o(2)] by (simp add: Let_def)
next
  case (4 a b c r)
  define n where "n = byte a * 65536 + byte b * 256 + byte c"
  note o = octets [OF byte_bound [of a] byte_bound [of b] byte_bound [of c] n_def]
  have "byte a * 65536 + byte b * 256 + byte c = n" by (simp add: n_def)
  then show ?case using o sextets [of n] char_of_byte [OF o(2)] char_of_byte [OF o(3)] 4
    by (simp add: Let_def)
qed simp

lemma b64_roundtrip [simp]: "b64_decode (b64_encode xs) = Some xs"
  by (simp add: b64_decode_def b64_no_breaks b64_quads_encode)

section \<open>Sealing and opening\<close>

text \<open>
  What the code relies on of AES-GCM: opening a sealed value under the same nonce and
  additional data gives the plaintext back, and under other additional data fails.
\<close>

type_synonym seal_fn = "gostring \<Rightarrow> gostring \<Rightarrow> gostring \<Rightarrow> gostring"
type_synonym open_fn = "gostring \<Rightarrow> gostring \<Rightarrow> gostring \<Rightarrow> gostring option"

definition aead_ok :: "seal_fn \<Rightarrow> open_fn \<Rightarrow> bool" where
  "aead_ok seal opn \<longleftrightarrow>
     (\<forall>n p a. opn n (seal n p a) a = Some p) \<and>
     (\<forall>n p a a'. a \<noteq> a' \<longrightarrow> opn n (seal n p a) a' = None)"

definition nonce_size :: nat where "nonce_size = 12"
definition key_size :: nat where "key_size = 32"

definition encrypt :: "seal_fn \<Rightarrow> gostring option \<Rightarrow> gostring \<Rightarrow> gostring option" where
  "encrypt seal nonce_src plaintext =
     (case nonce_src of
        None \<Rightarrow> None
      | Some nonce \<Rightarrow> Some (b64_encode (nonce @ seal nonce plaintext [])))"

definition decrypt :: "open_fn \<Rightarrow> gostring \<Rightarrow> gostring option" where
  "decrypt opn encoded =
     (case b64_decode encoded of
        None \<Rightarrow> None
      | Some data \<Rightarrow>
          if length data < nonce_size then None
          else opn (take nonce_size data) (drop nonce_size data) [])"

definition encrypt_with_aad ::
  "seal_fn \<Rightarrow> gostring option \<Rightarrow> gostring \<Rightarrow> gostring \<Rightarrow> gostring option" where
  "encrypt_with_aad seal nonce_src plaintext aad =
     (case nonce_src of
        None \<Rightarrow> None
      | Some nonce \<Rightarrow> Some (b64_encode (nonce @ seal nonce plaintext aad)))"

definition decrypt_with_aad :: "open_fn \<Rightarrow> gostring \<Rightarrow> gostring \<Rightarrow> gostring option" where
  "decrypt_with_aad opn encoded aad =
     (case b64_decode encoded of
        None \<Rightarrow> None
      | Some data \<Rightarrow>
          if length data < nonce_size then None
          else opn (take nonce_size data) (drop nonce_size data) aad)"

text \<open>
  The key file: the result of reading it, then what \<open>LoadOrCreateKey\<close> returns and what it
  writes, if anything. \<open>fresh\<close> is the random key, \<open>None\<close> when the source fails;
  \<open>writable\<close> is whether creating the directory and writing the file succeed.
\<close>

datatype read_result = Read_ok gostring | Not_exist | Read_error

definition load_or_create_key ::
  "read_result \<Rightarrow> gostring option \<Rightarrow> bool \<Rightarrow> gostring option \<times> gostring option" where
  "load_or_create_key rd fresh writable =
     (case rd of
        Read_ok key \<Rightarrow> if length key \<noteq> key_size then (None, None) else (Some key, None)
      | Read_error \<Rightarrow> (None, None)
      | Not_exist \<Rightarrow>
          (case fresh of
             None \<Rightarrow> (None, None)
           | Some key \<Rightarrow> if writable then (Some key, Some key) else (None, None)))"

lemma decrypt_encrypt_aad:
  assumes "length nonce = nonce_size" and "encrypt_with_aad seal (Some nonce) p a = Some tok"
  shows "decrypt_with_aad opn tok a' = opn nonce (seal nonce p a) a'"
proof -
  have "tok = b64_encode (nonce @ seal nonce p a)" using assms(2) by (simp add: encrypt_with_aad_def)
  then show ?thesis using assms(1) by (simp add: decrypt_with_aad_def)
qed

lemma plain_is_empty_aad:
  "encrypt seal ns p = encrypt_with_aad seal ns p []" "decrypt opn e = decrypt_with_aad opn e []"
  by (simp_all add: encrypt_def encrypt_with_aad_def decrypt_def decrypt_with_aad_def)

text \<open>An AEAD of this contract: the ciphertext carries the additional data in front.\<close>

definition demo_seal :: seal_fn where
  "demo_seal n p a = replicate (length a) CHR ''1'' @ CHR ''0'' # a @ p"

definition demo_open :: open_fn where
  "demo_open n c a =
     (let h = replicate (length a) CHR ''1'' @ CHR ''0'' # a
      in if take (length h) c = h then Some (drop (length h) c) else None)"

lemma demo_header:
  "replicate m CHR ''1'' @ CHR ''0'' # x = replicate k CHR ''1'' @ CHR ''0'' # y \<Longrightarrow> m = k \<and> x = y"
proof (induction m arbitrary: k)
  case 0
  then show ?case by (cases k) auto
next
  case (Suc m)
  then show ?case by (cases k) auto
qed

lemma demo_aead: "aead_ok demo_seal demo_open"
  unfolding aead_ok_def
proof (intro conjI allI impI)
  show "demo_open n (demo_seal n p a) a = Some p" for n p a
    by (simp add: demo_open_def demo_seal_def Let_def)
  fix n p a a' :: gostring
  assume ne: "a \<noteq> a'"
  let ?h = "replicate (length a') CHR ''1'' @ CHR ''0'' # a'"
  have "take (length ?h) (demo_seal n p a) \<noteq> ?h"
  proof
    assume "take (length ?h) (demo_seal n p a) = ?h"
    then have "demo_seal n p a = ?h @ drop (length ?h) (demo_seal n p a)"
      by (metis append_take_drop_id)
    then have "length a = length a' \<and> a @ p = a' @ drop (length ?h) (demo_seal n p a)"
      using demo_header [of "length a" "a @ p" "length a'" "a' @ drop (length ?h) (demo_seal n p a)"]
      by (simp add: demo_seal_def)
    then show False using ne by (metis append_eq_append_conv)
  qed
  then show "demo_open n (demo_seal n p a) a' = None" by (simp add: demo_open_def Let_def)
qed

section \<open>Properties\<close>

text \<open>
  A sealed value opens to its plaintext under the additional data it was sealed with, and
  under no other: in particular a value sealed with the unlock domain does not open as a plain
  one (the session cookie's domain), nor a plain one as an unlock ticket. The nonce is carried
  in front of the ciphertext through the base64 text.
\<close>

theorem sealed_domains:
  assumes "aead_ok seal opn" and "length nonce = nonce_size"
    and "encrypt_with_aad seal (Some nonce) p a = Some tok" and "encrypt seal (Some nonce) q = Some plain"
  shows "decrypt_with_aad opn tok a = Some p \<and> decrypt opn plain = Some q \<and>
    (a \<noteq> [] \<longrightarrow> decrypt opn tok = None \<and> decrypt_with_aad opn plain a = None)"
proof -
  have p: "encrypt_with_aad seal (Some nonce) q [] = Some plain"
    using assms(4) by (simp add: plain_is_empty_aad)
  show ?thesis
    unfolding plain_is_empty_aad(2) decrypt_encrypt_aad [OF assms(2,3)] decrypt_encrypt_aad [OF assms(2) p]
    using assms(1) by (auto simp: aead_ok_def)
qed

theorem sealed_domains_witness:
  "decrypt demo_open (the (encrypt_with_aad demo_seal (Some ''nonce-12byte'') ''{}'' ''unlock'')) = None"
proof -
  have l: "length ''nonce-12byte'' = nonce_size" by code_simp
  show ?thesis
    using sealed_domains [OF demo_aead l, of "''{}''" "''unlock''" _ "''{}''"]
    by (simp add: encrypt_with_aad_def encrypt_def)
qed

text \<open>
  A key is used at its full size only, and an existing key file is never written: a file of
  the wrong size is an error, not a reason to make a new key.
\<close>

theorem key_file_kept:
  "(\<forall>k w. load_or_create_key rd fresh ok = (k, w) \<longrightarrow>
     (w \<noteq> None \<longrightarrow> rd = Not_exist \<and> k = w \<and> k = fresh) \<and>
     (\<forall>key. rd = Read_ok key \<longrightarrow> k = (if length key = 32 then Some key else None)))"
  by (auto simp: load_or_create_key_def key_size_def split: read_result.splits option.splits if_splits)

theorem key_file_kept_witness:
  "load_or_create_key (Read_ok ''short'') (Some ''x'') True = (None, None)"
  using key_file_kept [of "Read_ok ''short''" "Some ''x''" True]
  by (cases "load_or_create_key (Read_ok ''short'') (Some ''x'') True") auto

end
