(* ===== verification/Json.thy ===== *)
theory Json
  imports Prelude
begin

text \<open>
  The part of Go's \<open>encoding/json\<close> the modelled code stores and reads values with:
  decoding a document, unmarshalling it into a \<open>[]string\<close> or into a struct of a string and
  an \<open>int64\<close>, and marshalling both. Bytes above 127 are taken as part of valid UTF-8 and
  copied. The recursive descent carries fuel, two steps per byte of input.
\<close>

section \<open>Decoding a document\<close>

datatype json =
    JNull
  | JBool bool
  | JNum gostring
  | JStr gostring
  | JArr "json list"
  | JObj "(gostring \<times> json) list"

definition json_ws :: "char \<Rightarrow> bool" where
  "json_ws c = (let n = of_char c :: nat in n = 32 \<or> n = 9 \<or> n = 10 \<or> n = 13)"

definition skip_ws :: "gostring \<Rightarrow> gostring" where
  "skip_ws s = dropWhile json_ws s"

definition hex_digit :: "char \<Rightarrow> nat option" where
  "hex_digit c =
     (let n = of_char c :: nat
      in if 48 \<le> n \<and> n \<le> 57 then Some (n - 48)
         else if 97 \<le> n \<and> n \<le> 102 then Some (n - 87)
         else if 65 \<le> n \<and> n \<le> 70 then Some (n - 55) else None)"

definition hex4 :: "char \<Rightarrow> char \<Rightarrow> char \<Rightarrow> char \<Rightarrow> nat option" where
  "hex4 a b c d =
     (case (hex_digit a, hex_digit b, hex_digit c, hex_digit d) of
        (Some i, Some j, Some k, Some l) \<Rightarrow> Some (((i * 16 + j) * 16 + k) * 16 + l)
      | _ \<Rightarrow> None)"

definition utf8 :: "nat \<Rightarrow> gostring" where
  "utf8 n =
     (if n < 128 then [char_of n]
      else if n < 2048 then [char_of (192 + n div 64), char_of (128 + n mod 64)]
      else if n < 65536 then
        [char_of (224 + n div 4096), char_of (128 + n div 64 mod 64), char_of (128 + n mod 64)]
      else [char_of (240 + n div 262144), char_of (128 + n div 4096 mod 64),
            char_of (128 + n div 64 mod 64), char_of (128 + n mod 64)])"

definition high_surrogate :: "nat \<Rightarrow> bool" where "high_surrogate n = (55296 \<le> n \<and> n < 56320)"
definition low_surrogate :: "nat \<Rightarrow> bool" where "low_surrogate n = (56320 \<le> n \<and> n < 57344)"

definition simple_escape :: "char \<Rightarrow> char option" where
  "simple_escape e =
     (if e = CHR 0x22 \<or> e = CHR 0x5C \<or> e = CHR ''/'' then Some e
      else if e = CHR ''b'' then Some (CHR 0x08)
      else if e = CHR ''f'' then Some (CHR 0x0C)
      else if e = CHR ''n'' then Some (CHR 0x0A)
      else if e = CHR ''r'' then Some (CHR 0x0D)
      else if e = CHR ''t'' then Some (CHR 0x09) else None)"

text \<open>
  A \<open>\u\<close> escape with the rest behind its four digits: a surrogate pair is one character, a
  lone surrogate is the replacement character.
\<close>

definition take_pair :: "gostring \<Rightarrow> nat option" where
  "take_pair r =
     (case r of
        b # u # p # q # s # t # _ \<Rightarrow>
          if b = CHR 0x5C \<and> u = CHR ''u'' then
            (case hex4 p q s t of
               Some m \<Rightarrow> if low_surrogate m then Some m else None
             | None \<Rightarrow> None)
          else None
      | _ \<Rightarrow> None)"

definition unicode_escape :: "nat \<Rightarrow> gostring \<Rightarrow> gostring \<times> gostring" where
  "unicode_escape n r =
     (if high_surrogate n then
        (case take_pair r of
           Some m \<Rightarrow> (utf8 (65536 + (n - 55296) * 1024 + (m - 56320)), drop 6 r)
         | None \<Rightarrow> (utf8 65533, r))
      else if low_surrogate n then (utf8 65533, r)
      else (utf8 n, r))"

lemma unicode_escape_rest: "length (snd (unicode_escape n r)) \<le> length r"
  by (auto simp: unicode_escape_def split: option.split)

text \<open>The characters behind an opening quote, and what follows the closing one.\<close>

function p_chars :: "gostring \<Rightarrow> (gostring \<times> gostring) option" where
  "p_chars s =
     (case s of
        [] \<Rightarrow> None
      | c # r \<Rightarrow>
          if c = CHR 0x22 then Some ([], r)
          else if c = CHR 0x5C then
            (case r of
               [] \<Rightarrow> None
             | e # r1 \<Rightarrow>
                 if e = CHR ''u'' then
                   (case r1 of
                      p # q # u # v # r2 \<Rightarrow>
                        (case hex4 p q u v of
                           None \<Rightarrow> None
                         | Some n \<Rightarrow>
                             (case p_chars (snd (unicode_escape n r2)) of
                                None \<Rightarrow> None
                              | Some (w, rest) \<Rightarrow> Some (fst (unicode_escape n r2) @ w, rest)))
                    | _ \<Rightarrow> None)
                 else
                   (case simple_escape e of
                      None \<Rightarrow> None
                    | Some x \<Rightarrow>
                        (case p_chars r1 of
                           None \<Rightarrow> None
                         | Some (w, rest) \<Rightarrow> Some (x # w, rest))))
          else if (of_char c :: nat) < 32 then None
          else
            (case p_chars r of
               None \<Rightarrow> None
             | Some (w, rest) \<Rightarrow> Some (c # w, rest)))"
  by pat_completeness auto

termination
  by (relation "measure length") (auto intro: le_less_trans [OF unicode_escape_rest])

declare p_chars.simps [simp del]

text \<open>A number literal, by the grammar of JSON.\<close>

definition is_digit :: "char \<Rightarrow> bool" where
  "is_digit c = (let n = of_char c :: nat in 48 \<le> n \<and> n \<le> 57)"

definition int_part :: "gostring \<Rightarrow> (gostring \<times> gostring) option" where
  "int_part s =
     (case s of
        [] \<Rightarrow> None
      | c # r \<Rightarrow>
          if c = CHR ''0'' then Some ([c], r)
          else if is_digit c then Some (c # takeWhile is_digit r, dropWhile is_digit r)
          else None)"

definition frac_part :: "gostring \<Rightarrow> (gostring \<times> gostring) option" where
  "frac_part s =
     (case s of
        d # c # r \<Rightarrow>
          if d = CHR ''.'' then
            (if is_digit c then Some (d # c # takeWhile is_digit r, dropWhile is_digit r) else None)
          else Some ([], s)
      | [d] \<Rightarrow> if d = CHR ''.'' then None else Some ([], s)
      | [] \<Rightarrow> Some ([], s))"

definition exp_part :: "gostring \<Rightarrow> (gostring \<times> gostring) option" where
  "exp_part s =
     (case s of
        [] \<Rightarrow> Some ([], [])
      | e # r \<Rightarrow>
          if e = CHR ''e'' \<or> e = CHR ''E'' then
            (let (sg, r1) = (case r of
                 c # r' \<Rightarrow> if c = CHR ''+'' \<or> c = CHR ''-'' then ([c], r') else ([], r)
               | [] \<Rightarrow> ([], r))
             in if takeWhile is_digit r1 = [] then None
                else Some (e # sg @ takeWhile is_digit r1, dropWhile is_digit r1))
          else Some ([], s))"

definition p_number :: "gostring \<Rightarrow> (json \<times> gostring) option" where
  "p_number s =
     (let (sg, r0) = (case s of
          c # r \<Rightarrow> if c = CHR ''-'' then ([c], r) else ([], s)
        | [] \<Rightarrow> ([], s))
      in case int_part r0 of
           None \<Rightarrow> None
         | Some (i, r1) \<Rightarrow>
             (case frac_part r1 of
                None \<Rightarrow> None
              | Some (f, r2) \<Rightarrow>
                  (case exp_part r2 of
                     None \<Rightarrow> None
                   | Some (x, r3) \<Rightarrow> Some (JNum (sg @ i @ f @ x), r3))))"

text \<open>
  A value, the elements of a non-empty array up to its bracket, the members of a non-empty
  object up to its brace.
\<close>

fun p_value :: "nat \<Rightarrow> gostring \<Rightarrow> (json \<times> gostring) option"
  and p_elems :: "nat \<Rightarrow> gostring \<Rightarrow> (json list \<times> gostring) option"
  and p_members :: "nat \<Rightarrow> gostring \<Rightarrow> ((gostring \<times> json) list \<times> gostring) option" where
  "p_value 0 s = None"
| "p_value (Suc n) s =
     (case skip_ws s of
        [] \<Rightarrow> None
      | c # r \<Rightarrow>
          if c = CHR 0x22 then
            (case p_chars r of None \<Rightarrow> None | Some (w, rest) \<Rightarrow> Some (JStr w, rest))
          else if c = CHR 0x5B then
            (case skip_ws r of
               [] \<Rightarrow> None
             | d # r' \<Rightarrow>
                 if d = CHR 0x5D then Some (JArr [], r')
                 else (case p_elems n r of None \<Rightarrow> None | Some (vs, rest) \<Rightarrow> Some (JArr vs, rest)))
          else if c = CHR 0x7B then
            (case skip_ws r of
               [] \<Rightarrow> None
             | d # r' \<Rightarrow>
                 if d = CHR 0x7D then Some (JObj [], r')
                 else (case p_members n r of None \<Rightarrow> None | Some (ms, rest) \<Rightarrow> Some (JObj ms, rest)))
          else if has_prefix ''null'' (c # r) then Some (JNull, drop 3 r)
          else if has_prefix ''true'' (c # r) then Some (JBool True, drop 3 r)
          else if has_prefix ''false'' (c # r) then Some (JBool False, drop 4 r)
          else p_number (c # r))"
| "p_elems 0 s = None"
| "p_elems (Suc n) s =
     (case p_value n s of
        None \<Rightarrow> None
      | Some (v, r) \<Rightarrow>
          (case skip_ws r of
             [] \<Rightarrow> None
           | d # r' \<Rightarrow>
               if d = CHR 0x5D then Some ([v], r')
               else if d = CHR '','' then
                 (case p_elems n r' of None \<Rightarrow> None | Some (vs, rest) \<Rightarrow> Some (v # vs, rest))
               else None))"
| "p_members 0 s = None"
| "p_members (Suc n) s =
     (case skip_ws s of
        [] \<Rightarrow> None
      | q # r0 \<Rightarrow>
          if q \<noteq> CHR 0x22 then None
          else (case p_chars r0 of
             None \<Rightarrow> None
           | Some (k, r1) \<Rightarrow>
               (case skip_ws r1 of
                  [] \<Rightarrow> None
                | d # r2 \<Rightarrow>
                    if d \<noteq> CHR '':'' then None
                    else (case p_value n r2 of
                       None \<Rightarrow> None
                     | Some (v, r3) \<Rightarrow>
                         (case skip_ws r3 of
                            [] \<Rightarrow> None
                          | e # r4 \<Rightarrow>
                              if e = CHR 0x7D then Some ([(k, v)], r4)
                              else if e = CHR '','' then
                                (case p_members n r4 of
                                   None \<Rightarrow> None
                                 | Some (ms, rest) \<Rightarrow> Some ((k, v) # ms, rest))
                              else None)))))"

definition json_parse :: "gostring \<Rightarrow> json option" where
  "json_parse s =
     (case p_value (2 * length s + 2) s of
        None \<Rightarrow> None
      | Some (v, r) \<Rightarrow> if skip_ws r = [] then Some v else None)"

section \<open>Unmarshalling\<close>

text \<open>Into a \<open>[]string\<close>: \<open>null\<close> is the nil slice, a \<open>null\<close> element the empty string.\<close>

fun strings_of :: "json list \<Rightarrow> gostring list option" where
  "strings_of [] = Some []"
| "strings_of (JStr w # vs) = map_option ((#) w) (strings_of vs)"
| "strings_of (JNull # vs) = map_option ((#) []) (strings_of vs)"
| "strings_of (_ # vs) = None"

definition unmarshal_strings :: "gostring \<Rightarrow> gostring list option" where
  "unmarshal_strings s =
     (case json_parse s of
        Some JNull \<Rightarrow> Some []
      | Some (JArr vs) \<Rightarrow> strings_of vs
      | _ \<Rightarrow> None)"

text \<open>\<open>strconv.ParseInt(n, 10, 64)\<close> on a number literal.\<close>

definition digit_val :: "char \<Rightarrow> int" where
  "digit_val c = int (of_char c) - 48"

definition digits_val :: "gostring \<Rightarrow> int" where
  "digits_val ds = foldl (\<lambda>a c. a * 10 + digit_val c) 0 ds"

definition parse_int64 :: "gostring \<Rightarrow> int option" where
  "parse_int64 s =
     (let (neg, ds) = (case s of
          c # r \<Rightarrow> if c = CHR ''-'' then (True, r) else (False, s)
        | [] \<Rightarrow> (False, []))
      in if ds = [] \<or> \<not> list_all is_digit ds then None
         else let v = (if neg then - digits_val ds else digits_val ds)
              in if - (2 ^ 63) \<le> v \<and> v < 2 ^ 63 then Some v else None)"

text \<open>
  Into \<open>struct{Typ string; Exp int64}\<close> with the field names \<open>typ\<close> and \<open>exp\<close>: names
  match whatever their case, later members overwrite earlier ones, \<open>null\<close> leaves a field as
  it is, other names are skipped, and a member of the wrong type is an error.
\<close>

fun set_fields :: "(gostring \<times> json) list \<Rightarrow> gostring \<times> int \<Rightarrow> (gostring \<times> int) option" where
  "set_fields [] p = Some p"
| "set_fields ((k, v) # ms) (t, x) =
     (if equal_fold k ''typ'' then
        (case v of
           JStr w \<Rightarrow> set_fields ms (w, x)
         | JNull \<Rightarrow> set_fields ms (t, x)
         | _ \<Rightarrow> None)
      else if equal_fold k ''exp'' then
        (case v of
           JNum n \<Rightarrow>
             (case parse_int64 n of None \<Rightarrow> None | Some i \<Rightarrow> set_fields ms (t, i))
         | JNull \<Rightarrow> set_fields ms (t, x)
         | _ \<Rightarrow> None)
      else set_fields ms (t, x))"

definition unmarshal_payload :: "gostring \<Rightarrow> (gostring \<times> int) option" where
  "unmarshal_payload s =
     (case json_parse s of
        Some JNull \<Rightarrow> Some ([], 0)
      | Some (JObj ms) \<Rightarrow> set_fields ms ([], 0)
      | _ \<Rightarrow> None)"

section \<open>Marshalling\<close>

definition hex_char :: "nat \<Rightarrow> char" where
  "hex_char n = (if n < 10 then char_of (48 + n) else char_of (87 + n))"

definition escape_char :: "char \<Rightarrow> gostring" where
  "escape_char c =
     (let n = of_char c :: nat in
      if c = CHR 0x22 \<or> c = CHR 0x5C then [CHR 0x5C, c]
      else if n = 8 then [CHR 0x5C, CHR ''b'']
      else if n = 12 then [CHR 0x5C, CHR ''f'']
      else if n = 10 then [CHR 0x5C, CHR ''n'']
      else if n = 13 then [CHR 0x5C, CHR ''r'']
      else if n = 9 then [CHR 0x5C, CHR ''t'']
      else if n < 32 \<or> c = CHR ''<'' \<or> c = CHR ''>'' \<or> c = CHR ''&'' then
        [CHR 0x5C, CHR ''u'', CHR ''0'', CHR ''0'', hex_char (n div 16), hex_char (n mod 16)]
      else [c])"

definition json_quote :: "gostring \<Rightarrow> gostring" where
  "json_quote s = CHR 0x22 # concat (map escape_char s) @ [CHR 0x22]"

definition marshal_strings :: "gostring list \<Rightarrow> gostring" where
  "marshal_strings ws = CHR 0x5B # join_on (CHR '','') (map json_quote ws) @ [CHR 0x5D]"

fun show_nat :: "nat \<Rightarrow> gostring" where
  "show_nat n = (if n < 10 then [char_of (48 + n)] else show_nat (n div 10) @ [char_of (48 + n mod 10)])"

declare show_nat.simps [simp del]

definition show_int :: "int \<Rightarrow> gostring" where
  "show_int i = (if i < 0 then CHR ''-'' # show_nat (nat (- i)) else show_nat (nat i))"

definition field :: "gostring \<Rightarrow> gostring \<Rightarrow> gostring" where
  "field name v = json_quote name @ CHR '':'' # v"

text \<open>\<open>omit_typ\<close> is the \<open>omitempty\<close> tag of the session payload's type field.\<close>

definition marshal_payload :: "bool \<Rightarrow> gostring \<Rightarrow> int \<Rightarrow> gostring" where
  "marshal_payload omit_typ t x =
     CHR 0x7B # join_on (CHR '','')
       ((if omit_typ \<and> t = [] then [] else [field ''typ'' (json_quote t)]) @
        [field ''exp'' (show_int x)]) @ [CHR 0x7D]"

section \<open>Strings come back\<close>

lemma hex_digit_hex_char [simp]: "k < 16 \<Longrightarrow> hex_digit (hex_char k) = Some k"
  by (simp add: hex_char_def hex_digit_def Let_def)

lemma hex4_code: "n < 256 \<Longrightarrow> hex4 CHR ''0'' CHR ''0'' (hex_char (n div 16)) (hex_char (n mod 16)) = Some n"
proof -
  assume n: "n < 256"
  have "hex_digit CHR ''0'' = Some 0" by code_simp
  moreover have "n div 16 < 16" using n by (simp add: less_mult_imp_div_less)
  ultimately show ?thesis by (simp add: hex4_def)
qed

lemma p_chars_quote [simp]: "p_chars (CHR 0x22 # r) = Some ([], r)"
  by (subst p_chars.simps) simp

lemma p_chars_plain:
  "c \<noteq> CHR 0x22 \<Longrightarrow> c \<noteq> CHR 0x5C \<Longrightarrow> \<not> (of_char c :: nat) < 32 \<Longrightarrow>
     p_chars (c # r) = map_option (\<lambda>(w, rest). (c # w, rest)) (p_chars r)"
  by (subst p_chars.simps) (auto split: option.split)

lemma p_chars_simple:
  "e \<noteq> CHR ''u'' \<Longrightarrow> simple_escape e = Some x \<Longrightarrow>
     p_chars (CHR 0x5C # e # r) = map_option (\<lambda>(w, rest). (x # w, rest)) (p_chars r)"
  by (subst p_chars.simps) (auto split: option.split)

lemma p_chars_unicode:
  assumes "hex4 p q u v = Some n" and "n < 128"
  shows "p_chars (CHR 0x5C # CHR ''u'' # p # q # u # v # r) =
    map_option (\<lambda>(w, rest). (char_of n # w, rest)) (p_chars r)"
proof -
  have "unicode_escape n r = ([char_of n], r)"
    using assms(2) by (simp add: unicode_escape_def high_surrogate_def low_surrogate_def utf8_def)
  then show ?thesis
    by (subst p_chars.simps) (simp add: assms(1) split: option.split)
qed

lemma byte_char: "(of_char c :: nat) = n \<Longrightarrow> c = char_of n"
  by auto

lemma p_chars_escape:
  "p_chars (escape_char c @ r) = map_option (\<lambda>(w, rest). (c # w, rest)) (p_chars r)"
proof -
  define n where "n = (of_char c :: nat)"
  have c: "c = char_of n" by (simp add: n_def)
  have small: "n < 128" if "c = CHR ''<'' \<or> c = CHR ''>'' \<or> c = CHR ''&''"
    using that by (auto simp: n_def)
  have esc: "simple_escape CHR 0x22 = Some (CHR 0x22)" "simple_escape CHR 0x5C = Some (CHR 0x5C)"
    "simple_escape CHR ''b'' = Some (char_of (8::nat))" "simple_escape CHR ''f'' = Some (char_of (12::nat))"
    "simple_escape CHR ''n'' = Some (char_of (10::nat))" "simple_escape CHR ''r'' = Some (char_of (13::nat))"
    "simple_escape CHR ''t'' = Some (char_of (9::nat))" by code_simp+
  consider (q) "c = CHR 0x22 \<or> c = CHR 0x5C"
    | (s) "c \<noteq> CHR 0x22" "c \<noteq> CHR 0x5C" "n = 8 \<or> n = 12 \<or> n = 10 \<or> n = 13 \<or> n = 9"
    | (u) "c \<noteq> CHR 0x22" "c \<noteq> CHR 0x5C" "\<not> (n = 8 \<or> n = 12 \<or> n = 10 \<or> n = 13 \<or> n = 9)"
        "n < 32 \<or> c = CHR ''<'' \<or> c = CHR ''>'' \<or> c = CHR ''&''"
    | (p) "c \<noteq> CHR 0x22" "c \<noteq> CHR 0x5C" "\<not> (n = 8 \<or> n = 12 \<or> n = 10 \<or> n = 13 \<or> n = 9)"
        "\<not> (n < 32 \<or> c = CHR ''<'' \<or> c = CHR ''>'' \<or> c = CHR ''&'')" by blast
  then show ?thesis
  proof cases
    case q
    then show ?thesis using esc by (auto simp: escape_char_def p_chars_simple)
  next
    case s
    then have "escape_char c = [CHR 0x5C, CHR ''b''] \<and> n = 8 \<or> escape_char c = [CHR 0x5C, CHR ''f''] \<and> n = 12 \<or>
        escape_char c = [CHR 0x5C, CHR ''n''] \<and> n = 10 \<or> escape_char c = [CHR 0x5C, CHR ''r''] \<and> n = 13 \<or>
        escape_char c = [CHR 0x5C, CHR ''t''] \<and> n = 9"
      unfolding escape_char_def Let_def n_def [symmetric] by (elim disjE) simp_all
    then show ?thesis unfolding c using esc by (elim disjE conjE) (simp_all add: p_chars_simple)
  next
    case u
    then have n: "n < 128" using small by auto
    have "escape_char c = [CHR 0x5C, CHR ''u'', CHR ''0'', CHR ''0'', hex_char (n div 16), hex_char (n mod 16)]"
      using u unfolding escape_char_def Let_def n_def [symmetric] by auto
    then show ?thesis using p_chars_unicode [OF hex4_code n] n c by simp
  next
    case p
    then have "escape_char c = [c]" unfolding escape_char_def Let_def n_def [symmetric] by auto
    then show ?thesis using p by (simp add: p_chars_plain n_def)
  qed
qed

lemma p_chars_quoted: "p_chars (concat (map escape_char w) @ CHR 0x22 # r) = Some (w, r)"
  by (induction w) (simp_all add: p_chars_escape)

lemma skip_ws_quote [simp]: "skip_ws (CHR 0x22 # r) = CHR 0x22 # r"
  and skip_ws_comma [simp]: "skip_ws (CHR '','' # r) = CHR '','' # r"
  and skip_ws_close [simp]: "skip_ws (CHR 0x5D # r) = CHR 0x5D # r"
  and skip_ws_brace [simp]: "skip_ws (CHR 0x7D # r) = CHR 0x7D # r"
  and skip_ws_colon [simp]: "skip_ws (CHR '':'' # r) = CHR '':'' # r"
  and skip_ws_open [simp]: "skip_ws (CHR 0x5B # r) = CHR 0x5B # r"
  and skip_ws_obrace [simp]: "skip_ws (CHR 0x7B # r) = CHR 0x7B # r"
  and skip_ws_Nil [simp]: "skip_ws [] = []"
  by (simp_all add: skip_ws_def json_ws_def)

lemma p_value_quote: "p_value (Suc n) (json_quote w @ r) = Some (JStr w, r)"
  by (simp add: json_quote_def p_chars_quoted)

lemma p_elems_comma:
  "p_value n s = Some (v, CHR '','' # r) \<Longrightarrow>
     p_elems (Suc n) s = map_option (\<lambda>(vs, rest). (v # vs, rest)) (p_elems n r)"
  by (simp split: option.split)

lemma p_elems_quotes:
  "ws \<noteq> [] \<Longrightarrow> length ws < n \<Longrightarrow>
     p_elems n (join_on (CHR '','') (map json_quote ws) @ CHR 0x5D # r) = Some (map JStr ws, r)"
proof (induction ws arbitrary: n)
  case (Cons w ws)
  then obtain m where n: "n = Suc (Suc m)" by (cases n; cases "n - 1") auto
  show ?case
  proof (cases ws)
    case Nil
    then show ?thesis by (simp add: n p_value_quote del: p_value.simps)
  next
    case (Cons w' ws')
    have "p_elems (Suc m) (join_on (CHR '','') (map json_quote ws) @ CHR 0x5D # r) = Some (map JStr ws, r)"
      using Cons.IH [of "Suc m"] Cons.prems(2) n Cons by simp
    then show ?thesis
      using p_elems_comma [OF p_value_quote, of m] Cons unfolding n
      by (simp del: p_value.simps p_elems.simps)
  qed
qed simp

lemma map_JStr_strings [simp]: "strings_of (map JStr ws) = Some ws"
  by (induction ws) simp_all

lemma json_quote_length: "2 \<le> length (json_quote w)"
  by (simp add: json_quote_def)

lemma join_quotes_length: "length ws \<le> length (join_on c (map json_quote ws))"
proof (induction ws)
  case (Cons w ws)
  then show ?case using json_quote_length [of w] by (cases ws) auto
qed simp

lemma marshal_strings_roundtrip [simp]: "unmarshal_strings (marshal_strings ws) = Some ws"
proof (cases ws)
  case Nil
  then show ?thesis
    by (simp add: marshal_strings_def unmarshal_strings_def json_parse_def eval_nat_numeral)
next
  case (Cons w ws')
  let ?j = "join_on (CHR '','') (map json_quote ws)"
  let ?n = "2 * length (marshal_strings ws) + 2"
  have hd: "\<exists>t. ?j = CHR 0x22 # t"
    using Cons by (cases ws') (auto simp: json_quote_def)
  then obtain t where t: "?j = CHR 0x22 # t" by blast
  obtain m where m: "?n = Suc m" "length ws < m"
    using join_quotes_length [of ws "CHR '',''"] by (simp add: marshal_strings_def)
  have "p_elems m (?j @ [CHR 0x5D]) = Some (map JStr ws, [])"
    using p_elems_quotes [of ws m "[]"] m(2) Cons by simp
  then have "p_value (Suc m) (CHR 0x5B # ?j @ [CHR 0x5D]) = Some (JArr (map JStr ws), [])"
    using t by simp
  then show ?thesis unfolding unmarshal_strings_def json_parse_def m(1)
    by (simp add: marshal_strings_def del: p_value.simps)
qed

section \<open>Numbers come back\<close>

lemma digit_char: "d < 10 \<Longrightarrow> is_digit (char_of (48 + d)) \<and> digit_val (char_of (48 + d)) = int d"
  by (simp add: is_digit_def digit_val_def)

lemma show_nat_digits: "list_all is_digit (show_nat n) \<and> show_nat n \<noteq> [] \<and> digits_val (show_nat n) = int n"
proof (induction n rule: show_nat.induct)
  case (1 n)
  show ?case
  proof (cases "n < 10")
    case True
    then show ?thesis using digit_char [of n]
      by (subst (1 2 3) show_nat.simps) (simp add: digits_val_def)
  next
    case False
    have "int (n div 10) * 10 + int (n mod 10) = int n" by (metis div_mult_mod_eq of_nat_add of_nat_mult of_nat_numeral)
    then show ?thesis using False 1 digit_char [of "n mod 10"]
      by (subst (1 2 3) show_nat.simps) (simp add: digits_val_def)
  qed
qed

lemma show_nat_hd: "hd (show_nat n) = CHR ''0'' \<Longrightarrow> n = 0"
proof (induction n rule: show_nat.induct)
  case (1 n)
  show ?case
  proof (cases "n < 10")
    case True
    then have "char_of (48 + n) = CHR ''0''" using "1.prems" by (simp add: show_nat.simps [of n])
    then have "(of_char (char_of (48 + n) :: char) :: nat) = 48" by simp
    then show ?thesis using True by simp
  next
    case False
    then have "hd (show_nat (n div 10)) = CHR ''0''"
      using "1.prems" show_nat_digits [of "n div 10"] by (simp add: show_nat.simps [of n])
    then show ?thesis using False 1 by simp
  qed
qed

lemma takeWhile_digits:
  assumes "list_all is_digit ds" and "r = [] \<or> \<not> is_digit (hd r)"
  shows "takeWhile is_digit (ds @ r) = ds" and "dropWhile is_digit (ds @ r) = r"
proof -
  show "takeWhile is_digit (ds @ r) = ds"
    using assms by (cases r) (auto simp: list_all_iff takeWhile_append)
  show "dropWhile is_digit (ds @ r) = r"
    using assms by (cases r) (auto simp: list_all_iff dropWhile_append)
qed

lemma int_part_show:
  assumes "r = [] \<or> \<not> is_digit (hd r)"
  shows "int_part (show_nat n @ r) = Some (show_nat n, r)"
proof (cases "n = 0")
  case True
  have "(of_char CHR ''0'' :: nat) = 48" by simp
  then have "char_of (48 :: nat) = CHR ''0''" by (metis char_of_char)
  then show ?thesis using True by (simp add: int_part_def show_nat.simps [of 0])
next
  case False
  obtain c ds where s: "show_nat n = c # ds" using show_nat_digits [of n] by (cases "show_nat n") auto
  have c: "c \<noteq> CHR ''0''" using show_nat_hd [of n] s False by auto
  have d: "is_digit c" "list_all is_digit ds" using show_nat_digits [of n] s by auto
  show ?thesis using takeWhile_digits [OF d(2) assms] c d(1) by (simp add: int_part_def s)
qed

lemma sign_not_digit: "is_digit c \<Longrightarrow> c \<noteq> CHR ''-''"
  by (auto simp: is_digit_def)

lemma show_nat_Cons: "\<exists>c ds. show_nat n = c # ds \<and> is_digit c \<and> list_all is_digit ds"
  using show_nat_digits [of n] by (cases "show_nat n") auto

lemma p_number_show:
  "p_number (show_int x @ CHR 0x7D # r) = Some (JNum (show_int x), CHR 0x7D # r)"
proof -
  have close: "frac_part (CHR 0x7D # r) = Some ([], CHR 0x7D # r)"
    "exp_part (CHR 0x7D # r) = Some ([], CHR 0x7D # r)" "\<not> is_digit CHR 0x7D"
    by (cases r) (simp_all add: frac_part_def exp_part_def is_digit_def)
  note ip = int_part_show [of "CHR 0x7D # r", simplified, OF close(3)]
  show ?thesis
  proof (cases "x < 0")
    case True
    then show ?thesis by (simp add: p_number_def show_int_def ip close)
  next
    case False
    obtain c ds where s: "show_nat (nat x) = c # ds" "is_digit c" using show_nat_Cons by blast
    then have "c \<noteq> CHR ''-''" by (simp add: sign_not_digit)
    then show ?thesis using False ip [of "nat x"] s
      by (simp add: p_number_def show_int_def close)
  qed
qed

lemma parse_show_int:
  assumes "- (2 ^ 63) \<le> x" and "x < 2 ^ 63"
  shows "parse_int64 (show_int x) = Some x"
proof (cases "x < 0")
  case True
  then show ?thesis using assms show_nat_digits [of "nat (- x)"]
    by (simp add: parse_int64_def show_int_def)
next
  case False
  obtain c ds where s: "show_nat (nat x) = c # ds" "is_digit c" using show_nat_Cons by blast
  then have "c \<noteq> CHR ''-''" by (simp add: sign_not_digit)
  then show ?thesis using False assms show_nat_digits [of "nat x"] s
    by (simp add: parse_int64_def show_int_def)
qed

lemma show_int_head:
  "\<exists>c ds. show_int x = c # ds \<and> (is_digit c \<or> c = CHR ''-'')"
  using show_nat_Cons [of "nat x"] by (auto simp: show_int_def)

lemma p_value_int:
  "p_value (Suc n) (show_int x @ CHR 0x7D # r) = Some (JNum (show_int x), CHR 0x7D # r)"
proof -
  obtain c ds where s: "show_int x = c # ds" "is_digit c \<or> c = CHR ''-''"
    using show_int_head by blast
  have "c \<noteq> CHR 0x22" "c \<noteq> CHR 0x5B" "c \<noteq> CHR 0x7B" "c \<noteq> CHR ''n''" "c \<noteq> CHR ''t''" "c \<noteq> CHR ''f''"
    "\<not> json_ws c"
    using s(2) by (auto simp: is_digit_def json_ws_def Let_def)
  then show ?thesis using p_number_show [of x r]
    by (simp add: s(1) skip_ws_def has_prefix_def)
qed

lemma p_value_skip: "skip_ws s = s \<Longrightarrow> p_value n s = p_value n (skip_ws s)"
  by simp

text \<open>A payload's members, for each of the two forms.\<close>

lemma p_members_last:
  "p_members (Suc (Suc n)) (field k (show_int x) @ CHR 0x7D # r) = Some ([(k, JNum (show_int x))], r)"
  using p_value_int [of n x r]
  by (simp add: field_def json_quote_def p_chars_quoted del: p_value.simps)

lemma p_members_first:
  "p_members (Suc (Suc n)) (field k (json_quote w) @ CHR '','' # s) =
     map_option (\<lambda>(ms, rest). ((k, JStr w) # ms, rest)) (p_members (Suc n) s)"
  using p_value_quote [of n w "CHR '','' # s"]
  by (simp add: field_def json_quote_def p_chars_quoted del: p_value.simps split: option.split)

lemma p_value_object:
  assumes "p_members m s = Some (ms, r)" and "skip_ws s = CHR 0x22 # t"
  shows "p_value (Suc m) (CHR 0x7B # s) = Some (JObj ms, r)"
  using assms by simp

lemma field_head: "\<exists>t. field k v @ s = CHR 0x22 # t"
  by (simp add: field_def json_quote_def)

lemma fold_typ_exp [simp]:
  "equal_fold ''typ'' ''typ''" "\<not> equal_fold ''exp'' ''typ''" "equal_fold ''exp'' ''exp''"
  by code_simp+

lemma marshal_payload_roundtrip:
  assumes "- (2 ^ 63) \<le> x" and "x < 2 ^ 63"
  shows "unmarshal_payload (marshal_payload om t x) = Some (t, x)"
proof -
  let ?fx = "field ''exp'' (show_int x)"
  let ?ft = "field ''typ'' (json_quote t)"
  let ?doc = "marshal_payload om t x"
  obtain n where n: "2 * length ?doc + 2 = Suc (Suc (Suc (Suc n)))"
    by (simp add: marshal_payload_def)
  have "\<exists>ms. json_parse ?doc = Some (JObj ms) \<and> set_fields ms ([], 0) = Some (t, x)"
  proof (cases "om \<and> t = []")
    case True
    have d: "?doc = CHR 0x7B # ?fx @ [CHR 0x7D]" using True by (simp add: marshal_payload_def)
    obtain u where u: "?fx @ [CHR 0x7D] = CHR 0x22 # u" using field_head by blast
    have "p_value (Suc (Suc (Suc (Suc n)))) ?doc = Some (JObj [(''exp'', JNum (show_int x))], [])"
      unfolding d by (rule p_value_object [OF p_members_last]) (use u in simp)
    then show ?thesis using True assms unfolding json_parse_def n
      by (simp add: parse_show_int)
  next
    case False
    then have d: "?doc = CHR 0x7B # ?ft @ CHR '','' # ?fx @ [CHR 0x7D]"
      by (auto simp: marshal_payload_def)
    obtain u where u: "?ft @ CHR '','' # ?fx @ [CHR 0x7D] = CHR 0x22 # u" using field_head by blast
    have "p_members (Suc (Suc (Suc n))) (?ft @ CHR '','' # ?fx @ [CHR 0x7D]) =
        Some ([(''typ'', JStr t), (''exp'', JNum (show_int x))], [])"
      unfolding p_members_first p_members_last by simp
    then have "p_value (Suc (Suc (Suc (Suc n)))) ?doc =
        Some (JObj [(''typ'', JStr t), (''exp'', JNum (show_int x))], [])"
      unfolding d by (rule p_value_object) (use u in simp)
    then show ?thesis using assms unfolding json_parse_def n
      by (simp add: parse_show_int)
  qed
  then show ?thesis by (auto simp: unmarshal_payload_def)
qed

section \<open>Malformed documents\<close>

text \<open>The boundary the lock configuration depends on.\<close>

lemma unmarshal_boundary:
  "unmarshal_strings ''null'' = Some []" "unmarshal_strings ''[]'' = Some []"
  "unmarshal_strings ''{}'' = None" "unmarshal_strings ''[1,2]'' = None"
  "unmarshal_strings ''[null]'' = Some [[]]" "unmarshal_strings ''[] x'' = None"
  by code_simp+

end
