(* ===== verification/Ticket.thy ===== *)
theory Ticket
  imports Secrets Json
begin

text \<open>
  \<open>internal/sectionlock/ticket.go\<close>, the unlock ticket, and the session token of
  \<open>internal/auth/session.go\<close>: both are a JSON payload sealed under the app's one key and
  told apart by the additional data they are sealed with and by the payload's type. The
  encryptor interfaces are function arguments, implemented by the operations of
  \<open>Secrets\<close>; a failure of either method is \<open>None\<close>.
\<close>

section \<open>The unlock ticket\<close>

definition ticket_ttl :: duration where "ticket_ttl = 30 * minute"
definition ticket_type :: gostring where "ticket_type = ''unlock''"
definition unlock_aad :: gostring where "unlock_aad = ''sakms-section-unlock-v1''"

definition issue_ticket_at ::
  "(gostring \<Rightarrow> gostring \<Rightarrow> gostring option) \<Rightarrow> gtime \<Rightarrow> (gostring \<times> gtime) option" where
  "issue_ticket_at enc now =
     (let expiry = now + ticket_ttl;
          data = marshal_payload False ticket_type (unix_of expiry)
      in case enc data unlock_aad of
           None \<Rightarrow> None
         | Some token \<Rightarrow> Some (token, expiry))"

definition validate_ticket_at ::
  "(gostring \<Rightarrow> gostring \<Rightarrow> gostring option) \<Rightarrow> gostring \<Rightarrow> gtime \<Rightarrow> gtime option" where
  "validate_ticket_at dec token now =
     (if token = [] then None
      else case dec token unlock_aad of
        None \<Rightarrow> None
      | Some data \<Rightarrow>
          (case unmarshal_payload data of
             None \<Rightarrow> None
           | Some (typ, ex) \<Rightarrow>
               if typ \<noteq> ticket_type then None
               else let expiry = time_of_unix ex
                    in if \<not> now < expiry then None else Some expiry))"

section \<open>The session token\<close>

definition session_ttl :: duration where "session_ttl = 30 * 24 * hour"
definition unlock_ticket_type :: gostring where "unlock_ticket_type = ''unlock''"

definition issue_token :: "(gostring \<Rightarrow> gostring option) \<Rightarrow> gtime \<Rightarrow> gostring option" where
  "issue_token enc now = enc (marshal_payload True [] (unix_of (now + session_ttl)))"

definition validate_token :: "(gostring \<Rightarrow> gostring option) \<Rightarrow> gostring \<Rightarrow> gtime \<Rightarrow> bool" where
  "validate_token dec token now =
     (case dec token of
        None \<Rightarrow> False
      | Some data \<Rightarrow>
          (case unmarshal_payload data of
             None \<Rightarrow> False
           | Some (typ, ex) \<Rightarrow>
               if typ = unlock_ticket_type then False else unix_of now < ex))"

section \<open>Laws\<close>

text \<open>The times whose Unix seconds, with a token's lifetime added, fit an \<open>int64\<close>.\<close>

definition clock_ok :: "gtime \<Rightarrow> bool" where
  "clock_ok now \<longleftrightarrow> - (2 ^ 63) \<le> unix_of now \<and> unix_of now + 30 * 24 * 3600 < 2 ^ 63"

lemma unix_of_mono: "a \<le> b \<Longrightarrow> unix_of a \<le> unix_of b"
  by (simp add: unix_of_def zdiv_mono1)

lemma unix_of_shift: "unix_of (t + k * second) = unix_of t + k"
  by (simp add: unix_of_def)

lemma clock_range:
  assumes "clock_ok now"
  shows "- (2 ^ 63) \<le> unix_of (now + ticket_ttl)" "unix_of (now + ticket_ttl) < 2 ^ 63"
    "- (2 ^ 63) \<le> unix_of (now + session_ttl)" "unix_of (now + session_ttl) < 2 ^ 63"
  using assms unix_of_shift [of now 1800] unix_of_shift [of now "30 * 24 * 3600"]
  by (auto simp: clock_ok_def ticket_ttl_def session_ttl_def)

lemma unix_less: "unix_of t < s \<longleftrightarrow> t < time_of_unix s"
proof
  assume "unix_of t < s"
  then have "unix_of t + 1 \<le> s" by simp
  then have "time_of_unix (unix_of t) + second \<le> time_of_unix s"
    by (simp add: time_of_unix_def)
  then show "t < time_of_unix s" using time_of_unix_of_gt [of t] by linarith
next
  assume "t < time_of_unix s"
  then have "time_of_unix (unix_of t) < time_of_unix s" using time_of_unix_of_le [of t] by linarith
  then show "unix_of t < s" by (simp add: time_of_unix_def)
qed

lemma sealed_nonempty:
  assumes "length nonce = nonce_size" and "encrypt_with_aad seal (Some nonce) p a = Some tok"
  shows "tok \<noteq> []"
proof
  assume "tok = []"
  then have "b64_encode (nonce @ seal nonce p a) = b64_encode []"
    using assms(2) by (simp add: encrypt_with_aad_def)
  then have "nonce @ seal nonce p a = []" by (metis b64_roundtrip option.inject)
  then show False using assms(1) by (simp add: nonce_size_def)
qed

lemma aead_open:
  "aead_ok seal opn \<Longrightarrow> opn n (seal n p a) a' = (if a = a' then Some p else None)"
  by (simp add: aead_ok_def)

lemma ticket_of_sealed:
  assumes "aead_ok seal opn" and "length nonce = nonce_size"
    and "encrypt_with_aad seal (Some nonce) (marshal_payload om t x) a = Some tok"
    and "- (2 ^ 63) \<le> x" "x < 2 ^ 63"
  shows "validate_ticket_at (decrypt_with_aad opn) tok now =
    (if a = unlock_aad \<and> t = ticket_type \<and> now < time_of_unix x then Some (time_of_unix x) else None)"
  using sealed_nonempty [OF assms(2,3)]
  by (simp add: validate_ticket_at_def decrypt_encrypt_aad [OF assms(2,3)] aead_open [OF assms(1)]
      marshal_payload_roundtrip [OF assms(4,5)] Let_def)

lemma session_of_sealed:
  assumes "aead_ok seal opn" and "length nonce = nonce_size"
    and "encrypt_with_aad seal (Some nonce) (marshal_payload om t x) a = Some tok"
    and "- (2 ^ 63) \<le> x" "x < 2 ^ 63"
  shows "validate_token (decrypt opn) tok now = (a = [] \<and> t \<noteq> ticket_type \<and> now < time_of_unix x)"
  by (simp add: validate_token_def plain_is_empty_aad decrypt_encrypt_aad [OF assms(2,3)]
      aead_open [OF assms(1)] marshal_payload_roundtrip [OF assms(4,5)] unix_less ticket_type_def
      unlock_ticket_type_def)

section \<open>Properties\<close>

text \<open>
  An unlock ticket is valid from the moment it is issued until thirty minutes later, rounded
  down to a whole second, and never again: its validity does not slide, and the expiry the
  issuer reports to the client is at most a second later than the one the verifier enforces.
\<close>

theorem ticket_lifetime:
  assumes "aead_ok seal opn" and "length nonce = nonce_size" and "clock_ok now"
    and "issue_ticket_at (encrypt_with_aad seal (Some nonce)) now = Some (tok, expiry)"
  shows "(validate_ticket_at (decrypt_with_aad opn) tok t \<noteq> None) = (t < time_of_unix (unix_of expiry)) \<and>
    expiry = now + 30 * minute \<and> expiry - second < time_of_unix (unix_of expiry) \<and>
    time_of_unix (unix_of expiry) \<le> expiry"
proof -
  have e: "expiry = now + ticket_ttl"
    and s: "encrypt_with_aad seal (Some nonce) (marshal_payload False ticket_type (unix_of expiry))
      unlock_aad = Some tok"
    using assms(4) by (auto simp: issue_ticket_at_def Let_def split: option.splits)
  have "- (2 ^ 63) \<le> unix_of expiry" "unix_of expiry < 2 ^ 63"
    using clock_range [OF assms(3)] e by simp_all
  then have "(validate_ticket_at (decrypt_with_aad opn) tok t \<noteq> None) = (t < time_of_unix (unix_of expiry))"
    by (simp add: ticket_of_sealed [OF assms(1,2) s])
  moreover have "expiry = now + 30 * minute" using e by (simp add: ticket_ttl_def)
  ultimately show ?thesis using time_of_unix_of_gt time_of_unix_of_le by blast
qed

theorem ticket_lifetime_witness:
  "(case issue_ticket_at (encrypt_with_aad demo_seal (Some ''nonce-12byte'')) 0 of
      None \<Rightarrow> False
    | Some (tok, _) \<Rightarrow>
        validate_ticket_at (decrypt_with_aad demo_open) tok (29 * minute) \<noteq> None \<and>
        validate_ticket_at (decrypt_with_aad demo_open) tok (30 * minute) = None)"
proof -
  have l: "length ''nonce-12byte'' = nonce_size" and c: "clock_ok 0" by code_simp+
  obtain tok ex where i:
    "issue_ticket_at (encrypt_with_aad demo_seal (Some ''nonce-12byte'')) 0 = Some (tok, ex)"
    by (auto simp: issue_ticket_at_def encrypt_with_aad_def)
  show ?thesis
    using ticket_lifetime [OF demo_aead l c i, of "29 * minute"]
      ticket_lifetime [OF demo_aead l c i, of "30 * minute"] i
    by (cases "validate_ticket_at (decrypt_with_aad demo_open) tok (30 * minute)")
      (auto simp: time_of_unix_def unix_of_def)
qed

text \<open>
  C30. The two credentials are never interchangeable: at no time does a session cookie validate
  as an unlock ticket or an unlock ticket as a session cookie. And either check alone is enough:
  an unlock payload sealed in the session's domain is refused as a session, a session payload
  sealed in the unlock domain is refused as a ticket.
\<close>

theorem credentials_separate:
  assumes "aead_ok seal opn" and "length nonce = nonce_size" and "clock_ok now"
  shows "(\<forall>tok. issue_token (encrypt seal (Some nonce)) now = Some tok \<longrightarrow>
       validate_ticket_at (decrypt_with_aad opn) tok t = None \<and>
       validate_token (decrypt opn) tok t = (t < time_of_unix (unix_of (now + session_ttl)))) \<and>
    (\<forall>tok ex. issue_ticket_at (encrypt_with_aad seal (Some nonce)) now = Some (tok, ex) \<longrightarrow>
       \<not> validate_token (decrypt opn) tok t) \<and>
    (\<forall>tok. encrypt seal (Some nonce) (marshal_payload False ticket_type (unix_of now)) = Some tok \<longrightarrow>
       \<not> validate_token (decrypt opn) tok t) \<and>
    (\<forall>tok. encrypt_with_aad seal (Some nonce) (marshal_payload True [] (unix_of now)) unlock_aad = Some tok \<longrightarrow>
       validate_ticket_at (decrypt_with_aad opn) tok t = None)"
proof -
  have u: "unlock_aad \<noteq> []" "ticket_type \<noteq> []" by (simp_all add: unlock_aad_def ticket_type_def)
  have n: "- (2 ^ 63) \<le> unix_of now" "unix_of now < 2 ^ 63" using assms(3) by (auto simp: clock_ok_def)
  note r = clock_range [OF assms(3)]
  show ?thesis
    using ticket_of_sealed [OF assms(1,2)] session_of_sealed [OF assms(1,2)] r n u
    by (auto simp: issue_token_def issue_ticket_at_def plain_is_empty_aad(1) Let_def split: option.splits)
qed

theorem credentials_separate_witness:
  "(case issue_token (encrypt demo_seal (Some ''nonce-12byte'')) 0 of
      None \<Rightarrow> False
    | Some tok \<Rightarrow>
        validate_token (decrypt demo_open) tok hour \<and>
        validate_ticket_at (decrypt_with_aad demo_open) tok hour = None)"
proof -
  have l: "length ''nonce-12byte'' = nonce_size" and c: "clock_ok 0" by code_simp+
  obtain tok where i: "issue_token (encrypt demo_seal (Some ''nonce-12byte'')) 0 = Some tok"
    by (auto simp: issue_token_def encrypt_def)
  show ?thesis
    using credentials_separate [OF demo_aead l c, of hour] i
    by (simp add: time_of_unix_def unix_of_def session_ttl_def)
qed

end
