(* ===== verification/Sections.thy ===== *)
theory Sections
  imports Prelude
begin

text \<open>
  \<open>internal/sectionlock/sections.go\<close>: the lockable section ids, the set of section ids
  that route classification and the lock configuration exchange, and the insertion sort
  behind the deterministic listing of a set.

  A Go \<open>map[string]struct{}\<close> is the list of its keys in the order the runtime happens
  to iterate them, which the language leaves open; \<open>set_sorted_order_independent\<close> shows that what
  the code reports does not depend on that order.
\<close>

section \<open>Section ids\<close>

type_synonym section_id = gostring

definition section_dashboard :: section_id where "section_dashboard = ''dashboard''"
definition section_discover :: section_id where "section_discover = ''discover''"
definition section_library :: section_id where "section_library = ''library''"
definition section_queue :: section_id where "section_queue = ''queue''"
definition section_organize :: section_id where "section_organize = ''organize''"
definition section_collections :: section_id where "section_collections = ''collections''"
definition section_settings :: section_id where "section_settings = ''settings''"
definition section_adult_content :: section_id where "section_adult_content = ''adult-content''"

lemmas section_ids = section_dashboard_def section_discover_def section_library_def
  section_queue_def section_organize_def section_collections_def section_settings_def
  section_adult_content_def

definition tab_sections :: "section_id list" where
  "tab_sections =
     [section_dashboard, section_discover, section_queue, section_organize, section_settings]"

definition all_sections :: "section_id list" where
  "all_sections = tab_sections @ [section_adult_content]"

fun known_in :: "section_id list \<Rightarrow> section_id \<Rightarrow> bool" where
  "known_in [] i = False"
| "known_in (s # ss) i = (if s = i then True else known_in ss i)"

definition known_section :: "section_id \<Rightarrow> bool" where
  "known_section i = known_in all_sections i"

lemma known_in_iff: "known_in ss i \<longleftrightarrow> i \<in> set ss"
  by (induction ss) auto

lemma known_section_iff: "known_section i \<longleftrightarrow> i \<in> set all_sections"
  by (simp add: known_section_def known_in_iff)

section \<open>Sets of section ids\<close>

type_synonym sset = "section_id list"

definition set_add :: "sset \<Rightarrow> section_id \<Rightarrow> sset" where
  "set_add s i = (if i \<in> set s then s else s @ [i])"

definition new_set :: "section_id list \<Rightarrow> sset" where
  "new_set ids = foldl set_add [] ids"

definition set_has :: "sset \<Rightarrow> section_id \<Rightarrow> bool" where
  "set_has s i = (i \<in> set s)"

definition set_len :: "sset \<Rightarrow> nat" where
  "set_len s = length s"

text \<open>
  \<open>Intersects\<close> ranges over the smaller set and returns at the first common member.
\<close>

fun any_member :: "section_id list \<Rightarrow> sset \<Rightarrow> bool" where
  "any_member [] other = False"
| "any_member (i # is) other = (if set_has other i then True else any_member is other)"

definition set_intersects :: "sset \<Rightarrow> sset \<Rightarrow> bool" where
  "set_intersects s other =
     (if set_len other < set_len s then any_member other s else any_member s other)"

text \<open>
  \<open>sortStrings\<close>: the inner loop moves \<open>v[j]\<close> down past every larger
  predecessor by swapping, the outer loop does so for every index from 1.
\<close>

fun sift :: "gostring list \<Rightarrow> nat \<Rightarrow> gostring list" where
  "sift v 0 = v"
| "sift v (Suc j) =
     (if v ! Suc j < v ! j then sift (v[Suc j := v ! j, j := v ! Suc j]) j else v)"

fun sort_from :: "nat \<Rightarrow> nat \<Rightarrow> gostring list \<Rightarrow> gostring list" where
  "sort_from i 0 v = v"
| "sort_from i (Suc n) v = sort_from (Suc i) n (sift v i)"

definition sort_strings :: "gostring list \<Rightarrow> gostring list" where
  "sort_strings v = sort_from 1 (length v - 1) v"

definition set_sorted :: "sset \<Rightarrow> section_id list" where
  "set_sorted s = sort_strings s"

section \<open>Laws of the sets\<close>

lemma set_set_add [simp]: "set (set_add s i) = insert i (set s)"
  by (auto simp: set_add_def)

lemma distinct_set_add [simp]: "distinct (set_add s i) = distinct s"
  by (simp add: set_add_def)

lemma set_new_set [simp]: "set (new_set ids) = set ids"
proof -
  have "set (foldl set_add acc ids) = set acc \<union> set ids" for acc
    by (induction ids arbitrary: acc) auto
  then show ?thesis by (simp add: new_set_def)
qed

lemma distinct_new_set [simp]: "distinct (new_set ids)"
proof -
  have "distinct acc \<Longrightarrow> distinct (foldl set_add acc ids)" for acc
    by (induction ids arbitrary: acc) auto
  then show ?thesis by (simp add: new_set_def)
qed

lemma new_set_Nil [simp]: "new_set [] = []"
  by (simp add: new_set_def)

lemma any_member_iff: "any_member is other \<longleftrightarrow> set is \<inter> set other \<noteq> {}"
  by (induction "is") (auto simp: set_has_def)

lemma set_intersects_iff: "set_intersects s other \<longleftrightarrow> set s \<inter> set other \<noteq> {}"
  by (auto simp: set_intersects_def any_member_iff)

section \<open>The insertion sort\<close>

lemma sift_spec:
  "\<exists>zs. sift (xs @ x # ys) (length xs) = zs @ ys \<and> mset zs = mset (xs @ [x]) \<and>
     (sorted xs \<longrightarrow> sorted zs)"
proof (induction xs arbitrary: ys rule: rev_induct)
  case Nil
  then show ?case by (intro exI [of _ "[x]"]) simp
next
  case (snoc y xs)
  show ?case
  proof (cases "x < y")
    case True
    have "sift ((xs @ [y]) @ x # ys) (length (xs @ [y])) = sift (xs @ x # (y # ys)) (length xs)"
      using True by (simp add: nth_append list_update_append)
    moreover obtain zs where zs: "sift (xs @ x # (y # ys)) (length xs) = zs @ (y # ys)"
      "mset zs = mset (xs @ [x])" "sorted xs \<longrightarrow> sorted zs"
      using snoc.IH by blast
    moreover have "sorted (zs @ [y])" if "sorted (xs @ [y])"
    proof -
      have "set zs = set (xs @ [x])" using zs(2) by (metis set_mset_mset)
      then show ?thesis using that zs(3) True by (auto simp: sorted_append)
    qed
    ultimately show ?thesis by (intro exI [of _ "zs @ [y]"]) auto
  next
    case False
    then have "sift ((xs @ [y]) @ x # ys) (length (xs @ [y])) = (xs @ [y, x]) @ ys"
      by (simp add: nth_append)
    moreover have "sorted (xs @ [y, x])" if "sorted (xs @ [y])"
      using that False by (auto simp: sorted_append)
    ultimately show ?thesis by (intro exI [of _ "xs @ [y, x]"]) auto
  qed
qed

lemma sort_from_spec:
  "sorted xs \<Longrightarrow> sorted (sort_from (length xs) (length ys) (xs @ ys)) \<and>
     mset (sort_from (length xs) (length ys) (xs @ ys)) = mset (xs @ ys)"
proof (induction ys arbitrary: xs)
  case Nil
  then show ?case by simp
next
  case (Cons y ys)
  obtain zs where zs: "sift (xs @ y # ys) (length xs) = zs @ ys"
    "mset zs = mset (xs @ [y])" "sorted xs \<longrightarrow> sorted zs"
    using sift_spec by blast
  have len: "length zs = Suc (length xs)" using zs(2) by (metis length_append_singleton mset_eq_length)
  have "sort_from (length xs) (length (y # ys)) (xs @ y # ys) = sort_from (length zs) (length ys) (zs @ ys)"
    by (simp add: zs(1) len)
  moreover have "sorted zs" using zs(3) Cons.prems by simp
  ultimately show ?case using Cons.IH [of zs] zs(2) by simp
qed

lemma sort_strings_spec: "sorted (sort_strings v) \<and> mset (sort_strings v) = mset v"
proof (cases v)
  case Nil
  then show ?thesis by (simp add: sort_strings_def)
next
  case (Cons x xs)
  then show ?thesis using sort_from_spec [of "[x]" xs] by (simp add: sort_strings_def)
qed

lemma set_set_sorted [simp]: "set (set_sorted s) = set s"
  by (metis set_mset_mset set_sorted_def sort_strings_spec)

text \<open>
  What \<open>Sorted\<close> reports is sorted, holds every member exactly once, and is
  the same for any iteration order of the same set.
\<close>

theorem set_sorted_order_independent:
  assumes "distinct s" and "distinct s'" and "set s = set s'"
  shows "set_sorted s = set_sorted s' \<and> sorted (set_sorted s) \<and> distinct (set_sorted s) \<and>
    set (set_sorted s) = set s"
proof -
  have m: "mset s = mset s'" using assms by (simp add: set_eq_iff_mset_eq_distinct)
  have "set_sorted s = set_sorted s'"
    using sort_strings_spec [of s] sort_strings_spec [of s'] m
    by (metis set_sorted_def properties_for_sort)
  moreover have "distinct (set_sorted s)"
    using assms(1) sort_strings_spec [of s] by (metis mset_eq_imp_distinct_iff set_sorted_def)
  moreover have "sorted (set_sorted s)"
    using sort_strings_spec [of s] by (simp add: set_sorted_def)
  ultimately show ?thesis using assms(3) by simp
qed

end
