(* ===== verification/Lock_Store.thy ===== *)
theory Lock_Store
  imports Sections Json "HOL-Library.Word"
begin

text \<open>
  \<open>internal/settings/settings.go\<close>, the flat key/value store, and
  \<open>internal/sectionlock/store.go\<close>, the lock configuration kept in two of its keys behind a
  process-lifetime cache. A database call takes a flag that says whether it fails. The readers
  of the cache release its mutex around the database read, so they are two steps each; the
  generation counter that makes this safe is a 64-bit word.
\<close>

section \<open>Settings\<close>

type_synonym settings_db = "gostring \<Rightarrow> gostring option"

datatype get_result = Got gostring | Not_found | Get_error

definition settings_get :: "bool \<Rightarrow> settings_db \<Rightarrow> gostring \<Rightarrow> get_result" where
  "settings_get fails db key =
     (if fails then Get_error
      else case db key of None \<Rightarrow> Not_found | Some v \<Rightarrow> Got v)"

text \<open>\<open>None\<close> is an error.\<close>

definition settings_set :: "bool \<Rightarrow> settings_db \<Rightarrow> gostring \<Rightarrow> gostring \<Rightarrow> settings_db option" where
  "settings_set fails db key value = (if fails then None else Some (db(key \<mapsto> value)))"

definition settings_get_bool :: "bool \<Rightarrow> settings_db \<Rightarrow> gostring \<Rightarrow> bool \<Rightarrow> bool option" where
  "settings_get_bool fails db key dflt =
     (case settings_get fails db key of
        Not_found \<Rightarrow> Some dflt
      | Get_error \<Rightarrow> None
      | Got v \<Rightarrow> Some (v = ''true''))"

definition settings_set_bool :: "bool \<Rightarrow> settings_db \<Rightarrow> gostring \<Rightarrow> bool \<Rightarrow> settings_db option" where
  "settings_set_bool fails db key value =
     settings_set fails db key (if value then ''true'' else ''false'')"

text \<open>What the lock store relies on of the \<open>SettingsStore\<close> interface.\<close>

locale settings_store =
  fixes getv :: "'db \<Rightarrow> gostring \<Rightarrow> get_result"
    and setv :: "'db \<Rightarrow> gostring \<Rightarrow> gostring \<Rightarrow> 'db"
  assumes get_set: "getv (setv db k v) k' = (if k' = k then Got v else getv db k')"
begin

lemma last_write_wins:
  "getv (foldl (\<lambda>db (k, v). setv db k v) db ws) k =
     (case map_of (rev ws) k of None \<Rightarrow> getv db k | Some v \<Rightarrow> Got v)"
proof (induction ws arbitrary: db)
  case (Cons w ws)
  then show ?case by (cases w) (auto simp: get_set map_add_def split: option.split)
qed simp

lemma read_back: "getv (foldl (\<lambda>db (k, v). setv db k v) db (ws @ [(k, v)])) k = Got v"
  by (simp add: get_set)

end

interpretation kv: settings_store "settings_get False" "\<lambda>db k v. the (settings_set False db k v)"
  by unfold_locales (auto simp: settings_get_def settings_set_def)

section \<open>The lock store\<close>

definition pin_hash_key :: gostring where "pin_hash_key = ''section_lock_pin_hash''"
definition sections_key :: gostring where "sections_key = ''section_lock_sections''"
definition min_pin_length :: nat where "min_pin_length = 6"

lemma lock_keys_distinct [simp]: "pin_hash_key \<noteq> sections_key" "sections_key \<noteq> pin_hash_key"
  by (simp_all add: pin_hash_key_def sections_key_def)

datatype store_error =
    Pin_too_short
  | Hash_failed
  | Save_failed
  | Lock_config_unavailable

record lock_store =
  st_pin_hash :: gostring
  st_pin_hash_cached :: bool
  st_sections :: sset
  st_sections_valid :: bool
  st_gen :: "64 word"

definition new_store :: lock_store where
  "new_store = \<lparr>st_pin_hash = [], st_pin_hash_cached = False, st_sections = [],
     st_sections_valid = False, st_gen = 0\<rparr>"

text \<open>\<open>read\<close>: the outcomes of the first call and of the one retry.\<close>

definition lock_read :: "get_result \<Rightarrow> get_result \<Rightarrow> store_error + (gostring \<times> bool)" where
  "lock_read g1 g2 =
     (case g1 of
        Got v \<Rightarrow> Inr (v, True)
      | Not_found \<Rightarrow> Inr ([], False)
      | Get_error \<Rightarrow>
          (case g2 of
             Got v \<Rightarrow> Inr (v, True)
           | Not_found \<Rightarrow> Inr ([], False)
           | Get_error \<Rightarrow> Inl Lock_config_unavailable))"

definition parse_sections :: "gostring \<Rightarrow> store_error + sset" where
  "parse_sections raw =
     (let trimmed = trim_space raw in
      if trimmed = [] then Inr (new_set [])
      else case unmarshal_strings trimmed of
        None \<Rightarrow> Inl Lock_config_unavailable
      | Some ids \<Rightarrow> Inr (new_set ids))"

text \<open>The two critical sections of \<open>PinHash\<close>, around its database read.\<close>

definition pin_hash_begin :: "lock_store \<Rightarrow> gostring + 64 word" where
  "pin_hash_begin s = (if st_pin_hash_cached s then Inl (st_pin_hash s) else Inr (st_gen s))"

definition pin_hash_finish :: "lock_store \<Rightarrow> 64 word \<Rightarrow> gostring \<Rightarrow> lock_store" where
  "pin_hash_finish s start_gen hash =
     (if st_gen s = start_gen then s\<lparr>st_pin_hash := hash, st_pin_hash_cached := True\<rparr> else s)"

definition pin_hash ::
  "bool \<Rightarrow> bool \<Rightarrow> settings_db \<Rightarrow> lock_store \<Rightarrow> (store_error + gostring) \<times> lock_store" where
  "pin_hash f1 f2 db s =
     (case pin_hash_begin s of
        Inl hash \<Rightarrow> (Inr hash, s)
      | Inr start_gen \<Rightarrow>
          (case lock_read (settings_get f1 db pin_hash_key) (settings_get f2 db pin_hash_key) of
             Inl e \<Rightarrow> (Inl e, s)
           | Inr (raw, _) \<Rightarrow>
               let hash = trim_space raw in (Inr hash, pin_hash_finish s start_gen hash)))"

definition pin_set ::
  "bool \<Rightarrow> bool \<Rightarrow> settings_db \<Rightarrow> lock_store \<Rightarrow> (store_error + bool) \<times> lock_store" where
  "pin_set f1 f2 db s =
     (case pin_hash f1 f2 db s of
        (Inl e, s') \<Rightarrow> (Inl e, s')
      | (Inr hash, s') \<Rightarrow> (Inr (hash \<noteq> []), s'))"

text \<open>\<open>LockedSections\<close>, likewise.\<close>

definition sections_begin :: "lock_store \<Rightarrow> sset + 64 word" where
  "sections_begin s = (if st_sections_valid s then Inl (st_sections s) else Inr (st_gen s))"

definition sections_finish :: "lock_store \<Rightarrow> 64 word \<Rightarrow> sset \<Rightarrow> lock_store" where
  "sections_finish s start_gen parsed =
     (if st_gen s = start_gen then s\<lparr>st_sections := parsed, st_sections_valid := True\<rparr> else s)"

definition locked_sections ::
  "bool \<Rightarrow> bool \<Rightarrow> settings_db \<Rightarrow> lock_store \<Rightarrow> (store_error + sset) \<times> lock_store" where
  "locked_sections f1 f2 db s =
     (case sections_begin s of
        Inl cached \<Rightarrow> (Inr cached, s)
      | Inr start_gen \<Rightarrow>
          (case lock_read (settings_get f1 db sections_key) (settings_get f2 db sections_key) of
             Inl e \<Rightarrow> (Inl e, s)
           | Inr (raw, _) \<Rightarrow>
               (case parse_sections raw of
                  Inl e \<Rightarrow> (Inl e, s)
                | Inr parsed \<Rightarrow> (Inr parsed, sections_finish s start_gen parsed))))"

text \<open>Invalidation.\<close>

definition invalidate_pin :: "lock_store \<Rightarrow> lock_store" where
  "invalidate_pin s = s\<lparr>st_pin_hash := [], st_pin_hash_cached := False, st_gen := st_gen s + 1\<rparr>"

definition invalidate_sections :: "lock_store \<Rightarrow> lock_store" where
  "invalidate_sections s = s\<lparr>st_sections := [], st_sections_valid := False, st_gen := st_gen s + 1\<rparr>"

definition invalidate :: "lock_store \<Rightarrow> lock_store" where
  "invalidate s = s\<lparr>st_pin_hash := [], st_pin_hash_cached := False, st_sections := [],
     st_sections_valid := False, st_gen := st_gen s + 1\<rparr>"

text \<open>
  The writers, with the store and the database they leave. \<open>bcrypt_gen\<close> and
  \<open>bcrypt_cmp\<close> stand for \<open>golang.org/x/crypto/bcrypt\<close>.
\<close>

definition set_pin ::
  "(gostring \<Rightarrow> gostring option) \<Rightarrow> bool \<Rightarrow> gostring \<Rightarrow> settings_db \<Rightarrow> lock_store \<Rightarrow>
     store_error option \<times> settings_db \<times> lock_store" where
  "set_pin bcrypt_gen fails pin db s =
     (if length pin < min_pin_length then (Some Pin_too_short, db, s)
      else case bcrypt_gen pin of
        None \<Rightarrow> (Some Hash_failed, db, s)
      | Some hash \<Rightarrow>
          (case settings_set fails db pin_hash_key hash of
             None \<Rightarrow> (Some Save_failed, db, s)
           | Some db' \<Rightarrow> (None, db', invalidate_pin s)))"

definition clear_pin ::
  "bool \<Rightarrow> bool \<Rightarrow> settings_db \<Rightarrow> lock_store \<Rightarrow> store_error option \<times> settings_db \<times> lock_store" where
  "clear_pin f1 f2 db s =
     (case settings_set f1 db sections_key ''[]'' of
        None \<Rightarrow> (Some Save_failed, db, s)
      | Some db1 \<Rightarrow>
          (let s1 = invalidate_sections s in
           case settings_set f2 db1 pin_hash_key [] of
             None \<Rightarrow> (Some Save_failed, db1, s1)
           | Some db2 \<Rightarrow> (None, db2, invalidate_pin s1)))"

definition set_sections ::
  "bool \<Rightarrow> section_id list \<Rightarrow> settings_db \<Rightarrow> lock_store \<Rightarrow>
     store_error option \<times> settings_db \<times> lock_store" where
  "set_sections fails ids db s =
     (case settings_set fails db sections_key (marshal_strings ids) of
        None \<Rightarrow> (Some Save_failed, db, s)
      | Some db' \<Rightarrow> (None, db', invalidate_sections s))"

definition verify_pin_hash :: "(gostring \<Rightarrow> gostring \<Rightarrow> bool) \<Rightarrow> gostring \<Rightarrow> gostring \<Rightarrow> bool" where
  "verify_pin_hash bcrypt_cmp hash pin = (if hash = [] then False else bcrypt_cmp hash pin)"

section \<open>The stored configuration, and the cache that agrees with it\<close>

definition raw_value :: "settings_db \<Rightarrow> gostring \<Rightarrow> gostring" where
  "raw_value db k = (case db k of None \<Rightarrow> [] | Some v \<Rightarrow> v)"

definition stored_pin :: "settings_db \<Rightarrow> gostring" where
  "stored_pin db = trim_space (raw_value db pin_hash_key)"

definition stored_sections :: "settings_db \<Rightarrow> store_error + sset" where
  "stored_sections db = parse_sections (raw_value db sections_key)"

definition coherent :: "settings_db \<Rightarrow> lock_store \<Rightarrow> bool" where
  "coherent db s \<longleftrightarrow> (st_pin_hash_cached s \<longrightarrow> st_pin_hash s = stored_pin db) \<and>
     (st_sections_valid s \<longrightarrow> stored_sections db = Inr (st_sections s))"

lemma lock_read_get:
  "lock_read (settings_get f1 db k) (settings_get f2 db k) =
     (if f1 \<and> f2 then Inl Lock_config_unavailable else Inr (raw_value db k, db k \<noteq> None))"
  by (auto simp: lock_read_def settings_get_def raw_value_def split: option.split)

lemma coherent_new [simp]: "coherent db new_store"
  by (simp add: coherent_def new_store_def)

lemma pin_hash_eq:
  "coherent db s \<Longrightarrow> pin_hash f1 f2 db s =
     (if st_pin_hash_cached s then (Inr (stored_pin db), s)
      else if f1 \<and> f2 then (Inl Lock_config_unavailable, s)
      else (Inr (stored_pin db), s\<lparr>st_pin_hash := stored_pin db, st_pin_hash_cached := True\<rparr>))"
  by (simp add: pin_hash_def pin_hash_begin_def pin_hash_finish_def lock_read_get Let_def
      stored_pin_def coherent_def)

lemma locked_sections_eq:
  "coherent db s \<Longrightarrow> locked_sections f1 f2 db s =
     (if st_sections_valid s then (stored_sections db, s)
      else if f1 \<and> f2 then (Inl Lock_config_unavailable, s)
      else case stored_sections db of
        Inl e \<Rightarrow> (Inl e, s)
      | Inr ids \<Rightarrow> (Inr ids, s\<lparr>st_sections := ids, st_sections_valid := True\<rparr>))"
  by (auto simp: locked_sections_def sections_begin_def sections_finish_def lock_read_get
      stored_sections_def coherent_def split: sum.split)

lemma coherent_pin_hash [inv_intros]: "coherent db s \<Longrightarrow> coherent db (snd (pin_hash f1 f2 db s))"
  by (subst pin_hash_eq) (auto simp: coherent_def)

lemma coherent_locked_sections [inv_intros]:
  "coherent db s \<Longrightarrow> coherent db (snd (locked_sections f1 f2 db s))"
  by (subst locked_sections_eq) (auto simp: coherent_def split: sum.split)

lemma stored_upd [simp]:
  "stored_pin (db(pin_hash_key \<mapsto> v)) = trim_space v"
  "stored_pin (db(sections_key \<mapsto> v)) = stored_pin db"
  "stored_sections (db(sections_key \<mapsto> v)) = parse_sections v"
  "stored_sections (db(pin_hash_key \<mapsto> v)) = stored_sections db"
  by (simp_all add: stored_pin_def stored_sections_def raw_value_def)

lemma coherent_set_pin [inv_intros]:
  "coherent db s \<Longrightarrow> set_pin g f pin db s = (r, db', s') \<Longrightarrow> coherent db' s'"
  by (auto simp: set_pin_def settings_set_def invalidate_pin_def coherent_def
      split: if_splits option.splits)

lemma coherent_clear_pin [inv_intros]:
  "coherent db s \<Longrightarrow> clear_pin f1 f2 db s = (r, db', s') \<Longrightarrow> coherent db' s'"
  by (auto simp: clear_pin_def settings_set_def invalidate_pin_def invalidate_sections_def
      coherent_def Let_def split: if_splits option.splits)

lemma coherent_set_sections [inv_intros]:
  "coherent db s \<Longrightarrow> set_sections f ids db s = (r, db', s') \<Longrightarrow> coherent db' s'"
  by (auto simp: set_sections_def settings_set_def invalidate_sections_def coherent_def
      split: if_splits option.splits)

lemma parse_marshalled [simp]: "parse_sections (marshal_strings ids) = Inr (new_set ids)"
proof -
  have "trim_space (marshal_strings ids) = marshal_strings ids"
    by (rule trim_space_id) (simp add: marshal_strings_def is_space_def)
  moreover have "marshal_strings ids \<noteq> []" by (simp add: marshal_strings_def)
  ultimately show ?thesis by (simp add: parse_sections_def)
qed

section \<open>Readers and writers interleaved\<close>

text \<open>
  Any number of requests read and write at once. A reader that missed the cache is in flight
  with the generation it captured, and with the value it has read once it has; a writer that
  has stored its value but not yet invalidated is pending. \<open>c_inval\<close> counts the
  invalidations made so far.
\<close>

datatype cached_key = Pin_key | Sections_key

record reader =
  rd_key :: cached_key
  rd_gen :: "64 word"
  rd_start :: nat
  rd_value :: "gostring option"

record lock_world =
  c_db :: settings_db
  c_store :: lock_store
  c_readers :: "reader list"
  c_pending_pin :: nat
  c_pending_sections :: nat
  c_inval :: nat

definition world_init :: "settings_db \<Rightarrow> lock_world" where
  "world_init db = \<lparr>c_db = db, c_store = new_store, c_readers = [], c_pending_pin = 0,
     c_pending_sections = 0, c_inval = 0\<rparr>"

definition key_name :: "cached_key \<Rightarrow> gostring" where
  "key_name k = (case k of Pin_key \<Rightarrow> pin_hash_key | Sections_key \<Rightarrow> sections_key)"

text \<open>What a reader does in its second critical section.\<close>

definition reader_finish :: "reader \<Rightarrow> gostring \<Rightarrow> lock_store \<Rightarrow> lock_store" where
  "reader_finish r v s =
     (case rd_key r of
        Pin_key \<Rightarrow> pin_hash_finish s (rd_gen r) (trim_space v)
      | Sections_key \<Rightarrow>
          (case parse_sections v of
             Inl e \<Rightarrow> s
           | Inr parsed \<Rightarrow> sections_finish s (rd_gen r) parsed))"

inductive lock_step :: "lock_world \<Rightarrow> lock_world \<Rightarrow> bool" where
  start_pin: "pin_hash_begin (c_store w) = Inr g \<Longrightarrow>
    lock_step w (w\<lparr>c_readers := c_readers w @
      [\<lparr>rd_key = Pin_key, rd_gen = g, rd_start = c_inval w, rd_value = None\<rparr>]\<rparr>)"
| start_sections: "sections_begin (c_store w) = Inr g \<Longrightarrow>
    lock_step w (w\<lparr>c_readers := c_readers w @
      [\<lparr>rd_key = Sections_key, rd_gen = g, rd_start = c_inval w, rd_value = None\<rparr>]\<rparr>)"
| read: "c_readers w = rs @ r # rs' \<Longrightarrow> rd_value r = None \<Longrightarrow>
    lock_step w (w\<lparr>c_readers := rs @
      r\<lparr>rd_value := Some (raw_value (c_db w) (key_name (rd_key r)))\<rparr> # rs'\<rparr>)"
| read_failed: "c_readers w = rs @ r # rs' \<Longrightarrow> lock_step w (w\<lparr>c_readers := rs @ rs'\<rparr>)"
| finish: "c_readers w = rs @ r # rs' \<Longrightarrow> rd_value r = Some v \<Longrightarrow>
    lock_step w (w\<lparr>c_readers := rs @ rs', c_store := reader_finish r v (c_store w)\<rparr>)"
| write_pin: "lock_step w (w\<lparr>c_db := (c_db w)(pin_hash_key \<mapsto> v), c_pending_pin := c_pending_pin w + 1\<rparr>)"
| write_sections: "lock_step w (w\<lparr>c_db := (c_db w)(sections_key \<mapsto> v),
    c_pending_sections := c_pending_sections w + 1\<rparr>)"
| inval_pin: "c_pending_pin w = Suc n \<Longrightarrow>
    lock_step w (w\<lparr>c_store := invalidate_pin (c_store w), c_pending_pin := n, c_inval := c_inval w + 1\<rparr>)"
| inval_sections: "c_pending_sections w = Suc n \<Longrightarrow>
    lock_step w (w\<lparr>c_store := invalidate_sections (c_store w), c_pending_sections := n,
      c_inval := c_inval w + 1\<rparr>)"
| inval_all: "lock_step w (w\<lparr>c_store := invalidate (c_store w), c_inval := c_inval w + 1\<rparr>)"

inductive lock_reachable :: "settings_db \<Rightarrow> lock_world \<Rightarrow> bool" for db where
  init: "lock_reachable db (world_init db)"
| step: "lock_reachable db w \<Longrightarrow> lock_step w w' \<Longrightarrow> lock_reachable db w'"

definition pending :: "lock_world \<Rightarrow> cached_key \<Rightarrow> nat" where
  "pending w k = (case k of Pin_key \<Rightarrow> c_pending_pin w | Sections_key \<Rightarrow> c_pending_sections w)"

definition gens_ok :: "lock_world \<Rightarrow> bool" where
  "gens_ok w \<longleftrightarrow> st_gen (c_store w) = of_nat (c_inval w) \<and>
     (\<forall>r\<in>set (c_readers w). rd_start r \<le> c_inval w \<and> rd_gen r = of_nat (rd_start r))"

definition reads_ok :: "lock_world \<Rightarrow> bool" where
  "reads_ok w \<longleftrightarrow> (\<forall>r\<in>set (c_readers w). \<forall>v. rd_value r = Some v \<and> rd_start r = c_inval w \<and>
     pending w (rd_key r) = 0 \<longrightarrow> v = raw_value (c_db w) (key_name (rd_key r)))"

definition cache_ok :: "lock_world \<Rightarrow> bool" where
  "cache_ok w \<longleftrightarrow>
     (c_pending_pin w = 0 \<and> st_pin_hash_cached (c_store w) \<longrightarrow>
        st_pin_hash (c_store w) = stored_pin (c_db w)) \<and>
     (c_pending_sections w = 0 \<and> st_sections_valid (c_store w) \<longrightarrow>
        stored_sections (c_db w) = Inr (st_sections (c_store w)))"

lemmas lock_ops = invalidate_def invalidate_pin_def invalidate_sections_def pin_hash_finish_def
  sections_finish_def reader_finish_def pin_hash_begin_def sections_begin_def

lemma gen_reader_finish [simp]: "st_gen (reader_finish r v s) = st_gen s"
  by (simp add: lock_ops split: cached_key.split sum.split)

lemma gens_ok_step: "gens_ok w \<Longrightarrow> lock_step w w' \<Longrightarrow> gens_ok w'"
  by (erule lock_step.cases)
    (auto simp: gens_ok_def invalidate_def invalidate_pin_def invalidate_sections_def
      pin_hash_begin_def sections_begin_def split: if_splits)

lemma raw_value_other [simp]: "k \<noteq> k' \<Longrightarrow> raw_value (db(k \<mapsto> v)) k' = raw_value db k'"
  by (simp add: raw_value_def)

lemma reads_ok_step:
  assumes "reads_ok w" and "gens_ok w" and "lock_step w w'"
  shows "reads_ok w'"
  using assms(3)
proof cases
  case (read rs r rs')
  then show ?thesis using assms(1) by (auto simp: reads_ok_def pending_def split: cached_key.splits)
next
  case (write_pin v)
  then show ?thesis using assms(1)
    by (auto simp: reads_ok_def pending_def key_name_def split: cached_key.splits)
next
  case (write_sections v)
  then show ?thesis using assms(1)
    by (auto simp: reads_ok_def pending_def key_name_def split: cached_key.splits)
next
  case (inval_pin n)
  then show ?thesis using assms(2) by (fastforce simp: reads_ok_def gens_ok_def)
next
  case (inval_sections n)
  then show ?thesis using assms(2) by (fastforce simp: reads_ok_def gens_ok_def)
next
  case inval_all
  then show ?thesis using assms(2) by (fastforce simp: reads_ok_def gens_ok_def)
qed (use assms(1) in \<open>auto simp: reads_ok_def pending_def split: cached_key.splits\<close>)

lemma gen_inj: "m < 2 ^ 64 \<Longrightarrow> n < 2 ^ 64 \<Longrightarrow> (of_nat m :: 64 word) = of_nat n \<Longrightarrow> m = n"
  by (simp add: word_of_nat_eq_iff take_bit_nat_eq_self)

lemma cache_ok_step:
  assumes "cache_ok w" and "reads_ok w" and "gens_ok w" and "c_inval w < 2 ^ 64" and "lock_step w w'"
  shows "cache_ok w'"
  using assms(5)
proof cases
  case (finish rs r rs' v)
  have r: "r \<in> set (c_readers w)" using finish by simp
  show ?thesis
  proof (cases "rd_gen r = st_gen (c_store w)")
    case True
    have "rd_start r = c_inval w"
      using True r assms(3,4) gen_inj [of "rd_start r" "c_inval w"] by (auto simp: gens_ok_def)
    then have v: "pending w (rd_key r) = 0 \<Longrightarrow> v = raw_value (c_db w) (key_name (rd_key r))"
      using r finish assms(2) by (auto simp: reads_ok_def)
    show ?thesis using assms(1) v True finish
      by (cases "rd_key r")
        (auto simp: cache_ok_def lock_ops pending_def key_name_def stored_pin_def stored_sections_def
          split: sum.split)
  next
    case False
    then show ?thesis using assms(1) finish
      by (auto simp: cache_ok_def lock_ops split: cached_key.split sum.split)
  qed
qed (use assms(1) in \<open>auto simp: cache_ok_def lock_ops split: if_splits\<close>)

lemma c_inval_mono: "lock_step w w' \<Longrightarrow> c_inval w \<le> c_inval w'"
  by (erule lock_step.cases) auto

lemma world_ok:
  "lock_reachable db w \<Longrightarrow> gens_ok w \<and> reads_ok w \<and> (c_inval w < 2 ^ 64 \<longrightarrow> cache_ok w)"
proof (induction rule: lock_reachable.induct)
  case init
  then show ?case
    by (simp add: gens_ok_def reads_ok_def cache_ok_def world_init_def new_store_def)
next
  case (step w w')
  then show ?case
    using gens_ok_step reads_ok_step cache_ok_step c_inval_mono [OF step.hyps(2)] by auto
qed

section \<open>Properties\<close>

text \<open>The operations of the store one after another, and what they mean without a cache.\<close>

datatype lock_op =
    Read_pin bool bool
  | Read_sections bool bool
  | Set_pin bool gostring
  | Clear_pin bool bool
  | Set_sections bool "section_id list"
  | Invalidate_all

fun apply_op ::
  "(gostring \<Rightarrow> gostring option) \<Rightarrow> settings_db \<times> lock_store \<Rightarrow> lock_op \<Rightarrow> settings_db \<times> lock_store" where
  "apply_op g (db, s) (Read_pin f1 f2) = (db, snd (pin_hash f1 f2 db s))"
| "apply_op g (db, s) (Read_sections f1 f2) = (db, snd (locked_sections f1 f2 db s))"
| "apply_op g (db, s) (Set_pin f pin) = snd (set_pin g f pin db s)"
| "apply_op g (db, s) (Clear_pin f1 f2) = snd (clear_pin f1 f2 db s)"
| "apply_op g (db, s) (Set_sections f ids) = snd (set_sections f ids db s)"
| "apply_op g (db, s) Invalidate_all = (db, invalidate s)"

fun abs_op :: "(gostring \<Rightarrow> gostring option) \<Rightarrow> settings_db \<Rightarrow> lock_op \<Rightarrow> settings_db" where
  "abs_op g db (Set_pin f pin) =
     (if f \<or> length pin < 6 then db
      else case g pin of None \<Rightarrow> db | Some h \<Rightarrow> db(pin_hash_key \<mapsto> h))"
| "abs_op g db (Clear_pin f1 f2) =
     (if f1 then db else if f2 then db(sections_key \<mapsto> ''[]'')
      else db(sections_key \<mapsto> ''[]'', pin_hash_key \<mapsto> []))"
| "abs_op g db (Set_sections f ids) = (if f then db else db(sections_key \<mapsto> marshal_strings ids))"
| "abs_op g db _ = db"

lemma coherent_invalidate [simp]: "coherent db (invalidate s)"
  by (simp add: coherent_def invalidate_def)

lemma apply_op_abs: "fst (apply_op g (db, s) op) = abs_op g db op"
  by (cases op) (auto simp: set_pin_def clear_pin_def set_sections_def settings_set_def Let_def
      min_pin_length_def split: option.split)

lemma coherent_apply_op: "coherent db s \<Longrightarrow> coherent (fst (apply_op g (db, s) op)) (snd (apply_op g (db, s) op))"
proof (cases op)
  case (Set_pin f pin)
  assume "coherent db s"
  then show ?thesis using Set_pin coherent_set_pin
    by (cases "set_pin g f pin db s") (auto intro: coherent_set_pin)
next
  case (Clear_pin f1 f2)
  assume "coherent db s"
  then show ?thesis using Clear_pin coherent_clear_pin
    by (cases "clear_pin f1 f2 db s") auto
next
  case (Set_sections f ids)
  assume "coherent db s"
  then show ?thesis using Set_sections coherent_set_sections
    by (cases "set_sections f ids db s") auto
qed (auto intro: inv_intros)

lemma coherent_run:
  "coherent db s \<Longrightarrow> foldl (apply_op g) (db, s) ops = (db', s') \<Longrightarrow>
     coherent db' s' \<and> db' = foldl (abs_op g) db ops"
proof (induction ops arbitrary: db s)
  case (Cons op ops)
  obtain db1 s1 where o: "apply_op g (db, s) op = (db1, s1)" by fastforce
  have "coherent db1 s1" "db1 = abs_op g db op"
    using coherent_apply_op [OF Cons.prems(1), of g op] apply_op_abs [of g db s op] o by auto
  then show ?case using Cons.IH [of db1 s1] Cons.prems(2) o by auto
qed simp

text \<open>
  The cache is transparent. After any sequence of operations, with database calls failing
  anywhere among them, the two accessors return what the database holds at that moment (one
  failed read is retried), and the database holds what the writes alone made of it. A PIN change
  or a newly locked section takes effect on the next read.
\<close>

theorem cache_transparent:
  assumes "foldl (apply_op g) (db, new_store) ops = (db', s)" and "\<not> (f1 \<and> f2)"
  shows "fst (pin_hash f1 f2 db' s) = Inr (stored_pin db') \<and>
    fst (locked_sections f1 f2 db' s) = stored_sections db' \<and>
    db' = foldl (abs_op g) db ops"
  using coherent_run [OF coherent_new assms(1)] assms(2)
  by (auto simp: pin_hash_eq locked_sections_eq split: sum.split)

theorem cache_transparent_witness:
  "(let (db, s) = foldl (apply_op Some) (Map.empty, new_store)
       [Set_pin False ''123456'', Read_pin False False, Set_pin False ''654321'', Set_sections True [''queue'']]
    in fst (pin_hash True False db s) = Inr ''654321'' \<and> fst (locked_sections True False db s) = Inr [])"
proof -
  let ?ops = "[Set_pin False ''123456'', Read_pin False False, Set_pin False ''654321'',
    Set_sections True [''queue'']]"
  obtain db s where r: "foldl (apply_op Some) (Map.empty, new_store) ?ops = (db, s)" by fastforce
  have ne: "\<not> (True \<and> False)" by simp
  note t = cache_transparent [OF r ne]
  then have "db = [pin_hash_key \<mapsto> ''654321'']" by simp
  moreover have "stored_pin [pin_hash_key \<mapsto> ''654321''] = ''654321''"
    "stored_sections [pin_hash_key \<mapsto> ''654321''] = Inr []" by code_simp+
  ultimately have "fst (pin_hash True False db s) = Inr ''654321''"
    "fst (locked_sections True False db s) = Inr []" using t by auto
  then show ?thesis by (simp only: Let_def r prod.case)
qed

text \<open>
  C14. No stale cache under concurrency. However requests and writers interleave around the two
  critical sections of a read, and whatever reads fail, once every writer has finished
  (stored its value and invalidated), a cached PIN hash is the stored one and a cached set of
  sections is the stored one: an in-flight reader that was overtaken by a write cannot leave
  its value behind. The 64-bit generation counter is assumed not to have wrapped.
\<close>

theorem no_stale_cache:
  assumes "lock_reachable db w" and "c_inval w < 2 ^ 64"
  shows "(c_pending_pin w = 0 \<and> st_pin_hash_cached (c_store w) \<longrightarrow>
       st_pin_hash (c_store w) = stored_pin (c_db w)) \<and>
     (c_pending_sections w = 0 \<and> st_sections_valid (c_store w) \<longrightarrow>
       Inr (st_sections (c_store w)) = stored_sections (c_db w))"
  using world_ok [OF assms(1)] assms(2) by (simp add: cache_ok_def)

theorem no_stale_cache_witness:
  "\<exists>w. lock_reachable Map.empty w \<and> c_readers w = [] \<and> c_pending_pin w = 0 \<and>
     c_db w = [pin_hash_key \<mapsto> ''new''] \<and>
     (st_pin_hash_cached (c_store w) \<longrightarrow> st_pin_hash (c_store w) = ''new'')"
proof -
  let ?w0 = "world_init Map.empty"
  let ?r = "\<lparr>rd_key = Pin_key, rd_gen = 0, rd_start = 0, rd_value = None\<rparr>"
  let ?w1 = "?w0\<lparr>c_readers := [?r]\<rparr>"
  let ?w2 = "?w1\<lparr>c_readers := [?r\<lparr>rd_value := Some []\<rparr>]\<rparr>"
  let ?w3 = "?w2\<lparr>c_db := [pin_hash_key \<mapsto> ''new''], c_pending_pin := 1\<rparr>"
  let ?w4 = "?w3\<lparr>c_store := invalidate_pin new_store, c_pending_pin := 0, c_inval := 1\<rparr>"
  let ?w5 = "?w4\<lparr>c_readers := []\<rparr>"
  have i: "lock_reachable Map.empty ?w0" by (rule lock_reachable.init)
  have s1: "lock_step ?w0 ?w1"
    using lock_step.start_pin [of ?w0 0] by (simp add: world_init_def new_store_def pin_hash_begin_def)
  have s2: "lock_step ?w1 ?w2"
    using lock_step.read [of ?w1 "[]" ?r "[]"]
    by (simp add: world_init_def raw_value_def)
  have s3: "lock_step ?w2 ?w3"
    using lock_step.write_pin [of ?w2 "''new''"] by (simp add: world_init_def)
  have s4: "lock_step ?w3 ?w4"
    using lock_step.inval_pin [of ?w3 0] by (simp add: world_init_def)
  have s5: "lock_step ?w4 ?w5"
    using lock_step.finish [of ?w4 "[]" "?r\<lparr>rd_value := Some []\<rparr>" "[]" "[]"]
    by (simp add: world_init_def reader_finish_def pin_hash_finish_def invalidate_pin_def new_store_def)
  have r: "lock_reachable Map.empty ?w5"
    by (rule lock_reachable.step [OF lock_reachable.step [OF lock_reachable.step [OF
          lock_reachable.step [OF lock_reachable.step [OF i s1] s2] s3] s4] s5])
  have "stored_pin [pin_hash_key \<mapsto> ''new''] = ''new''" by code_simp
  then show ?thesis using no_stale_cache [OF r] r by (intro exI [of _ ?w5]) (simp add: world_init_def)
qed

text \<open>
  A malformed configuration fails closed and is never cached: while the stored sections do
  not decode, every read of them is an error and leaves the cache as it was; a decoded set is
  always the stored one, never a default; and a corrected write is seen by the next read.
\<close>

theorem malformed_fails_closed:
  assumes "coherent db s"
  shows "(stored_sections db = Inl e \<longrightarrow>
       (\<exists>e'. locked_sections f1 f2 db s = (Inl e', s)) \<and> \<not> st_sections_valid s) \<and>
    (\<forall>ids. fst (locked_sections f1 f2 db s) = Inr ids \<longrightarrow> stored_sections db = Inr ids) \<and>
    (case set_sections False ids db s of
       (r, db', s') \<Rightarrow> r = None \<and> fst (locked_sections False f2 db' s') = Inr (new_set ids))"
proof (intro conjI)
  show "stored_sections db = Inl e \<longrightarrow>
      (\<exists>e'. locked_sections f1 f2 db s = (Inl e', s)) \<and> \<not> st_sections_valid s"
    using assms by (auto simp: locked_sections_eq coherent_def)
  show "\<forall>ids. fst (locked_sections f1 f2 db s) = Inr ids \<longrightarrow> stored_sections db = Inr ids"
    using assms by (auto simp: locked_sections_eq split: if_splits sum.splits)
  show "case set_sections False ids db s of
      (r, db', s') \<Rightarrow> r = None \<and> fst (locked_sections False f2 db' s') = Inr (new_set ids)"
    using coherent_set_sections [OF assms, of False ids]
    by (auto simp: set_sections_def settings_set_def locked_sections_eq)
qed

theorem malformed_fails_closed_witness:
  "(let db = [sections_key \<mapsto> ''{}''] in
     (\<exists>e. locked_sections False False db new_store = (Inl e, new_store)) \<and>
     (case set_sections False [''queue''] db new_store of
        (r, db', s') \<Rightarrow> fst (locked_sections False False db' s') = Inr [''queue'']))"
proof -
  let ?db = "[sections_key \<mapsto> ''{}'']"
  have m: "stored_sections ?db = Inl Lock_config_unavailable" by code_simp
  have "new_set [''queue''] = [''queue'']" by code_simp
  then show ?thesis
    using malformed_fails_closed [OF coherent_new, of ?db Lock_config_unavailable False False "[''queue'']"] m
    by (auto simp: Let_def split: prod.splits)
qed

definition recoverable :: "settings_db \<Rightarrow> bool" where
  "recoverable db \<longleftrightarrow> stored_pin db \<noteq> [] \<or> stored_sections db = Inr []"

lemma clear_pin_recoverable_core:
  assumes "recoverable db" and "\<forall>p h. g p = Some h \<longrightarrow> trim_space h \<noteq> []"
  shows "recoverable (fst (snd (clear_pin f1 f2 db s))) \<and>
    recoverable (fst (snd (set_pin g f1 pin db s))) \<and>
    (fst (clear_pin f1 f2 db s) = None \<longrightarrow>
       stored_pin (fst (snd (clear_pin f1 f2 db s))) = [] \<and>
       stored_sections (fst (snd (clear_pin f1 f2 db s))) = Inr [])"
proof -
  have e: "parse_sections ''[]'' = Inr []" "trim_space [] = []" by code_simp+
  show ?thesis using assms
    by (auto simp: recoverable_def clear_pin_def set_pin_def settings_set_def Let_def e split: option.split)
qed

text \<open>
  Clearing the PIN cannot brick the operator, whichever of its database writes fails: if
  locked sections presupposed a PIN before it, they do after it, since the sections are cleared
  first; nor can setting a PIN.
\<close>

theorem clear_pin_recoverable:
  assumes "recoverable db" and "\<forall>p h. g p = Some h \<longrightarrow> trim_space h \<noteq> []"
  shows "recoverable (fst (snd (clear_pin f1 f2 db s))) \<and>
    recoverable (fst (snd (set_pin g f1 pin db s))) \<and>
    (fst (clear_pin f1 f2 db s) = None \<longrightarrow>
       stored_pin (fst (snd (clear_pin f1 f2 db s))) = [] \<and>
       stored_sections (fst (snd (clear_pin f1 f2 db s))) = Inr [])"
  using clear_pin_recoverable_core [OF assms] .

theorem clear_pin_recoverable_witness:
  "recoverable (fst (snd (clear_pin False True [pin_hash_key \<mapsto> ''h'', sections_key \<mapsto> ''[1]''] new_store)))"
proof -
  have "recoverable [pin_hash_key \<mapsto> ''h'', sections_key \<mapsto> ''[1]'']" by code_simp
  moreover have "\<forall>p h. (\<lambda>_. Some ''x'') p = Some h \<longrightarrow> trim_space h \<noteq> []"
    by (simp add: trim_space_def is_space_def)
  ultimately show ?thesis using clear_pin_recoverable [of _ "\<lambda>_. Some ''x''"] by simp
qed

end
