(* ===== verification/Gate.thy ===== *)
theory Gate
  imports Lockout Ticket Lock_Store
begin

text \<open>
  \<open>internal/sectionlock/gate.go\<close> and \<open>context.go\<close>: PIN verification behind the lockout
  and the memo of positive results, the per-request decision, and the checks that read it. The
  cryptography and bcrypt are the fields of \<open>crypto\<close>; the failures of the database calls and
  the clock readings of one call are functions of their position in it.
\<close>

section \<open>State\<close>

record crypto =
  cr_bcrypt_gen :: "gostring \<Rightarrow> gostring option"
  cr_bcrypt_cmp :: "gostring \<Rightarrow> gostring \<Rightarrow> bool"
  cr_memo_key :: "gostring \<Rightarrow> gostring"
  cr_hash_fp :: "gostring \<Rightarrow> gostring"
  cr_enc :: "gostring \<Rightarrow> gostring \<Rightarrow> gostring option"
  cr_dec :: "gostring \<Rightarrow> gostring \<Rightarrow> gostring option"

type_synonym faults = "nat \<Rightarrow> bool"
type_synonym clock = "nat \<Rightarrow> gtime"

datatype gate_error =
    No_pin_presented
  | No_pin_set
  | Wrong_pin
  | Locked_out duration
  | Config_unavailable store_error

record gate =
  g_store :: lock_store
  g_lockout :: lockout
  g_memo :: "(gostring \<times> gostring) list"
  g_epoch :: int

definition memo_capacity :: nat where "memo_capacity = 32"

definition new_gate :: "lock_store \<Rightarrow> gate" where
  "new_gate s = \<lparr>g_store = s, g_lockout = new_lockout, g_memo = [], g_epoch = 0\<rparr>"

definition revoke :: "gate \<Rightarrow> gate" where
  "revoke g = g\<lparr>g_epoch := g_epoch g + 1\<rparr>"

definition transfer_lockout :: "gostring \<Rightarrow> gostring \<Rightarrow> gate \<Rightarrow> gate" where
  "transfer_lockout src dst g = g\<lparr>g_lockout := transfer (g_lockout g) src dst\<rparr>"

definition valid_ticket :: "crypto \<Rightarrow> gostring \<Rightarrow> gtime \<Rightarrow> gtime option" where
  "valid_ticket cr token now = validate_ticket_at (cr_dec cr) token now"

definition locked_now ::
  "bool \<Rightarrow> bool \<Rightarrow> settings_db \<Rightarrow> gate \<Rightarrow> (store_error + sset) \<times> gate" where
  "locked_now f1 f2 db g =
     (case locked_sections f1 f2 db (g_store g) of (r, s) \<Rightarrow> (r, g\<lparr>g_store := s\<rparr>))"

definition issue_ticket :: "crypto \<Rightarrow> gtime \<Rightarrow> (gostring \<times> gtime) option" where
  "issue_ticket cr now = issue_ticket_at (cr_enc cr) now"

section \<open>The memo of positive verifications\<close>

text \<open>Indexing a Go map with an absent key gives the empty string.\<close>

definition memo_hit :: "crypto \<Rightarrow> gate \<Rightarrow> gostring \<Rightarrow> gostring \<Rightarrow> bool" where
  "memo_hit cr g pin fp =
     ((case map_of (g_memo g) (cr_memo_key cr pin) of None \<Rightarrow> [] | Some v \<Rightarrow> v) = fp)"

definition memo_put :: "crypto \<Rightarrow> gostring \<Rightarrow> gostring \<Rightarrow> gate \<Rightarrow> gate" where
  "memo_put cr pin fp g =
     (let m = (if memo_capacity \<le> length (g_memo g) then [] else g_memo g)
      in g\<lparr>g_memo := AList.update (cr_memo_key cr pin) fp m\<rparr>)"

section \<open>Verifying a PIN\<close>

text \<open>
  The part of \<open>VerifyPin\<close> up to the moment the presented PIN is compared: an outcome, or the
  stored hash to compare with. Other requests run between it and what follows.
\<close>

definition verify_begin ::
  "faults \<Rightarrow> gtime \<Rightarrow> settings_db \<Rightarrow> gostring \<Rightarrow> gostring \<Rightarrow> gate \<Rightarrow> (gate_error + gostring) \<times> gate" where
  "verify_begin fl now db identity pin g =
     (if pin = [] then (Inl No_pin_presented, g)
      else let (retry, is_locked) = locked (g_lockout g) identity now in
        if is_locked then (Inl (Locked_out retry), g)
        else case pin_hash (fl 0) (fl 1) db (g_store g) of
          (Inl e, s) \<Rightarrow> (Inl (Config_unavailable e), g\<lparr>g_store := s\<rparr>)
        | (Inr hash, s) \<Rightarrow>
            (if hash = [] then (Inl No_pin_set, g\<lparr>g_store := s\<rparr>) else (Inr hash, g\<lparr>g_store := s\<rparr>)))"

definition verify_end ::
  "crypto \<Rightarrow> gtime \<Rightarrow> gostring \<Rightarrow> gostring \<Rightarrow> gostring \<Rightarrow> gate \<Rightarrow> gate_error option \<times> gate" where
  "verify_end cr now identity pin hash g =
     (let fp = cr_hash_fp cr hash in
      if memo_hit cr g pin fp then (None, g\<lparr>g_lockout := reset (g_lockout g) identity\<rparr>)
      else if verify_pin_hash (cr_bcrypt_cmp cr) hash pin then
        (let g1 = memo_put cr pin fp g in (None, g1\<lparr>g_lockout := reset (g_lockout g1) identity\<rparr>))
      else (Some Wrong_pin, g\<lparr>g_lockout := fail (g_lockout g) identity now\<rparr>))"

definition verify_pin ::
  "crypto \<Rightarrow> faults \<Rightarrow> clock \<Rightarrow> settings_db \<Rightarrow> gostring \<Rightarrow> gostring \<Rightarrow> gate \<Rightarrow>
     gate_error option \<times> gate" where
  "verify_pin cr fl clk db identity pin g =
     (case verify_begin fl (clk 0) db identity pin g of
        (Inl e, g1) \<Rightarrow> (Some e, g1)
      | (Inr hash, g1) \<Rightarrow> verify_end cr (clk 1) identity pin hash g1)"

section \<open>The decision\<close>

record gate_request =
  rq_enforcing :: bool
  rq_ticket :: gostring
  rq_pin :: gostring
  rq_identity :: gostring

record decision =
  d_enforcing :: bool
  d_locked :: sset
  d_unlocked :: bool
  d_expires_at :: gtime
  d_epoch :: int
  d_err :: "gate_error option"

definition zero_decision :: decision where
  "zero_decision = \<lparr>d_enforcing = False, d_locked = [], d_unlocked = False,
     d_expires_at = zero_time, d_epoch = 0, d_err = None\<rparr>"

definition decide ::
  "crypto \<Rightarrow> faults \<Rightarrow> clock \<Rightarrow> settings_db \<Rightarrow> gate_request \<Rightarrow> gate \<Rightarrow>
     (store_error + decision) \<times> gate" where
  "decide cr fl clk db req g =
     (if \<not> rq_enforcing req then (Inr zero_decision, g)
      else case locked_sections (fl 0) (fl 1) db (g_store g) of
        (Inl e, s) \<Rightarrow> (Inl e, g\<lparr>g_store := s\<rparr>)
      | (Inr ids, s) \<Rightarrow>
          let g1 = g\<lparr>g_store := s\<rparr>;
              d = zero_decision\<lparr>d_enforcing := True, d_locked := ids, d_epoch := g_epoch g1\<rparr> in
          if set_len ids = 0 then (Inr d, g1)
          else case pin_hash (fl 2) (fl 3) db (g_store g1) of
            (Inl e, s') \<Rightarrow> (Inl e, g1\<lparr>g_store := s'\<rparr>)
          | (Inr hash, s') \<Rightarrow>
              let g2 = g1\<lparr>g_store := s'\<rparr> in
              if hash = [] then (Inr (d\<lparr>d_err := Some No_pin_set\<rparr>), g2)
              else case valid_ticket cr (rq_ticket req) (clk 0) of
                Some expiry \<Rightarrow> (Inr (d\<lparr>d_unlocked := True, d_expires_at := expiry\<rparr>), g2)
              | None \<Rightarrow>
                  if rq_pin req = [] then (Inr d, g2)
                  else case verify_pin cr (\<lambda>n. fl (n + 4)) (\<lambda>n. clk (n + 1)) db
                              (rq_identity req) (rq_pin req) g2 of
                    (Some e, g3) \<Rightarrow> (Inr (d\<lparr>d_err := Some e\<rparr>), g3)
                  | (None, g3) \<Rightarrow> (Inr (d\<lparr>d_unlocked := True\<rparr>), g3))"

definition allows :: "decision \<Rightarrow> sset \<Rightarrow> bool" where
  "allows d sections =
     (if \<not> d_enforcing d \<or> set_len sections = 0 then True
      else if \<not> set_intersects (d_locked d) sections then True
      else d_unlocked d)"

fun first_in :: "section_id list \<Rightarrow> sset \<Rightarrow> section_id" where
  "first_in [] l = []"
| "first_in (i # is) l = (if set_has l i then i else first_in is l)"

definition first_locked :: "decision \<Rightarrow> sset \<Rightarrow> section_id" where
  "first_locked d sections = first_in (set_sorted sections) (d_locked d)"

section \<open>The checks of the inner layers\<close>

text \<open>The decision and the identity in the request context; a \<open>None\<close> is their absence.\<close>

record ctx =
  cx_decision :: "decision option"
  cx_identity :: gostring

definition with_decision :: "decision \<Rightarrow> ctx \<Rightarrow> ctx" where
  "with_decision d c = c\<lparr>cx_decision := Some d\<rparr>"

definition with_identity :: "gostring \<Rightarrow> ctx \<Rightarrow> ctx" where
  "with_identity i c = c\<lparr>cx_identity := i\<rparr>"

definition identity_from :: "ctx \<Rightarrow> gostring option" where
  "identity_from c = (if cx_identity c = [] then None else Some (cx_identity c))"

text \<open>\<open>False\<close> is \<open>ErrSectionLocked\<close>.\<close>

definition require_section :: "ctx \<Rightarrow> section_id \<Rightarrow> bool" where
  "require_section c i =
     (case cx_decision c of None \<Rightarrow> True | Some d \<Rightarrow> if allows d (new_set [i]) then True else False)"

definition require_adult :: "ctx \<Rightarrow> bool" where
  "require_adult c = require_section c section_adult_content"

definition require_mode :: "ctx \<Rightarrow> gostring \<Rightarrow> bool" where
  "require_mode c m = (if m \<noteq> ''adult'' then True else require_adult c)"

section \<open>The gate's invariant, and verification without a memo\<close>

text \<open>The keyed hash and the fingerprint are collision free, and no fingerprint is empty.\<close>

definition collision_free :: "crypto \<Rightarrow> bool" where
  "collision_free cr \<longleftrightarrow> inj (cr_memo_key cr) \<and> inj (cr_hash_fp cr) \<and> (\<forall>h. cr_hash_fp cr h \<noteq> [])"

definition memo_ok :: "crypto \<Rightarrow> gate \<Rightarrow> bool" where
  "memo_ok cr g \<longleftrightarrow> (\<forall>pin hash. map_of (g_memo g) (cr_memo_key cr pin) = Some (cr_hash_fp cr hash) \<longrightarrow>
     hash \<noteq> [] \<and> cr_bcrypt_cmp cr hash pin)"

definition gate_ok :: "crypto \<Rightarrow> settings_db \<Rightarrow> gate \<Rightarrow> bool" where
  "gate_ok cr db g \<longleftrightarrow> coherent db (g_store g) \<and> lockout_ok (g_lockout g) \<and> memo_ok cr g"

definition verify_ref ::
  "crypto \<Rightarrow> clock \<Rightarrow> gostring \<Rightarrow> gostring \<Rightarrow> gostring \<Rightarrow> lockout \<Rightarrow> gate_error option \<times> lockout" where
  "verify_ref cr clk stored identity pin l =
     (if pin = [] then (Some No_pin_presented, l)
      else if refused l identity (clk 0) then (Some (Locked_out (fst (locked l identity (clk 0)))), l)
      else if stored = [] then (Some No_pin_set, l)
      else if cr_bcrypt_cmp cr stored pin then (None, reset l identity)
      else (Some Wrong_pin, fail l identity (clk 1)))"

lemma memo_hit_iff:
  assumes "collision_free cr"
  shows "memo_hit cr g pin (cr_hash_fp cr hash) \<longleftrightarrow>
    map_of (g_memo g) (cr_memo_key cr pin) = Some (cr_hash_fp cr hash)"
proof -
  have ne: "cr_hash_fp cr hash \<noteq> []" using assms unfolding collision_free_def by blast
  show ?thesis
  proof (cases "map_of (g_memo g) (cr_memo_key cr pin)")
    case None
    then show ?thesis using ne [symmetric] by (simp add: memo_hit_def)
  qed (simp add: memo_hit_def)
qed

lemma memo_hit_sound:
  "collision_free cr \<Longrightarrow> memo_ok cr g \<Longrightarrow> memo_hit cr g pin (cr_hash_fp cr hash) \<Longrightarrow>
     hash \<noteq> [] \<and> cr_bcrypt_cmp cr hash pin"
  by (simp add: memo_hit_iff memo_ok_def)

lemma memo_ok_put:
  assumes "collision_free cr" and "memo_ok cr g" and "hash \<noteq> []" and "cr_bcrypt_cmp cr hash pin"
  shows "memo_ok cr (memo_put cr pin (cr_hash_fp cr hash) g)"
  using assms
  by (auto simp: memo_ok_def memo_put_def Let_def go_map collision_free_def inj_eq split: if_splits)

lemma memo_put_frame [simp]:
  "g_store (memo_put cr pin fp g) = g_store g" "g_lockout (memo_put cr pin fp g) = g_lockout g"
  "g_epoch (memo_put cr pin fp g) = g_epoch g"
  by (simp_all add: memo_put_def Let_def)

lemma memo_ok_cong: "g_memo g = g_memo g' \<Longrightarrow> memo_ok cr g = memo_ok cr g'"
  by (simp add: memo_ok_def)

lemma gate_ok_store:
  "gate_ok cr db g \<Longrightarrow> coherent db s \<Longrightarrow> gate_ok cr db (g\<lparr>g_store := s\<rparr>)"
  by (auto simp: gate_ok_def memo_ok_def)

lemma gate_ok_lockout:
  "gate_ok cr db g \<Longrightarrow> lockout_ok l \<Longrightarrow> gate_ok cr db (g\<lparr>g_lockout := l\<rparr>)"
  by (auto simp: gate_ok_def memo_ok_def)

lemma gate_ok_memo_put:
  "collision_free cr \<Longrightarrow> gate_ok cr db g \<Longrightarrow> hash \<noteq> [] \<Longrightarrow> cr_bcrypt_cmp cr hash pin \<Longrightarrow>
     gate_ok cr db (memo_put cr pin (cr_hash_fp cr hash) g)"
  by (simp add: gate_ok_def memo_ok_put)

lemma gate_ok_new: "coherent db s \<Longrightarrow> gate_ok cr db (new_gate s)"
  by (simp add: gate_ok_def new_gate_def memo_ok_def)

lemma coherent_cases:
  assumes "coherent db s" and "\<not> (f1 \<and> f2)"
  obtains s' where "pin_hash f1 f2 db s = (Inr (stored_pin db), s')" "coherent db s'"
  using pin_hash_eq [OF assms(1), of f1 f2] coherent_pin_hash [OF assms(1), of f1 f2] assms(2)
  by (cases "st_pin_hash_cached s") auto

lemma verify_end_ref:
  assumes "collision_free cr" and "gate_ok cr db g" and "hash \<noteq> []"
  shows "\<exists>g'. verify_end cr now i pin hash g =
      ((if cr_bcrypt_cmp cr hash pin then None else Some Wrong_pin), g') \<and>
    g_lockout g' = (if cr_bcrypt_cmp cr hash pin then reset (g_lockout g) i else fail (g_lockout g) i now) \<and>
    gate_ok cr db g' \<and> g_epoch g' = g_epoch g"
proof -
  have l: "lockout_ok (g_lockout g)" using assms(2) by (simp add: gate_ok_def)
  show ?thesis
  proof (cases "memo_hit cr g pin (cr_hash_fp cr hash)")
    case True
    then have "cr_bcrypt_cmp cr hash pin"
      using memo_hit_sound [OF assms(1) _ True] assms(2) by (simp add: gate_ok_def)
    then show ?thesis using True gate_ok_lockout [OF assms(2) lockout_ok_reset [OF l]]
      by (simp add: verify_end_def Let_def)
  next
    case False
    show ?thesis
    proof (cases "cr_bcrypt_cmp cr hash pin")
      case True
      then show ?thesis using False assms(3) lockout_ok_reset [OF l]
          gate_ok_lockout [OF gate_ok_memo_put [OF assms True]]
        by (simp add: verify_end_def Let_def verify_pin_hash_def)
    next
      case bad: False
      then show ?thesis using False assms(3) gate_ok_lockout [OF assms(2) lockout_ok_fail [OF l]]
        by (simp add: verify_end_def Let_def verify_pin_hash_def)
    qed
  qed
qed

lemma locked_refused: "locked l i t = (r, b) \<Longrightarrow> b = refused l i t"
  by (simp add: refused_def)

lemma verify_pin_ref:
  assumes "collision_free cr" and "gate_ok cr db g" and "\<not> (fl 0 \<and> fl 1)"
  shows "\<exists>g'. verify_pin cr fl clk db i pin g =
      (fst (verify_ref cr clk (stored_pin db) i pin (g_lockout g)), g') \<and>
    g_lockout g' = snd (verify_ref cr clk (stored_pin db) i pin (g_lockout g)) \<and>
    gate_ok cr db g' \<and> g_epoch g' = g_epoch g"
proof -
  have c: "coherent db (g_store g)" using assms(2) by (simp add: gate_ok_def)
  obtain s' where s': "pin_hash (fl 0) (fl 1) db (g_store g) = (Inr (stored_pin db), s')" "coherent db s'"
    using coherent_cases [OF c assms(3)] by blast
  obtain retry b where lk: "locked (g_lockout g) i (clk 0) = (retry, b)" by fastforce
  note b = locked_refused [OF lk]
  let ?g = "g\<lparr>g_store := s'\<rparr>"
  have ok: "gate_ok cr db ?g" using gate_ok_store [OF assms(2) s'(2)] .
  show ?thesis
  proof (cases "pin = [] \<or> b \<or> stored_pin db = []")
    case True
    then show ?thesis using s' lk b ok assms(2)
      by (auto simp: verify_pin_def verify_begin_def verify_ref_def)
  next
    case False
    then have "verify_pin cr fl clk db i pin g = verify_end cr (clk 1) i pin (stored_pin db) ?g"
      using s' lk by (simp add: verify_pin_def verify_begin_def)
    then show ?thesis using verify_end_ref [OF assms(1) ok, of "stored_pin db" "clk 1" i pin] False b
      by (auto simp: verify_ref_def)
  qed
qed

section \<open>What a decision amounts to\<close>

text \<open>The credential alone: a live ticket, or a PIN that verifies; and the counter it leaves.\<close>

definition credential ::
  "crypto \<Rightarrow> clock \<Rightarrow> settings_db \<Rightarrow> gate_request \<Rightarrow> lockout \<Rightarrow> bool" where
  "credential cr clk db req l \<longleftrightarrow> stored_pin db \<noteq> [] \<and>
     (valid_ticket cr (rq_ticket req) (clk 0) \<noteq> None \<or>
      fst (verify_ref cr (\<lambda>n. clk (n + 1)) (stored_pin db) (rq_identity req) (rq_pin req) l) = None)"

definition counter_after ::
  "crypto \<Rightarrow> clock \<Rightarrow> settings_db \<Rightarrow> gate_request \<Rightarrow> sset \<Rightarrow> lockout \<Rightarrow> lockout" where
  "counter_after cr clk db req ids l =
     (if ids = [] \<or> valid_ticket cr (rq_ticket req) (clk 0) \<noteq> None then l
      else snd (verify_ref cr (\<lambda>n. clk (n + 1)) (stored_pin db) (rq_identity req) (rq_pin req) l))"

lemma allows_iff:
  "allows d S \<longleftrightarrow> \<not> d_enforcing d \<or> set (d_locked d) \<inter> set S = {} \<or> d_unlocked d"
  by (auto simp: allows_def set_intersects_iff set_len_def)

lemma coherent_sections_cases:
  assumes "coherent db s" and "\<not> (f1 \<and> f2)"
  obtains s' where "locked_sections f1 f2 db s = (stored_sections db, s')" "coherent db s'"
  using locked_sections_eq [OF assms(1), of f1 f2] coherent_locked_sections [OF assms(1), of f1 f2] assms(2)
  by (cases "locked_sections f1 f2 db s") (auto split: if_splits sum.splits)

definition no_double_fault :: "faults \<Rightarrow> bool" where
  "no_double_fault fl \<longleftrightarrow> (\<forall>n. \<not> (fl n \<and> fl (Suc n)))"

lemma verify_ref_empty:
  "snd (verify_ref cr clk [] i pin l) = l" "fst (verify_ref cr clk [] i pin l) \<noteq> None"
  by (simp_all add: verify_ref_def)

lemma decide_spec:
  assumes "collision_free cr" and "gate_ok cr db g" and "no_double_fault fl" and "rq_enforcing req"
    and ids: "stored_sections db = Inr ids"
  shows "\<exists>d g'. decide cr fl clk db req g = (Inr d, g') \<and> d_enforcing d \<and> d_locked d = ids \<and>
    d_unlocked d = (ids \<noteq> [] \<and> credential cr clk db req (g_lockout g)) \<and> d_epoch d = g_epoch g \<and>
    d_expires_at d = (if ids = [] \<or> stored_pin db = [] then zero_time
       else case valid_ticket cr (rq_ticket req) (clk 0) of None \<Rightarrow> zero_time | Some x \<Rightarrow> x) \<and>
    g_lockout g' = counter_after cr clk db req ids (g_lockout g) \<and>
    gate_ok cr db g' \<and> g_epoch g' = g_epoch g"
proof -
  have nf: "\<not> (fl 0 \<and> fl 1)" "\<not> (fl 2 \<and> fl 3)" "\<not> (fl (0 + 4) \<and> fl (1 + 4))"
    using assms(3) unfolding no_double_fault_def
    by (auto dest: spec [of _ 0] spec [of _ 2] spec [of _ 4] simp: eval_nat_numeral)
  have c: "coherent db (g_store g)" using assms(2) by (simp add: gate_ok_def)
  obtain s1 where s1: "locked_sections (fl 0) (fl 1) db (g_store g) = (Inr ids, s1)" "coherent db s1"
    using coherent_sections_cases [OF c nf(1)] ids by metis
  have ok1: "gate_ok cr db (g\<lparr>g_store := s1\<rparr>)" using gate_ok_store [OF assms(2) s1(2)] .
  show ?thesis
  proof (cases "ids = []")
    case True
    then show ?thesis using assms(4) s1 ok1
      by (simp add: decide_def set_len_def zero_decision_def counter_after_def)
  next
    case ids_ne: False
    obtain s2 where s2: "pin_hash (fl 2) (fl 3) db s1 = (Inr (stored_pin db), s2)" "coherent db s2"
      using coherent_cases [OF s1(2) nf(2)] by blast
    let ?g2 = "g\<lparr>g_store := s2\<rparr>"
    have ok2: "gate_ok cr db ?g2" using gate_ok_store [OF assms(2) s2(2)] .
    let ?clk = "\<lambda>n. clk (n + 1)"
    let ?v = "verify_ref cr ?clk (stored_pin db) (rq_identity req) (rq_pin req) (g_lockout g)"
    obtain g3 where g3: "verify_pin cr (\<lambda>n. fl (n + 4)) ?clk db (rq_identity req) (rq_pin req) ?g2 = (fst ?v, g3)"
      "g_lockout g3 = snd ?v" "gate_ok cr db g3" "g_epoch g3 = g_epoch g"
      using verify_pin_ref [OF assms(1) ok2 nf(3), of ?clk "rq_identity req" "rq_pin req"] by auto
    note defs = decide_def credential_def counter_after_def zero_decision_def set_len_def Let_def
    consider (none) "stored_pin db = []"
      | (ticket) x where "stored_pin db \<noteq> []" "valid_ticket cr (rq_ticket req) (clk 0) = Some x"
      | (nopin) "stored_pin db \<noteq> []" "valid_ticket cr (rq_ticket req) (clk 0) = None" "rq_pin req = []"
      | (pin) "stored_pin db \<noteq> []" "valid_ticket cr (rq_ticket req) (clk 0) = None" "rq_pin req \<noteq> []"
      by blast
    then show ?thesis
    proof cases
      case none
      then show ?thesis using assms(4) s1(1) s2(1) ids_ne ok2 verify_ref_empty
        by (auto simp: defs)
    next
      case ticket
      then show ?thesis using assms(4) s1(1) s2(1) ids_ne ok2 by (simp add: defs)
    next
      case nopin
      then show ?thesis using assms(4) s1(1) s2(1) ids_ne ok2 by (simp add: defs verify_ref_def)
    next
      case pin
      then show ?thesis using assms(4) s1(1) s2(1) ids_ne g3
        by (cases "fst ?v") (simp_all add: defs)
    qed
  qed
qed

section \<open>Properties\<close>

text \<open>
  C3. The memo changes nothing but the cost. On a gate in its invariant, verifying a PIN gives
  the verdict and leaves the counter that verification without a memo, against the stored hash
  of this moment, gives and leaves; and the invariant is kept. The keyed hash and the
  fingerprint are assumed collision free.
\<close>

theorem verify_matches_reference:
  assumes "collision_free cr" and "gate_ok cr db g" and "\<not> (fl 0 \<and> fl 1)"
  shows "(case verify_pin cr fl clk db i pin g of
      (r, g') \<Rightarrow> (r, g_lockout g') = verify_ref cr clk (stored_pin db) i pin (g_lockout g) \<and>
        gate_ok cr db g')"
  using verify_pin_ref [OF assms, of clk i pin] by auto

text \<open>A crypto for the witnesses: identity hashes, and a PIN that matches its own hash only.\<close>

definition demo_crypto :: crypto where
  "demo_crypto = \<lparr>cr_bcrypt_gen = Some, cr_bcrypt_cmp = (\<lambda>h p. h = p), cr_memo_key = (\<lambda>p. p),
     cr_hash_fp = (\<lambda>h. CHR ''f'' # h),
     cr_enc = encrypt_with_aad demo_seal (Some ''nonce-12byte''), cr_dec = decrypt_with_aad demo_open\<rparr>"

lemma demo_collision_free: "collision_free demo_crypto"
  by (auto simp: collision_free_def demo_crypto_def inj_def)

definition demo_db :: settings_db where
  "demo_db = [pin_hash_key \<mapsto> ''482913'', sections_key \<mapsto> marshal_strings [''queue'']]"

lemma demo_stored: "stored_pin demo_db = ''482913''" "stored_sections demo_db = Inr [''queue'']"
proof -
  show "stored_pin demo_db = ''482913''" by code_simp
  have "new_set [''queue''] = [''queue'']" by code_simp
  then show "stored_sections demo_db = Inr [''queue'']"
    unfolding demo_db_def stored_upd by simp
qed

lemma demo_gate_ok: "gate_ok demo_crypto db (new_gate new_store)"
  by (simp add: gate_ok_new)

theorem verify_matches_reference_witness:
  "fst (verify_pin demo_crypto (\<lambda>_. False) (\<lambda>_. 0) demo_db ''ip:1'' ''111111'' (new_gate new_store)) = Some Wrong_pin"
proof -
  have r: "refused new_lockout ''ip:1'' 0 = False" by code_simp
  show ?thesis
    using verify_matches_reference [OF demo_collision_free demo_gate_ok, where fl = "\<lambda>_. False"
        and db = demo_db and clk = "\<lambda>_. 0" and i = "''ip:1''" and pin = "''111111''"]
    by (auto simp: demo_stored verify_ref_def new_gate_def r demo_crypto_def)
qed

text \<open>
  The lockout is checked first. While an identity is refused, a presented PIN is answered
  with the lockout whatever it is and whatever the memo holds, and changes nothing: neither the
  counter nor the memo nor the cache. A request without a PIN changes nothing either and is not
  a failure.
\<close>

theorem lockout_before_memo:
  assumes "refused (g_lockout g) i (clk 0)" and "pin \<noteq> []"
  shows "(\<exists>r. verify_pin cr fl clk db i pin g = (Some (Locked_out r), g) \<and> 0 < r) \<and>
    verify_pin cr fl clk db i [] g = (Some No_pin_presented, g)"
  using assms
  by (auto simp: verify_pin_def verify_begin_def refused_def locked_def Let_def
      split: option.splits if_splits)

theorem lockout_before_memo_witness:
  "(let g = (new_gate new_store)\<lparr>g_lockout := foldl (\<lambda>l t. fail l ''ip:1'' t) new_lockout [1, 2, 3, 4, 5],
        g_memo := [(''482913'', ''f482913'')]\<rparr>
    in \<exists>r. verify_pin demo_crypto (\<lambda>_. False) (\<lambda>_. 6) demo_db ''ip:1'' ''482913'' g = (Some (Locked_out r), g))"
proof -
  let ?g = "(new_gate new_store)\<lparr>g_lockout := foldl (\<lambda>l t. fail l ''ip:1'' t) new_lockout [1, 2, 3, 4, 5],
        g_memo := [(''482913'', ''f482913'')]\<rparr>"
  have "refused (foldl (\<lambda>l t. fail l ''ip:1'' t) new_lockout [1, 2, 3, 4, 5]) ''ip:1'' 6" by code_simp
  then have "refused (g_lockout ?g) ''ip:1'' ((\<lambda>_. 6) 0)" by simp
  then show ?thesis unfolding Let_def
    using lockout_before_memo [where g = ?g and i = "''ip:1''" and clk = "\<lambda>_. 6" and pin = "''482913''"
        and cr = demo_crypto and fl = "\<lambda>_. False" and db = demo_db]
    by blast
qed

text \<open>
  The policy of the gate. With a readable configuration, an enforced request is allowed into
  a set of sections if and only if none of them is locked, or a PIN exists and the request
  carries a live ticket or a PIN that verifies for its identity. A live ticket needs no PIN and
  is not held up by the lockout; one credential opens every locked section; and the counter
  moves only when something is locked, no ticket is live and a PIN was presented.
\<close>

theorem decide_policy:
  assumes "collision_free cr" and "gate_ok cr db g" and "no_double_fault fl" and "rq_enforcing req"
    and "stored_sections db = Inr ids"
  shows "\<exists>d g'. decide cr fl clk db req g = (Inr d, g') \<and> gate_ok cr db g' \<and>
    (\<forall>S. allows d S = (set ids \<inter> set S = {} \<or> (stored_pin db \<noteq> [] \<and>
       (valid_ticket cr (rq_ticket req) (clk 0) \<noteq> None \<or>
        fst (verify_ref cr (\<lambda>n. clk (n + 1)) (stored_pin db) (rq_identity req) (rq_pin req) (g_lockout g)) = None)))) \<and>
    (g_lockout g' \<noteq> g_lockout g \<longrightarrow> ids \<noteq> [] \<and> rq_pin req \<noteq> [] \<and> stored_pin db \<noteq> [] \<and>
       valid_ticket cr (rq_ticket req) (clk 0) = None \<and>
       \<not> refused (g_lockout g) (rq_identity req) (clk 1))"
proof -
  obtain d g' where d: "decide cr fl clk db req g = (Inr d, g')" "d_enforcing d" "d_locked d = ids"
    "d_unlocked d = (ids \<noteq> [] \<and> credential cr clk db req (g_lockout g))"
    "g_lockout g' = counter_after cr clk db req ids (g_lockout g)" "gate_ok cr db g'"
    using decide_spec [OF assms] by blast
  have "allows d S = (set ids \<inter> set S = {} \<or> credential cr clk db req (g_lockout g))" for S
    using d by (auto simp: allows_iff)
  moreover have "g_lockout g' \<noteq> g_lockout g \<longrightarrow> ids \<noteq> [] \<and> rq_pin req \<noteq> [] \<and> stored_pin db \<noteq> [] \<and>
      valid_ticket cr (rq_ticket req) (clk 0) = None \<and> \<not> refused (g_lockout g) (rq_identity req) (clk 1)"
    unfolding d(5) by (auto simp: counter_after_def verify_ref_def)
  ultimately show ?thesis using d(1,6) unfolding credential_def by blast
qed

theorem decide_policy_witness:
  "(\<exists>d g'. decide demo_crypto (\<lambda>_. False) (\<lambda>_. 0) demo_db
       \<lparr>rq_enforcing = True, rq_ticket = [], rq_pin = ''482913'', rq_identity = ''ip:1''\<rparr>
       (new_gate new_store) = (Inr d, g') \<and> allows d [''queue''])"
proof -
  let ?q = "\<lparr>rq_enforcing = True, rq_ticket = [], rq_pin = ''482913'', rq_identity = ''ip:1''\<rparr>"
  have r: "refused new_lockout ''ip:1'' 0 = False" by code_simp
  have n: "no_double_fault (\<lambda>_. False)" by (simp add: no_double_fault_def)
  show ?thesis
    using decide_policy [OF demo_collision_free demo_gate_ok n, where req = ?q and db = demo_db
        and ids = "[''queue'']" and clk = "\<lambda>_. 0"]
    by (auto simp: demo_stored verify_ref_def new_gate_def r demo_crypto_def)
qed

text \<open>What a verification that succeeds has established, whatever database calls fail.\<close>

lemma pin_hash_result:
  "coherent db s \<Longrightarrow> pin_hash f1 f2 db s = (r, s') \<Longrightarrow>
     coherent db s' \<and> (\<forall>h. r = Inr h \<longrightarrow> h = stored_pin db)"
  using coherent_pin_hash [of db s f1 f2] by (auto simp: pin_hash_eq split: if_splits)

lemma verify_success:
  assumes "collision_free cr" and "gate_ok cr db g" and "verify_pin cr fl clk db i pin g = (None, g')"
  shows "pin \<noteq> [] \<and> \<not> refused (g_lockout g) i (clk 0) \<and> stored_pin db \<noteq> [] \<and> cr_bcrypt_cmp cr (stored_pin db) pin"
proof -
  have c: "coherent db (g_store g)" using assms(2) by (simp add: gate_ok_def)
  obtain r s' where ph: "pin_hash (fl 0) (fl 1) db (g_store g) = (r, s')" by fastforce
  note pr = pin_hash_result [OF c ph]
  obtain retry b where lk: "locked (g_lockout g) i (clk 0) = (retry, b)" by fastforce
  have np: "pin \<noteq> []" "\<not> b" "\<exists>h. r = Inr h \<and> h \<noteq> []"
    using assms(3) ph lk by (auto simp: verify_pin_def verify_begin_def Let_def split: if_splits sum.splits)
  then have r: "r = Inr (stored_pin db)" "stored_pin db \<noteq> []" using pr by auto
  have "verify_end cr (clk 1) i pin (stored_pin db) (g\<lparr>g_store := s'\<rparr>) = (None, g')"
    using assms(3) ph lk np r by (simp add: verify_pin_def verify_begin_def)
  moreover have "gate_ok cr db (g\<lparr>g_store := s'\<rparr>)" using gate_ok_store [OF assms(2)] pr by blast
  ultimately have "cr_bcrypt_cmp cr (stored_pin db) pin"
    using verify_end_ref [OF assms(1) _ r(2), of db "g\<lparr>g_store := s'\<rparr>" "clk 1" i pin]
    by (auto split: if_splits)
  then show ?thesis using np r locked_refused [OF lk] by simp
qed

lemma decide_fails_closed_core:
  assumes "collision_free cr" and "gate_ok cr db g" and "rq_enforcing req"
    and "decide cr fl clk db req g = (Inr d, g')" and "allows d S"
  shows "stored_sections db = Inr (d_locked d) \<and>
    (set (d_locked d) \<inter> set S = {} \<or> stored_pin db \<noteq> [] \<and>
       (valid_ticket cr (rq_ticket req) (clk 0) \<noteq> None \<or>
        \<not> refused (g_lockout g) (rq_identity req) (clk 1) \<and> cr_bcrypt_cmp cr (stored_pin db) (rq_pin req)))"
proof -
  have c: "coherent db (g_store g)" using assms(2) by (simp add: gate_ok_def)
  obtain r1 s1 where ls: "locked_sections (fl 0) (fl 1) db (g_store g) = (r1, s1)" by fastforce
  obtain ids where r1: "r1 = Inr ids"
    using assms(3,4) ls by (auto simp: decide_def split: sum.splits)
  have s1: "stored_sections db = Inr ids" "coherent db s1"
    using ls r1 locked_sections_eq [OF c, of "fl 0" "fl 1"] coherent_locked_sections [OF c, of "fl 0" "fl 1"]
    by (auto split: if_splits sum.splits)
  obtain r2 s2 where ph: "pin_hash (fl 2) (fl 3) db s1 = (r2, s2)" by fastforce
  note pr = pin_hash_result [OF s1(2) ph]
  have ok2: "gate_ok cr db (g\<lparr>g_store := s2\<rparr>)" using gate_ok_store [OF assms(2)] pr by blast
  note vs = verify_success [OF assms(1) ok2, of "\<lambda>n. fl (n + 4)" "\<lambda>n. clk (n + 1)"]
  let ?v = "verify_pin cr (\<lambda>n. fl (n + 4)) (\<lambda>n. clk (n + 1)) db (rq_identity req) (rq_pin req)
    (g\<lparr>g_store := s2\<rparr>)"
  let ?ok = "stored_pin db \<noteq> [] \<and> (valid_ticket cr (rq_ticket req) (clk 0) \<noteq> None \<or>
      \<not> refused (g_lockout g) (rq_identity req) (clk 1) \<and> cr_bcrypt_cmp cr (stored_pin db) (rq_pin req))"
  note defs = decide_def zero_decision_def set_len_def Let_def
  have "d_locked d = ids \<and> d_enforcing d \<and> (d_unlocked d \<longrightarrow> ?ok)"
  proof (cases "ids = []")
    case True
    then show ?thesis using assms(3,4) ls r1 by (auto simp: defs)
  next
    case ne: False
    obtain h where h: "r2 = Inr h"
      using assms(3,4) ls r1 ph ne by (cases r2) (simp_all add: defs)
    show ?thesis
    proof (cases "h = []")
      case True
      then show ?thesis using assms(3,4) ls r1 ph ne h by (auto simp: defs)
    next
      case hne: False
      have st: "stored_pin db \<noteq> []" using pr h hne by simp
      show ?thesis
      proof (cases "valid_ticket cr (rq_ticket req) (clk 0)")
        case (Some x)
        then show ?thesis using assms(3,4) ls r1 ph ne h hne st by (auto simp: defs)
      next
        case None
        obtain r3 g3 where v: "?v = (r3, g3)" by fastforce
        then have "r3 = None \<Longrightarrow> ?ok" using vs [of "rq_identity req" "rq_pin req" g3] by simp
        then show ?thesis using assms(3,4) ls r1 ph ne h hne None v
          by (cases "rq_pin req = []"; cases r3) (auto simp: defs)
      qed
    qed
  qed
  then have dl: "d_locked d = ids" "d_enforcing d" "d_unlocked d \<Longrightarrow> ?ok" by blast+
  then show ?thesis using assms(5) dl s1 by (auto simp: allows_iff)
qed

text \<open>
  C2. The gate fails closed. Whatever database calls fail and whatever is stored, an enforced
  request that is allowed into a set of sections was decided on the stored set of locked
  sections, and either touches none of them or presented a live ticket or the PIN of this moment
  while not refused; with locked sections and no PIN nothing is allowed into them; and a stored
  set that does not decode is an error for every request.
\<close>

theorem decide_fails_closed:
  assumes "collision_free cr" and "gate_ok cr db g" and "rq_enforcing req"
    and "decide cr fl clk db req g = (Inr d, g')" and "allows d S"
  shows "stored_sections db = Inr (d_locked d) \<and>
    (set (d_locked d) \<inter> set S = {} \<or> stored_pin db \<noteq> [] \<and>
       (valid_ticket cr (rq_ticket req) (clk 0) \<noteq> None \<or>
        \<not> refused (g_lockout g) (rq_identity req) (clk 1) \<and> cr_bcrypt_cmp cr (stored_pin db) (rq_pin req)))"
  using decide_fails_closed_core [OF assms] .

theorem decide_fails_closed_witness:
  "(\<exists>d g'. decide demo_crypto (\<lambda>_. False) (\<lambda>_. 0) demo_db
       \<lparr>rq_enforcing = True, rq_ticket = [], rq_pin = [], rq_identity = ''ip:1''\<rparr>
       (new_gate new_store) = (Inr d, g') \<and> allows d [''settings''] \<and> d_locked d = [''queue''] \<and>
       \<not> allows d [''queue''])"
proof -
  let ?q = "\<lparr>rq_enforcing = True, rq_ticket = [], rq_pin = [], rq_identity = ''ip:1''\<rparr>"
  have n: "no_double_fault (\<lambda>_. False)" and e: "rq_enforcing ?q" by (simp_all add: no_double_fault_def)
  obtain d g' where d: "decide demo_crypto (\<lambda>_. False) (\<lambda>_. 0) demo_db ?q (new_gate new_store) = (Inr d, g')"
    "d_locked d = [''queue'']" "d_enforcing d" "\<not> d_unlocked d"
    using decide_spec [OF demo_collision_free demo_gate_ok n e demo_stored(2), of "\<lambda>_. 0"]
    by (auto simp: credential_def valid_ticket_def validate_ticket_at_def verify_ref_def)
  then have "allows d [''settings'']" "\<not> allows d [''queue'']" by (simp_all add: allows_iff)
  then show ?thesis
    using decide_fails_closed [OF demo_collision_free demo_gate_ok e d(1)] d(1,2) by auto
qed

text \<open>
  A PIN change takes effect at once. Right after it, however warm the memo is, the old PIN
  is a wrong PIN (and counts as one) and the new one verifies, for every identity that is not
  refused.
\<close>

theorem pin_change_immediate:
  assumes "collision_free cr" and "gate_ok cr db g" and "\<not> (fl 0 \<and> fl 1)"
    and "6 \<le> length new" and "cr_bcrypt_gen cr new = Some h" and "trim_space h = h" and "h \<noteq> []"
    and "cr_bcrypt_cmp cr h new" and "\<not> cr_bcrypt_cmp cr h old" and "old \<noteq> []"
    and "\<not> refused (g_lockout g) i (clk 0)"
  shows "(case set_pin (cr_bcrypt_gen cr) False new db (g_store g) of
      (r, db', s') \<Rightarrow>
        r = None \<and>
        fst (verify_pin cr fl clk db' i old (g\<lparr>g_store := s'\<rparr>)) = Some Wrong_pin \<and>
        fst (verify_pin cr fl clk db' i new (g\<lparr>g_store := s'\<rparr>)) = None)"
proof -
  let ?db = "db(pin_hash_key \<mapsto> h)"
  let ?g = "g\<lparr>g_store := invalidate_pin (g_store g)\<rparr>"
  have sp: "set_pin (cr_bcrypt_gen cr) False new db (g_store g) = (None, ?db, invalidate_pin (g_store g))"
    using assms(4,5) by (simp add: set_pin_def min_pin_length_def settings_set_def)
  have c: "coherent db (g_store g)" using assms(2) by (simp add: gate_ok_def)
  have ok: "gate_ok cr ?db ?g"
    using coherent_set_pin [OF c sp] assms(2) by (simp add: gate_ok_def memo_ok_def)
  have st: "stored_pin ?db = h" by (simp add: assms(6))
  have new: "new \<noteq> []" using assms(4) by auto
  show ?thesis
    using verify_pin_ref [OF assms(1) ok assms(3), of clk i old]
      verify_pin_ref [OF assms(1) ok assms(3), of clk i new] assms new
    by (auto simp: sp st verify_ref_def)
qed

theorem pin_change_immediate_witness:
  "(let g = snd (verify_pin demo_crypto (\<lambda>_. False) (\<lambda>_. 0) demo_db ''ip:1'' ''482913'' (new_gate new_store)) in
      case set_pin Some False ''777777'' demo_db (g_store g) of
        (r, db', s') \<Rightarrow> fst (verify_pin demo_crypto (\<lambda>_. False) (\<lambda>_. 0) db' ''ip:1'' ''482913'' (g\<lparr>g_store := s'\<rparr>)) = Some Wrong_pin)"
proof -
  obtain r g where v: "verify_pin demo_crypto (\<lambda>_. False) (\<lambda>_. 0) demo_db ''ip:1'' ''482913'' (new_gate new_store) = (r, g)"
    by fastforce
  have rf: "refused new_lockout ''ip:1'' 0 = False" by code_simp
  have g: "gate_ok demo_crypto demo_db g" "g_lockout g = reset new_lockout ''ip:1''"
    using verify_pin_ref [OF demo_collision_free demo_gate_ok, where fl = "\<lambda>_. False" and db = demo_db
        and clk = "\<lambda>_. 0" and i = "''ip:1''" and pin = "''482913''"] v
    by (auto simp: demo_stored verify_ref_def new_gate_def rf demo_crypto_def)
  have "\<not> refused (g_lockout g) ''ip:1'' 0" unfolding g(2) by (simp add: refused_reset)
  moreover have "trim_space ''777777'' = ''777777''" by code_simp
  ultimately show ?thesis
    using pin_change_immediate [OF demo_collision_free g(1), where fl = "\<lambda>_. False" and clk = "\<lambda>_. 0"
        and new = "''777777''" and h = "''777777''" and old = "''482913''" and i = "''ip:1''"] v
    by (auto simp: Let_def demo_crypto_def split: prod.splits)
qed

text \<open>Requests that verify a PIN at the same time: all of them begin before any of them ends.\<close>

fun begin_all ::
  "faults \<Rightarrow> gtime \<Rightarrow> settings_db \<Rightarrow> gostring \<Rightarrow> gostring list \<Rightarrow> gate \<Rightarrow>
     (gate_error + gostring) list \<times> gate" where
  "begin_all fl t db i [] g = ([], g)"
| "begin_all fl t db i (p # ps) g =
     (let (r, g1) = verify_begin fl t db i p g; (rs, g2) = begin_all fl t db i ps g1 in (r # rs, g2))"

fun end_all ::
  "crypto \<Rightarrow> gtime \<Rightarrow> gostring \<Rightarrow> gostring list \<Rightarrow> gostring \<Rightarrow> gate \<Rightarrow> gate_error option list \<times> gate" where
  "end_all cr t i [] hash g = ([], g)"
| "end_all cr t i (p # ps) hash g =
     (let (v, g1) = verify_end cr t i p hash g; (vs, g2) = end_all cr t i ps hash g1 in (v # vs, g2))"

lemma begin_all_spec:
  "gate_ok cr db g \<Longrightarrow> \<not> (fl 0 \<and> fl 1) \<Longrightarrow> stored_pin db \<noteq> [] \<Longrightarrow> \<not> refused (g_lockout g) i t \<Longrightarrow> [] \<notin> set ps \<Longrightarrow>
     \<exists>g'. begin_all fl t db i ps g = (map (\<lambda>_. Inr (stored_pin db)) ps, g') \<and> gate_ok cr db g'"
proof (induction ps arbitrary: g)
  case (Cons p ps)
  have c: "coherent db (g_store g)" using Cons.prems(1) by (simp add: gate_ok_def)
  obtain s' where s': "pin_hash (fl 0) (fl 1) db (g_store g) = (Inr (stored_pin db), s')" "coherent db s'"
    using coherent_cases [OF c Cons.prems(2)] by blast
  obtain retry b where lk: "locked (g_lockout g) i t = (retry, b)" by fastforce
  have "p \<noteq> []" using Cons.prems(5) by auto
  then have "verify_begin fl t db i p g = (Inr (stored_pin db), g\<lparr>g_store := s'\<rparr>)"
    using Cons.prems lk locked_refused [OF lk] s' by (simp add: verify_begin_def)
  moreover have "gate_ok cr db (g\<lparr>g_store := s'\<rparr>)" using gate_ok_store [OF Cons.prems(1) s'(2)] .
  moreover have "\<not> refused (g_lockout (g\<lparr>g_store := s'\<rparr>)) i t" using Cons.prems(4) by simp
  ultimately show ?case using Cons.IH [of "g\<lparr>g_store := s'\<rparr>"] Cons.prems by auto
qed simp

lemma end_all_spec:
  "collision_free cr \<Longrightarrow> gate_ok cr db g \<Longrightarrow> hash \<noteq> [] \<Longrightarrow>
     fst (end_all cr t i ps hash g) = map (\<lambda>p. if cr_bcrypt_cmp cr hash p then None else Some Wrong_pin) ps"
proof (induction ps arbitrary: g)
  case (Cons p ps)
  obtain g' where g': "verify_end cr t i p hash g =
      ((if cr_bcrypt_cmp cr hash p then None else Some Wrong_pin), g')" "gate_ok cr db g'"
    using verify_end_ref [OF Cons.prems, of t i p] by blast
  obtain vs g2 where "end_all cr t i ps hash g' = (vs, g2)" by fastforce
  then show ?case using g'(1) Cons.IH [OF Cons.prems(1) g'(2) Cons.prems(3)] by simp
qed simp

text \<open>
  The lockout does not bound guesses made at the same time. The check and the count are
  separate critical sections with the comparison between them, so an identity that is not
  refused has every one of any number of concurrent guesses compared with the stored hash, and
  a right one among them verifies, however many wrong ones there are.
\<close>

theorem concurrent_guesses_unbounded:
  assumes "collision_free cr" and "gate_ok cr db g" and "\<not> (fl 0 \<and> fl 1)" and "stored_pin db \<noteq> []"
    and "\<not> refused (g_lockout g) i t" and "[] \<notin> set ps"
  shows "(case begin_all fl t db i ps g of
      (rs, g') \<Rightarrow> rs = replicate (length ps) (Inr (stored_pin db)) \<and>
        fst (end_all cr t i ps (stored_pin db) g') =
          map (\<lambda>p. if cr_bcrypt_cmp cr (stored_pin db) p then None else Some Wrong_pin) ps)"
  using begin_all_spec [OF assms(2-6)] end_all_spec [OF assms(1) _ assms(4)]
  by (auto simp: map_replicate_const)

theorem concurrent_guesses_unbounded_witness:
  "(case begin_all (\<lambda>_. False) 0 demo_db ''key:1'' (replicate 1000 ''000000'' @ [''482913'']) (new_gate new_store) of
      (rs, g') \<Rightarrow>
        last (fst (end_all demo_crypto 0 ''key:1'' (replicate 1000 ''000000'' @ [''482913'']) ''482913'' g')) = None)"
proof -
  have r: "\<not> refused (g_lockout (new_gate new_store)) ''key:1'' 0" by code_simp
  show ?thesis
    using concurrent_guesses_unbounded [OF demo_collision_free demo_gate_ok, where fl = "\<lambda>_. False"
        and db = demo_db and i = "''key:1''" and t = 0 and ps = "replicate 1000 ''000000'' @ [''482913'']"] r
    by (simp add: demo_stored demo_crypto_def split: prod.splits)
qed

lemma first_in_sorted:
  "sorted xs \<Longrightarrow> set xs \<inter> set l \<noteq> {} \<Longrightarrow>
     first_in xs l \<in> set xs \<inter> set l \<and> (\<forall>y\<in>set xs \<inter> set l. first_in xs l \<le> y)"
  by (induction xs) (auto simp: set_has_def)

text \<open>
  A rejection names a section that is both asked for and locked, and always the least such
  one, whatever order the sets are iterated in.
\<close>

theorem first_locked_least:
  assumes "\<not> allows d S"
  shows "first_locked d S \<in> set S \<inter> set (d_locked d) \<and>
    (\<forall>y\<in>set S \<inter> set (d_locked d). first_locked d S \<le> y)"
  using assms first_in_sorted [of "set_sorted S" "d_locked d"] sort_strings_spec [of S]
  by (auto simp: allows_iff first_locked_def set_sorted_def [symmetric])

theorem first_locked_least_witness:
  "first_locked (zero_decision\<lparr>d_enforcing := True, d_locked := [''queue'', ''adult-content'']\<rparr>)
     [''queue'', ''adult-content''] = ''adult-content''"
proof -
  let ?d = "zero_decision\<lparr>d_enforcing := True, d_locked := [''queue'', ''adult-content'']\<rparr>"
  have "\<not> allows ?d [''queue'', ''adult-content'']" by (simp add: allows_iff zero_decision_def)
  note f = first_locked_least [OF this]
  then have "first_locked ?d [''queue'', ''adult-content''] \<le> ''adult-content''"
    by (simp add: zero_decision_def)
  moreover have "\<not> ''queue'' \<le> ''adult-content''" by code_simp
  ultimately show ?thesis using f by (auto simp: zero_decision_def)
qed

text \<open>
  The inner layers agree with the gate. A request the gate let through on its own path is
  never refused by a check for a section of that path; a check for a section that is not on the
  path, the Adult mode of a row or a body, refuses exactly the enforced requests that are not
  unlocked while that section is locked; without a decision in the context nothing is refused.
\<close>

theorem layers_agree:
  "(allows d S \<and> i \<in> set S \<longrightarrow> require_section (with_decision d c) i) \<and>
   (require_mode (with_decision d c) m \<longleftrightarrow>
      \<not> (m = ''adult'' \<and> d_enforcing d \<and> section_adult_content \<in> set (d_locked d) \<and> \<not> d_unlocked d)) \<and>
   (cx_decision c = None \<longrightarrow> require_section c i \<and> require_mode c m)"
  by (auto simp: require_section_def require_mode_def require_adult_def with_decision_def allows_iff)

theorem layers_agree_witness:
  "require_section (with_decision zero_decision \<lparr>cx_decision = None, cx_identity = []\<rparr>) ''queue''"
  using layers_agree [of zero_decision "[''queue'']" "''queue''" "\<lparr>cx_decision = None, cx_identity = []\<rparr>" "''movies''"]
  by (simp add: allows_iff zero_decision_def)

end
