(* ===== verification/Routes.thy ===== *)
theory Routes
  imports Sections
begin

text \<open>
  \<open>internal/sectionlock/routes.go\<close>: from a request path to the set of sections that
  gate it. \<open>path_clean\<close> is Go's \<open>path.Clean\<close>, which \<open>segments\<close> runs on
  every path before it splits it.
\<close>

section \<open>Cleaning a path\<close>

text \<open>
  \<open>resolve rooted st ws\<close> walks the elements \<open>ws\<close> with the cleaned elements so far
  on the stack \<open>st\<close>, last first: empty and single-dot elements vanish, a dot-dot element pops
  the element before it, is dropped at the root of a rooted path, and is kept in front of an
  unrooted one.
\<close>

fun resolve :: "bool \<Rightarrow> gostring list \<Rightarrow> gostring list \<Rightarrow> gostring list" where
  "resolve rooted st [] = rev st"
| "resolve rooted st (w # ws) =
     (if w = [] \<or> w = ''.'' then resolve rooted st ws
      else if w = ''..'' then
        (case st of
           [] \<Rightarrow> if rooted then resolve rooted [] ws else resolve rooted [''..''] ws
         | t # ts \<Rightarrow> if t = ''..'' then resolve rooted (''..'' # st) ws else resolve rooted ts ws)
      else resolve rooted (w # st) ws)"

definition is_rooted :: "gostring \<Rightarrow> bool" where
  "is_rooted p = has_prefix ''/'' p"

definition path_clean :: "gostring \<Rightarrow> gostring" where
  "path_clean p =
     (let out = join_on (CHR ''/'') (resolve (is_rooted p) [] (split_on (CHR ''/'') p))
      in if is_rooted p then CHR ''/'' # out
         else if out = [] then ''.'' else out)"

definition trim_prefix :: "gostring \<Rightarrow> gostring \<Rightarrow> gostring" where
  "trim_prefix p s = (if has_prefix p s then drop (length p) s else s)"

definition segments :: "gostring \<Rightarrow> gostring list" where
  "segments raw_path =
     (let cleaned = trim_prefix ''/'' (path_clean raw_path)
      in if cleaned = [] \<or> cleaned = ''.'' then [] else split_on (CHR ''/'') cleaned)"

section \<open>Classification\<close>

definition classify_mode_area :: "gostring list \<Rightarrow> sset \<Rightarrow> sset" where
  "classify_mode_area rest1 out =
     (case rest1 of
        [] \<Rightarrow> out
      | a # rest2 \<Rightarrow>
          if a = ''collections'' then set_add out section_collections
          else if a \<in> set [''rename'', ''purge'', ''dedup'', ''proposals''] then
            set_add out section_organize
          else if a \<in> set [''discover'', ''search'', ''autograb'', ''tmdb-search'',
              ''tvdb-search'', ''performers'', ''studios'', ''newest-rows'', ''ondemand''] then
            set_add out section_discover
          else if a = ''grabs'' then set_add out section_queue
          else if a \<in> set [''scene-search'', ''scene-resolve''] then
            set_add out section_organize
          else if a \<in> set [''tags'', ''items'', ''scenes'', ''tracked''] then
            set_add (set_add out section_library) section_discover
          else if a = ''library'' then
            (case rest2 of
               b # _ \<Rightarrow>
                 if b = ''root-folder'' \<or> b = ''rescan'' then set_add out section_settings
                 else set_add (set_add out section_library) section_discover
             | [] \<Rightarrow> set_add (set_add out section_library) section_discover)
          else if a \<in> set [''identify-enabled'', ''naming-preset'', ''phash-threshold'',
              ''quality-prefs'', ''rename-match-config''] then
            set_add out section_settings
          else out)"

definition classify_modes :: "gostring list \<Rightarrow> sset \<Rightarrow> sset" where
  "classify_modes rest out =
     (case rest of
        [] \<Rightarrow> out
      | m # rest1 \<Rightarrow>
          classify_mode_area rest1
            (if m = ''adult'' then set_add out section_adult_content else out))"

definition classify_discover :: "gostring list \<Rightarrow> sset \<Rightarrow> sset" where
  "classify_discover rest out0 =
     (let out = set_add out0 section_discover in
      case rest of
        [] \<Rightarrow> out
      | r # rest1 \<Rightarrow>
          if r = ''row-order'' \<or> r = ''row-hidden'' then
            (case rest1 of
               s # _ \<Rightarrow> if s = ''adult'' then set_add out section_adult_content else out
             | [] \<Rightarrow> out)
          else out)"

definition classify_trakt :: "gostring list \<Rightarrow> sset \<Rightarrow> sset" where
  "classify_trakt rest out =
     (case rest of
        [] \<Rightarrow> set_add out section_settings
      | r # _ \<Rightarrow>
          if r = ''status'' \<or> r = ''watchlist'' then set_add out section_discover
          else set_add out section_settings)"

definition classify_admin :: "gostring list \<Rightarrow> sset \<Rightarrow> sset" where
  "classify_admin rest out =
     (case rest of
        [] \<Rightarrow> set_add out section_settings
      | r # _ \<Rightarrow>
          if r \<in> set [''sysinfo'', ''storage-allocation'', ''newznab-catalog''] then
            set_add out section_dashboard
          else set_add out section_settings)"

definition classify_api :: "gostring \<Rightarrow> gostring list \<Rightarrow> sset" where
  "classify_api s rest =
     (if s = ''modes'' then classify_modes rest []
      else if s = ''discover'' then classify_discover rest []
      else if s = ''settings'' then
        (let out = set_add [] section_settings in
         case rest of
           r # _ \<Rightarrow> if has_prefix ''adult-'' r then set_add out section_adult_content else out
         | [] \<Rightarrow> out)
      else if s \<in> set [''downloads'', ''requests'', ''grabs'', ''calendar''] then
        set_add [] section_queue
      else if s = ''proposals'' then set_add [] section_organize
      else if s = ''organize'' then set_add [] section_organize
      else if s = ''autograb-batch'' then set_add [] section_discover
      else if s = ''trakt'' then classify_trakt rest []
      else if s \<in> set [''tmdb'', ''imdb''] then set_add [] section_settings
      else if s = ''admin'' then classify_admin rest []
      else if s \<in> set [''connections'', ''service-connections'', ''webhooks'', ''nodes'',
          ''netscan'', ''browse'', ''downloader'', ''ollama''] then set_add [] section_settings
      else if s = ''pruning-rules'' then set_add [] section_organize
      else if s = ''stashbox-databases'' then set_add [] section_settings
      else if s = ''library'' then set_add (set_add [] section_library) section_discover
      else [])"

definition classify_segments :: "gostring list \<Rightarrow> sset" where
  "classify_segments segs =
     (case segs of
        a # s # rest \<Rightarrow> if a \<noteq> ''api'' then [] else classify_api s rest
      | _ \<Rightarrow> [])"

definition classify :: "gostring \<Rightarrow> sset" where
  "classify raw_path = classify_segments (segments raw_path)"

section \<open>Laws of the cleaned path\<close>

definition plain_elem :: "gostring \<Rightarrow> bool" where
  "plain_elem w = (w \<noteq> [] \<and> w \<noteq> ''.'' \<and> w \<noteq> ''..'')"

text \<open>The shape of a cleaned path: leading dot-dots (none when rooted), then plain elements.\<close>

definition clean_elems :: "bool \<Rightarrow> gostring list \<Rightarrow> bool" where
  "clean_elems rooted ws =
     (\<exists>n us. ws = replicate n ''..'' @ us \<and> (\<forall>u\<in>set us. plain_elem u) \<and> (rooted \<longrightarrow> n = 0))"

lemma clean_elems_resolve: "clean_elems r (rev st) \<Longrightarrow> clean_elems r (resolve r st ws)"
proof (induction r st ws rule: resolve.induct)
  case (1 rooted st)
  then show ?case by simp
next
  case (2 rooted st w ws)
  from "2.prems" obtain n us where st: "rev st = replicate n ''..'' @ us"
    "\<forall>u\<in>set us. plain_elem u" "rooted \<longrightarrow> n = 0"
    unfolding clean_elems_def by blast
  show ?case
  proof (cases "w = [] \<or> w = ''.''")
    case True
    then show ?thesis using 2 by auto
  next
    case skip: False
    show ?thesis
    proof (cases "w = ''..''")
      case False
      have "clean_elems rooted (rev (w # st))"
        unfolding clean_elems_def using st False skip
        by (intro exI [of _ n] exI [of _ "us @ [w]"]) (auto simp: plain_elem_def)
      then show ?thesis using 2 False skip by auto
    next
      case dots: True
      show ?thesis
      proof (cases st)
        case Nil
        have "clean_elems rooted []" unfolding clean_elems_def by (intro exI [of _ 0] exI [of _ "[]"]) simp
        moreover have "\<not> rooted \<Longrightarrow> clean_elems rooted (rev [''..''])"
          unfolding clean_elems_def by (intro exI [of _ 1] exI [of _ "[]"]) simp
        ultimately show ?thesis using 2 dots Nil by auto
      next
        case (Cons t ts)
        show ?thesis
        proof (cases "t = ''..''")
          case True
          have us: "us = []" using st Cons True by (cases us rule: rev_cases) (auto simp: plain_elem_def)
          have "n \<noteq> 0" using st Cons us by (cases n) auto
          then have "clean_elems rooted (rev (''..'' # st))"
            unfolding clean_elems_def using st us
            by (intro exI [of _ "Suc n"] exI [of _ "[]"]) (auto simp: replicate_append_same)
          then show ?thesis using 2 dots Cons True by auto
        next
          case False
          then obtain us' where us: "us = us' @ [t]"
            using st(1) Cons by (cases us rule: rev_cases; cases n) (auto simp: replicate_append_same [symmetric])
          have "clean_elems rooted (rev ts)"
            unfolding clean_elems_def using st Cons us
            by (intro exI [of _ n] exI [of _ us']) auto
          then show ?thesis using 2 dots Cons False by auto
        qed
      qed
    qed
  qed
qed

lemma resolve_plain: "\<forall>w\<in>set ws. plain_elem w \<Longrightarrow> resolve r st ws = rev st @ ws"
  by (induction ws arbitrary: st) (auto simp: plain_elem_def)

lemma resolve_dots: "resolve False (replicate m ''..'') (replicate n ''..'' @ ws) =
    resolve False (replicate (m + n) ''..'') ws"
proof (induction n arbitrary: m)
  case 0
  then show ?case by simp
next
  case (Suc n)
  have "resolve False (replicate m ''..'') (replicate (Suc n) ''..'' @ ws) =
      resolve False (replicate (Suc m) ''..'') (replicate n ''..'' @ ws)"
    by (cases m) auto
  then show ?case using Suc.IH [of "Suc m"] by simp
qed

lemma resolve_clean: "clean_elems r ws \<Longrightarrow> resolve r [] ws = ws"
proof -
  assume "clean_elems r ws"
  then obtain n us where ws: "ws = replicate n ''..'' @ us" "\<forall>u\<in>set us. plain_elem u"
    "r \<longrightarrow> n = 0"
    unfolding clean_elems_def by blast
  show ?thesis
  proof (cases r)
    case True
    then show ?thesis using ws by (simp add: resolve_plain)
  next
    case False
    then have "resolve r [] ws = resolve False (replicate n ''..'') us"
      using resolve_dots [of 0 n us] ws(1) by simp
    then show ?thesis using ws by (simp add: resolve_plain)
  qed
qed

lemma clean_elems_Nil [simp]: "clean_elems r []"
  unfolding clean_elems_def by (intro exI [of _ 0] exI [of _ "[]"]) simp

lemma resolve_elems:
  "set (resolve r st ws) \<subseteq> set st \<union> set ws \<union> {''..''}"
  by (induction r st ws rule: resolve.induct) (auto split: list.splits if_splits)

abbreviation elems_of :: "gostring \<Rightarrow> gostring list" where
  "elems_of p \<equiv> resolve (is_rooted p) [] (split_on (CHR ''/'') p)"

lemma elems_of_no_slash: "w \<in> set (elems_of p) \<Longrightarrow> CHR ''/'' \<notin> set w"
proof -
  assume "w \<in> set (elems_of p)"
  then have "w \<in> set (split_on (CHR ''/'') p) \<or> w = ''..''"
    using resolve_elems [of "is_rooted p" "[]" "split_on (CHR ''/'') p"] by auto
  then show ?thesis
  proof
    assume "w \<in> set (split_on (CHR ''/'') p)"
    then show ?thesis by (rule split_on_pieces)
  next
    assume "w = ''..''"
    then show ?thesis by simp
  qed
qed

lemma elems_of_clean: "clean_elems (is_rooted p) (elems_of p)"
  by (rule clean_elems_resolve) simp

lemma clean_elems_mem: "clean_elems r ws \<Longrightarrow> w \<in> set ws \<Longrightarrow> w \<noteq> [] \<and> w \<noteq> ''.''"
proof -
  assume "clean_elems r ws" and w: "w \<in> set ws"
  then obtain n us where ws: "ws = replicate n ''..'' @ us" "\<forall>u\<in>set us. plain_elem u"
    unfolding clean_elems_def by blast
  then have "w = ''..'' \<or> w \<in> set us" using w by auto
  then show ?thesis
  proof
    assume "w \<in> set us"
    then show ?thesis using ws(2) unfolding plain_elem_def by blast
  qed simp
qed

lemma join_elems_head:
  "ws \<noteq> [] \<Longrightarrow> \<forall>w\<in>set ws. w \<noteq> [] \<and> CHR ''/'' \<notin> set w \<Longrightarrow>
     join_on (CHR ''/'') ws \<noteq> [] \<and> hd (join_on (CHR ''/'') ws) \<noteq> CHR ''/''"
  by (cases ws; cases "tl ws"; cases "hd ws") auto

lemma join_not_dot:
  "ws \<noteq> [] \<Longrightarrow> \<forall>w\<in>set ws. w \<noteq> [] \<and> w \<noteq> ''.'' \<and> CHR ''/'' \<notin> set w \<Longrightarrow>
     join_on (CHR ''/'') ws \<noteq> ''.''"
proof -
  assume ne: "ws \<noteq> []" and ws: "\<forall>w\<in>set ws. w \<noteq> [] \<and> w \<noteq> ''.'' \<and> CHR ''/'' \<notin> set w"
  have "split_on (CHR ''/'') (join_on (CHR ''/'') ws) = ws"
    using ne ws by (simp add: split_join)
  moreover have "split_on (CHR ''/'') ''.'' = [''.'']" by simp
  ultimately show ?thesis using ws by auto
qed

lemma has_prefix_slash: "has_prefix ''/'' s \<longleftrightarrow> s \<noteq> [] \<and> hd s = CHR ''/''"
  by (cases s) (auto simp: has_prefix_def)

lemma segments_eq: "segments p = elems_of p"
proof -
  let ?out = "elems_of p"
  have all: "\<forall>w\<in>set ?out. w \<noteq> [] \<and> w \<noteq> ''.'' \<and> CHR ''/'' \<notin> set w"
    using clean_elems_mem [OF elems_of_clean] elems_of_no_slash by blast
  show ?thesis
  proof (cases "?out = []")
    case True
    then show ?thesis
      by (simp add: segments_def path_clean_def trim_prefix_def has_prefix_def Let_def)
  next
    case False
    let ?j = "join_on (CHR ''/'') ?out"
    have j: "?j \<noteq> []" "hd ?j \<noteq> CHR ''/''" "?j \<noteq> ''.''" "split_on (CHR ''/'') ?j = ?out"
      using join_elems_head [OF False] join_not_dot [OF False all] split_join [OF False] all
      by blast+
    have "trim_prefix ''/'' (path_clean p) = ?j"
    proof (cases "is_rooted p")
      case True
      then show ?thesis by (simp add: path_clean_def trim_prefix_def has_prefix_slash Let_def)
    next
      case False
      then show ?thesis using j(1,2)
        by (simp add: path_clean_def trim_prefix_def has_prefix_slash Let_def)
    qed
    then show ?thesis using j by (simp add: segments_def)
  qed
qed

lemma is_rooted_clean: "is_rooted (path_clean p) = is_rooted p"
proof (cases "is_rooted p")
  case True
  then show ?thesis by (simp add: path_clean_def Let_def is_rooted_def has_prefix_def)
next
  case False
  let ?out = "elems_of p"
  have "\<forall>w\<in>set ?out. w \<noteq> [] \<and> CHR ''/'' \<notin> set w"
    using clean_elems_mem [OF elems_of_clean] elems_of_no_slash by blast
  then have "?out \<noteq> [] \<Longrightarrow> hd (join_on (CHR ''/'') ?out) \<noteq> CHR ''/''"
    using join_elems_head by blast
  then have "?out \<noteq> [] \<Longrightarrow> \<not> is_rooted (join_on (CHR ''/'') ?out)"
    unfolding is_rooted_def has_prefix_slash by blast
  moreover have "\<not> is_rooted ''.''" "\<not> is_rooted []" by (simp_all add: is_rooted_def has_prefix_def)
  ultimately show ?thesis using False
    by (cases "?out = []") (simp_all add: path_clean_def Let_def)
qed

lemma elems_of_path_clean: "elems_of (path_clean p) = elems_of p"
proof -
  let ?out = "elems_of p"
  have c: "clean_elems (is_rooted p) ?out" by (rule elems_of_clean)
  have ns: "\<forall>w\<in>set ?out. CHR ''/'' \<notin> set w" using elems_of_no_slash by blast
  have ne: "\<forall>w\<in>set ?out. w \<noteq> []" using clean_elems_mem [OF c] by blast
  show ?thesis
  proof (cases "?out = []")
    case True
    then show ?thesis unfolding is_rooted_clean by (simp add: path_clean_def Let_def)
  next
    case False
    have sp: "split_on (CHR ''/'') (join_on (CHR ''/'') ?out) = ?out"
      using False ns by (simp add: split_join)
    have j: "join_on (CHR ''/'') ?out \<noteq> []"
      using join_elems_head [OF False] ns ne by blast
    have "split_on (CHR ''/'') (path_clean p) = (if is_rooted p then [] # ?out else ?out)"
      using sp j by (cases "is_rooted p") (simp_all add: path_clean_def Let_def)
    then have "split_on (CHR ''/'') (path_clean p) = [[]] @ ?out \<or>
        split_on (CHR ''/'') (path_clean p) = ?out" by auto
    then have "resolve (is_rooted p) [] (split_on (CHR ''/'') (path_clean p)) =
        resolve (is_rooted p) [] ?out" by (elim disjE) simp_all
    then show ?thesis unfolding is_rooted_clean using resolve_clean [OF c] by simp
  qed
qed

section \<open>Dot segments never change a path's elements\<close>

lemma split_on_append: "split_on d (a @ d # b) = split_on d a @ split_on d b"
  by (induction a) (auto split: list.splits)

lemma resolve_detour:
  "plain_elem x \<Longrightarrow> resolve r st (xs @ x # ''..'' # ys) = resolve r st (xs @ ys)"
  by (induction r st xs rule: resolve.induct) (auto simp: plain_elem_def split: list.splits)

lemma resolve_skip:
  "x = [] \<or> x = ''.'' \<Longrightarrow> resolve r st (xs @ x # ys) = resolve r st (xs @ ys)"
  by (induction r st xs rule: resolve.induct) (auto split: list.splits)

lemma is_rooted_append: "is_rooted (a @ CHR ''/'' # b) = is_rooted (a @ CHR ''/'' # c)"
  by (cases a) (auto simp: is_rooted_def has_prefix_def)

lemma segments_detour:
  assumes "plain_elem x" and "CHR ''/'' \<notin> set x"
  shows "segments (a @ CHR ''/'' # x @ CHR ''/'' # ''..'' @ CHR ''/'' # b) =
    segments (a @ CHR ''/'' # b)"
proof -
  let ?s = "split_on (CHR ''/'')"
  have "?s (a @ CHR ''/'' # x @ CHR ''/'' # ''..'' @ CHR ''/'' # b) = ?s a @ x # ''..'' # ?s b"
    using assms(2) by (simp add: split_on_append split_on_append_sep split_on_no_sep)
  moreover have "?s (a @ CHR ''/'' # b) = ?s a @ ?s b" by (simp add: split_on_append)
  ultimately show ?thesis
    unfolding segments_eq
    using resolve_detour [OF assms(1)]
      is_rooted_append [of a "x @ CHR ''/'' # ''..'' @ CHR ''/'' # b" b] by simp
qed

lemma segments_skip:
  assumes "x = [] \<or> x = ''.''"
  shows "segments (a @ CHR ''/'' # x @ CHR ''/'' # b) = segments (a @ CHR ''/'' # b)"
proof -
  let ?s = "split_on (CHR ''/'')"
  have "?s (a @ CHR ''/'' # x @ CHR ''/'' # b) = ?s a @ x # ?s b"
    using assms by (auto simp: split_on_append)
  moreover have "?s (a @ CHR ''/'' # b) = ?s a @ ?s b" by (simp add: split_on_append)
  ultimately show ?thesis
    unfolding segments_eq
    using resolve_skip [OF assms] is_rooted_append [of a "x @ CHR ''/'' # b" b] by simp
qed

section \<open>What a path is classified as\<close>

text \<open>
  A question about the classified set is pushed through the conditionals of the tables, where
  every branch answers it the same way.
\<close>

lemma mem_set_if: "x \<in> set (if c then a else b) \<longleftrightarrow> (if c then x \<in> set a else x \<in> set b)"
  by simp

lemma subset_set_if: "set (if c then a else b) \<subseteq> S \<longleftrightarrow> (if c then set a \<subseteq> S else set b \<subseteq> S)"
  by simp

lemma distinct_if: "distinct (if c then a else b) \<longleftrightarrow> (if c then distinct a else distinct b)"
  by simp

lemma adult_neq [simp]:
  "section_adult_content \<noteq> section_dashboard" "section_adult_content \<noteq> section_discover"
  "section_adult_content \<noteq> section_library" "section_adult_content \<noteq> section_queue"
  "section_adult_content \<noteq> section_organize" "section_adult_content \<noteq> section_collections"
  "section_adult_content \<noteq> section_settings"
  by (simp_all add: section_ids)

lemma known_members [simp]:
  "section_dashboard \<in> set all_sections" "section_discover \<in> set all_sections"
  "section_queue \<in> set all_sections" "section_organize \<in> set all_sections"
  "section_settings \<in> set all_sections" "section_adult_content \<in> set all_sections"
  by (simp_all add: all_sections_def tab_sections_def)

lemmas classify_tables = classify_discover_def classify_trakt_def classify_admin_def Let_def

lemma distinct_mode_area: "distinct (classify_mode_area rest out) = distinct out"
  by (simp add: classify_mode_area_def distinct_if split: list.split)

lemma distinct_classify_api: "distinct (classify_api s rest)"
  by (simp add: classify_api_def classify_modes_def distinct_mode_area classify_tables distinct_if
      split: list.split)

lemma distinct_classify: "distinct (classify p)"
  by (simp add: classify_def classify_segments_def distinct_classify_api split: list.split)

lemma adult_mode_area:
  "section_adult_content \<in> set (classify_mode_area rest out) \<longleftrightarrow> section_adult_content \<in> set out"
  by (simp add: classify_mode_area_def mem_set_if split: list.split)

lemma adult_modes:
  "section_adult_content \<in> set (classify_modes rest []) \<longleftrightarrow> (\<exists>r. rest = ''adult'' # r)"
  by (cases rest) (auto simp: classify_modes_def adult_mode_area)

lemma adult_discover:
  "section_adult_content \<in> set (classify_discover rest []) \<longleftrightarrow>
     (\<exists>x r. rest = x # ''adult'' # r \<and> (x = ''row-order'' \<or> x = ''row-hidden''))"
  by (simp add: classify_discover_def Let_def mem_set_if split: list.split)

lemma adult_other:
  "section_adult_content \<notin> set (classify_trakt rest [])"
  "section_adult_content \<notin> set (classify_admin rest [])"
  by (simp_all add: classify_trakt_def classify_admin_def mem_set_if split: list.split)

text \<open>The routes the Adult rule covers, exactly.\<close>

definition adult_route :: "gostring \<Rightarrow> gostring list \<Rightarrow> bool" where
  "adult_route s rest =
     (if s = ''modes'' then (\<exists>r. rest = ''adult'' # r)
      else if s = ''discover'' then
        (\<exists>x r. rest = x # ''adult'' # r \<and> (x = ''row-order'' \<or> x = ''row-hidden''))
      else if s = ''settings'' then (\<exists>x r. rest = x # r \<and> has_prefix ''adult-'' x)
      else False)"

lemma adult_settings:
  "section_adult_content \<in> set (case rest of
       r # _ \<Rightarrow> if has_prefix ''adult-'' r then set_add (set_add [] section_settings) section_adult_content
             else set_add [] section_settings
     | [] \<Rightarrow> set_add [] section_settings) \<longleftrightarrow> (\<exists>x r. rest = x # r \<and> has_prefix ''adult-'' x)"
  by (simp add: mem_set_if split: list.split)

lemma adult_classify_api:
  "section_adult_content \<in> set (classify_api s rest) \<longleftrightarrow> adult_route s rest"
  by (simp add: classify_api_def adult_route_def mem_set_if adult_modes adult_discover adult_other
      adult_settings Let_def)

definition emitted_sections :: "section_id set" where
  "emitted_sections = set all_sections \<union> {section_library, section_collections}"

lemma emitted_members [simp]:
  "section_dashboard \<in> emitted_sections" "section_discover \<in> emitted_sections"
  "section_queue \<in> emitted_sections" "section_organize \<in> emitted_sections"
  "section_settings \<in> emitted_sections" "section_adult_content \<in> emitted_sections"
  "section_library \<in> emitted_sections" "section_collections \<in> emitted_sections"
  by (simp_all add: emitted_sections_def)

definition emits :: "sset \<Rightarrow> bool" where
  "emits out = (set out \<subseteq> emitted_sections)"

lemma emits_simps [simp]:
  "emits []" "emits (set_add out i) \<longleftrightarrow> i \<in> emitted_sections \<and> emits out"
  by (auto simp: emits_def)

lemma emits_if: "emits (if c then a else b) \<longleftrightarrow> (if c then emits a else emits b)"
  by simp

lemma mode_area_emits: "emits (classify_mode_area rest out) \<longleftrightarrow> emits out"
  by (simp add: classify_mode_area_def emits_if split: list.split)

lemma modes_emits: "emits (classify_modes rest [])"
  by (cases rest) (simp_all add: classify_modes_def mode_area_emits emits_if)

lemma discover_emits: "emits (classify_discover rest [])"
  by (cases rest; cases "tl rest") (simp_all add: classify_discover_def Let_def emits_if)

lemma trakt_emits: "emits (classify_trakt rest [])"
  by (cases rest) (simp_all add: classify_trakt_def emits_if)

lemma admin_emits: "emits (classify_admin rest [])"
  by (cases rest) (simp_all add: classify_admin_def emits_if)

lemma settings_emits: "emits (case rest of
       r # _ \<Rightarrow> if has_prefix ''adult-'' r then set_add (set_add [] section_settings) section_adult_content
             else set_add [] section_settings
     | [] \<Rightarrow> set_add [] section_settings)"
  by (cases rest) (simp_all add: emits_if)

lemma classify_api_emits: "emits (classify_api s rest)"
  by (simp add: classify_api_def emits_if modes_emits discover_emits trakt_emits admin_emits
      settings_emits Let_def)

lemma classify_emitted: "set (classify p) \<subseteq> emitted_sections"
proof (cases "\<exists>s rest. segments p = ''api'' # s # rest")
  case True
  then show ?thesis using classify_api_emits
    by (auto simp: classify_def classify_segments_def emits_def)
next
  case False
  then have "classify p = []"
    by (auto simp: classify_def classify_segments_def split: list.split)
  then show ?thesis by simp
qed

section \<open>Properties\<close>



text \<open>
  The adult rule, exactly: a path is gated by the adult-content section if and only if
  its cleaned segments are \<open>api\<close> followed by a mode route of the mode \<open>adult\<close>, by
  the adult screen of the Discover row order or row visibility, or by a setting whose name
  starts with \<open>adult-\<close>.
\<close>

theorem classify_adult_exact:
  "set_has (classify p) section_adult_content \<longleftrightarrow>
     (\<exists>s rest. segments p = ''api'' # s # rest \<and> adult_route s rest)"
proof (cases "\<exists>s rest. segments p = ''api'' # s # rest")
  case True
  then obtain s rest where "segments p = ''api'' # s # rest" by blast
  then show ?thesis
    by (simp add: set_has_def classify_def classify_segments_def adult_classify_api)
next
  case False
  then have "classify p = []"
    by (auto simp: classify_def classify_segments_def split: list.split)
  then show ?thesis using False by (simp add: set_has_def)
qed

text \<open>
  What classification can emit. Every classified set is duplicate free and drawn from the
  ids of \<open>AllSections\<close> and the two ids \<open>library\<close> and \<open>collections\<close>; the
  collections routes are gated by the id \<open>collections\<close> alone, which is not a known
  section: a lock on it can be stored but never be listed or written by \<open>KnownSection\<close>'s
  callers.
\<close>

theorem classify_range:
  "distinct (classify p) \<and>
   set (classify p) \<subseteq> set all_sections \<union> {section_library, section_collections} \<and>
   classify ''/api/modes/movies/collections'' = [section_collections] \<and>
   \<not> known_section section_collections \<and> \<not> known_section section_library"
proof (intro conjI)
  show "set (classify p) \<subseteq> set all_sections \<union> {section_library, section_collections}"
    using classify_emitted [of p] by (simp only: emitted_sections_def)
  show "classify ''/api/modes/movies/collections'' = [section_collections]" by code_simp
  show "\<not> known_section section_collections" "\<not> known_section section_library" by code_simp+
qed (rule distinct_classify)

end
