(* ===== verification/Hex.thy ===== *)
theory Hex
  imports Json
begin

text \<open>\<open>encoding/hex\<close>: lower-case digits out, both cases in. A string's characters are its bytes.\<close>

definition hex_of_byte :: "char \<Rightarrow> gostring" where
  "hex_of_byte c = (let n = of_char c :: nat in [hex_char (n div 16), hex_char (n mod 16)])"

definition hex_encode :: "gostring \<Rightarrow> gostring" where
  "hex_encode s = concat (map hex_of_byte s)"

fun hex_decode :: "gostring \<Rightarrow> gostring option" where
  "hex_decode [] = Some []"
| "hex_decode [a] = None"
| "hex_decode (a # b # r) =
     (case (hex_digit a, hex_digit b, hex_decode r) of
        (Some i, Some j, Some s) \<Rightarrow> Some (char_of (i * 16 + j) # s)
      | _ \<Rightarrow> None)"

lemma hex_roundtrip [simp]: "hex_decode (hex_encode s) = Some s"
proof (induction s)
  case Nil
  then show ?case by (simp add: hex_encode_def)
next
  case (Cons c s)
  let ?n = "of_char c :: nat"
  have b: "?n < 256" using of_char_mod_256 [of c, where 'a=nat] mod_less_divisor [of 256 ?n] by simp
  have "hex_encode (c # s) = hex_char (?n div 16) # hex_char (?n mod 16) # hex_encode s"
    by (simp add: hex_encode_def hex_of_byte_def Let_def)
  moreover have "?n div 16 < 16" using b by (simp add: less_mult_imp_div_less)
  moreover have "char_of (?n div 16 * 16 + ?n mod 16) = c" by simp
  ultimately show ?case using Cons by simp
qed

end
