(* ===== verification/Auth_Store.thy ===== *)
theory Auth_Store
  imports Lock_Store Hex
begin

text \<open>
  \<open>internal/auth/auth.go\<close> and \<open>apikey.go\<close>: the single login, the active auth mode
  and the universal API key, all kept in the settings store. SHA-256 and bcrypt are arguments;
  a database call takes a flag that says whether it fails. \<open>None\<close> as an outer result is an
  error.
\<close>

section \<open>The login and the mode\<close>

definition username_key :: gostring where "username_key = ''auth_username''"
definition password_hash_key :: gostring where "password_hash_key = ''auth_password_hash''"
definition auth_mode_key :: gostring where "auth_mode_key = ''auth_mode''"
definition apikey_hash_key :: gostring where "apikey_hash_key = ''auth_apikey_hash''"
definition apikey_suffix_key :: gostring where "apikey_suffix_key = ''auth_apikey_suffix''"

lemmas auth_keys = username_key_def password_hash_key_def auth_mode_key_def apikey_hash_key_def
  apikey_suffix_key_def

definition mode_password :: gostring where "mode_password = ''password''"
definition mode_oidc :: gostring where "mode_oidc = ''oidc''"
definition mode_none :: gostring where "mode_none = ''none''"

lemmas auth_modes = mode_password_def mode_oidc_def mode_none_def

definition configured :: "bool \<Rightarrow> bool \<Rightarrow> settings_db \<Rightarrow> bool option" where
  "configured f1 f2 db =
     (case settings_get f1 db auth_mode_key of
        Got v \<Rightarrow> Some True
      | Get_error \<Rightarrow> None
      | Not_found \<Rightarrow>
          (case settings_get f2 db username_key of
             Not_found \<Rightarrow> Some False
           | Get_error \<Rightarrow> None
           | Got v \<Rightarrow> Some True))"

definition auth_mode :: "bool \<Rightarrow> settings_db \<Rightarrow> gostring option" where
  "auth_mode f db =
     (case settings_get f db auth_mode_key of
        Not_found \<Rightarrow> Some mode_password
      | Get_error \<Rightarrow> None
      | Got v \<Rightarrow> Some v)"

definition set_auth_mode :: "bool \<Rightarrow> gostring \<Rightarrow> settings_db \<Rightarrow> settings_db option" where
  "set_auth_mode f mode db = settings_set f db auth_mode_key mode"

definition password_configured :: "bool \<Rightarrow> settings_db \<Rightarrow> bool option" where
  "password_configured f db =
     (case settings_get f db password_hash_key of
        Not_found \<Rightarrow> Some False
      | Get_error \<Rightarrow> None
      | Got v \<Rightarrow> Some True)"

text \<open>The database it leaves is returned in the error cases too.\<close>

definition set_credentials ::
  "(gostring \<Rightarrow> gostring option) \<Rightarrow> bool \<Rightarrow> bool \<Rightarrow> gostring \<Rightarrow> gostring \<Rightarrow> settings_db \<Rightarrow> bool \<times> settings_db" where
  "set_credentials bcrypt_gen f1 f2 username password db =
     (if username = [] \<or> password = [] then (False, db)
      else case bcrypt_gen password of
        None \<Rightarrow> (False, db)
      | Some hash \<Rightarrow>
          (case settings_set f1 db username_key username of
             None \<Rightarrow> (False, db)
           | Some db1 \<Rightarrow>
               (case settings_set f2 db1 password_hash_key hash of
                  None \<Rightarrow> (False, db1)
                | Some db2 \<Rightarrow> (True, db2))))"

datatype verify_result = Verified bool | Not_configured | Verify_error

definition verify_login ::
  "(gostring \<Rightarrow> gostring \<Rightarrow> bool) \<Rightarrow> bool \<Rightarrow> bool \<Rightarrow> gostring \<Rightarrow> gostring \<Rightarrow> settings_db \<Rightarrow> verify_result" where
  "verify_login bcrypt_cmp f1 f2 username password db =
     (case settings_get f1 db username_key of
        Not_found \<Rightarrow> Not_configured
      | Get_error \<Rightarrow> Verify_error
      | Got want \<Rightarrow>
          (case settings_get f2 db password_hash_key of
             Got hash \<Rightarrow> Verified (username = want \<and> bcrypt_cmp hash password)
           | _ \<Rightarrow> Verify_error))"

section \<open>The API key\<close>

definition suffix :: "gostring \<Rightarrow> gostring" where
  "suffix raw = (if length raw < 4 then [] else drop (length raw - 4) raw)"

text \<open>The environment's key for this process: its hash, \<open>None\<close> when unset, and suffix.\<close>

type_synonym env_key = "(gostring \<times> gostring) option"

definition use_env_api_key :: "(gostring \<Rightarrow> gostring) \<Rightarrow> gostring \<Rightarrow> env_key" where
  "use_env_api_key sha raw = Some (sha raw, suffix raw)"

definition persist_key ::
  "(gostring \<Rightarrow> gostring) \<Rightarrow> bool \<Rightarrow> bool \<Rightarrow> gostring \<Rightarrow> settings_db \<Rightarrow> bool \<times> settings_db" where
  "persist_key sha f1 f2 raw db =
     (case settings_set f1 db apikey_hash_key (hex_encode (sha raw)) of
        None \<Rightarrow> (False, db)
      | Some db1 \<Rightarrow>
          (case settings_set f2 db1 apikey_suffix_key (suffix raw) of
             None \<Rightarrow> (False, db1)
           | Some db2 \<Rightarrow> (True, db2)))"

text \<open>\<open>fresh\<close> is \<open>newRandomKey\<close>, \<open>None\<close> when the random source fails.\<close>

definition ensure_api_key ::
  "(gostring \<Rightarrow> gostring) \<Rightarrow> bool \<Rightarrow> bool \<Rightarrow> bool \<Rightarrow> gostring option \<Rightarrow> settings_db \<Rightarrow> gostring option \<times> settings_db" where
  "ensure_api_key sha f1 f2 f3 fresh db =
     (case settings_get f1 db apikey_hash_key of
        Got v \<Rightarrow> (Some [], db)
      | Get_error \<Rightarrow> (None, db)
      | Not_found \<Rightarrow>
          (case fresh of
             None \<Rightarrow> (None, db)
           | Some raw \<Rightarrow>
               (case persist_key sha f2 f3 raw db of
                  (ok, db') \<Rightarrow> if ok then (Some raw, db') else (None, db'))))"

datatype regenerate_result = Regenerated gostring gostring | Env_managed | Regenerate_error

definition regenerate ::
  "(gostring \<Rightarrow> gostring) \<Rightarrow> bool \<Rightarrow> bool \<Rightarrow> env_key \<Rightarrow> gostring option \<Rightarrow> settings_db \<Rightarrow>
     regenerate_result \<times> settings_db" where
  "regenerate sha f1 f2 env fresh db =
     (if env \<noteq> None then (Env_managed, db)
      else case fresh of
        None \<Rightarrow> (Regenerate_error, db)
      | Some raw \<Rightarrow>
          (case persist_key sha f1 f2 raw db of
             (ok, db') \<Rightarrow> if ok then (Regenerated raw (suffix raw), db') else (Regenerate_error, db')))"

definition active_key_hash :: "bool \<Rightarrow> env_key \<Rightarrow> settings_db \<Rightarrow> gostring option option" where
  "active_key_hash f env db =
     (case env of
        Some (h, _) \<Rightarrow> Some (Some h)
      | None \<Rightarrow>
          (case settings_get f db apikey_hash_key of
             Not_found \<Rightarrow> Some None
           | Get_error \<Rightarrow> None
           | Got hx \<Rightarrow> (case hex_decode hx of None \<Rightarrow> None | Some h \<Rightarrow> Some (Some h))))"

definition verify_api_key ::
  "(gostring \<Rightarrow> gostring) \<Rightarrow> bool \<Rightarrow> env_key \<Rightarrow> gostring \<Rightarrow> settings_db \<Rightarrow> bool option" where
  "verify_api_key sha f env presented0 db =
     (let presented = trim_space presented0 in
      if presented = [] then Some False
      else case active_key_hash f env db of
        None \<Rightarrow> None
      | Some None \<Rightarrow> Some False
      | Some (Some want) \<Rightarrow> Some (sha presented = want))"

datatype key_source = From_env | From_settings | No_key

definition api_key_status ::
  "bool \<Rightarrow> bool \<Rightarrow> env_key \<Rightarrow> settings_db \<Rightarrow> (bool \<times> gostring \<times> key_source) option" where
  "api_key_status f1 f2 env db =
     (case env of
        Some (_, sfx) \<Rightarrow> Some (True, sfx, From_env)
      | None \<Rightarrow>
          (case settings_get f1 db apikey_hash_key of
             Not_found \<Rightarrow> Some (False, [], No_key)
           | Get_error \<Rightarrow> None
           | Got _ \<Rightarrow>
               (case settings_get f2 db apikey_suffix_key of
                  Get_error \<Rightarrow> None
                | Not_found \<Rightarrow> Some (True, [], From_settings)
                | Got sfx \<Rightarrow> Some (True, sfx, From_settings))))"

section \<open>Laws\<close>

lemma auth_keys_distinct [simp]:
  "apikey_hash_key \<noteq> apikey_suffix_key" "apikey_suffix_key \<noteq> apikey_hash_key"
  "username_key \<noteq> password_hash_key" "password_hash_key \<noteq> username_key"
  by (simp_all add: auth_keys)

section \<open>Properties\<close>

text \<open>
  Rotating the API key replaces it. After a rotation that reports a key, that key verifies,
  no key with another hash does, in particular not the old one, and the status shows its last
  four characters; while the environment manages the key nothing is written.
\<close>

theorem rotation_replaces_key:
  assumes "regenerate sha f1 f2 env fresh db = (r, db')" and "trim_space raw = raw" and "raw \<noteq> []"
    and "r = Regenerated raw sfx"
  shows "verify_api_key sha False env raw db' = Some True \<and>
    (\<forall>k. trim_space k \<noteq> [] \<and> sha (trim_space k) \<noteq> sha raw \<longrightarrow>
       verify_api_key sha False env k db' = Some False) \<and>
    api_key_status False False env db' = Some (True, suffix raw, From_settings) \<and>
    (\<forall>e f g fr. regenerate sha f g (Some e) fr db = (Env_managed, db))"
  using assms
  by (auto simp: regenerate_def persist_key_def settings_set_def verify_api_key_def active_key_hash_def
      settings_get_def api_key_status_def Let_def split: if_splits option.splits)

theorem rotation_replaces_key_witness:
  "(case regenerate (\<lambda>s. s) False False None (Some ''new-key'') [apikey_hash_key \<mapsto> hex_encode ''old-key''] of
      (r, db') \<Rightarrow> verify_api_key (\<lambda>s. s) False None ''old-key'' db' = Some False)"
proof -
  let ?db = "[apikey_hash_key \<mapsto> hex_encode ''old-key'']"
  have r: "\<exists>db'. regenerate (\<lambda>s. s) False False None (Some ''new-key'') ?db = (Regenerated ''new-key'' ''-key'', db')"
    by (simp add: regenerate_def persist_key_def settings_set_def suffix_def)
  then obtain db' where d: "regenerate (\<lambda>s. s) False False None (Some ''new-key'') ?db =
      (Regenerated ''new-key'' ''-key'', db')" by blast
  have "trim_space ''new-key'' = ''new-key''" "trim_space ''old-key'' = ''old-key''" by code_simp+
  then show ?thesis using rotation_replaces_key [OF d, of "''new-key''" "''-key''"] d by simp
qed

text \<open>
  A rotation can lose the key it installs: when the second of its two writes fails, the
  caller gets an error and no key, while the old key has already stopped working and the new
  one, which nobody was told, verifies.
\<close>

theorem rotation_can_lose_key:
  assumes "trim_space raw = raw" and "raw \<noteq> []" and "sha old \<noteq> sha raw" and "trim_space old = old" and "old \<noteq> []"
  shows "\<exists>db'. regenerate sha False True None (Some raw) db = (Regenerate_error, db') \<and>
    verify_api_key sha False None old db' = Some False \<and> verify_api_key sha False None raw db' = Some True"
  using assms
  by (auto simp: regenerate_def persist_key_def settings_set_def verify_api_key_def active_key_hash_def
      settings_get_def Let_def)

theorem rotation_can_lose_key_witness:
  "\<exists>db'. regenerate (\<lambda>s. s) False True None (Some ''k2'') Map.empty = (Regenerate_error, db') \<and>
     verify_api_key (\<lambda>s. s) False None ''k1'' db' = Some False"
proof -
  have "trim_space ''k2'' = ''k2''" "trim_space ''k1'' = ''k1''" by code_simp+
  then show ?thesis using rotation_can_lose_key [of "''k2''" "\<lambda>s. s" "''k1''" Map.empty] by auto
qed

datatype auth_write =
    Set_mode bool gostring
  | Set_credentials bool bool gostring gostring
  | Rotate bool bool gostring
  | Ensure bool bool bool gostring

fun apply_write :: "(gostring \<Rightarrow> gostring) \<Rightarrow> (gostring \<Rightarrow> gostring option) \<Rightarrow> settings_db \<Rightarrow> auth_write \<Rightarrow> settings_db" where
  "apply_write sha g db (Set_mode f m) = (case set_auth_mode f m db of None \<Rightarrow> db | Some db' \<Rightarrow> db')"
| "apply_write sha g db (Set_credentials f1 f2 u p) = snd (set_credentials g f1 f2 u p db)"
| "apply_write sha g db (Rotate f1 f2 k) = snd (regenerate sha f1 f2 None (Some k) db)"
| "apply_write sha g db (Ensure f1 f2 f3 k) = snd (ensure_api_key sha f1 f2 f3 (Some k) db)"

lemma settings_grow: "settings_set f db k v = Some db' \<Longrightarrow> db j \<noteq> None \<Longrightarrow> db' j \<noteq> None"
  by (auto simp: settings_set_def split: if_splits)

lemma apply_write_grows: "db j \<noteq> None \<Longrightarrow> apply_write sha g db w j \<noteq> None"
  by (cases w)
    (auto simp: set_auth_mode_def set_credentials_def regenerate_def ensure_api_key_def persist_key_def
      settings_set_def settings_get_def split: option.splits)

lemma writes_grow: "db j \<noteq> None \<Longrightarrow> foldl (apply_write sha g) db ws j \<noteq> None"
  by (induction ws arbitrary: db) (use apply_write_grows in auto)

lemma configured_iff: "configured False False db = Some (db auth_mode_key \<noteq> None \<or> db username_key \<noteq> None)"
  by (auto simp: configured_def settings_get_def split: option.splits)

text \<open>
  An owned instance stays owned. Whatever credentials, modes and keys are written after it,
  with writes failing anywhere, an instance that once had a login or a chosen mode reports
  itself configured, so that its setup cannot be run by a visitor again; a store that cannot be
  read is an error, not an unconfigured instance.
\<close>

theorem stays_owned:
  assumes "configured False False db = Some True"
  shows "configured False False (foldl (apply_write sha g) db ws) = Some True \<and>
    configured True f2 db = None \<and> auth_mode True db = None"
  using assms writes_grow [of db auth_mode_key sha g ws] writes_grow [of db username_key sha g ws]
  by (auto simp: configured_iff auth_mode_def, auto simp: configured_def settings_get_def)

theorem stays_owned_witness:
  "configured False False (foldl (apply_write (\<lambda>s. s) Some) [username_key \<mapsto> ''wade'']
     [Set_mode True ''none'', Rotate False True ''k'', Set_credentials False True ''eve'' ''pw'']) = Some True"
proof -
  have "configured False False [username_key \<mapsto> ''wade''] = Some True" by code_simp
  then show ?thesis using stays_owned by blast
qed

end
