(* ===== verification/Middleware.thy ===== *)
theory Middleware
  imports Gate Routes Auth_Store
begin

text \<open>
  \<open>internal/auth/session.go\<close>: the middleware every operator request passes through. It
  authenticates by API key or session cookie, derives the lockout identity from the credential
  that passed, and runs the section gate on the one gated exit.
\<close>

section \<open>Requests and responses\<close>

text \<open>
  A cookie that is absent is \<open>None\<close>; \<open>hr_unlock_cookie\<close> and \<open>hr_pin\<close> are what
  \<open>TicketFrom\<close> and \<open>PinFrom\<close> return, empty when absent.
\<close>

record http_request =
  hr_path :: gostring
  hr_api_key :: gostring
  hr_session_cookie :: "gostring option"
  hr_unlock_cookie :: gostring
  hr_pin :: gostring
  hr_remote_addr :: gostring

text \<open>\<open>Served\<close> calls the next handler with a context and, when it is gated, the live gate.\<close>

datatype response =
    Served ctx bool
  | Auth_error
  | Auth_required
  | Section_locked section_id
  | Section_unavailable

record mw_env =
  mw_crypto :: crypto
  mw_decrypt :: "gostring \<Rightarrow> gostring option"
  mw_fingerprint :: "gostring \<Rightarrow> gostring"
  mw_split_host_port :: "gostring \<Rightarrow> gostring option"
  mw_sha :: "gostring \<Rightarrow> gostring"
  mw_env_key :: env_key

definition empty_ctx :: ctx where
  "empty_ctx = \<lparr>cx_decision = None, cx_identity = []\<rparr>"

section \<open>Primary authentication\<close>

definition authenticated :: "mw_env \<Rightarrow> gtime \<Rightarrow> http_request \<Rightarrow> bool" where
  "authenticated env now r =
     (case hr_session_cookie r of
        None \<Rightarrow> False
      | Some c \<Rightarrow> validate_token (mw_decrypt env) c now)"

definition password_auth :: "mw_env \<Rightarrow> gtime \<Rightarrow> http_request \<Rightarrow> bool" where
  "password_auth env now r = authenticated env now r"

definition lockout_identity :: "mw_env \<Rightarrow> gtime \<Rightarrow> http_request \<Rightarrow> bool \<Rightarrow> gostring \<Rightarrow> gostring" where
  "lockout_identity env now r key_authed presented =
     (if key_authed then key_identity (mw_fingerprint env) presented
      else case hr_session_cookie r of
        Some c \<Rightarrow>
          if validate_token (mw_decrypt env) c now then session_identity (mw_fingerprint env) c
          else ip_identity (mw_split_host_port env) (hr_remote_addr r)
      | None \<Rightarrow> ip_identity (mw_split_host_port env) (hr_remote_addr r))"

section \<open>The section gate\<close>

definition gate_request_of :: "mw_env \<Rightarrow> ctx \<Rightarrow> http_request \<Rightarrow> gate_request" where
  "gate_request_of env c r =
     \<lparr>rq_enforcing = True, rq_ticket = hr_unlock_cookie r, rq_pin = hr_pin r,
      rq_identity = identity_of (mw_split_host_port env) (identity_from c) (hr_remote_addr r)\<rparr>"

definition serve_section_gated ::
  "mw_env \<Rightarrow> faults \<Rightarrow> clock \<Rightarrow> settings_db \<Rightarrow> ctx \<Rightarrow> http_request \<Rightarrow> gate option \<Rightarrow>
     response \<times> gate option" where
  "serve_section_gated env fl clk db c r gt =
     (case gt of
        None \<Rightarrow> (Served c False, None)
      | Some g \<Rightarrow>
          let sections = classify (hr_path r) in
          (case decide (mw_crypto env) fl clk db (gate_request_of env c r) g of
             (Inl e, g') \<Rightarrow>
               if set_len sections = 0 then (Served c False, Some g')
               else (Section_unavailable, Some g')
           | (Inr d, g') \<Rightarrow>
               if \<not> allows d sections then
                 (if d_err d = Some No_pin_set then (Section_unavailable, Some g')
                  else (Section_locked (first_locked d sections), Some g'))
               else (Served (with_decision d c) True, Some g')))"

definition middleware ::
  "mw_env \<Rightarrow> faults \<Rightarrow> clock \<Rightarrow> settings_db \<Rightarrow> http_request \<Rightarrow> gate option \<Rightarrow> response \<times> gate option" where
  "middleware env fl clk db r gt =
     (case auth_mode (fl 0) db of
        None \<Rightarrow> (Auth_error, gt)
      | Some mode \<Rightarrow>
          if mode = mode_none then (Served empty_ctx False, gt)
          else
            let presented = trim_space (hr_api_key r);
                key = (if presented \<noteq> [] then verify_api_key (mw_sha env) (fl 1) (mw_env_key env) presented db
                       else Some False)
            in case key of
                 None \<Rightarrow> (Auth_error, gt)
               | Some key_authed \<Rightarrow>
                   let allowed = (if key_authed then True
                        else if mode = mode_password \<or> mode = mode_oidc then password_auth env (clk 0) r
                        else False)
                   in if \<not> allowed then (Auth_required, gt)
                      else serve_section_gated env (\<lambda>n. fl (n + 2)) (\<lambda>n. clk (n + 2)) db
                             (with_identity (lockout_identity env (clk 1) r key_authed presented) empty_ctx)
                             r gt)"

section \<open>Laws\<close>

text \<open>Whether a request passes primary authentication, and by key.\<close>

definition key_ok :: "mw_env \<Rightarrow> faults \<Rightarrow> settings_db \<Rightarrow> http_request \<Rightarrow> bool option" where
  "key_ok env fl db r =
     (if trim_space (hr_api_key r) \<noteq> [] then
        verify_api_key (mw_sha env) (fl 1) (mw_env_key env) (trim_space (hr_api_key r)) db
      else Some False)"

definition passes :: "mw_env \<Rightarrow> faults \<Rightarrow> clock \<Rightarrow> settings_db \<Rightarrow> http_request \<Rightarrow> bool \<Rightarrow> bool" where
  "passes env fl clk db r key_authed \<longleftrightarrow> key_ok env fl db r = Some key_authed \<and>
     (key_authed \<or>
      (\<exists>m. auth_mode (fl 0) db = Some m \<and> (m = mode_password \<or> m = mode_oidc)) \<and> authenticated env (clk 0) r)"

lemma middleware_cases:
  "middleware env fl clk db r gt =
     (case auth_mode (fl 0) db of
        None \<Rightarrow> (Auth_error, gt)
      | Some mode \<Rightarrow>
          if mode = mode_none then (Served empty_ctx False, gt)
          else case key_ok env fl db r of
            None \<Rightarrow> (Auth_error, gt)
          | Some k \<Rightarrow>
              if \<not> passes env fl clk db r k then (Auth_required, gt)
              else serve_section_gated env (\<lambda>n. fl (n + 2)) (\<lambda>n. clk (n + 2)) db
                     (with_identity (lockout_identity env (clk 1) r k (trim_space (hr_api_key r))) empty_ctx) r gt)"
  unfolding middleware_def key_ok_def [symmetric] Let_def
  by (auto simp: passes_def password_auth_def split: option.split)

text \<open>What the gate can answer to a request that passed primary authentication.\<close>

definition gate_answer :: "response \<Rightarrow> bool" where
  "gate_answer a \<longleftrightarrow> a \<noteq> Auth_error \<and> a \<noteq> Auth_required"

lemma gate_answers: "gate_answer (fst (serve_section_gated env fl clk db c r gt))"
  by (auto simp: serve_section_gated_def gate_answer_def Let_def split: option.split sum.split prod.split)

lemma auth_mode_cong:
  "db auth_mode_key = db' auth_mode_key \<Longrightarrow> auth_mode f db = auth_mode f db'"
  by (simp add: auth_mode_def settings_get_def)

lemma active_key_cong:
  assumes "db apikey_hash_key = db' apikey_hash_key"
  shows "active_key_hash f env db = active_key_hash f env db'"
proof -
  have "settings_get f db apikey_hash_key = settings_get f db' apikey_hash_key"
    using assms by (simp add: settings_get_def)
  then show ?thesis by (simp only: active_key_hash_def)
qed

lemma key_ok_cong:
  "db apikey_hash_key = db' apikey_hash_key \<Longrightarrow> key_ok env fl db r = key_ok env fl db' r"
  using active_key_cong [of db db' "fl 1" "mw_env_key env"]
  by (simp add: key_ok_def verify_api_key_def Let_def)

lemma served_identity:
  "serve_section_gated env fl clk db (with_identity i empty_ctx) r gt = (Served c l, gt') \<Longrightarrow> cx_identity c = i"
  by (auto simp: serve_section_gated_def Let_def with_decision_def with_identity_def
      split: option.splits sum.splits prod.splits if_splits)

lemma key_ok_same: "hr_api_key r' = hr_api_key r \<Longrightarrow> key_ok env fl db r' = key_ok env fl db r"
  by (simp add: key_ok_def)

section \<open>Properties\<close>

text \<open>
  An unauthenticated caller learns nothing of the section lock. Whether a request is answered
  with an authentication error or required to authenticate, and which, is the same for any two
  gates and any two stores that agree on the auth settings; and then no gate state is touched: no
  counter, no cache, no memo.
\<close>

theorem auth_before_gate:
  assumes "db auth_mode_key = db' auth_mode_key" and "db apikey_hash_key = db' apikey_hash_key"
    and "fst (middleware env fl clk db r gt) = a" and "a = Auth_required \<or> a = Auth_error"
  shows "middleware env fl clk db r gt = (a, gt) \<and> middleware env fl clk db' r gt' = (a, gt')"
proof -
  have am: "auth_mode f db = auth_mode f db'" for f using assms(1) by (rule auth_mode_cong)
  have ko: "key_ok env fl db r = key_ok env fl db' r" using assms(2) by (rule key_ok_cong)
  have p: "passes env fl clk db r k = passes env fl clk db' r k" for k
    by (simp add: passes_def am ko)
  have ng: "fst (serve_section_gated env fl1 clk1 db1 c r gt1) \<noteq> a" for fl1 clk1 db1 c gt1
    using gate_answers [of env fl1 clk1 db1 c r gt1] assms(4) by (auto simp: gate_answer_def)
  show ?thesis
    using assms(3,4) ng unfolding middleware_cases p am ko
    by (auto split: option.splits if_splits)
qed

text \<open>A deployment for the witnesses: password mode, one API key, one PIN, one locked section.\<close>

definition demo_env :: mw_env where
  "demo_env = \<lparr>mw_crypto = demo_crypto, mw_decrypt = decrypt demo_open, mw_fingerprint = (\<lambda>s. s),
     mw_split_host_port = Some, mw_sha = (\<lambda>s. s), mw_env_key = Some (''k1'', [])\<rparr>"

definition demo_request :: http_request where
  "demo_request = \<lparr>hr_path = ''/api/grabs'', hr_api_key = ''k1'', hr_session_cookie = None,
     hr_unlock_cookie = [], hr_pin = [], hr_remote_addr = ''10.0.0.9:5''\<rparr>"

abbreviation no_faults :: faults where "no_faults \<equiv> \<lambda>_. False"

lemma demo_key_ok: "key_ok demo_env no_faults db demo_request = Some True"
proof -
  have "trim_space ''k1'' = ''k1''" by code_simp
  then show ?thesis
    by (simp add: key_ok_def verify_api_key_def active_key_hash_def demo_env_def demo_request_def)
qed

lemma demo_passes: "passes demo_env no_faults clk db demo_request True"
  by (simp add: passes_def demo_key_ok)

lemma demo_classify: "classify (hr_path demo_request) = [''queue'']"
  by code_simp

theorem auth_before_gate_witness:
  "middleware demo_env no_faults (\<lambda>_. 0) demo_db (demo_request\<lparr>hr_api_key := ''bad''\<rparr>) (Some (new_gate new_store)) =
     (Auth_required, Some (new_gate new_store))"
proof -
  have t: "trim_space ''bad'' = ''bad''" by code_simp
  have "fst (middleware demo_env no_faults (\<lambda>_. 0) demo_db (demo_request\<lparr>hr_api_key := ''bad''\<rparr>) None) = Auth_required"
    unfolding middleware_cases
    by (simp add: passes_def key_ok_def verify_api_key_def active_key_hash_def demo_env_def demo_request_def t
        authenticated_def auth_mode_def settings_get_def demo_db_def auth_modes auth_keys pin_hash_key_def
        sections_key_def)
  then show ?thesis using auth_before_gate [where db = demo_db and db' = demo_db]
    by blast
qed

text \<open>
  C1. Nothing is served around the gate. In an enforced instance (not mode "none", a gate
  installed), a request that reaches the next handler authenticated by key or session, and if
  its path touches a locked section then a PIN exists and it presented a live ticket or the
  right PIN while its identity was not refused; the handler then has the decision in its
  context, so that the inner layers see it.
\<close>

theorem complete_mediation:
  assumes "collision_free (mw_crypto env)" and "gate_ok (mw_crypto env) db g"
    and "auth_mode (fl 0) db \<noteq> Some mode_none"
    and "middleware env fl clk db r (Some g) = (Served c live, gt)"
  shows "(\<exists>k. passes env fl clk db r k) \<and>
    (classify (hr_path r) \<noteq> [] \<longrightarrow>
       (\<exists>d. cx_decision c = Some d \<and> stored_sections db = Inr (d_locked d) \<and>
         (set (d_locked d) \<inter> set (classify (hr_path r)) = {} \<or> stored_pin db \<noteq> [] \<and>
            (valid_ticket (mw_crypto env) (hr_unlock_cookie r) (clk 2) \<noteq> None \<or>
             \<not> refused (g_lockout g) (cx_identity c) (clk 3) \<and>
             cr_bcrypt_cmp (mw_crypto env) (stored_pin db) (hr_pin r)))))"
proof -
  obtain k where k: "passes env fl clk db r k" and
    s: "serve_section_gated env (\<lambda>n. fl (n + 2)) (\<lambda>n. clk (n + 2)) db
      (with_identity (lockout_identity env (clk 1) r k (trim_space (hr_api_key r))) empty_ctx) r (Some g) =
        (Served c live, gt)"
    using assms(3,4) unfolding middleware_cases
    by (auto split: option.splits if_splits)
  let ?i = "lockout_identity env (clk 1) r k (trim_space (hr_api_key r))"
  let ?c = "with_identity ?i empty_ctx"
  let ?q = "gate_request_of env ?c r"
  have i: "?i \<noteq> []" by (auto simp: lockout_identity_def split: option.split)
  then have q: "rq_enforcing ?q" "rq_ticket ?q = hr_unlock_cookie r" "rq_pin ?q = hr_pin r" "rq_identity ?q = ?i"
    by (simp_all add: gate_request_of_def with_identity_def identity_from_def identity_of_def)
  show ?thesis
  proof (cases "classify (hr_path r) = []")
    case True
    then show ?thesis using k by blast
  next
    case False
    then obtain d g' where d: "decide (mw_crypto env) (\<lambda>n. fl (n + 2)) (\<lambda>n. clk (n + 2)) db ?q g = (Inr d, g')"
      "allows d (classify (hr_path r))" "c = with_decision d ?c"
      using s by (auto simp: serve_section_gated_def Let_def set_len_def split: prod.splits sum.splits if_splits)
    have "cx_decision c = Some d" "cx_identity c = ?i"
      unfolding d(3) by (simp_all add: with_decision_def with_identity_def)
    then show ?thesis using k decide_fails_closed_core [OF assms(1,2) q(1) d(1,2)] q(2-4)
      by (auto simp: numeral_2_eq_2 numeral_3_eq_3)
  qed
qed

theorem complete_mediation_witness:
  "(\<exists>c live gt. middleware demo_env no_faults (\<lambda>_. 0) demo_db (demo_request\<lparr>hr_pin := ''482913''\<rparr>)
       (Some (new_gate new_store)) = (Served c live, gt) \<and>
     (\<exists>d. cx_decision c = Some d \<and> d_locked d = [''queue'']))"
proof -
  let ?r = "demo_request\<lparr>hr_pin := ''482913''\<rparr>"
  have am: "auth_mode (no_faults 0) demo_db = Some mode_password"
    by (simp add: auth_mode_def settings_get_def demo_db_def auth_keys pin_hash_key_def sections_key_def)
  have "key_ok demo_env no_faults demo_db ?r = Some True"
    using key_ok_same [of ?r demo_request] demo_key_ok [of demo_db] by simp
  then have ps: "passes demo_env no_faults (\<lambda>_. 0) demo_db ?r True" "key_ok demo_env no_faults demo_db ?r = Some True"
    by (simp_all add: passes_def)
  let ?c = "with_identity (lockout_identity demo_env 0 ?r True (trim_space (hr_api_key ?r))) empty_ctx"
  let ?q = "gate_request_of demo_env ?c ?r"
  have q: "rq_enforcing ?q" "rq_pin ?q = ''482913''" by (simp_all add: gate_request_of_def demo_request_def)
  have n: "no_double_fault no_faults" by (simp add: no_double_fault_def)
  have rf: "refused new_lockout i t = False" for i t by (simp add: refused_iff new_lockout_def)
  obtain d g' where d: "decide demo_crypto no_faults (\<lambda>_. 0) demo_db ?q (new_gate new_store) = (Inr d, g')" "d_unlocked d"
    using decide_spec [OF demo_collision_free demo_gate_ok n q(1) demo_stored(2), of "\<lambda>_. 0"] q(2)
    by (auto simp: credential_def demo_stored verify_ref_def new_gate_def rf demo_crypto_def)
  have "middleware demo_env no_faults (\<lambda>_. 0) demo_db ?r (Some (new_gate new_store)) =
      (Served (with_decision d ?c) True, Some g')"
    unfolding middleware_cases am using ps d
    by (simp add: auth_modes serve_section_gated_def Let_def allows_iff demo_env_def [THEN arg_cong, of mw_crypto])
  note m = this
  have nn: "auth_mode (no_faults 0) demo_db \<noteq> Some mode_none" using am by (simp add: auth_modes)
  have cl: "classify (hr_path ?r) \<noteq> []" using demo_classify by (simp add: demo_request_def)
  have "mw_crypto demo_env = demo_crypto" by (simp add: demo_env_def)
  then have "\<exists>d'. cx_decision (with_decision d ?c) = Some d' \<and> stored_sections demo_db = Inr (d_locked d')"
    using complete_mediation [OF _ _ nn m] demo_collision_free demo_gate_ok cl by auto
  then show ?thesis using m demo_stored(2) by auto
qed

text \<open>
  The lockout bucket is the credential that passed, and nothing else of the request. For a
  request authenticated by an API key the identity the handlers and the gate see is a function
  of the key; any session cookie, ticket or PIN attached to it, and the address it comes from,
  leave it the same.
\<close>

theorem identity_of_credential:
  assumes "passes env fl clk db r True" and "hr_api_key r' = hr_api_key r"
    and "auth_mode (fl 0) db = Some m" and "m \<noteq> mode_none"
    and "middleware env fl clk db r gt = (Served c live, gt1)"
    and "middleware env fl clk db r' gt' = (Served c' live', gt2)"
  shows "cx_identity c = key_identity (mw_fingerprint env) (trim_space (hr_api_key r)) \<and>
    cx_identity c' = cx_identity c"
proof -
  have k: "key_ok env fl db r = Some True" using assms(1) by (simp add: passes_def)
  then have k': "key_ok env fl db r' = Some True" using key_ok_same [OF assms(2)] by simp
  then have p': "passes env fl clk db r' True" by (simp add: passes_def)
  show ?thesis
    using assms(5,6) k k' assms(1,2,3,4) p' unfolding middleware_cases
    by (auto simp: lockout_identity_def dest!: served_identity)
qed

theorem identity_of_credential_witness:
  "(\<exists>c c' live live' gt gt'.
     middleware demo_env no_faults (\<lambda>_. 0) demo_db demo_request None = (Served c live, gt) \<and>
     middleware demo_env no_faults (\<lambda>_. 0) demo_db (demo_request\<lparr>hr_session_cookie := Some ''noise''\<rparr>) None =
       (Served c' live', gt') \<and> cx_identity c' = cx_identity c)"
proof -
  let ?r = "demo_request\<lparr>hr_session_cookie := Some ''noise''\<rparr>"
  have am: "auth_mode (no_faults 0) demo_db = Some mode_password"
    by (simp add: auth_mode_def settings_get_def demo_db_def auth_keys pin_hash_key_def sections_key_def)
  have k: "key_ok demo_env no_faults demo_db ?r = Some True"
    using key_ok_same [of ?r demo_request] demo_key_ok [of demo_db] by simp
  then have ps: "passes demo_env no_faults (\<lambda>_. 0) demo_db ?r True" by (simp add: passes_def)
  have "\<exists>c gt. middleware demo_env no_faults (\<lambda>_. 0) demo_db demo_request None = (Served c False, gt)"
    unfolding middleware_cases am using demo_key_ok demo_passes
    by (simp add: auth_modes serve_section_gated_def)
  moreover have "\<exists>c gt. middleware demo_env no_faults (\<lambda>_. 0) demo_db ?r None = (Served c False, gt)"
    unfolding middleware_cases am using k ps by (simp add: auth_modes serve_section_gated_def)
  ultimately obtain c live gt c' live' gt' where
    m: "middleware demo_env no_faults (\<lambda>_. 0) demo_db demo_request None = (Served c live, gt)" and
    m': "middleware demo_env no_faults (\<lambda>_. 0) demo_db ?r None = (Served c' live', gt')" by blast
  have "mode_password \<noteq> mode_none" by (simp add: auth_modes)
  moreover have "hr_api_key ?r = hr_api_key demo_request" by simp
  ultimately show ?thesis
    using identity_of_credential [OF demo_passes _ am _ m m'] m m' by blast
qed

text \<open>
  The way out stays open. An authenticated request to a path that no section covers (the
  lock's own routes, the auth routes, the key rotation) is served whatever the lock's state:
  corrupt, unreadable, locked without a PIN, or locked out.
\<close>

theorem recovery_routes_served:
  assumes "passes env fl clk db r k" and "auth_mode (fl 0) db = Some m" and "m \<noteq> mode_none"
    and "classify (hr_path r) = []"
  shows "\<exists>c live gt'. middleware env fl clk db r gt = (Served c live, gt')"
proof -
  have "key_ok env fl db r = Some k" using assms(1) by (simp add: passes_def)
  then show ?thesis
    using assms unfolding middleware_cases
    by (auto simp: serve_section_gated_def Let_def set_len_def allows_def split: option.split sum.split prod.split)
qed

theorem recovery_routes_served_witness:
  "\<exists>c live gt'. middleware demo_env no_faults (\<lambda>_. 0) [sections_key \<mapsto> ''{}'']
     (demo_request\<lparr>hr_path := ''/api/section-lock/pin''\<rparr>) (Some (new_gate new_store)) = (Served c live, gt')"
proof -
  let ?r = "demo_request\<lparr>hr_path := ''/api/section-lock/pin''\<rparr>"
  have am: "auth_mode (no_faults 0) [sections_key \<mapsto> ''{}''] = Some mode_password"
    by (simp add: auth_mode_def settings_get_def auth_keys sections_key_def)
  have "key_ok demo_env no_faults [sections_key \<mapsto> ''{}''] ?r = Some True"
    using key_ok_same [of ?r demo_request] demo_key_ok by simp
  then have ps: "passes demo_env no_faults (\<lambda>_. 0) [sections_key \<mapsto> ''{}''] ?r True" by (simp add: passes_def)
  have cl: "classify (hr_path ?r) = []" by (simp add: demo_request_def, code_simp)
  have "mode_password \<noteq> mode_none" by (simp add: auth_modes)
  then show ?thesis by (rule recovery_routes_served [OF ps am _ cl])
qed

section \<open>One session, many cookies\<close>

text \<open>
  The base64 decoder ignores the spare bits of the last character, so the encoding of a value
  whose length is one more than a multiple of three has sixteen spellings that decode alike.
\<close>

definition spelling :: "gostring \<Rightarrow> nat \<Rightarrow> nat \<Rightarrow> gostring" where
  "spelling pre k j = pre @ [enc6 (k + j), CHR ''='', CHR ''='']"

abbreviation no_breaks :: "gostring \<Rightarrow> bool" where
  "no_breaks s \<equiv> filter (\<lambda>c. c \<noteq> CHR 0x0A \<and> c \<noteq> CHR 0x0D) s = s"

lemma pad_div:
  assumes "m < 4" and "j < 16"
  shows "(q * 262144 + (m * 16 + j) * 4096) div 65536 = q * 4 + (m :: nat)"
  by (rule div_nat_eqI) (use assms in auto)

lemma spellings_quads:
  "length xs mod 3 = 1 \<Longrightarrow>
     \<exists>pre k. b64_encode xs = spelling pre k 0 \<and> k + 15 < 64 \<and> no_breaks pre \<and>
       (\<forall>j<16. b64_quads (spelling pre k j) = Some xs)"
proof (induction xs rule: b64_encode.induct)
  case (2 a)
  let ?n = "byte a * 65536"
  have b: "byte a < 256" by (rule byte_bound)
  have q: "?n div 262144 = byte a div 4" using div_mult_mult1 [of 65536 "byte a" 4] by simp
  have "?n div 4096 = byte a * 16" by (simp add: div_mult_swap)
  moreover have "(byte a * 16) mod 64 = (byte a mod 4) * 16"
    using mult_mod_right [of 16 "byte a" 4] by (simp add: mult.commute)
  ultimately have k: "?n div 4096 mod 64 = (byte a mod 4) * 16" by (simp only:)
  have lt: "byte a div 4 < 64" "(byte a mod 4) * 16 + 15 < 64" using b by (auto simp: less_mult_imp_div_less)
  have "b64_quads (enc6 (byte a div 4) # enc6 ((byte a mod 4) * 16 + j) # ''=='') = Some [a]" if j: "j < 16" for j
  proof -
    have "(byte a div 4 * 262144 + ((byte a mod 4) * 16 + j) * 4096) div 65536 = byte a"
      using pad_div [OF _ j, of "byte a mod 4" "byte a div 4"] by simp
    then show ?thesis using lt j by simp
  qed
  then show ?case using lt k q
    by (intro exI [of _ "[enc6 (byte a div 4)]"] exI [of _ "(byte a mod 4) * 16"])
      (simp add: spelling_def Let_def)
next
  case (4 a b c r)
  define n where "n = byte a * 65536 + byte b * 256 + byte c"
  note o = octets [OF byte_bound [of a] byte_bound [of b] byte_bound [of c] n_def]
  have len: "length r mod 3 = 1" using "4.prems" by (simp add: mod_Suc split: if_splits)
  have f: "byte a * 65536 + byte b * 256 + byte c = n" by (simp add: n_def)
  let ?h = "[enc6 (n div 262144), enc6 (n div 4096 mod 64), enc6 (n div 64 mod 64), enc6 (n mod 64)]"
  obtain pre k where p: "b64_encode r = spelling pre k 0" "k + 15 < 64" "no_breaks pre"
    "\<forall>j<16. b64_quads (spelling pre k j) = Some r"
    using "4.IH" [OF refl len] f by (auto simp: n_def)
  have "b64_quads (?h @ s) = Some (a # b # c # r)" if "b64_quads s = Some r" for s
    using that o sextets [of n] char_of_byte [OF o(2)] char_of_byte [OF o(3)] by (simp add: Let_def)
  then have "\<forall>j<16. b64_quads (spelling (?h @ pre) k j) = Some (a # b # c # r)"
    using p(4) by (simp add: spelling_def)
  moreover have "b64_encode (a # b # c # r) = spelling (?h @ pre) k 0"
    using p(1) f by (simp add: spelling_def Let_def)
  moreover have "no_breaks (?h @ pre)" using p(3) o(4) by simp
  ultimately show ?case using p(2) by blast
qed simp_all

lemma spellings:
  assumes "length xs mod 3 = 1"
  shows "\<exists>ts. length ts = 16 \<and> distinct ts \<and> b64_encode xs \<in> set ts \<and> (\<forall>t\<in>set ts. b64_decode t = Some xs)"
proof -
  obtain pre k where p: "b64_encode xs = spelling pre k 0" "k + 15 < 64" "no_breaks pre"
    "\<forall>j<16. b64_quads (spelling pre k j) = Some xs"
    using spellings_quads [OF assms] by blast
  let ?ts = "map (spelling pre k) [0..<16]"
  have "i = j" if "i < 16" "j < 16" "spelling pre k i = spelling pre k j" for i j
  proof -
    have "dec6 (enc6 (k + i)) = dec6 (enc6 (k + j))" using that(3) by (simp add: spelling_def)
    then show ?thesis using that(1,2) p(2) by simp
  qed
  then have "distinct ?ts" by (auto simp: distinct_map inj_on_def)
  moreover have "b64_decode (spelling pre k j) = Some xs" if "j < 16" for j
    using p that by (simp add: b64_decode_def spelling_def)
  moreover have "b64_encode xs \<in> set ?ts" using p(1) by auto
  ultimately show ?thesis by (intro exI [of _ ?ts]) auto
qed

lemma show_nat_length: "10 ^ k \<le> n \<Longrightarrow> n < 10 ^ Suc k \<Longrightarrow> length (show_nat n) = Suc k"
proof (induction k arbitrary: n)
  case 0
  then show ?case by (simp add: show_nat.simps [of n])
next
  case (Suc k)
  have "10 ^ k \<le> n div 10"
    using div_le_mono [OF Suc.prems(1), of 10] by simp
  moreover have "n div 10 < 10 ^ Suc k" using Suc.prems(2) by (simp add: less_mult_imp_div_less)
  moreover have "\<not> n < 10"
  proof -
    have "(10::nat) * 1 \<le> 10 * 10 ^ k" by (intro mult_le_mono2) simp
    moreover have "10 * 10 ^ k \<le> n" using Suc.prems(1) by simp
    ultimately show ?thesis by linarith
  qed
  ultimately show ?case using Suc.IH [of "n div 10"] by (simp add: show_nat.simps [of n])
qed

lemma session_payload_length:
  assumes "10 ^ 9 \<le> x" and "x < 10 ^ 10"
  shows "length (marshal_payload True [] x) = 18"
proof -
  have "length (show_nat (nat x)) = Suc 9"
    by (rule show_nat_length) (use assms in auto)
  then have "length (show_int x) = 10" using assms by (simp add: show_int_def)
  then show ?thesis by (simp add: marshal_payload_def field_def json_quote_def escape_char_def)
qed

text \<open>
  One session cookie is sixteen lockout identities. Ciphertexts are sixteen bytes longer
  than their plaintext (the GCM tag), so a session token of the years 2001 to 2286 is 46 bytes,
  and its holder can present it in sixteen spellings: all of them authenticate as the original
  does, and each has a lockout bucket of its own.
\<close>

theorem session_has_many_buckets:
  assumes "\<forall>n p a. length (seal n p a) = length p + 16" and "\<forall>n p. opn n (seal n p []) [] = Some p"
    and "length nonce = nonce_size" and "inj fp"
    and "issue_token (encrypt seal (Some nonce)) now = Some tok"
    and "10 ^ 9 \<le> unix_of (now + session_ttl)" and "unix_of (now + session_ttl) < 10 ^ 10"
  shows "\<exists>toks. length toks = 16 \<and> tok \<in> set toks \<and>
    (\<forall>tok'\<in>set toks. validate_token (decrypt opn) tok' t \<longleftrightarrow> t < time_of_unix (unix_of (now + session_ttl))) \<and>
    distinct (map (session_identity fp) toks)"
proof -
  let ?x = "unix_of (now + session_ttl)"
  let ?data = "nonce @ seal nonce (marshal_payload True [] ?x) []"
  have tok: "tok = b64_encode ?data" using assms(5) by (simp add: issue_token_def encrypt_def)
  have "length ?data mod 3 = 1"
    using assms(1,3) session_payload_length [OF assms(6,7)] by (simp add: nonce_size_def)
  then obtain toks where ts: "length toks = 16" "distinct toks" "tok \<in> set toks"
    "\<forall>t\<in>set toks. b64_decode t = Some ?data"
    using spellings [of ?data] tok by blast
  have um: "unmarshal_payload (marshal_payload True [] ?x) = Some ([], ?x)"
    by (rule marshal_payload_roundtrip) (use assms(6,7) in auto)
  have "validate_token (decrypt opn) tok' t \<longleftrightarrow> t < time_of_unix ?x" if m: "tok' \<in> set toks" for tok'
  proof -
    have b: "b64_decode tok' = Some ?data" using ts(4) m by blast
    have "decrypt opn tok' = Some (marshal_payload True [] ?x)"
      unfolding decrypt_def b using assms(2,3) by simp
    then show ?thesis using um by (simp add: validate_token_def unlock_ticket_type_def unix_less)
  qed
  moreover have "inj_on (session_identity fp) (set toks)"
    by (rule inj_onI) (use assms(4) in \<open>simp add: session_identity_def inj_eq\<close>)
  ultimately show ?thesis using ts(1-3) by (intro exI [of _ toks]) (simp add: distinct_map)
qed

definition demo_seal16 :: seal_fn where "demo_seal16 n p a = p @ replicate 16 CHR ''0''"
definition demo_open16 :: open_fn where "demo_open16 n c a = Some (take (length c - 16) c)"

theorem session_has_many_buckets_witness:
  "\<exists>tok toks. issue_token (encrypt demo_seal16 (Some ''nonce-12byte'')) (time_of_unix 1790000000) = Some tok \<and>
     length toks = 16 \<and> distinct (map (session_identity (\<lambda>s. s)) toks) \<and>
     (\<forall>tok'\<in>set toks. validate_token (decrypt demo_open16) tok' (time_of_unix 1790000000))"
proof -
  have l: "length ''nonce-12byte'' = nonce_size" by code_simp
  obtain tok where t: "issue_token (encrypt demo_seal16 (Some ''nonce-12byte'')) (time_of_unix 1790000000) = Some tok"
    by (auto simp: issue_token_def encrypt_def)
  have u: "unix_of (time_of_unix 1790000000 + session_ttl) = 1792592000"
    by (simp add: unix_of_def time_of_unix_def session_ttl_def)
  have "\<exists>toks. length toks = 16 \<and> tok \<in> set toks \<and>
    (\<forall>tok'\<in>set toks. validate_token (decrypt demo_open16) tok' (time_of_unix 1790000000) \<longleftrightarrow>
       time_of_unix 1790000000 < time_of_unix (unix_of (time_of_unix 1790000000 + session_ttl))) \<and>
    distinct (map (session_identity (\<lambda>s. s)) toks)"
    by (rule session_has_many_buckets [OF _ _ l _ t])
      (simp_all add: demo_seal16_def demo_open16_def u)
  then show ?thesis using t unfolding u by (auto simp: time_of_unix_def)
qed

end
