(* ===== verification/Lock_Api.thy ===== *)
theory Lock_Api
  imports Middleware
begin

text \<open>
  \<open>internal/api/sectionlock.go\<close>, the lock's control surface, and the key rotation route of
  \<open>internal/api/apikey.go\<close>. A request body that does not decode is \<open>None\<close>; the identity
  is the one the middleware resolved; \<open>disabled\<close> is \<open>SAKMS_SECTION_LOCK_DISABLE\<close>.
\<close>

section \<open>State and responses\<close>

record api_state =
  a_db :: settings_db
  a_gate :: gate

datatype lock_response =
    Status bool "section_id list" bool bool
  | No_content
  | Unlock_cookie gostring bool
  | Lockout_response int
  | Forbidden
  | New_key gostring gostring
  | Http_error nat

text \<open>What a request carries beyond its body.\<close>

record caller =
  ca_identity :: gostring
  ca_ticket :: gostring

definition pin_error_response :: "gate_error \<Rightarrow> lock_response" where
  "pin_error_response e =
     (case e of
        Locked_out retry \<Rightarrow> Lockout_response (max 1 ((retry + second - 1) div second))
      | No_pin_presented \<Rightarrow> Http_error 400
      | No_pin_set \<Rightarrow> Http_error 409
      | Wrong_pin \<Rightarrow> Forbidden
      | Config_unavailable _ \<Rightarrow> Http_error 500)"

definition enforcing_mode :: "bool \<Rightarrow> settings_db \<Rightarrow> lock_response + gostring" where
  "enforcing_mode f db =
     (case auth_mode f db of
        None \<Rightarrow> Inl (Http_error 500)
      | Some mode \<Rightarrow> if mode = mode_none then Inl (Http_error 409) else Inr mode)"

section \<open>Handlers\<close>

definition status ::
  "crypto \<Rightarrow> faults \<Rightarrow> clock \<Rightarrow> bool \<Rightarrow> caller \<Rightarrow> api_state \<Rightarrow> lock_response \<times> api_state" where
  "status cr fl clk disabled ca s =
     (case auth_mode (fl 0) (a_db s) of
        None \<Rightarrow> (Http_error 500, s)
      | Some mode \<Rightarrow>
          (case pin_set (fl 1) (fl 2) (a_db s) (g_store (a_gate s)) of
             (Inl e, st) \<Rightarrow> (Http_error 500, s\<lparr>a_gate := (a_gate s)\<lparr>g_store := st\<rparr>\<rparr>)
           | (Inr pinned, st) \<Rightarrow>
               (case locked_sections (fl 3) (fl 4) (a_db s) st of
                  (Inl e, st') \<Rightarrow> (Http_error 500, s\<lparr>a_gate := (a_gate s)\<lparr>g_store := st'\<rparr>\<rparr>)
                | (Inr ids, st') \<Rightarrow>
                    (Status pinned (set_sorted ids) (valid_ticket cr (ca_ticket ca) (clk 0) \<noteq> None)
                       (\<not> disabled \<and> mode \<noteq> mode_none),
                     s\<lparr>a_gate := (a_gate s)\<lparr>g_store := st'\<rparr>\<rparr>))))"

definition unlock ::
  "crypto \<Rightarrow> faults \<Rightarrow> clock \<Rightarrow> caller \<Rightarrow> gostring option \<Rightarrow> api_state \<Rightarrow> lock_response \<times> api_state" where
  "unlock cr fl clk ca body s =
     (case body of
        None \<Rightarrow> (Http_error 400, s)
      | Some pin \<Rightarrow>
          (case enforcing_mode (fl 0) (a_db s) of
             Inl r \<Rightarrow> (r, s)
           | Inr mode \<Rightarrow>
               (case verify_pin cr (\<lambda>n. fl (n + 1)) clk (a_db s) (ca_identity ca) pin (a_gate s) of
                  (Some e, g) \<Rightarrow> (pin_error_response e, s\<lparr>a_gate := g\<rparr>)
                | (None, g) \<Rightarrow>
                    (case issue_ticket cr (clk 2) of
                       None \<Rightarrow> (Http_error 500, s\<lparr>a_gate := g\<rparr>)
                     | Some (token, _) \<Rightarrow> (Unlock_cookie token (mode = mode_oidc), s\<lparr>a_gate := g\<rparr>)))))"

definition lock :: "api_state \<Rightarrow> lock_response \<times> api_state" where
  "lock s = (No_content, s\<lparr>a_gate := revoke (a_gate s)\<rparr>)"

text \<open>\<open>None\<close> lets the change proceed.\<close>

definition authorize_change ::
  "crypto \<Rightarrow> faults \<Rightarrow> clock \<Rightarrow> bool \<Rightarrow> caller \<Rightarrow> gostring \<Rightarrow> bool \<Rightarrow> api_state \<Rightarrow>
     lock_response option \<times> api_state" where
  "authorize_change cr fl clk disabled ca current_pin allow_disarm s =
     (if allow_disarm \<and> disabled then (None, s)
      else case pin_set (fl 0) (fl 1) (a_db s) (g_store (a_gate s)) of
        (Inl e, st) \<Rightarrow> (Some (Http_error 500), s\<lparr>a_gate := (a_gate s)\<lparr>g_store := st\<rparr>\<rparr>)
      | (Inr pinned, st) \<Rightarrow>
          let s1 = s\<lparr>a_gate := (a_gate s)\<lparr>g_store := st\<rparr>\<rparr> in
          if \<not> pinned then (None, s1)
          else case verify_pin cr (\<lambda>n. fl (n + 2)) clk (a_db s1) (ca_identity ca) current_pin (a_gate s1) of
            (Some e, g) \<Rightarrow> (Some (pin_error_response e), s1\<lparr>a_gate := g\<rparr>)
          | (None, g) \<Rightarrow> (None, s1\<lparr>a_gate := g\<rparr>))"

definition set_pin_handler ::
  "crypto \<Rightarrow> faults \<Rightarrow> clock \<Rightarrow> bool \<Rightarrow> caller \<Rightarrow> (gostring \<times> gostring) option \<Rightarrow> api_state \<Rightarrow>
     lock_response \<times> api_state" where
  "set_pin_handler cr fl clk disabled ca body s =
     (case body of
        None \<Rightarrow> (Http_error 400, s)
      | Some (current_pin, new_pin) \<Rightarrow>
          (case enforcing_mode (fl 0) (a_db s) of
             Inl r \<Rightarrow> (r, s)
           | Inr _ \<Rightarrow>
               (case authorize_change cr (\<lambda>n. fl (n + 1)) clk disabled ca current_pin True s of
                  (Some r, s1) \<Rightarrow> (r, s1)
                | (None, s1) \<Rightarrow>
                    (case set_pin (cr_bcrypt_gen cr) (fl 5) new_pin (a_db s1) (g_store (a_gate s1)) of
                       (r, db, st) \<Rightarrow>
                         let s2 = s1\<lparr>a_db := db, a_gate := (a_gate s1)\<lparr>g_store := st\<rparr>\<rparr> in
                         (case r of
                            Some Pin_too_short \<Rightarrow> (Http_error 400, s2)
                          | Some _ \<Rightarrow> (Http_error 500, s2)
                          | None \<Rightarrow> (No_content, s2\<lparr>a_gate := revoke (a_gate s2)\<rparr>))))))"

definition clear_pin_handler ::
  "crypto \<Rightarrow> faults \<Rightarrow> clock \<Rightarrow> bool \<Rightarrow> caller \<Rightarrow> gostring option \<Rightarrow> api_state \<Rightarrow> lock_response \<times> api_state" where
  "clear_pin_handler cr fl clk disabled ca body s =
     (case body of
        None \<Rightarrow> (Http_error 400, s)
      | Some current_pin \<Rightarrow>
          (case enforcing_mode (fl 0) (a_db s) of
             Inl r \<Rightarrow> (r, s)
           | Inr _ \<Rightarrow>
               (case authorize_change cr (\<lambda>n. fl (n + 1)) clk disabled ca current_pin True s of
                  (Some r, s1) \<Rightarrow> (r, s1)
                | (None, s1) \<Rightarrow>
                    (case clear_pin (fl 5) (fl 6) (a_db s1) (g_store (a_gate s1)) of
                       (r, db, st) \<Rightarrow>
                         let s2 = s1\<lparr>a_db := db, a_gate := (a_gate s1)\<lparr>g_store := st\<rparr>\<rparr> in
                         (case r of
                            Some _ \<Rightarrow> (Http_error 500, s2)
                          | None \<Rightarrow> (No_content, s2\<lparr>a_gate := revoke (a_gate s2)\<rparr>))))))"

fun unknown_from :: "gostring list \<Rightarrow> section_id list \<Rightarrow> gostring list" where
  "unknown_from seen [] = []"
| "unknown_from seen (i # is) =
     (if known_section i \<or> i \<in> set seen then unknown_from seen is
      else i # unknown_from (i # seen) is)"

definition unknown_sections :: "section_id list \<Rightarrow> gostring list" where
  "unknown_sections ids = unknown_from [] ids"

text \<open>
  \<open>setSections\<close> in two parts: everything up to its write, with \<open>None\<close> when the write goes
  ahead, and the write. Other requests run between them.
\<close>

definition set_sections_check ::
  "crypto \<Rightarrow> faults \<Rightarrow> clock \<Rightarrow> caller \<Rightarrow> (gostring \<times> section_id list) option \<Rightarrow> api_state \<Rightarrow>
     lock_response option \<times> api_state" where
  "set_sections_check cr fl clk ca body s =
     (case body of
        None \<Rightarrow> (Some (Http_error 400), s)
      | Some (current_pin, ids) \<Rightarrow>
          (case enforcing_mode (fl 0) (a_db s) of
             Inl r \<Rightarrow> (Some r, s)
           | Inr _ \<Rightarrow>
               (case pin_set (fl 1) (fl 2) (a_db s) (g_store (a_gate s)) of
                  (Inl e, st) \<Rightarrow> (Some (Http_error 500), s\<lparr>a_gate := (a_gate s)\<lparr>g_store := st\<rparr>\<rparr>)
                | (Inr pinned, st) \<Rightarrow>
                    let s1 = s\<lparr>a_gate := (a_gate s)\<lparr>g_store := st\<rparr>\<rparr> in
                    if ids \<noteq> [] \<and> \<not> pinned then (Some (Http_error 400), s1)
                    else case authorize_change cr (\<lambda>n. fl (n + 3)) clk False ca current_pin False s1 of
                      (Some r, s2) \<Rightarrow> (Some r, s2)
                    | (None, s2) \<Rightarrow>
                        (if unknown_sections ids \<noteq> [] then (Some (Http_error 400), s2) else (None, s2)))))"

definition set_sections_write ::
  "faults \<Rightarrow> (gostring \<times> section_id list) option \<Rightarrow> api_state \<Rightarrow> lock_response \<times> api_state" where
  "set_sections_write fl body s =
     (case set_sections (fl 7) (snd (the body)) (a_db s) (g_store (a_gate s)) of
        (r, db, st) \<Rightarrow>
          let s' = s\<lparr>a_db := db, a_gate := (a_gate s)\<lparr>g_store := st\<rparr>\<rparr> in
          (case r of Some _ \<Rightarrow> (Http_error 500, s') | None \<Rightarrow> (No_content, s')))"

definition set_sections_handler ::
  "crypto \<Rightarrow> faults \<Rightarrow> clock \<Rightarrow> caller \<Rightarrow> (gostring \<times> section_id list) option \<Rightarrow> api_state \<Rightarrow>
     lock_response \<times> api_state" where
  "set_sections_handler cr fl clk ca body s =
     (case set_sections_check cr fl clk ca body s of
        (Some r, s1) \<Rightarrow> (r, s1)
      | (None, s1) \<Rightarrow> set_sections_write fl body s1)"

text \<open>The key rotation route, with the shared gate.\<close>

definition apikey_regenerate ::
  "(gostring \<Rightarrow> gostring) \<Rightarrow> (gostring \<Rightarrow> gostring) \<Rightarrow> faults \<Rightarrow> env_key \<Rightarrow> gostring option \<Rightarrow> caller \<Rightarrow>
     api_state \<Rightarrow> lock_response \<times> api_state" where
  "apikey_regenerate sha fp fl env fresh ca s =
     (case regenerate sha (fl 0) (fl 1) env fresh (a_db s) of
        (Env_managed, db) \<Rightarrow> (Http_error 409, s\<lparr>a_db := db\<rparr>)
      | (Regenerate_error, db) \<Rightarrow> (Http_error 500, s\<lparr>a_db := db\<rparr>)
      | (Regenerated raw sfx, db) \<Rightarrow>
          (New_key raw sfx,
           s\<lparr>a_db := db, a_gate := transfer_lockout (ca_identity ca) (key_identity fp raw) (a_gate s)\<rparr>))"

section \<open>The invariant of the surface\<close>

definition api_ok :: "crypto \<Rightarrow> api_state \<Rightarrow> bool" where
  "api_ok cr s \<longleftrightarrow> gate_ok cr (a_db s) (a_gate s)"

lemma verify_pin_ok:
  assumes "collision_free cr" and "gate_ok cr db g" and "verify_pin cr fl clk db i pin g = (r, g')"
  shows "gate_ok cr db g'"
proof -
  have c: "coherent db (g_store g)" using assms(2) by (simp add: gate_ok_def)
  obtain x s' where ph: "pin_hash (fl 0) (fl 1) db (g_store g) = (x, s')" by fastforce
  have ok: "gate_ok cr db (g\<lparr>g_store := s'\<rparr>)"
    using gate_ok_store [OF assms(2)] pin_hash_result [OF c ph] by blast
  obtain retry b where lk: "locked (g_lockout g) i (clk 0) = (retry, b)" by fastforce
  show ?thesis
  proof (cases "pin = [] \<or> b")
    case True
    then have "g' = g"
      using assms(3) lk by (cases "pin = []") (simp_all add: verify_pin_def verify_begin_def)
    then show ?thesis using assms(2) by simp
  next
    case np: False
    show ?thesis
    proof (cases x)
      case (Inl e)
      then have "g' = g\<lparr>g_store := s'\<rparr>" using assms(3) ph lk np by (simp add: verify_pin_def verify_begin_def)
      then show ?thesis using ok by simp
    next
      case (Inr h)
      show ?thesis
      proof (cases "h = []")
        case True
        then have "g' = g\<lparr>g_store := s'\<rparr>"
          using assms(3) ph lk np Inr by (simp add: verify_pin_def verify_begin_def)
        then show ?thesis using ok by simp
      next
        case False
        then have "verify_end cr (clk 1) i pin h (g\<lparr>g_store := s'\<rparr>) = (r, g')"
          using assms(3) ph lk np Inr by (simp add: verify_pin_def verify_begin_def)
        then show ?thesis using verify_end_ref [OF assms(1) ok False, of "clk 1" i pin] by auto
      qed
    qed
  qed
qed

lemma pin_set_result:
  "coherent db st \<Longrightarrow> pin_set f1 f2 db st = (r, st') \<Longrightarrow>
     coherent db st' \<and> (\<forall>b. r = Inr b \<longrightarrow> b = (stored_pin db \<noteq> []))"
  using pin_hash_result [of db st f1 f2]
  by (cases "pin_hash f1 f2 db st") (auto simp: pin_set_def split: sum.splits)

lemma authorize_spec:
  assumes "collision_free cr" and "api_ok cr s"
    and "authorize_change cr fl clk disabled ca pin ad s = (r, s')"
  shows "api_ok cr s' \<and> a_db s' = a_db s \<and> (r = None \<longrightarrow>
    ad \<and> disabled \<or> stored_pin (a_db s) = [] \<or>
    \<not> refused (g_lockout (a_gate s)) (ca_identity ca) (clk 0) \<and> cr_bcrypt_cmp cr (stored_pin (a_db s)) pin)"
proof (cases "ad \<and> disabled")
  case True
  then show ?thesis using assms by (simp add: authorize_change_def)
next
  case False
  have g: "gate_ok cr (a_db s) (a_gate s)" using assms(2) by (simp add: api_ok_def)
  then have c: "coherent (a_db s) (g_store (a_gate s))" by (simp add: gate_ok_def)
  obtain x st where ps: "pin_set (fl 0) (fl 1) (a_db s) (g_store (a_gate s)) = (x, st)" by fastforce
  note pr = pin_set_result [OF c ps]
  let ?g = "(a_gate s)\<lparr>g_store := st\<rparr>"
  have ok: "gate_ok cr (a_db s) ?g" using gate_ok_store [OF g] pr by blast
  obtain v g' where vp: "verify_pin cr (\<lambda>n. fl (n + 2)) clk (a_db s) (ca_identity ca) pin ?g = (v, g')" by fastforce
  have ok': "gate_ok cr (a_db s) g'" using verify_pin_ok [OF assms(1) ok vp] .
  have vs: "v = None \<Longrightarrow> \<not> refused (g_lockout (a_gate s)) (ca_identity ca) (clk 0) \<and>
      cr_bcrypt_cmp cr (stored_pin (a_db s)) pin"
    using verify_success [OF assms(1) ok, of "\<lambda>n. fl (n + 2)" clk "ca_identity ca" pin g'] vp by simp
  show ?thesis
  proof (cases x)
    case (Inl e)
    then show ?thesis using assms(3) False ps ok by (auto simp: authorize_change_def api_ok_def)
  next
    case (Inr b)
    then show ?thesis using assms(3) False ps pr ok ok' vp vs
      by (cases b; cases v) (auto simp: authorize_change_def api_ok_def Let_def)
  qed
qed

lemma coherent_cong:
  "db' pin_hash_key = db pin_hash_key \<Longrightarrow> db' sections_key = db sections_key \<Longrightarrow>
     coherent db' s = coherent db s \<and> stored_pin db' = stored_pin db \<and> stored_sections db' = stored_sections db"
  by (simp add: coherent_def stored_pin_def stored_sections_def raw_value_def)

lemma regenerate_db:
  "regenerate sha f1 f2 env fresh db = (r, db') \<Longrightarrow>
     db' pin_hash_key = db pin_hash_key \<and> db' sections_key = db sections_key"
  by (auto simp: regenerate_def persist_key_def settings_set_def auth_keys pin_hash_key_def sections_key_def
      split: if_splits option.splits)

lemma gate_ok_revoke: "gate_ok cr db g \<Longrightarrow> gate_ok cr db (revoke g)"
  by (simp add: gate_ok_def revoke_def memo_ok_def)

lemma gate_ok_db:
  "gate_ok cr db g \<Longrightarrow> coherent db' st \<Longrightarrow> gate_ok cr db' (g\<lparr>g_store := st\<rparr>)"
  by (simp add: gate_ok_def memo_ok_def)

text \<open>What bcrypt's output looks like: never blank.\<close>

definition hash_shape :: "crypto \<Rightarrow> bool" where
  "hash_shape cr \<longleftrightarrow> (\<forall>p h. cr_bcrypt_gen cr p = Some h \<longrightarrow> trim_space h \<noteq> [])"

definition api_inv :: "crypto \<Rightarrow> api_state \<Rightarrow> bool" where
  "api_inv cr s \<longleftrightarrow> api_ok cr s \<and> recoverable (a_db s)"

lemma status_inv: "api_inv cr s \<Longrightarrow> status cr fl clk dis ca s = (r, s') \<Longrightarrow> api_inv cr s' \<and> a_db s' = a_db s"
proof -
  assume inv: "api_inv cr s" and st: "status cr fl clk dis ca s = (r, s')"
  then have g: "gate_ok cr (a_db s) (a_gate s)" by (simp add: api_inv_def api_ok_def)
  then have c: "coherent (a_db s) (g_store (a_gate s))" by (simp add: gate_ok_def)
  obtain x st1 where ps: "pin_set (fl 1) (fl 2) (a_db s) (g_store (a_gate s)) = (x, st1)" by fastforce
  have c1: "coherent (a_db s) st1" using pin_set_result [OF c ps] by blast
  obtain y st2 where ls: "locked_sections (fl 3) (fl 4) (a_db s) st1 = (y, st2)" by fastforce
  have c2: "coherent (a_db s) st2" using coherent_locked_sections [OF c1, of "fl 3" "fl 4"] ls by simp
  have "s' = s \<or> s' = s\<lparr>a_gate := (a_gate s)\<lparr>g_store := st1\<rparr>\<rparr> \<or> s' = s\<lparr>a_gate := (a_gate s)\<lparr>g_store := st2\<rparr>\<rparr>"
    using st ps ls by (cases "auth_mode (fl 0) (a_db s)"; cases x; cases y) (auto simp: status_def)
  then show ?thesis
    using inv gate_ok_store [OF g c1] gate_ok_store [OF g c2] by (auto simp: api_inv_def api_ok_def)
qed

lemma unlock_inv:
  assumes "collision_free cr" and "api_inv cr s" and "unlock cr fl clk ca body s = (r, s')"
  shows "api_inv cr s' \<and> a_db s' = a_db s"
proof (cases body)
  case None
  then show ?thesis using assms by (simp add: unlock_def)
next
  case (Some pin)
  obtain v g where vp: "verify_pin cr (\<lambda>n. fl (n + 1)) clk (a_db s) (ca_identity ca) pin (a_gate s) = (v, g)" by fastforce
  have "gate_ok cr (a_db s) g"
    using verify_pin_ok [OF assms(1) _ vp] assms(2) by (simp add: api_inv_def api_ok_def)
  moreover have "s' = s \<or> s' = s\<lparr>a_gate := g\<rparr>"
    using assms(3) Some vp
    by (cases "enforcing_mode (fl 0) (a_db s)"; cases v) (auto simp: unlock_def split: option.splits)
  ultimately show ?thesis using assms(2) by (auto simp: api_inv_def api_ok_def)
qed

lemma lock_inv: "api_inv cr s \<Longrightarrow> lock s = (r, s') \<Longrightarrow> api_inv cr s' \<and> a_db s' = a_db s"
  by (auto simp: lock_def api_inv_def api_ok_def gate_ok_revoke)

lemma set_pin_handler_inv:
  assumes "collision_free cr" and "hash_shape cr" and "api_inv cr s"
    and "set_pin_handler cr fl clk dis ca body s = (r, s')"
  shows "api_inv cr s'"
proof (cases "\<exists>cur new m. body = Some (cur, new) \<and> enforcing_mode (fl 0) (a_db s) = Inr m")
  case False
  then have "s' = s" using assms(4)
    by (auto simp: set_pin_handler_def split: option.splits prod.splits sum.splits)
  then show ?thesis using assms(3) by simp
next
  case True
  then obtain cur new m where b: "body = Some (cur, new)" "enforcing_mode (fl 0) (a_db s) = Inr m" by blast
  obtain x s1 where au: "authorize_change cr (\<lambda>n. fl (n + 1)) clk dis ca cur True s = (x, s1)" by fastforce
  have s1: "api_ok cr s1" "a_db s1 = a_db s"
    using authorize_spec [OF assms(1) _ au] assms(3) by (auto simp: api_inv_def)
  then have c1: "coherent (a_db s1) (g_store (a_gate s1))" by (simp add: api_ok_def gate_ok_def)
  obtain y db st where sp: "set_pin (cr_bcrypt_gen cr) (fl 5) new (a_db s1) (g_store (a_gate s1)) = (y, db, st)"
    using prod_cases3 by blast
  have c2: "coherent db st" using coherent_set_pin [OF c1 sp] .
  have "recoverable db"
    using clear_pin_recoverable_core [of "a_db s1" "cr_bcrypt_gen cr" "fl 5" "fl 6" "g_store (a_gate s1)" new]
      assms(2,3) s1(2) sp by (auto simp: hash_shape_def api_inv_def)
  moreover have "gate_ok cr db ((a_gate s1)\<lparr>g_store := st\<rparr>)"
    using gate_ok_db [OF _ c2] s1(1) by (auto simp: api_ok_def)
  ultimately have ok2: "api_inv cr (s1\<lparr>a_db := db, a_gate := (a_gate s1)\<lparr>g_store := st\<rparr>\<rparr>)"
    by (simp add: api_inv_def api_ok_def)
  then have ok3: "api_inv cr (s1\<lparr>a_db := db, a_gate := revoke ((a_gate s1)\<lparr>g_store := st\<rparr>)\<rparr>)"
    by (simp add: api_inv_def api_ok_def gate_ok_revoke)
  have "api_inv cr s1" using s1 assms(3) by (simp add: api_inv_def)
  then show ?thesis using assms(4) b au sp ok2 ok3
    by (cases x; cases y; cases "the y") (auto simp: set_pin_handler_def Let_def)
qed

lemma clear_pin_handler_inv:
  assumes "collision_free cr" and "api_inv cr s" and "clear_pin_handler cr fl clk dis ca body s = (r, s')"
  shows "api_inv cr s'"
proof (cases "\<exists>cur m. body = Some cur \<and> enforcing_mode (fl 0) (a_db s) = Inr m")
  case False
  then have "s' = s" using assms(3) by (auto simp: clear_pin_handler_def split: option.splits sum.splits)
  then show ?thesis using assms(2) by simp
next
  case True
  then obtain cur m where b: "body = Some cur" "enforcing_mode (fl 0) (a_db s) = Inr m" by blast
  obtain x s1 where au: "authorize_change cr (\<lambda>n. fl (n + 1)) clk dis ca cur True s = (x, s1)" by fastforce
  have s1: "api_ok cr s1" "a_db s1 = a_db s"
    using authorize_spec [OF assms(1) _ au] assms(2) by (auto simp: api_inv_def)
  then have c1: "coherent (a_db s1) (g_store (a_gate s1))" by (simp add: api_ok_def gate_ok_def)
  obtain y db st where cp: "clear_pin (fl 5) (fl 6) (a_db s1) (g_store (a_gate s1)) = (y, db, st)"
    using prod_cases3 by blast
  have c2: "coherent db st" using coherent_clear_pin [OF c1 cp] .
  have "recoverable db"
    using clear_pin_recoverable_core [of "a_db s1" "\<lambda>_. None" "fl 5" "fl 6" "g_store (a_gate s1)"]
      assms(2) s1(2) cp by (auto simp: api_inv_def)
  moreover have "gate_ok cr db ((a_gate s1)\<lparr>g_store := st\<rparr>)"
    using gate_ok_db [OF _ c2] s1(1) by (auto simp: api_ok_def)
  ultimately have ok2: "api_inv cr (s1\<lparr>a_db := db, a_gate := (a_gate s1)\<lparr>g_store := st\<rparr>\<rparr>)"
    by (simp add: api_inv_def api_ok_def)
  then have ok3: "api_inv cr (s1\<lparr>a_db := db, a_gate := revoke ((a_gate s1)\<lparr>g_store := st\<rparr>)\<rparr>)"
    by (simp add: api_inv_def api_ok_def gate_ok_revoke)
  have "api_inv cr s1" using s1 assms(2) by (simp add: api_inv_def)
  then show ?thesis using assms(3) b au cp ok2 ok3
    by (cases x; cases y) (auto simp: clear_pin_handler_def Let_def)
qed

lemma set_unknown_from: "set (unknown_from seen is) = set is - set all_sections - set seen"
  by (induction "is" arbitrary: seen) (auto simp: known_section_iff)

lemma unknown_sections_Nil: "unknown_sections ids = [] \<longleftrightarrow> set ids \<subseteq> set all_sections"
  using set_unknown_from [of "[]" ids] unfolding unknown_sections_def
  by (cases "unknown_from [] ids") auto

lemma set_sections_check_spec:
  assumes "collision_free cr" and "api_ok cr s" and "set_sections_check cr fl clk ca body s = (x, s1)"
  shows "api_ok cr s1 \<and> a_db s1 = a_db s \<and> (x = None \<longrightarrow>
    (\<exists>cur ids. body = Some (cur, ids) \<and> (ids = [] \<or> stored_pin (a_db s) \<noteq> []) \<and> set ids \<subseteq> set all_sections \<and>
      (stored_pin (a_db s) = [] \<or> \<not> refused (g_lockout (a_gate s)) (ca_identity ca) (clk 0) \<and>
         cr_bcrypt_cmp cr (stored_pin (a_db s)) cur)))"
proof (cases "\<exists>cur ids m. body = Some (cur, ids) \<and> enforcing_mode (fl 0) (a_db s) = Inr m")
  case False
  then have "s1 = s \<and> x \<noteq> None" using assms(3)
    by (auto simp: set_sections_check_def split: option.splits prod.splits sum.splits)
  then show ?thesis using assms(2) by auto
next
  case True
  then obtain cur ids m where b: "body = Some (cur, ids)" "enforcing_mode (fl 0) (a_db s) = Inr m" by blast
  have g: "gate_ok cr (a_db s) (a_gate s)" using assms(2) by (simp add: api_ok_def)
  then have c: "coherent (a_db s) (g_store (a_gate s))" by (simp add: gate_ok_def)
  obtain y st where ps: "pin_set (fl 1) (fl 2) (a_db s) (g_store (a_gate s)) = (y, st)" by fastforce
  note pr = pin_set_result [OF c ps]
  let ?s0 = "s\<lparr>a_gate := (a_gate s)\<lparr>g_store := st\<rparr>\<rparr>"
  have ok0: "api_ok cr ?s0" using gate_ok_store [OF g] pr by (simp add: api_ok_def)
  obtain z s2 where au: "authorize_change cr (\<lambda>n. fl (n + 3)) clk False ca cur False ?s0 = (z, s2)" by fastforce
  note sp = authorize_spec [OF assms(1) ok0 au]
  show ?thesis
  proof (cases y)
    case (Inl e)
    then show ?thesis using assms(3) b ps ok0 by (auto simp: set_sections_check_def)
  next
    case (Inr pinned)
    then have pinned: "pinned = (stored_pin (a_db s) \<noteq> [])" using pr by simp
    show ?thesis
    proof (cases "ids \<noteq> [] \<and> \<not> pinned")
      case True
      then show ?thesis using assms(3) b ps ok0 Inr by (auto simp: set_sections_check_def)
    next
      case False
      then have "(x, s1) = (case z of Some r \<Rightarrow> (Some r, s2)
          | None \<Rightarrow> if unknown_sections ids \<noteq> [] then (Some (Http_error 400), s2) else (None, s2))"
        using assms(3) b ps Inr au
        by (cases z; cases "ids = []"; cases pinned) (auto simp: set_sections_check_def Let_def)
      then show ?thesis using sp False pinned b unknown_sections_Nil [of ids]
        by (cases z) (auto split: if_splits)
    qed
  qed
qed

lemma pin_error_resp: "pin_error_response e \<noteq> No_content"
  by (cases e) (simp_all add: pin_error_response_def)

lemma authorize_resp: "authorize_change cr fl clk dis ca cur ad s = (x, s1) \<Longrightarrow> x \<noteq> Some No_content"
  using pin_error_resp
  by (auto simp: authorize_change_def Let_def split: if_splits sum.splits option.splits prod.splits)

lemma enforcing_resp: "enforcing_mode f db \<noteq> Inl No_content"
  by (simp add: enforcing_mode_def split: option.split)

lemma set_sections_check_resp:
  assumes "set_sections_check cr fl clk ca (Some (cur, ids)) s = (x, s1)"
  shows "x \<noteq> Some No_content"
proof -
  have au: "fst (authorize_change cr fl' clk False ca cur False s0) \<noteq> Some No_content" for fl' s0
    using authorize_resp by (metis prod.collapse)
  show ?thesis
    using assms au enforcing_resp [of "fl 0" "a_db s"]
    by (auto simp: set_sections_check_def Let_def split: sum.splits prod.splits if_splits option.splits) (metis fst_conv)+
qed

lemma set_sections_write_spec:
  assumes "api_ok cr s" and "set_sections_write fl (Some (cur, ids)) s = (r, s')"
  shows "api_ok cr s' \<and>
    (if fl 7 then a_db s' = a_db s \<and> r = Http_error 500
     else a_db s' = (a_db s)(sections_key \<mapsto> marshal_strings ids) \<and> r = No_content)"
proof -
  have c: "coherent (a_db s) (g_store (a_gate s))" using assms(1) by (simp add: api_ok_def gate_ok_def)
  obtain y db st where ss: "set_sections (fl 7) ids (a_db s) (g_store (a_gate s)) = (y, db, st)"
    using prod_cases3 by blast
  have "coherent db st" using coherent_set_sections [OF c ss] .
  then have "gate_ok cr db ((a_gate s)\<lparr>g_store := st\<rparr>)" using gate_ok_db assms(1) by (auto simp: api_ok_def)
  then show ?thesis using assms(2) ss
    by (cases "fl 7") (auto simp: set_sections_write_def api_ok_def set_sections_def settings_set_def)
qed

lemma set_sections_handler_inv:
  assumes "collision_free cr" and "api_inv cr s" and "set_sections_handler cr fl clk ca body s = (r, s')"
  shows "api_inv cr s'"
proof -
  obtain x s1 where ch: "set_sections_check cr fl clk ca body s = (x, s1)" by fastforce
  note sp = set_sections_check_spec [OF assms(1) _ ch]
  have s1: "api_ok cr s1" "a_db s1 = a_db s" using sp assms(2) by (auto simp: api_inv_def)
  show ?thesis
  proof (cases x)
    case (Some y)
    then show ?thesis using assms(2,3) ch s1 by (simp add: set_sections_handler_def api_inv_def)
  next
    case None
    then obtain cur ids where b: "body = Some (cur, ids)" "ids = [] \<or> stored_pin (a_db s) \<noteq> []"
      using sp assms(2) by (auto simp: api_inv_def)
    have "set_sections_write fl (Some (cur, ids)) s1 = (r, s')"
      using assms(3) ch None b(1) by (simp add: set_sections_handler_def)
    note w = set_sections_write_spec [OF s1(1) this]
    then show ?thesis using assms(2) s1(2) b(2)
      by (auto simp: api_inv_def recoverable_def split: if_splits)
  qed
qed

lemma gate_ok_transfer: "gate_ok cr db g \<Longrightarrow> gate_ok cr db (transfer_lockout src dst g)"
  by (simp add: gate_ok_def transfer_lockout_def lockout_ok_transfer memo_ok_def)

lemma gate_ok_cong:
  assumes "db' pin_hash_key = db pin_hash_key" and "db' sections_key = db sections_key" and "gate_ok cr db g"
  shows "gate_ok cr db' g"
  using coherent_cong [OF assms(1,2)] assms(3) by (simp add: gate_ok_def)

lemma apikey_regenerate_inv:
  assumes "api_inv cr s" and "apikey_regenerate sha fp fl env fresh ca s = (r, s')"
  shows "api_inv cr s'"
proof -
  obtain x db where rg: "regenerate sha (fl 0) (fl 1) env fresh (a_db s) = (x, db)" by fastforce
  note d = regenerate_db [OF rg]
  have g: "gate_ok cr db (a_gate s)"
    using gate_ok_cong [of db "a_db s"] d assms(1) by (simp add: api_inv_def api_ok_def)
  have "recoverable db" using coherent_cong [of db "a_db s"] d assms(1) by (simp add: api_inv_def recoverable_def)
  then show ?thesis using assms(2) rg g gate_ok_transfer [OF g]
    by (cases x) (auto simp: apikey_regenerate_def api_inv_def api_ok_def)
qed

section \<open>Properties\<close>

text \<open>Any sequence of requests to the surface, each handled to its end before the next.\<close>

inductive api_reach :: "crypto \<Rightarrow> settings_db \<Rightarrow> api_state \<Rightarrow> bool" for cr db where
  start: "api_reach cr db \<lparr>a_db = db, a_gate = new_gate new_store\<rparr>"
| status: "api_reach cr db s \<Longrightarrow> status cr fl clk dis ca s = (r, s') \<Longrightarrow> api_reach cr db s'"
| unlock: "api_reach cr db s \<Longrightarrow> unlock cr fl clk ca body s = (r, s') \<Longrightarrow> api_reach cr db s'"
| lock: "api_reach cr db s \<Longrightarrow> lock s = (r, s') \<Longrightarrow> api_reach cr db s'"
| set_pin: "api_reach cr db s \<Longrightarrow> set_pin_handler cr fl clk dis ca bd s = (r, s') \<Longrightarrow> api_reach cr db s'"
| clear_pin: "api_reach cr db s \<Longrightarrow> clear_pin_handler cr fl clk dis ca body s = (r, s') \<Longrightarrow> api_reach cr db s'"
| set_sections: "api_reach cr db s \<Longrightarrow> set_sections_handler cr fl clk ca bs s = (r, s') \<Longrightarrow> api_reach cr db s'"
| regenerate: "api_reach cr db s \<Longrightarrow> apikey_regenerate sha fp fl env fresh ca s = (r, s') \<Longrightarrow> api_reach cr db s'"

lemma api_reach_inv:
  assumes "collision_free cr" and "hash_shape cr" and "recoverable db" and "api_reach cr db s"
  shows "api_inv cr s"
  using assms(4)
proof (induction rule: api_reach.induct)
  case start
  then show ?case using assms(3) by (simp add: api_inv_def api_ok_def gate_ok_new)
next
  case (status s fl clk dis ca r s')
  then show ?case using status_inv by blast
next
  case (unlock s fl clk ca body r s')
  then show ?case using unlock_inv [OF assms(1)] by blast
next
  case (lock s r s')
  then show ?case using lock_inv by blast
next
  case (set_pin s fl clk dis ca bd r s')
  then show ?case using set_pin_handler_inv [OF assms(1,2)] by blast
next
  case (clear_pin s fl clk dis ca body r s')
  then show ?case using clear_pin_handler_inv [OF assms(1)] by blast
next
  case (set_sections s fl clk ca bs r s')
  then show ?case using set_sections_handler_inv [OF assms(1)] by blast
next
  case (regenerate s sha fp fl env fresh ca r s')
  then show ?case using apikey_regenerate_inv by blast
qed

text \<open>
  The recovery invariant. However the control surface is used, one request at a time, with
  database calls failing anywhere, locked sections never stand without a PIN: in every state
  reached from one where they did not, a PIN exists or the stored set of locked sections is
  empty; and the caches agree with the store.
\<close>

theorem api_recoverable:
  assumes "collision_free cr" and "hash_shape cr" and "recoverable db" and "api_reach cr db s"
  shows "(stored_pin (a_db s) \<noteq> [] \<or> stored_sections (a_db s) = Inr []) \<and>
    coherent (a_db s) (g_store (a_gate s))"
  using api_reach_inv [OF assms] by (simp add: api_inv_def recoverable_def api_ok_def gate_ok_def)

lemma demo_hash_shape: "hash_shape (demo_crypto\<lparr>cr_bcrypt_gen := (\<lambda>_. Some ''482913'')\<rparr>)"
proof -
  have "trim_space ''482913'' \<noteq> []" by code_simp
  then show ?thesis by (simp add: hash_shape_def)
qed

definition demo_api :: api_state where
  "demo_api = \<lparr>a_db = demo_db, a_gate = new_gate new_store\<rparr>"

theorem api_recoverable_witness:
  "(let s = snd (clear_pin_handler (demo_crypto\<lparr>cr_bcrypt_gen := (\<lambda>_. Some ''482913'')\<rparr>) (\<lambda>n. n = 6) (\<lambda>_. 0) True
       \<lparr>ca_identity = ''ip:1'', ca_ticket = []\<rparr> (Some []) demo_api)
    in stored_pin (a_db s) \<noteq> [] \<or> stored_sections (a_db s) = Inr [])"
proof -
  let ?cr = "demo_crypto\<lparr>cr_bcrypt_gen := (\<lambda>_. Some ''482913'')\<rparr>"
  obtain r s where c: "clear_pin_handler ?cr (\<lambda>n. n = 6) (\<lambda>_. 0) True
       \<lparr>ca_identity = ''ip:1'', ca_ticket = []\<rparr> (Some []) demo_api = (r, s)" by fastforce
  have "collision_free ?cr" using demo_collision_free by (simp add: collision_free_def)
  moreover have "recoverable demo_db" by (simp add: recoverable_def demo_stored)
  moreover have "api_reach ?cr demo_db s"
    using api_reach.clear_pin [OF api_reach.start c [unfolded demo_api_def]] .
  ultimately show ?thesis unfolding c using api_recoverable [OF _ demo_hash_shape] by (simp add: Let_def)
qed

lemma demo_cmp: "cr_bcrypt_cmp demo_crypto h p = (h = p)"
  by (simp add: demo_crypto_def)



section \<open>Two requests at once, and recovery\<close>

lemma set_sections_check_passes:
  assumes "collision_free cr" and "api_ok cr s" and "enforcing_mode (fl 0) (a_db s) = Inr m" and "\<forall>n. \<not> fl n"
    and "stored_pin (a_db s) \<noteq> []" and "cur \<noteq> []" and "cr_bcrypt_cmp cr (stored_pin (a_db s)) cur"
    and "\<not> refused (g_lockout (a_gate s)) (ca_identity ca) (clk 0)" and "set ids \<subseteq> set all_sections"
  shows "\<exists>s1. set_sections_check cr fl clk ca (Some (cur, ids)) s = (None, s1) \<and> api_ok cr s1 \<and> a_db s1 = a_db s \<and>
    g_lockout (a_gate s1) = reset (g_lockout (a_gate s)) (ca_identity ca)"
proof -
  have g: "gate_ok cr (a_db s) (a_gate s)" using assms(2) by (simp add: api_ok_def)
  then have c: "coherent (a_db s) (g_store (a_gate s))" by (simp add: gate_ok_def)
  have pin: "\<exists>st. pin_set f1 f2 (a_db s) st0 = (Inr True, st) \<and> coherent (a_db s) st"
    if co: "coherent (a_db s) st0" and nf: "\<not> f1" for f1 f2 st0
  proof -
    obtain st where "pin_hash f1 f2 (a_db s) st0 = (Inr (stored_pin (a_db s)), st)" "coherent (a_db s) st"
      using coherent_cases [OF co, of f1 f2] nf by blast
    then show ?thesis using assms(5) by (intro exI [of _ st]) (simp add: pin_set_def)
  qed
  obtain st where ps: "pin_set (fl 1) (fl 2) (a_db s) (g_store (a_gate s)) = (Inr True, st)" "coherent (a_db s) st"
    using pin [OF c] assms(4) by blast
  obtain st2 where ps2: "pin_set (fl 3) (fl 4) (a_db s) st = (Inr True, st2)" "coherent (a_db s) st2"
    using pin [OF ps(2)] assms(4) by blast
  let ?g = "(a_gate s)\<lparr>g_store := st2\<rparr>"
  have "gate_ok cr (a_db s) ?g" using gate_ok_store [OF g ps2(2)] .
  then obtain g' where v: "verify_pin cr (\<lambda>n. fl (Suc (Suc n) + 3)) clk (a_db s) (ca_identity ca) cur ?g = (None, g')"
      "gate_ok cr (a_db s) g'" "g_lockout g' = reset (g_lockout (a_gate s)) (ca_identity ca)"
    using verify_pin_ref [OF assms(1), of "a_db s" ?g "\<lambda>n. fl (Suc (Suc n) + 3)" clk "ca_identity ca" cur] assms(4-8)
    by (auto simp: verify_ref_def)
  show ?thesis using assms(3,9) ps ps2 v unknown_sections_Nil [of ids]
    by (simp add: set_sections_check_def authorize_change_def Let_def api_ok_def)
qed

lemma clear_pin_passes:
  assumes "collision_free cr" and "api_ok cr s" and "enforcing_mode (fl 0) (a_db s) = Inr m" and "\<forall>n. \<not> fl n"
    and "stored_pin (a_db s) = [] \<or> cur \<noteq> [] \<and> cr_bcrypt_cmp cr (stored_pin (a_db s)) cur \<and>
      \<not> refused (g_lockout (a_gate s)) (ca_identity ca) (clk 0)"
  shows "\<exists>s'. clear_pin_handler cr fl clk dis ca (Some cur) s = (No_content, s') \<and> api_ok cr s' \<and>
    a_db s' = (a_db s)(sections_key \<mapsto> ''[]'', pin_hash_key \<mapsto> [])"
proof -
  have "\<exists>s1. authorize_change cr (\<lambda>n. fl (n + 1)) clk dis ca cur True s = (None, s1) \<and> api_ok cr s1 \<and> a_db s1 = a_db s"
  proof (cases dis)
    case True
    then show ?thesis using assms(2) by (simp add: authorize_change_def)
  next
    case False
    have g: "gate_ok cr (a_db s) (a_gate s)" using assms(2) by (simp add: api_ok_def)
    then have c: "coherent (a_db s) (g_store (a_gate s))" by (simp add: gate_ok_def)
    have "\<not> (fl 1 \<and> fl 2)" using assms(4) by blast
    from coherent_cases [OF c this] obtain st where
      ph: "pin_hash (fl 1) (fl 2) (a_db s) (g_store (a_gate s)) = (Inr (stored_pin (a_db s)), st)" "coherent (a_db s) st" .
    let ?g = "(a_gate s)\<lparr>g_store := st\<rparr>"
    have ok: "gate_ok cr (a_db s) ?g" using gate_ok_store [OF g ph(2)] .
    show ?thesis
    proof (cases "stored_pin (a_db s) = []")
      case True
      then show ?thesis using False ph ok
        by (simp add: authorize_change_def pin_set_def Let_def api_ok_def numeral_2_eq_2)
    next
      case ne: False
      then obtain g' where "verify_pin cr (\<lambda>n. fl (Suc (n + 2))) clk (a_db s) (ca_identity ca) cur ?g = (None, g')"
          "gate_ok cr (a_db s) g'"
        using verify_pin_ref [OF assms(1) ok, of "\<lambda>n. fl (Suc (n + 2))" clk "ca_identity ca" cur] assms(4,5)
        by (auto simp: verify_ref_def)
      then show ?thesis using False ne ph
        by (simp add: authorize_change_def pin_set_def Let_def api_ok_def numeral_2_eq_2)
    qed
  qed
  then obtain s1 where au: "authorize_change cr (\<lambda>n. fl (n + 1)) clk dis ca cur True s = (None, s1)"
    and ok1: "api_ok cr s1" "a_db s1 = a_db s" by blast
  have c1: "coherent (a_db s) (g_store (a_gate s1))" using ok1 by (simp add: api_ok_def gate_ok_def)
  have nf: "\<not> fl 5" "\<not> fl 6" using assms(4) by auto
  obtain db st where cp: "clear_pin (fl 5) (fl 6) (a_db s) (g_store (a_gate s1)) = (None, db, st)"
    "db = (a_db s)(sections_key \<mapsto> ''[]'', pin_hash_key \<mapsto> [])"
    using nf by (simp add: clear_pin_def settings_set_def Let_def)
  have "coherent db st" using coherent_clear_pin [OF c1 cp(1)] .
  then have "gate_ok cr db ((a_gate s1)\<lparr>g_store := st\<rparr>)" using gate_ok_db ok1 by (auto simp: api_ok_def)
  then have "gate_ok cr db (revoke ((a_gate s1)\<lparr>g_store := st\<rparr>))" by (rule gate_ok_revoke)
  then show ?thesis using assms(3) au ok1(2) cp
    by (simp add: clear_pin_handler_def Let_def api_ok_def)
qed

text \<open>
  A lock can be left without a key. Requests to the surface are not serialized, and setting
  the sections checks for a PIN before it writes: if a removal of the PIN runs in between, both
  succeed, and the locked sections written afterwards stand without a PIN. The gate then lets no
  request whatever into any of them.
\<close>

theorem set_sections_race:
  assumes "collision_free cr" and "api_ok cr s" and "enforcing_mode (fl 0) (a_db s) = Inr m" and "\<forall>n. \<not> fl n"
    and "cur \<noteq> []" and "stored_pin (a_db s) \<noteq> []" and "cr_bcrypt_cmp cr (stored_pin (a_db s)) cur"
    and "\<not> refused (g_lockout (a_gate s)) (ca_identity ca) (clk 0)"
    and "\<not> refused (g_lockout (a_gate s)) (ca_identity ca') (clk' 0)"
    and "ids \<noteq> []" and "set ids \<subseteq> set all_sections"
  shows "\<exists>s1 s2 s3. set_sections_check cr fl clk ca (Some (cur, ids)) s = (None, s1) \<and>
    clear_pin_handler cr fl clk' dis ca' (Some cur) s1 = (No_content, s2) \<and>
    set_sections_write fl (Some (cur, ids)) s2 = (No_content, s3) \<and> \<not> recoverable (a_db s3) \<and>
    (\<forall>req i fl clk d g'. rq_enforcing req \<and> i \<in> set ids \<and> decide cr fl clk (a_db s3) req (a_gate s3) = (Inr d, g') \<longrightarrow>
       \<not> allows d [i])"
proof -
  obtain s1 where s1: "set_sections_check cr fl clk ca (Some (cur, ids)) s = (None, s1)" "api_ok cr s1"
    "a_db s1 = a_db s" "g_lockout (a_gate s1) = reset (g_lockout (a_gate s)) (ca_identity ca)"
    using set_sections_check_passes [where fl = fl and clk = clk and s = s and cr = cr and ca = ca and cur = cur
      and ids = ids and m = m] assms by blast
  have "cur \<noteq> [] \<and> cr_bcrypt_cmp cr (stored_pin (a_db s1)) cur \<and>
      \<not> refused (g_lockout (a_gate s1)) (ca_identity ca') (clk' 0)"
    using assms(5,7,9) s1 by (simp add: refused_reset)
  then obtain s2 where s2: "clear_pin_handler cr fl clk' dis ca' (Some cur) s1 = (No_content, s2)" "api_ok cr s2"
    "a_db s2 = (a_db s)(sections_key \<mapsto> ''[]'', pin_hash_key \<mapsto> [])"
    using clear_pin_passes [OF assms(1) s1(2), of fl m cur ca' clk' dis] assms(3,4) s1(3) by auto
  obtain r s3 where w: "set_sections_write fl (Some (cur, ids)) s2 = (r, s3)" by fastforce
  then have s3: "api_ok cr s3" "r = No_content" "a_db s3 = (a_db s2)(sections_key \<mapsto> marshal_strings ids)"
    using set_sections_write_spec [OF s2(2) w] assms(4) by simp_all
  have e: "trim_space [] = []" by code_simp
  have p: "stored_pin (a_db s3) = []" "stored_sections (a_db s3) = Inr (new_set ids)"
    using s3(3) s2(3) e by simp_all
  have ne: "set (new_set ids) = set ids" "new_set ids \<noteq> []" using assms(10) by (auto simp flip: set_empty)
  have "\<not> allows d [i]" if "rq_enforcing req \<and> i \<in> set ids \<and> decide cr fl clk (a_db s3) req (a_gate s3) = (Inr d, g')"
    for req i fl clk d g'
  proof
    assume "allows d [i]"
    from decide_fails_closed_core [OF assms(1) s3(1) [unfolded api_ok_def] _ _ this] that
    have "stored_sections (a_db s3) = Inr (d_locked d)" "i \<notin> set (d_locked d)" using p(1) by auto
    then show False using that p(2) ne(1) by simp
  qed
  then show ?thesis using s1(1) s2(1) w s3(2) p ne
    by (intro exI [of _ s1] exI [of _ s2] exI [of _ s3]) (auto simp: recoverable_def)
qed

lemma demo_enforcing: "enforcing_mode False demo_db = Inr ''password''"
  by (simp add: enforcing_mode_def auth_mode_def settings_get_def demo_db_def auth_keys auth_modes
      pin_hash_key_def sections_key_def)

definition demo_caller :: caller where
  "demo_caller = \<lparr>ca_identity = ''session:1'', ca_ticket = []\<rparr>"

lemma demo_not_refused: "\<not> refused (g_lockout (a_gate demo_api)) i t"
  by (simp add: demo_api_def new_gate_def refused_iff new_lockout_def)

lemma demo_api_ok: "api_ok demo_crypto demo_api"
  by (simp add: api_ok_def demo_api_def demo_gate_ok)

lemma demo_api_db: "a_db demo_api = demo_db" "stored_pin (a_db demo_api) = ''482913''"
  by (simp_all add: demo_api_def demo_stored)

theorem set_sections_race_witness:
  "\<exists>s1 s2 s3. set_sections_check demo_crypto (\<lambda>_. False) (\<lambda>_. 0) demo_caller (Some (''482913'', [''discover''])) demo_api = (None, s1) \<and>
    clear_pin_handler demo_crypto (\<lambda>_. False) (\<lambda>_. 0) False demo_caller (Some ''482913'') s1 = (No_content, s2) \<and>
    set_sections_write (\<lambda>_. False) (Some (''482913'', [''discover''])) s2 = (No_content, s3) \<and> \<not> recoverable (a_db s3)"
proof -
  have k: "''discover'' \<in> set all_sections" by code_simp
  show ?thesis
    using set_sections_race [where cr = demo_crypto and s = demo_api and fl = "\<lambda>_. False" and m = "''password''"
        and cur = "''482913''" and ca = demo_caller and clk = "\<lambda>_. 0" and ca' = demo_caller and clk' = "\<lambda>_. 0"
        and ids = "[''discover'']" and dis = False, OF demo_collision_free demo_api_ok]
      demo_enforcing demo_not_refused k
    by (simp add: demo_api_db demo_cmp demo_stored) blast
qed

text \<open>
  The way out of locked sections without a PIN. While no PIN exists its removal takes no PIN,
  from any caller and with the lock armed: it succeeds unless the database fails, and leaves
  nothing locked.
\<close>

theorem clear_pin_recovers:
  assumes "collision_free cr" and "api_ok cr s" and "enforcing_mode (fl 0) (a_db s) = Inr m" and "\<forall>n. \<not> fl n"
    and "stored_pin (a_db s) = []"
  shows "\<exists>s'. clear_pin_handler cr fl clk False ca (Some cur) s = (No_content, s') \<and>
    stored_sections (a_db s') = Inr [] \<and> recoverable (a_db s')"
proof -
  obtain s' where c: "clear_pin_handler cr fl clk False ca (Some cur) s = (No_content, s')"
    "a_db s' = (a_db s)(sections_key \<mapsto> ''[]'', pin_hash_key \<mapsto> [])"
    using clear_pin_passes [of cr s fl m cur ca clk False] assms by blast
  have "parse_sections ''[]'' = Inr []" by code_simp
  then have "stored_sections (a_db s') = Inr []" unfolding c(2) by simp
  then show ?thesis using c(1) by (auto simp: recoverable_def)
qed

theorem clear_pin_recovers_witness:
  "\<exists>s'. clear_pin_handler demo_crypto (\<lambda>_. False) (\<lambda>_. 0) False demo_caller (Some [])
      \<lparr>a_db = [sections_key \<mapsto> ''[1]''], a_gate = new_gate new_store\<rparr> = (No_content, s') \<and> recoverable (a_db s')"
proof -
  let ?s = "\<lparr>a_db = [sections_key \<mapsto> ''[1]''], a_gate = new_gate new_store\<rparr>"
  have "trim_space [] = []" by code_simp
  then have "stored_pin (a_db ?s) = []"
    by (simp add: stored_pin_def raw_value_def pin_hash_key_def sections_key_def)
  moreover have "enforcing_mode False (a_db ?s) = Inr ''password''"
    by (simp add: enforcing_mode_def auth_mode_def settings_get_def auth_keys auth_modes sections_key_def)
  ultimately show ?thesis
    using clear_pin_recovers [of demo_crypto ?s "\<lambda>_. False" "''password''"] demo_collision_free
    by (simp add: api_ok_def demo_gate_ok) blast
qed

section \<open>Guessing from a browser session\<close>

text \<open>
  Rounds of guesses: in each, the caller sends some PINs to \<open>unlock\<close> and then rotates the
  API key. The answers to the unlocks, in order.
\<close>

fun guesses :: "crypto \<Rightarrow> clock \<Rightarrow> caller \<Rightarrow> gostring list \<Rightarrow> api_state \<Rightarrow> lock_response list \<times> api_state" where
  "guesses cr clk ca [] s = ([], s)"
| "guesses cr clk ca (p # ps) s =
     (let (r, s1) = unlock cr no_faults clk ca (Some p) s; (rs, s2) = guesses cr clk ca ps s1 in (r # rs, s2))"

fun rotation_rounds ::
  "crypto \<Rightarrow> (gostring \<Rightarrow> gostring) \<Rightarrow> (gostring \<Rightarrow> gostring) \<Rightarrow> clock \<Rightarrow> caller \<Rightarrow>
     (gostring list \<times> gostring) list \<Rightarrow> api_state \<Rightarrow> lock_response list \<times> api_state" where
  "rotation_rounds cr sha fp clk ca [] s = ([], s)"
| "rotation_rounds cr sha fp clk ca ((ps, key) # rounds) s =
     (let (rs, s1) = guesses cr clk ca ps s;
          (_, s2) = apikey_regenerate sha fp no_faults None (Some key) ca s1;
          (rs', s3) = rotation_rounds cr sha fp clk ca rounds s2
      in (rs @ rs', s3))"

definition failures_of :: "lockout \<Rightarrow> gostring \<Rightarrow> int" where
  "failures_of l i = le_failures (entry_before l i)"

lemma unlock_wrong:
  assumes "collision_free cr" and "api_ok cr s" and "enforcing_mode False (a_db s) = Inr m"
    and "stored_pin (a_db s) \<noteq> []" and "p \<noteq> []" and "\<not> cr_bcrypt_cmp cr (stored_pin (a_db s)) p"
    and "failures_of (g_lockout (a_gate s)) (ca_identity ca) < failure_threshold" and "zero_time \<le> clk 0"
  shows "\<exists>s'. unlock cr no_faults clk ca (Some p) s = (Forbidden, s') \<and> api_ok cr s' \<and> a_db s' = a_db s \<and>
    failures_of (g_lockout (a_gate s')) (ca_identity ca) = failures_of (g_lockout (a_gate s)) (ca_identity ca) + 1"
proof -
  let ?i = "ca_identity ca" let ?l = "g_lockout (a_gate s)"
  have g: "gate_ok cr (a_db s) (a_gate s)" using assms(2) by (simp add: api_ok_def)
  then have l: "lockout_ok ?l" by (simp add: gate_ok_def)
  have nr: "\<not> refused ?l ?i (clk 0)"
  proof
    assume "refused ?l ?i (clk 0)"
    then obtain e where e: "map_of ?l ?i = Some e" "clk 0 < le_until e" by (auto simp: refused_iff)
    then have "le_until e = zero_time"
      using lockout_okD [OF l e(1)] assms(7) by (simp add: entry_ok_def failures_of_def entry_before_def)
    then show False using e(2) assms(8) by simp
  qed
  have fl: "failures_of (fail ?l ?i t) ?i = failures_of ?l ?i + 1" for t
    using map_of_fail_same [OF lockout_ok_distinct [OF l], of ?i t]
    by (simp add: failures_of_def entry_before_def [of "fail ?l ?i t"])
  obtain g' where v: "verify_pin cr no_faults clk (a_db s) ?i p (a_gate s) = (Some Wrong_pin, g')"
      "gate_ok cr (a_db s) g'" "g_lockout g' = fail ?l ?i (clk 1)"
    using verify_pin_ref [OF assms(1) g, of no_faults clk ?i p] assms(4-6) nr by (auto simp: verify_ref_def)
  show ?thesis using assms(3) v fl
    by (simp add: unlock_def pin_error_response_def api_ok_def)
qed

lemma guesses_wrong:
  assumes "collision_free cr" and "api_ok cr s" and "enforcing_mode False (a_db s) = Inr m"
    and "stored_pin (a_db s) \<noteq> []" and "zero_time \<le> clk 0"
    and "\<forall>p\<in>set ps. p \<noteq> [] \<and> \<not> cr_bcrypt_cmp cr (stored_pin (a_db s)) p"
    and "failures_of (g_lockout (a_gate s)) (ca_identity ca) + int (length ps) \<le> failure_threshold"
  shows "\<exists>s'. guesses cr clk ca ps s = (replicate (length ps) Forbidden, s') \<and> api_ok cr s' \<and> a_db s' = a_db s"
  using assms(2-7)
proof (induction ps arbitrary: s)
  case (Cons p ps)
  have "p \<noteq> [] \<and> \<not> cr_bcrypt_cmp cr (stored_pin (a_db s)) p"
    "failures_of (g_lockout (a_gate s)) (ca_identity ca) < failure_threshold"
    using Cons.prems(5,6) by simp_all
  then obtain s1 where s1: "unlock cr no_faults clk ca (Some p) s = (Forbidden, s1)" "api_ok cr s1" "a_db s1 = a_db s"
    "failures_of (g_lockout (a_gate s1)) (ca_identity ca) = failures_of (g_lockout (a_gate s)) (ca_identity ca) + 1"
    using unlock_wrong [OF assms(1) Cons.prems(1-3), of p ca clk] Cons.prems(4) by blast
  obtain s' where "guesses cr clk ca ps s1 = (replicate (length ps) Forbidden, s')" "api_ok cr s'" "a_db s' = a_db s1"
    using Cons.IH [OF s1(2)] Cons.prems s1(3,4) by auto
  then show ?case using s1 by simp
qed (simp add: assms(2))

lemma regenerate_clears:
  assumes "api_ok cr s" and "ca_identity ca \<noteq> []" and "ca_identity ca \<noteq> key_identity fp key"
  shows "\<exists>r s'. apikey_regenerate sha fp no_faults None (Some key) ca s = (r, s') \<and> api_ok cr s' \<and>
    failures_of (g_lockout (a_gate s')) (ca_identity ca) = 0 \<and>
    stored_pin (a_db s') = stored_pin (a_db s) \<and> enforcing_mode False (a_db s') = enforcing_mode False (a_db s)"
proof -
  obtain db where rg: "regenerate sha False False None (Some key) (a_db s) = (Regenerated key (suffix key), db)"
    "db auth_mode_key = a_db s auth_mode_key"
    by (simp add: regenerate_def persist_key_def settings_set_def auth_keys)
  note d = regenerate_db [OF rg(1)]
  have g: "gate_ok cr db (a_gate s)" using gate_ok_cong [of db "a_db s"] d assms(1) by (simp add: api_ok_def)
  have "stored_pin db = stored_pin (a_db s)" using coherent_cong d by blast
  moreover have "enforcing_mode False db = enforcing_mode False (a_db s)"
    using auth_mode_cong [where db = db and db' = "a_db s"] rg(2) by (simp add: enforcing_mode_def)
  moreover have "map_of (transfer l (ca_identity ca) (key_identity fp key)) (ca_identity ca) = None"
    if "ca_identity ca \<noteq> []" for l using assms(3) that by (auto simp: map_of_transfer)
  then have "failures_of (transfer l (ca_identity ca) (key_identity fp key)) (ca_identity ca) = 0" for l
    using assms(2) by (simp add: failures_of_def entry_before_def empty_entry_def)
  ultimately show ?thesis using rg(1) gate_ok_transfer [OF g]
    by (simp add: apikey_regenerate_def api_ok_def transfer_lockout_def)
qed

text \<open>
  A session is not bound by the lockout. Rotating the API key moves the failure count from
  the caller's bucket to the new key's, and a caller that authenticates with a session, not the
  key, keeps its session: five guesses, a rotation, and so on, all within the same instant, are
  each compared with the stored PIN and none is ever refused, for any number of rounds.
\<close>

theorem session_rotation_bypass:
  assumes "collision_free cr" and "api_ok cr s" and "enforcing_mode False (a_db s) = Inr m"
    and "stored_pin (a_db s) \<noteq> []" and "zero_time \<le> clk 0" and "ca_identity ca = session_identity fp token"
    and "map_of (g_lockout (a_gate s)) (ca_identity ca) = None"
    and "\<forall>(ps, key)\<in>set rounds. length ps \<le> 5 \<and> (\<forall>p\<in>set ps. p \<noteq> [] \<and> \<not> cr_bcrypt_cmp cr (stored_pin (a_db s)) p)"
  shows "set (fst (rotation_rounds cr sha fp clk ca rounds s)) \<subseteq> {Forbidden} \<and>
    length (fst (rotation_rounds cr sha fp clk ca rounds s)) = sum_list (map (\<lambda>x. length (fst x)) rounds)"
proof -
  have "failures_of (g_lockout (a_gate s)) (ca_identity ca) = 0"
    using assms(7) by (simp add: failures_of_def entry_before_def empty_entry_def)
  then show ?thesis using assms(2-4,8)
  proof (induction rounds arbitrary: s)
    case (Cons x rounds)
    obtain ps key where x: "x = (ps, key)" by fastforce
    have ps: "length ps \<le> 5" "\<forall>p\<in>set ps. p \<noteq> [] \<and> \<not> cr_bcrypt_cmp cr (stored_pin (a_db s)) p"
      using Cons.prems(5) x by auto
    then have n: "failures_of (g_lockout (a_gate s)) (ca_identity ca) + int (length ps) \<le> failure_threshold"
      using Cons.prems(1) by (simp add: failure_threshold_def)
    obtain s1 where s1: "guesses cr clk ca ps s = (replicate (length ps) Forbidden, s1)" "api_ok cr s1"
      "a_db s1 = a_db s"
      using guesses_wrong [where cr = cr and s = s and ps = ps and clk = clk and ca = ca and m = m]
        assms(1,5) Cons.prems(2-4) ps(2) n by blast
    obtain r s2 where s2: "apikey_regenerate sha fp no_faults None (Some key) ca s1 = (r, s2)" "api_ok cr s2"
      "failures_of (g_lockout (a_gate s2)) (ca_identity ca) = 0" "stored_pin (a_db s2) = stored_pin (a_db s1)"
      "enforcing_mode False (a_db s2) = enforcing_mode False (a_db s1)"
      using regenerate_clears [OF s1(2), of ca fp key sha] assms(6) by auto
    obtain rs' s3 where s3: "rotation_rounds cr sha fp clk ca rounds s2 = (rs', s3)" by fastforce
    have "set rs' \<subseteq> {Forbidden} \<and> length rs' = sum_list (map (\<lambda>x. length (fst x)) rounds)"
      using Cons.IH [OF s2(3,2)] s2(4,5) s1(3) Cons.prems(3-5) s3 by auto
    then show ?case using x s1(1) s2(1) s3 by auto
  qed simp
qed

theorem session_rotation_bypass_witness:
  "set (fst (rotation_rounds demo_crypto (\<lambda>s. s) (\<lambda>s. s) (\<lambda>_. 0) demo_caller
      (replicate 1000 (replicate 5 ''000000'', ''newkey'')) demo_api)) \<subseteq> {Forbidden}"
proof -
  have i: "ca_identity demo_caller = session_identity (\<lambda>s. s) ''1''"
    by (simp add: demo_caller_def session_identity_def)
  have z: "zero_time \<le> 0" by (simp add: zero_time_def)
  have n: "map_of (g_lockout (a_gate demo_api)) j = None" for j
    by (simp add: demo_api_def new_gate_def new_lockout_def)
  show ?thesis
    using session_rotation_bypass [where cr = demo_crypto and s = demo_api and m = "''password''" and clk = "\<lambda>_. 0"
        and ca = demo_caller and fp = "\<lambda>s. s" and token = "''1''" and sha = "\<lambda>s. s"
        and rounds = "replicate 1000 (replicate 5 ''000000'', ''newkey'')", OF demo_collision_free demo_api_ok]
      demo_enforcing i z n
    by (simp add: demo_api_db demo_cmp demo_stored)
qed

end
