(* ===== verification/Auth_Api.thy ===== *)
theory Auth_Api
  imports Lock_Api
begin

text \<open>
  The routes that create and change the login: \<open>internal/api/auth.go\<close>,
  \<open>internal/api/authmode.go\<close>, \<open>internal/api/oidc.go\<close>, over
  \<open>internal/auth/oidc.go\<close>. Bodies are already decoded (\<open>None\<close> when they do not
  decode), and so is the OIDC flow cookie. Encryption, bcrypt, OIDC discovery and the code
  exchange are parameters.
\<close>

section \<open>The stored OIDC configuration\<close>

definition oidc_issuer_url_key :: gostring where "oidc_issuer_url_key = ''auth_oidc_issuer_url''"
definition oidc_client_id_key :: gostring where "oidc_client_id_key = ''auth_oidc_client_id''"
definition oidc_client_secret_enc_key :: gostring where
  "oidc_client_secret_enc_key = ''auth_oidc_client_secret_enc''"
definition oidc_redirect_url_key :: gostring where "oidc_redirect_url_key = ''auth_oidc_redirect_url''"

lemmas oidc_keys = oidc_issuer_url_key_def oidc_client_id_key_def oidc_client_secret_enc_key_def
  oidc_redirect_url_key_def

record oidc_conf =
  oc_issuer :: gostring
  oc_client_id :: gostring
  oc_secret :: gostring
  oc_redirect :: gostring

definition empty_conf :: oidc_conf where
  "empty_conf = \<lparr>oc_issuer = [], oc_client_id = [], oc_secret = [], oc_redirect = []\<rparr>"

definition oidc_field :: "bool \<Rightarrow> settings_db \<Rightarrow> gostring \<Rightarrow> gostring option" where
  "oidc_field f db k =
     (case settings_get f db k of Got v \<Rightarrow> Some v | Not_found \<Rightarrow> Some [] | Get_error \<Rightarrow> None)"

definition oidc_config :: "faults \<Rightarrow> settings_db \<Rightarrow> oidc_conf option" where
  "oidc_config fl db =
     (case settings_get (fl 0) db oidc_issuer_url_key of
        Not_found \<Rightarrow> Some empty_conf
      | Get_error \<Rightarrow> None
      | Got issuer \<Rightarrow>
          (case oidc_field (fl 1) db oidc_client_id_key of
             None \<Rightarrow> None
           | Some client \<Rightarrow>
               (case oidc_field (fl 2) db oidc_client_secret_enc_key of
                  None \<Rightarrow> None
                | Some cipher \<Rightarrow>
                    (case oidc_field (fl 3) db oidc_redirect_url_key of
                       None \<Rightarrow> None
                     | Some redirect \<Rightarrow>
                         Some \<lparr>oc_issuer = issuer, oc_client_id = client, oc_secret = cipher,
                           oc_redirect = redirect\<rparr>))))"

text \<open>Four writes; the first that fails ends it, and the earlier ones stay.\<close>

definition set_oidc_config :: "faults \<Rightarrow> oidc_conf \<Rightarrow> settings_db \<Rightarrow> bool \<times> settings_db" where
  "set_oidc_config fl c db =
     (case settings_set (fl 0) db oidc_issuer_url_key (oc_issuer c) of
        None \<Rightarrow> (False, db)
      | Some db1 \<Rightarrow>
          (case settings_set (fl 1) db1 oidc_client_id_key (oc_client_id c) of
             None \<Rightarrow> (False, db1)
           | Some db2 \<Rightarrow>
               (case settings_set (fl 2) db2 oidc_client_secret_enc_key (oc_secret c) of
                  None \<Rightarrow> (False, db2)
                | Some db3 \<Rightarrow>
                    (case settings_set (fl 3) db3 oidc_redirect_url_key (oc_redirect c) of
                       None \<Rightarrow> (False, db3)
                     | Some db4 \<Rightarrow> (True, db4)))))"

definition oidc_configured :: "bool \<Rightarrow> settings_db \<Rightarrow> bool option" where
  "oidc_configured f db =
     (case settings_get f db oidc_client_secret_enc_key of
        Not_found \<Rightarrow> Some False
      | Get_error \<Rightarrow> None
      | Got v \<Rightarrow> Some True)"

section \<open>The cached OIDC client\<close>

definition oidc_fingerprint :: "oidc_conf \<Rightarrow> gostring" where
  "oidc_fingerprint c =
     oc_issuer c @ [CHR 0x00] @ oc_client_id c @ [CHR 0x00] @ oc_secret c @ [CHR 0x00] @ oc_redirect c"

text \<open>
  \<open>dec\<close> decrypts the secret (\<open>None\<close>: no decryptor, or it fails); \<open>discover\<close> is
  \<open>oidcauth.New\<close> on the configuration with the plain secret. A fault is \<open>None\<close>, a
  configuration that is not complete \<open>Some None\<close>.
\<close>

definition oidc_client ::
  "(gostring \<Rightarrow> gostring option) \<Rightarrow> (oidc_conf \<Rightarrow> 'c option) \<Rightarrow> faults \<Rightarrow> settings_db \<Rightarrow>
     (gostring \<times> 'c) option \<Rightarrow> 'c option option \<times> (gostring \<times> 'c) option" where
  "oidc_client dec discover fl db cache =
     (case oidc_config fl db of
        None \<Rightarrow> (None, cache)
      | Some c \<Rightarrow>
          if oc_issuer c = [] \<or> oc_client_id c = [] \<or> oc_secret c = [] \<or> oc_redirect c = [] then (Some None, cache)
          else
            let fp = oidc_fingerprint c;
                build = (case dec (oc_secret c) of
                   None \<Rightarrow> (None, cache)
                 | Some secret \<Rightarrow>
                     (case discover (c\<lparr>oc_secret := secret\<rparr>) of
                        None \<Rightarrow> (None, cache)
                      | Some client \<Rightarrow> (Some (Some client), Some (fp, client))))
            in case cache of
                 Some (fp', client) \<Rightarrow> if fp' = fp then (Some (Some client), cache) else build
               | None \<Rightarrow> build)"

section \<open>Responses\<close>

record oidc_flow =
  fw_state :: gostring
  fw_nonce :: gostring
  fw_verifier :: gostring
  fw_issued_at :: int

datatype auth_response =
    Auth_http nat
  | Auth_done
  | Session gostring bool
  | Setup_key gostring
  | Setup_env_key
  | Logged_out
  | Auth_status bool bool gostring
  | Mode_is gostring
  | Oidc_status gostring gostring gostring bool
  | To_provider oidc_flow
  | To_error gostring

section \<open>First run\<close>

record setup_request =
  su_username :: gostring
  su_password :: gostring
  su_mode :: gostring
  su_acknowledge :: bool
  su_oidc :: oidc_conf

definition http_url :: "gostring \<Rightarrow> bool" where
  "http_url u \<longleftrightarrow> has_prefix ''http://'' u \<or> has_prefix ''https://'' u"

text \<open>The request's configuration, trimmed, its secret as it came; \<open>None\<close> is a 400.\<close>

definition check_conf :: "oidc_conf \<Rightarrow> oidc_conf option" where
  "check_conf q =
     (let c = \<lparr>oc_issuer = trim_space (oc_issuer q), oc_client_id = trim_space (oc_client_id q),
               oc_secret = oc_secret q, oc_redirect = trim_space (oc_redirect q)\<rparr>
      in if oc_issuer c = [] \<or> oc_client_id c = [] \<or> oc_secret c = [] \<or> oc_redirect c = [] then None
         else if \<not> http_url (oc_redirect c) then None
         else Some c)"

text \<open>
  The setup handler in two parts, at the point where it reads the request body: the check that
  no login exists (\<open>None\<close>: go on), and the rest. Other requests run between them.
\<close>

definition setup_begin :: "faults \<Rightarrow> settings_db \<Rightarrow> auth_response option" where
  "setup_begin fl db =
     (case configured (fl 0) (fl 1) db of
        None \<Rightarrow> Some (Auth_http 500)
      | Some True \<Rightarrow> Some (Auth_http 409)
      | Some False \<Rightarrow> None)"

definition setup_password ::
  "(gostring \<Rightarrow> gostring option) \<Rightarrow> (gostring \<Rightarrow> gostring option) \<Rightarrow> faults \<Rightarrow> gtime \<Rightarrow> setup_request \<Rightarrow>
     settings_db \<Rightarrow> auth_response \<times> settings_db" where
  "setup_password bcrypt_gen enc fl now q db =
     (case set_credentials bcrypt_gen (fl 2) (fl 3) (su_username q) (su_password q) db of
        (False, db1) \<Rightarrow> (Auth_http 400, db1)
      | (True, db1) \<Rightarrow>
          (case set_auth_mode (fl 4) mode_password db1 of
             None \<Rightarrow> (Auth_http 500, db1)
           | Some db2 \<Rightarrow>
               (case issue_token enc now of
                  None \<Rightarrow> (Auth_http 500, db2)
                | Some token \<Rightarrow> (Session token False, db2))))"

definition setup_none :: "faults \<Rightarrow> setup_request \<Rightarrow> settings_db \<Rightarrow> auth_response \<times> settings_db" where
  "setup_none fl q db =
     (if \<not> su_acknowledge q then (Auth_http 400, db)
      else case set_auth_mode (fl 2) mode_none db of
        None \<Rightarrow> (Auth_http 500, db)
      | Some db1 \<Rightarrow> (Auth_done, db1))"

text \<open>The break-glass key: nothing is minted when the environment holds the key.\<close>

definition setup_key ::
  "(gostring \<Rightarrow> gostring) \<Rightarrow> env_key \<Rightarrow> gostring option \<Rightarrow> faults \<Rightarrow> settings_db \<Rightarrow>
     auth_response option \<times> settings_db" where
  "setup_key sha env fresh fl db =
     (if env \<noteq> None then (Some Setup_env_key, db)
      else case regenerate sha (fl 6) (fl 7) env fresh db of
        (Regenerated raw sfx, db') \<Rightarrow> (Some (Setup_key raw), db')
      | (_, db') \<Rightarrow> (None, db'))"

definition setup_oidc ::
  "(gostring \<Rightarrow> gostring) \<Rightarrow> (gostring \<Rightarrow> gostring option) \<Rightarrow> env_key \<Rightarrow> gostring option \<Rightarrow> faults \<Rightarrow>
     setup_request \<Rightarrow> settings_db \<Rightarrow> auth_response \<times> settings_db" where
  "setup_oidc sha enc env fresh fl q db =
     (case check_conf (su_oidc q) of
        None \<Rightarrow> (Auth_http 400, db)
      | Some c \<Rightarrow>
          (case enc (oc_secret c) of
             None \<Rightarrow> (Auth_http 500, db)
           | Some cipher \<Rightarrow>
               (case set_oidc_config (\<lambda>n. fl (n + 2)) (c\<lparr>oc_secret := cipher\<rparr>) db of
                  (False, db1) \<Rightarrow> (Auth_http 500, db1)
                | (True, db1) \<Rightarrow>
                    (case setup_key sha env fresh fl db1 of
                       (None, db2) \<Rightarrow> (Auth_http 500, db2)
                     | (Some resp, db2) \<Rightarrow>
                         (case set_auth_mode (fl 8) mode_oidc db2 of
                            None \<Rightarrow> (Auth_http 500, db2)
                          | Some db3 \<Rightarrow> (resp, db3))))))"

definition setup_end ::
  "(gostring \<Rightarrow> gostring) \<Rightarrow> (gostring \<Rightarrow> gostring option) \<Rightarrow> (gostring \<Rightarrow> gostring option) \<Rightarrow> env_key \<Rightarrow>
     gostring option \<Rightarrow> faults \<Rightarrow> gtime \<Rightarrow> setup_request option \<Rightarrow> settings_db \<Rightarrow> auth_response \<times> settings_db" where
  "setup_end sha bcrypt_gen enc env fresh fl now body db =
     (case body of
        None \<Rightarrow> (Auth_http 400, db)
      | Some q \<Rightarrow>
          let mode = (if su_mode q = [] then mode_password else su_mode q) in
          if mode = mode_password then setup_password bcrypt_gen enc fl now q db
          else if mode = mode_none then setup_none fl q db
          else if mode = mode_oidc then setup_oidc sha enc env fresh fl q db
          else (Auth_http 400, db))"

definition auth_setup_handler ::
  "(gostring \<Rightarrow> gostring) \<Rightarrow> (gostring \<Rightarrow> gostring option) \<Rightarrow> (gostring \<Rightarrow> gostring option) \<Rightarrow> env_key \<Rightarrow>
     gostring option \<Rightarrow> faults \<Rightarrow> gtime \<Rightarrow> setup_request option \<Rightarrow> settings_db \<Rightarrow> auth_response \<times> settings_db" where
  "auth_setup_handler sha bcrypt_gen enc env fresh fl now body db =
     (case setup_begin fl db of
        Some r \<Rightarrow> (r, db)
      | None \<Rightarrow> setup_end sha bcrypt_gen enc env fresh fl now body db)"

section \<open>Login, logout, status\<close>

definition auth_login_handler ::
  "(gostring \<Rightarrow> gostring \<Rightarrow> bool) \<Rightarrow> (gostring \<Rightarrow> gostring option) \<Rightarrow> faults \<Rightarrow> gtime \<Rightarrow>
     (gostring \<times> gostring) option \<Rightarrow> settings_db \<Rightarrow> auth_response" where
  "auth_login_handler bcrypt_cmp enc fl now body db =
     (case auth_mode (fl 0) db of
        None \<Rightarrow> Auth_http 500
      | Some mode \<Rightarrow>
          if mode \<noteq> mode_password then Auth_http 400
          else case body of
            None \<Rightarrow> Auth_http 400
          | Some (username, password) \<Rightarrow>
              (case verify_login bcrypt_cmp (fl 1) (fl 2) username password db of
                 Verify_error \<Rightarrow> Auth_http 500
               | Not_configured \<Rightarrow> Auth_http 401
               | Verified ok \<Rightarrow>
                   if \<not> ok then Auth_http 401
                   else case issue_token enc now of
                     None \<Rightarrow> Auth_http 500
                   | Some token \<Rightarrow> Session token False))"

text \<open>Both cookies are cleared; nothing else changes.\<close>

definition auth_logout_handler :: auth_response where
  "auth_logout_handler = Logged_out"

definition auth_status_handler ::
  "mw_env \<Rightarrow> faults \<Rightarrow> gtime \<Rightarrow> http_request \<Rightarrow> settings_db \<Rightarrow> auth_response" where
  "auth_status_handler env fl now r db =
     (case configured (fl 0) (fl 1) db of
        None \<Rightarrow> Auth_http 500
      | Some conf \<Rightarrow>
          (case auth_mode (fl 2) db of
             None \<Rightarrow> Auth_http 500
           | Some mode \<Rightarrow>
               Auth_status conf (if mode = mode_none then True else authenticated env now r) mode))"

section \<open>Switching the mode\<close>

definition get_auth_mode_handler :: "faults \<Rightarrow> settings_db \<Rightarrow> auth_response" where
  "get_auth_mode_handler fl db =
     (case auth_mode (fl 0) db of None \<Rightarrow> Auth_http 500 | Some mode \<Rightarrow> Mode_is mode)"

text \<open>\<open>installed\<close>: a section gate was passed in. \<open>None\<close> lets the change proceed.\<close>

definition authorize_auth_mode_change ::
  "crypto \<Rightarrow> faults \<Rightarrow> clock \<Rightarrow> bool \<Rightarrow> bool \<Rightarrow> caller \<Rightarrow> gostring \<Rightarrow> api_state \<Rightarrow>
     lock_response option \<times> api_state" where
  "authorize_auth_mode_change cr fl clk installed disabled ca pin s =
     (if \<not> installed \<or> disabled then (None, s)
      else case auth_mode (fl 0) (a_db s) of
        None \<Rightarrow> (Some (Http_error 500), s)
      | Some mode \<Rightarrow>
          if mode = mode_none then (None, s)
          else case pin_set (fl 1) (fl 2) (a_db s) (g_store (a_gate s)) of
            (Inl e, st) \<Rightarrow> (Some (Http_error 500), s\<lparr>a_gate := (a_gate s)\<lparr>g_store := st\<rparr>\<rparr>)
          | (Inr pinned, st) \<Rightarrow>
              let s1 = s\<lparr>a_gate := (a_gate s)\<lparr>g_store := st\<rparr>\<rparr> in
              if \<not> pinned then (None, s1)
              else case verify_pin cr (\<lambda>n. fl (n + 3)) clk (a_db s1) (ca_identity ca) pin (a_gate s1) of
                (Some e, g) \<Rightarrow> (Some (pin_error_response e), s1\<lparr>a_gate := g\<rparr>)
              | (None, g) \<Rightarrow> (None, s1\<lparr>a_gate := g\<rparr>))"

text \<open>The body: the mode and the acknowledgement. \<open>pin\<close> is the PIN header.\<close>

definition mode_precondition :: "bool \<Rightarrow> settings_db \<Rightarrow> gostring \<Rightarrow> bool \<Rightarrow> lock_response option" where
  "mode_precondition f db mode ack =
     (if mode = mode_password then
        (case password_configured f db of
           None \<Rightarrow> Some (Http_error 500)
         | Some ok \<Rightarrow> if \<not> ok then Some (Http_error 400) else None)
      else if mode = mode_oidc then
        (case oidc_configured f db of
           None \<Rightarrow> Some (Http_error 500)
         | Some ok \<Rightarrow> if \<not> ok then Some (Http_error 400) else None)
      else if mode = mode_none then (if \<not> ack then Some (Http_error 400) else None)
      else Some (Http_error 400))"

definition put_auth_mode_handler ::
  "crypto \<Rightarrow> faults \<Rightarrow> clock \<Rightarrow> bool \<Rightarrow> bool \<Rightarrow> caller \<Rightarrow> gostring \<Rightarrow> (gostring \<times> bool) option \<Rightarrow> api_state \<Rightarrow>
     lock_response \<times> api_state" where
  "put_auth_mode_handler cr fl clk installed disabled ca pin body s =
     (case body of
        None \<Rightarrow> (Http_error 400, s)
      | Some (mode, ack) \<Rightarrow>
          (case authorize_auth_mode_change cr fl clk installed disabled ca pin s of
             (Some r, s1) \<Rightarrow> (r, s1)
           | (None, s1) \<Rightarrow>
               (case mode_precondition (fl 5) (a_db s1) mode ack of
                  Some r \<Rightarrow> (r, s1)
                | None \<Rightarrow>
                    (case set_auth_mode (fl 6) mode (a_db s1) of
                       None \<Rightarrow> (Http_error 500, s1)
                     | Some db \<Rightarrow> (No_content, s1\<lparr>a_db := db\<rparr>)))))"

section \<open>OIDC\<close>

definition oidc_get_handler :: "faults \<Rightarrow> settings_db \<Rightarrow> auth_response" where
  "oidc_get_handler fl db =
     (case oidc_config fl db of
        None \<Rightarrow> Auth_http 500
      | Some c \<Rightarrow> Oidc_status (oc_issuer c) (oc_client_id c) (oc_redirect c) (oc_secret c \<noteq> []))"

definition oidc_put_handler ::
  "(gostring \<Rightarrow> gostring option) \<Rightarrow> faults \<Rightarrow> oidc_conf option \<Rightarrow> settings_db \<Rightarrow> auth_response \<times> settings_db" where
  "oidc_put_handler enc fl body db =
     (case body of
        None \<Rightarrow> (Auth_http 400, db)
      | Some q \<Rightarrow>
          (case check_conf q of
             None \<Rightarrow> (Auth_http 400, db)
           | Some c \<Rightarrow>
               (case enc (oc_secret c) of
                  None \<Rightarrow> (Auth_http 500, db)
                | Some cipher \<Rightarrow>
                    (case set_oidc_config fl (c\<lparr>oc_secret := cipher\<rparr>) db of
                       (False, db') \<Rightarrow> (Auth_http 500, db')
                     | (True, db') \<Rightarrow> (Auth_done, db')))))"

definition oidc_flow_ttl :: duration where "oidc_flow_ttl = 10 * minute"

text \<open>The two random tokens (\<open>None\<close>: no randomness) and the PKCE verifier are arguments.\<close>

definition oidc_login_handler ::
  "'c option option \<Rightarrow> gostring option \<Rightarrow> gostring option \<Rightarrow> gostring \<Rightarrow> gtime \<Rightarrow> auth_response" where
  "oidc_login_handler client state nonce verifier now =
     (case client of
        None \<Rightarrow> Auth_http 500
      | Some None \<Rightarrow> Auth_http 400
      | Some (Some c) \<Rightarrow>
          (case state of
             None \<Rightarrow> Auth_http 500
           | Some st \<Rightarrow>
               (case nonce of
                  None \<Rightarrow> Auth_http 500
                | Some n \<Rightarrow>
                    To_provider \<lparr>fw_state = st, fw_nonce = n, fw_verifier = verifier, fw_issued_at = unix_of now\<rparr>)))"

record callback_query =
  cq_error :: gostring
  cq_state :: gostring
  cq_code :: gostring

text \<open>
  \<open>flow\<close> is the decoded flow cookie, \<open>client\<close> what \<open>OIDCClient\<close> returns when it is
  asked, \<open>exchange\<close> the client's code exchange on code, verifier and nonce.
\<close>

definition oidc_callback_handler ::
  "(gostring \<Rightarrow> gostring option) \<Rightarrow> ('c \<Rightarrow> gostring \<Rightarrow> gostring \<Rightarrow> gostring \<Rightarrow> bool) \<Rightarrow> 'c option option \<Rightarrow> clock \<Rightarrow>
     oidc_flow option \<Rightarrow> callback_query \<Rightarrow> auth_response" where
  "oidc_callback_handler enc exchange client clk flow q =
     (if cq_error q \<noteq> [] then To_error ''idp_error''
      else case flow of
        None \<Rightarrow> To_error ''no_flow''
      | Some f \<Rightarrow>
          if fw_state f = [] \<or> fw_nonce f = [] \<or> fw_verifier f = [] then To_error ''no_flow''
          else if oidc_flow_ttl < clk 0 - time_of_unix (fw_issued_at f) then To_error ''flow_expired''
          else if cq_state q \<noteq> fw_state f then To_error ''state_mismatch''
          else if cq_code q = [] then To_error ''missing_code''
          else case client of
            None \<Rightarrow> To_error ''internal_error''
          | Some None \<Rightarrow> To_error ''not_configured''
          | Some (Some c) \<Rightarrow>
              if \<not> exchange c (cq_code q) (fw_verifier f) (fw_nonce f) then To_error ''exchange_failed''
              else case issue_token enc (clk 1) of
                None \<Rightarrow> To_error ''internal_error''
              | Some token \<Rightarrow> Session token True)"

section \<open>What the writes leave in place\<close>

lemma auth_rows_distinct [simp]:
  "oidc_issuer_url_key \<noteq> auth_mode_key" "oidc_client_id_key \<noteq> auth_mode_key"
  "oidc_client_secret_enc_key \<noteq> auth_mode_key" "oidc_redirect_url_key \<noteq> auth_mode_key"
  "oidc_issuer_url_key \<noteq> password_hash_key" "oidc_client_id_key \<noteq> password_hash_key"
  "oidc_client_secret_enc_key \<noteq> password_hash_key" "oidc_redirect_url_key \<noteq> password_hash_key"
  "auth_mode_key \<noteq> oidc_issuer_url_key" "auth_mode_key \<noteq> oidc_client_id_key"
  "auth_mode_key \<noteq> oidc_client_secret_enc_key" "auth_mode_key \<noteq> oidc_redirect_url_key"
  "auth_mode_key \<noteq> password_hash_key" "password_hash_key \<noteq> auth_mode_key"
  "username_key \<noteq> auth_mode_key" "auth_mode_key \<noteq> username_key"
  "username_key \<noteq> password_hash_key" "password_hash_key \<noteq> username_key"
  "apikey_hash_key \<noteq> auth_mode_key" "apikey_suffix_key \<noteq> auth_mode_key"
  "oidc_issuer_url_key \<noteq> oidc_client_id_key" "oidc_issuer_url_key \<noteq> oidc_client_secret_enc_key"
  "oidc_issuer_url_key \<noteq> oidc_redirect_url_key" "oidc_client_id_key \<noteq> oidc_client_secret_enc_key"
  "oidc_client_id_key \<noteq> oidc_redirect_url_key" "oidc_client_secret_enc_key \<noteq> oidc_redirect_url_key"
  by (simp_all add: oidc_keys auth_keys)

lemmas auth_rows_distinct_sym [simp] = auth_rows_distinct [THEN not_sym]

text \<open>A database extends another when no row disappears, and they agree on the mode row.\<close>

definition grows :: "settings_db \<Rightarrow> settings_db \<Rightarrow> bool" where
  "grows db db' \<longleftrightarrow> (\<forall>k. db k \<noteq> None \<longrightarrow> db' k \<noteq> None)"

lemma grows_refl [simp]: "grows db db"
  by (simp add: grows_def)

lemma grows_trans: "grows a b \<Longrightarrow> grows b c \<Longrightarrow> grows a c"
  by (simp add: grows_def)

lemma grows_upd [simp]: "grows db (db(k \<mapsto> v))"
  by (simp add: grows_def)

lemma grows_set: "settings_set f db k v = Some db' \<Longrightarrow> grows db db'"
  by (auto simp: settings_set_def split: if_splits)

lemma set_credentials_spec:
  "set_credentials g f1 f2 u p db = (ok, db') \<Longrightarrow>
     grows db db' \<and> db' auth_mode_key = db auth_mode_key \<and> (ok \<longrightarrow> db' password_hash_key \<noteq> None)"
  by (auto simp: set_credentials_def settings_set_def grows_def split: if_splits option.splits)

lemma set_oidc_config_spec:
  "set_oidc_config fl c db = (ok, db') \<Longrightarrow>
     grows db db' \<and> db' auth_mode_key = db auth_mode_key \<and> (ok \<longrightarrow> db' oidc_client_secret_enc_key \<noteq> None)"
  by (auto simp: set_oidc_config_def settings_set_def grows_def split: if_splits)

lemma regenerate_grows:
  "regenerate sha f1 f2 env fresh db = (r, db') \<Longrightarrow> grows db db' \<and> db' auth_mode_key = db auth_mode_key"
  by (auto simp: regenerate_def persist_key_def settings_set_def grows_def auth_keys
      split: if_splits option.splits)

text \<open>The mode that is stored has what it needs to let its owner in.\<close>

definition mode_backed :: "settings_db \<Rightarrow> bool" where
  "mode_backed db \<longleftrightarrow> (db auth_mode_key = Some mode_password \<longrightarrow> db password_hash_key \<noteq> None) \<and>
     (db auth_mode_key = Some mode_oidc \<longrightarrow> db oidc_client_secret_enc_key \<noteq> None)"

lemma mode_backed_grows:
  "mode_backed db \<Longrightarrow> grows db db' \<Longrightarrow> db' auth_mode_key = db auth_mode_key \<Longrightarrow> mode_backed db'"
  unfolding mode_backed_def grows_def by metis

lemma mode_backed_switch:
  assumes "set_auth_mode f mode db = Some db'" and "mode = mode_password \<longrightarrow> db password_hash_key \<noteq> None"
    and "mode = mode_oidc \<longrightarrow> db oidc_client_secret_enc_key \<noteq> None"
  shows "mode_backed db'"
  using assms by (auto simp: set_auth_mode_def settings_set_def mode_backed_def split: if_splits)

lemma switch_backed:
  assumes "mode_backed db" and "grows db db1" and "set_auth_mode f mode db1 = Some db'"
    and "mode = mode_password \<longrightarrow> db1 password_hash_key \<noteq> None"
    and "mode = mode_oidc \<longrightarrow> db1 oidc_client_secret_enc_key \<noteq> None"
  shows "mode_backed db' \<and> grows db db'"
  using mode_backed_switch [OF assms(3-5)] grows_trans [OF assms(2)] grows_set [of f db1 auth_mode_key mode db'] assms(3)
  by (simp add: set_auth_mode_def)

lemma setup_password_backed:
  assumes "mode_backed db" and "setup_password gen enc fl now q db = (r, db')"
  shows "mode_backed db' \<and> grows db db'"
proof -
  obtain ok db1 where sc: "set_credentials gen (fl 2) (fl 3) (su_username q) (su_password q) db = (ok, db1)"
    by fastforce
  note c = set_credentials_spec [OF sc]
  have e: "db' = db1 \<or> ok \<and> set_auth_mode (fl 4) mode_password db1 = Some db'"
    using assms(2) sc by (cases ok) (auto simp: setup_password_def split: option.splits)
  then show ?thesis
    using mode_backed_grows [OF assms(1)] switch_backed [OF assms(1), of db1 "fl 4" mode_password db'] c
    by (auto simp: auth_modes)
qed

lemma setup_none_backed:
  assumes "mode_backed db" and "setup_none fl q db = (r, db')"
  shows "mode_backed db' \<and> grows db db'"
proof -
  have "db' = db \<or> set_auth_mode (fl 2) mode_none db = Some db'"
    using assms(2) by (auto simp: setup_none_def split: if_splits option.splits)
  then show ?thesis
    using assms(1) switch_backed [OF assms(1) grows_refl, of "fl 2" mode_none db'] by (auto simp: auth_modes)
qed

lemma setup_key_grows:
  "setup_key sha env fresh fl db = (r, db') \<Longrightarrow> grows db db' \<and> db' auth_mode_key = db auth_mode_key"
  using regenerate_grows [of sha "fl 6" "fl 7" env fresh db]
  by (auto simp: setup_key_def split: if_splits prod.splits regenerate_result.splits)

lemma setup_oidc_backed:
  assumes "mode_backed db" and "setup_oidc sha enc env fresh fl q db = (r, db')"
  shows "mode_backed db' \<and> grows db db'"
proof (cases "\<exists>c cipher. check_conf (su_oidc q) = Some c \<and> enc (oc_secret c) = Some cipher")
  case False
  then have "db' = db" using assms(2) by (auto simp: setup_oidc_def split: option.splits)
  then show ?thesis using assms(1) by simp
next
  case True
  then obtain c cipher where cc: "check_conf (su_oidc q) = Some c" "enc (oc_secret c) = Some cipher" by blast
  obtain ok db1 where so: "set_oidc_config (\<lambda>n. fl (n + 2)) (c\<lparr>oc_secret := cipher\<rparr>) db = (ok, db1)" by fastforce
  obtain resp db2 where k: "setup_key sha env fresh fl db1 = (resp, db2)" by fastforce
  note o1 = set_oidc_config_spec [OF so] and k2 = setup_key_grows [OF k]
  have g: "grows db db2" "db2 auth_mode_key = db auth_mode_key"
    "ok \<longrightarrow> db2 oidc_client_secret_enc_key \<noteq> None"
    using o1 k2 grows_trans by (auto simp: grows_def)
  have "db' = db1 \<or> db' = db2 \<or> ok \<and> set_auth_mode (fl 8) mode_oidc db2 = Some db'"
    using assms(2) cc so k by (cases ok; cases resp) (auto simp: setup_oidc_def split: option.splits)
  then show ?thesis
    using mode_backed_grows [OF assms(1)] o1 g switch_backed [OF assms(1) g(1), of "fl 8" mode_oidc db']
    by (auto simp: auth_modes)
qed

lemma setup_end_backed:
  assumes "mode_backed db" and "setup_end sha gen enc env fresh fl now body db = (r, db')"
  shows "mode_backed db' \<and> grows db db'"
  using assms setup_password_backed [OF assms(1)] setup_none_backed [OF assms(1)] setup_oidc_backed [OF assms(1)]
  by (auto simp: setup_end_def Let_def split: option.splits if_splits)

lemma oidc_put_backed:
  assumes "mode_backed db" and "oidc_put_handler enc fl body db = (r, db')"
  shows "mode_backed db' \<and> grows db db'"
proof -
  have "db' = db \<or> (\<exists>c. grows db db' \<and> db' auth_mode_key = db auth_mode_key)"
    using assms(2) set_oidc_config_spec [of fl _ db]
    by (auto simp: oidc_put_handler_def split: option.splits prod.splits bool.splits)
  then show ?thesis using assms(1) mode_backed_grows by auto
qed

lemma authorize_mode_spec:
  assumes "collision_free cr" and "api_ok cr s"
    and "authorize_auth_mode_change cr fl clk installed disabled ca pin s = (r, s')"
  shows "api_ok cr s' \<and> a_db s' = a_db s \<and> (r = None \<longrightarrow>
    \<not> installed \<or> disabled \<or> a_db s auth_mode_key = Some mode_none \<or> stored_pin (a_db s) = [] \<or>
    \<not> refused (g_lockout (a_gate s)) (ca_identity ca) (clk 0) \<and> cr_bcrypt_cmp cr (stored_pin (a_db s)) pin)"
proof (cases "\<not> installed \<or> disabled \<or> auth_mode (fl 0) (a_db s) = None \<or> auth_mode (fl 0) (a_db s) = Some mode_none")
  case True
  then show ?thesis using assms(2,3)
    by (auto simp: authorize_auth_mode_change_def auth_mode_def settings_get_def auth_modes
        split: if_splits option.splits)
next
  case False
  then obtain mode where mode: "auth_mode (fl 0) (a_db s) = Some mode" "mode \<noteq> mode_none" by auto
  have g: "gate_ok cr (a_db s) (a_gate s)" using assms(2) by (simp add: api_ok_def)
  then have c: "coherent (a_db s) (g_store (a_gate s))" by (simp add: gate_ok_def)
  obtain x st where ps: "pin_set (fl 1) (fl 2) (a_db s) (g_store (a_gate s)) = (x, st)" by fastforce
  note pr = pin_set_result [OF c ps]
  let ?g = "(a_gate s)\<lparr>g_store := st\<rparr>"
  have ok: "gate_ok cr (a_db s) ?g" using gate_ok_store [OF g] pr by blast
  obtain v g' where vp: "verify_pin cr (\<lambda>n. fl (n + 3)) clk (a_db s) (ca_identity ca) pin ?g = (v, g')" by fastforce
  have ok': "gate_ok cr (a_db s) g'" using verify_pin_ok [OF assms(1) ok vp] .
  have vs: "v = None \<Longrightarrow> \<not> refused (g_lockout (a_gate s)) (ca_identity ca) (clk 0) \<and>
      cr_bcrypt_cmp cr (stored_pin (a_db s)) pin"
    using verify_success [OF assms(1) ok, of "\<lambda>n. fl (n + 3)" clk "ca_identity ca" pin g'] vp by simp
  show ?thesis
  proof (cases x)
    case (Inl e)
    then show ?thesis using assms(3) False mode ps ok by (auto simp: authorize_auth_mode_change_def api_ok_def)
  next
    case (Inr b)
    then show ?thesis using assms(3) False mode ps pr ok ok' vp vs
      by (cases b; cases v) (auto simp: authorize_auth_mode_change_def api_ok_def Let_def)
  qed
qed

lemma put_mode_spec:
  assumes "collision_free cr" and "api_ok cr s"
    and "put_auth_mode_handler cr fl clk installed disabled ca pin (Some (mode, ack)) s = (r, s')"
  shows "(r \<noteq> No_content \<longrightarrow> a_db s' = a_db s) \<and>
    (r = No_content \<longrightarrow> mode_precondition (fl 5) (a_db s) mode ack = None \<and>
       set_auth_mode (fl 6) mode (a_db s) = Some (a_db s') \<and>
       fst (authorize_auth_mode_change cr fl clk installed disabled ca pin s) = None)"
proof -
  obtain x s1 where au: "authorize_auth_mode_change cr fl clk installed disabled ca pin s = (x, s1)" by fastforce
  have db: "a_db s1 = a_db s" using authorize_mode_spec [OF assms(1,2) au] by simp
  have nr: "x \<noteq> Some No_content" "mode_precondition (fl 5) (a_db s) mode ack \<noteq> Some No_content"
    using au pin_error_resp
    by (auto simp: authorize_auth_mode_change_def mode_precondition_def Let_def
        split: if_splits option.splits sum.splits prod.splits)
  show ?thesis using assms(3) au db nr
    by (cases x) (auto simp: put_auth_mode_handler_def split: option.splits)
qed

section \<open>Properties\<close>

text \<open>
  The databases requests can lead to. A request body is read after setup has checked that no
  login exists, and a mode switch checks before it writes: \<open>set_up\<close> and \<open>switch_late\<close>
  let any other requests run in between.
\<close>

inductive auth_reach :: "settings_db \<Rightarrow> settings_db \<Rightarrow> bool" where
  refl: "auth_reach db db"
| set_up: "auth_reach db0 db \<Longrightarrow> setup_end sha gen enc env fresh fl now body db = (r, db') \<Longrightarrow> auth_reach db0 db'"
| oidc: "auth_reach db0 db \<Longrightarrow> oidc_put_handler enc fl bd db = (r, db') \<Longrightarrow> auth_reach db0 db'"
| switched: "auth_reach db0 (a_db s) \<Longrightarrow> put_auth_mode_handler cr fl clk inst dis ca pin bm s = (rl, s') \<Longrightarrow>
    auth_reach db0 (a_db s')"
| switch_late: "auth_reach db0 db1 \<Longrightarrow> mode_precondition f db1 mode ack = None \<Longrightarrow> auth_reach db1 db2 \<Longrightarrow>
    set_auth_mode f' mode db2 = Some db' \<Longrightarrow> auth_reach db0 db'"
| other: "auth_reach db0 db \<Longrightarrow> k \<notin> {auth_mode_key, password_hash_key, oidc_client_secret_enc_key} \<Longrightarrow>
    auth_reach db0 (db(k \<mapsto> v))"

lemma put_mode_db:
  assumes "put_auth_mode_handler cr fl clk inst dis ca pin bm s = (r, s')"
  shows "a_db s' = a_db s \<or> (\<exists>mode ack. mode_precondition (fl 5) (a_db s) mode ack = None \<and>
    set_auth_mode (fl 6) mode (a_db s) = Some (a_db s'))"
proof -
  have "a_db (snd (authorize_auth_mode_change cr fl clk inst dis ca pin s)) = a_db s"
    by (auto simp: authorize_auth_mode_change_def Let_def split: option.splits sum.splits prod.splits)
  then show ?thesis using assms
    by (cases "authorize_auth_mode_change cr fl clk inst dis ca pin s"; cases bm)
      (auto simp: put_auth_mode_handler_def split: option.splits prod.splits)
qed

lemma precondition_rows:
  "mode_precondition f db mode ack = None \<Longrightarrow>
     (mode = mode_password \<longrightarrow> db password_hash_key \<noteq> None) \<and>
     (mode = mode_oidc \<longrightarrow> db oidc_client_secret_enc_key \<noteq> None)"
  by (auto simp: mode_precondition_def password_configured_def oidc_configured_def settings_get_def auth_modes
      split: if_splits option.splits)

lemma auth_reach_backed: "auth_reach db0 db \<Longrightarrow> mode_backed db0 \<Longrightarrow> mode_backed db \<and> grows db0 db"
proof (induction rule: auth_reach.induct)
  case (set_up db0 db sha gen enc env fresh fl now body r db')
  then show ?case using setup_end_backed [OF _ set_up.hyps(2)] grows_trans by blast
next
  case (oidc db0 db enc fl bd r db')
  then show ?case using oidc_put_backed [OF _ oidc.hyps(2)] grows_trans by blast
next
  case (switched db0 s cr fl clk inst dis ca pin bm rl s')
  then have b: "mode_backed (a_db s)" "grows db0 (a_db s)" by auto
  from put_mode_db [OF switched.hyps(2)] show ?case
  proof (elim disjE exE conjE)
    fix mode ack
    assume "mode_precondition (fl 5) (a_db s) mode ack = None" "set_auth_mode (fl 6) mode (a_db s) = Some (a_db s')"
    then show ?thesis using switch_backed [OF b(1) grows_refl] precondition_rows grows_trans [OF b(2)] by blast
  qed (simp add: b)
next
  case (switch_late db0 db1 f mode ack db2 f' db')
  then have b: "mode_backed db2" "grows db0 db1" "grows db1 db2" by auto
  have rows: "(mode = mode_password \<longrightarrow> db2 password_hash_key \<noteq> None) \<and>
      (mode = mode_oidc \<longrightarrow> db2 oidc_client_secret_enc_key \<noteq> None)"
    using precondition_rows [OF switch_late.hyps(2)] b(3) unfolding grows_def by blast
  then show ?case
    using switch_backed [OF b(1) grows_refl switch_late.hyps(4)] grows_trans [OF grows_trans [OF b(2,3)]] by blast
next
  case (other db0 db k v)
  then have b: "mode_backed db" "grows db0 db" by auto
  have "mode_backed (db(k \<mapsto> v))" using b(1) other.hyps(2) by (auto simp: mode_backed_def)
  then show ?case using grows_trans [OF b(2) grows_upd] by blast
qed simp


definition demo_setup :: "gostring \<Rightarrow> gostring \<Rightarrow> setup_request" where
  "demo_setup user pw = \<lparr>su_username = user, su_password = pw, su_mode = [], su_acknowledge = False,
     su_oidc = empty_conf\<rparr>"


text \<open>
  Switching the mode takes the PIN. With a gate installed, the lock armed and a PIN stored,
  a switch away from a mode that enforces succeeds only with the right PIN of an identity that
  is not refused; and only if the mode is a known one whose precondition holds.
\<close>

theorem mode_switch_needs_pin:
  assumes "collision_free cr" and "api_ok cr s" and "stored_pin (a_db s) \<noteq> []"
    and "a_db s auth_mode_key \<noteq> Some mode_none"
    and "put_auth_mode_handler cr fl clk True False ca pin (Some (mode, ack)) s = (No_content, s')"
  shows "\<not> refused (g_lockout (a_gate s)) (ca_identity ca) (clk 0) \<and> cr_bcrypt_cmp cr (stored_pin (a_db s)) pin \<and>
    (mode = mode_password \<and> a_db s password_hash_key \<noteq> None \<or>
     mode = mode_oidc \<and> a_db s oidc_client_secret_enc_key \<noteq> None \<or> mode = mode_none \<and> ack) \<and>
    a_db s' = (a_db s)(auth_mode_key \<mapsto> mode)"
proof -
  note p = put_mode_spec [OF assms(1,2,5)]
  obtain s1 where au: "authorize_auth_mode_change cr fl clk True False ca pin s = (None, s1)"
    using p by (metis prod.collapse)
  have pre: "mode_precondition (fl 5) (a_db s) mode ack = None" using p by simp
  have "mode \<in> {mode_password, mode_oidc, mode_none} \<and> (mode = mode_none \<longrightarrow> ack)"
    using pre by (simp add: mode_precondition_def auth_modes split: if_splits)
  then show ?thesis
    using authorize_mode_spec [OF assms(1,2) au] assms(3,4) precondition_rows [OF pre] p
    by (auto simp: set_auth_mode_def settings_set_def split: if_splits)
qed

theorem mode_switch_needs_pin_witness:
  "fst (put_auth_mode_handler demo_crypto no_faults (\<lambda>_. 0) True False demo_caller ''111111'' (Some (''none'', True)) demo_api)
     \<noteq> No_content"
proof
  assume a: "fst (put_auth_mode_handler demo_crypto no_faults (\<lambda>_. 0) True False demo_caller ''111111''
      (Some (''none'', True)) demo_api) = No_content"
  have m: "a_db demo_api auth_mode_key \<noteq> Some mode_none"
    by (simp add: demo_api_db demo_db_def auth_keys pin_hash_key_def sections_key_def)
  obtain s' where "put_auth_mode_handler demo_crypto no_faults (\<lambda>_. 0) True False demo_caller ''111111''
      (Some (''none'', True)) demo_api = (No_content, s')" using a by (metis prod.collapse)
  from mode_switch_needs_pin [OF demo_collision_free demo_api_ok _ m this]
  show False by (simp add: demo_api_db demo_cmp demo_stored)
qed

text \<open>
  C35. A visitor can take over an instance that has an owner. Setup checks that no login exists
  before it reads the body, so a visitor whose request passes that check and whose body arrives
  after the owner has set the login up replaces the owner's credentials and is given a session.
\<close>

theorem setup_takeover:
  assumes "configured False False db = Some False" and "owner \<noteq> []" and "opw \<noteq> []" and "visitor \<noteq> []" and "vpw \<noteq> []"
    and "gen opw = Some oh" and "gen vpw = Some vh" and "cmp vh vpw" and "visitor \<noteq> owner"
    and "issue_token enc now = Some tok" and "issue_token enc now' = Some tok'"
  shows "\<exists>db1 db2. setup_begin no_faults db = None \<and>
    auth_setup_handler sha gen enc env fresh no_faults now (Some (demo_setup owner opw)) db = (Session tok False, db1) \<and>
    setup_end sha gen enc env fresh no_faults now' (Some (demo_setup visitor vpw)) db1 = (Session tok' False, db2) \<and>
    verify_login cmp False False owner opw db2 = Verified False \<and>
    verify_login cmp False False visitor vpw db2 = Verified True"
proof -
  have b: "setup_begin no_faults db = None" using assms(1) by (simp add: setup_begin_def)
  have e: "setup_end sha gen enc env fresh no_faults t (Some (demo_setup u p)) d =
      (Session k False, d(username_key \<mapsto> u, password_hash_key \<mapsto> h, auth_mode_key \<mapsto> mode_password))"
    if "u \<noteq> []" "p \<noteq> []" "gen p = Some h" "issue_token enc t = Some k" for t u p d h k
    using that by (simp add: setup_end_def setup_password_def demo_setup_def set_credentials_def settings_set_def
        set_auth_mode_def)
  show ?thesis
    using b e [OF assms(2,3,6,10)] e [OF assms(4,5,7,11)] assms(8,9)
    by (simp add: auth_setup_handler_def verify_login_def settings_get_def)
qed

theorem setup_takeover_witness:
  "\<exists>db1 db2. auth_setup_handler (\<lambda>s. s) Some Some None None no_faults 0 (Some (demo_setup ''ann'' ''pw'')) Map.empty =
      (Session (marshal_payload True [] (unix_of session_ttl)) False, db1) \<and>
    setup_end (\<lambda>s. s) Some Some None None no_faults 9 (Some (demo_setup ''eve'' ''x'')) db1 =
      (Session (marshal_payload True [] (unix_of (9 + session_ttl))) False, db2) \<and>
    verify_login (\<lambda>h p. h = p) False False ''ann'' ''pw'' db2 = Verified False"
proof -
  have c: "configured False False Map.empty = Some False" by (simp add: configured_def settings_get_def)
  show ?thesis
    using setup_takeover [OF c, where owner = "''ann''" and opw = "''pw''" and visitor = "''eve''" and vpw = "''x''"
        and gen = Some and cmp = "\<lambda>h p. h = p" and enc = Some and now = 0 and now' = 9 and sha = "\<lambda>s. s"
        and env = None and fresh = None]
    by (simp add: issue_token_def) blast
qed

text \<open>
  A first run can lock its owner out. If writing the password hash fails after the user name
  is stored, setup answers with an error and every later setup is refused as already configured,
  while no user name and password ever logs in.
\<close>

theorem setup_half_configured:
  assumes "configured False False db = Some False" and "db password_hash_key = None" and "user \<noteq> []" and "pw \<noteq> []"
    and "gen pw = Some h" and "fl 0 = False" and "fl 1 = False" and "fl 2 = False" and "fl 3 = True"
  shows "\<exists>db1. auth_setup_handler sha gen enc env fresh fl now (Some (demo_setup user pw)) db = (Auth_http 400, db1) \<and>
    auth_setup_handler sha' gen' enc' env' fresh' no_faults now' body db1 = (Auth_http 409, db1) \<and>
    (\<forall>tok sec. auth_login_handler cmp enc' fl' now' login db1 \<noteq> Session tok sec)"
proof -
  have n: "db auth_mode_key = None" "db username_key = None"
    using assms(1) by (auto simp: configured_iff)
  let ?db1 = "db(username_key \<mapsto> user)"
  have "auth_setup_handler sha gen enc env fresh fl now (Some (demo_setup user pw)) db = (Auth_http 400, ?db1)"
    using assms by (simp add: auth_setup_handler_def setup_begin_def setup_end_def setup_password_def demo_setup_def
        set_credentials_def settings_set_def)
  moreover have "auth_setup_handler sha' gen' enc' env' fresh' no_faults now' body ?db1 = (Auth_http 409, ?db1)"
    using n by (simp add: auth_setup_handler_def setup_begin_def configured_iff)
  moreover have "auth_login_handler cmp enc' fl' now' login ?db1 \<noteq> Session tok sec" for tok sec
    using assms(2) by (auto simp: auth_login_handler_def verify_login_def settings_get_def split: option.splits)
  ultimately show ?thesis by blast
qed

theorem setup_half_configured_witness:
  "\<exists>db1. auth_setup_handler (\<lambda>s. s) Some Some None None (\<lambda>n. n = 3) 0 (Some (demo_setup ''ann'' ''pw'')) Map.empty =
      (Auth_http 400, db1) \<and>
    auth_setup_handler (\<lambda>s. s) Some Some None None no_faults 1 (Some (demo_setup ''ann'' ''pw'')) db1 = (Auth_http 409, db1)"
proof -
  have c: "configured False False Map.empty = Some False" by (simp add: configured_def settings_get_def)
  show ?thesis
    using setup_half_configured [OF c, where user = "''ann''" and pw = "''pw''" and gen = Some and fl = "\<lambda>n. n = 3"
        and sha = "\<lambda>s. s" and enc = Some and env = None and fresh = None and now = 0 and sha' = "\<lambda>s. s"
        and gen' = Some and enc' = Some and env' = None and fresh' = None and now' = 1
        and body = "Some (demo_setup ''ann'' ''pw'')"]
    by simp blast
qed


definition demo_flow :: oidc_flow where
  "demo_flow = \<lparr>fw_state = ''st'', fw_nonce = ''no'', fw_verifier = ''ve'', fw_issued_at = 0\<rparr>"


section \<open>The OIDC client cache\<close>

text \<open>The cache holds a client discovered from a configuration with its fingerprint.\<close>

definition plain_conf :: "oidc_conf \<Rightarrow> bool" where
  "plain_conf c \<longleftrightarrow> CHR 0x00 \<notin> set (oc_issuer c) \<and> CHR 0x00 \<notin> set (oc_client_id c) \<and> CHR 0x00 \<notin> set (oc_secret c)"

definition built_from ::
  "(gostring \<Rightarrow> gostring option) \<Rightarrow> (oidc_conf \<Rightarrow> 'c option) \<Rightarrow> oidc_conf \<Rightarrow> 'c \<Rightarrow> bool" where
  "built_from dec discover c client \<longleftrightarrow>
     (\<exists>secret. dec (oc_secret c) = Some secret \<and> discover (c\<lparr>oc_secret := secret\<rparr>) = Some client)"

definition oidc_cache_ok ::
  "(gostring \<Rightarrow> gostring option) \<Rightarrow> (oidc_conf \<Rightarrow> 'c option) \<Rightarrow> (gostring \<times> 'c) option \<Rightarrow> bool" where
  "oidc_cache_ok dec discover cache \<longleftrightarrow> (\<forall>fp client. cache = Some (fp, client) \<longrightarrow>
     (\<exists>c. plain_conf c \<and> fp = oidc_fingerprint c \<and> built_from dec discover c client))"

lemma append_sep_inj:
  "d \<notin> set a \<Longrightarrow> d \<notin> set b \<Longrightarrow> a @ d # x = b @ d # y \<longleftrightarrow> a = b \<and> x = y"
proof (induction a arbitrary: b)
  case Nil
  then show ?case by (cases b) auto
next
  case (Cons e a)
  then show ?case by (cases b) auto
qed

lemma fingerprint_inj:
  "plain_conf c \<Longrightarrow> plain_conf c' \<Longrightarrow> oidc_fingerprint c = oidc_fingerprint c' \<longleftrightarrow> c = c'"
  by (cases c; cases c') (auto simp: oidc_fingerprint_def plain_conf_def append_sep_inj)

text \<open>
  A changed OIDC configuration is never served by a client of the old one. When a client is
  returned it was discovered from the stored configuration, with its decrypted secret, whether
  it comes from the cache or not, and the cache it leaves has the same property; configurations
  with a NUL character apart.
\<close>

theorem oidc_client_current:
  assumes "oidc_cache_ok dec discover cache" and "oidc_config fl db = Some c" and "plain_conf c"
  shows "(\<forall>client. fst (oidc_client dec discover fl db cache) = Some (Some client) \<longrightarrow> built_from dec discover c client) \<and>
    oidc_cache_ok dec discover (snd (oidc_client dec discover fl db cache))"
proof (cases "\<exists>client. cache = Some (oidc_fingerprint c, client)")
  case True
  then obtain client where cl: "cache = Some (oidc_fingerprint c, client)" by blast
  then have "built_from dec discover c client"
    using assms(1,3) by (auto simp: oidc_cache_ok_def fingerprint_inj)
  then show ?thesis using assms(1,2) cl by (auto simp: oidc_client_def Let_def)
next
  case False
  define build where "build = (case dec (oc_secret c) of None \<Rightarrow> (None, cache)
      | Some secret \<Rightarrow> (case discover (c\<lparr>oc_secret := secret\<rparr>) of None \<Rightarrow> (None, cache)
          | Some client \<Rightarrow> (Some (Some client), Some (oidc_fingerprint c, client))))"
  have "oidc_client dec discover fl db cache = (Some None, cache) \<or> oidc_client dec discover fl db cache = build"
    using False assms(2) by (auto simp: oidc_client_def build_def Let_def split: option.splits)
  moreover have "(\<forall>client. fst build = Some (Some client) \<longrightarrow> built_from dec discover c client) \<and>
      oidc_cache_ok dec discover (snd build)"
    using assms(1,3) unfolding build_def oidc_cache_ok_def built_from_def by (auto split: option.splits)
  ultimately show ?thesis using assms(1) by auto
qed

definition demo_conf :: oidc_conf where
  "demo_conf = \<lparr>oc_issuer = ''https://idp'', oc_client_id = ''sak'', oc_secret = ''k'', oc_redirect = ''https://sak/cb''\<rparr>"

lemma demo_conf_stored:
  "oidc_config no_faults (snd (set_oidc_config no_faults demo_conf db)) = Some demo_conf"
  by (simp add: set_oidc_config_def settings_set_def oidc_config_def settings_get_def oidc_field_def demo_conf_def)

theorem oidc_client_current_witness:
  "built_from Some Some demo_conf
     (the (the (fst (oidc_client Some Some no_faults (snd (set_oidc_config no_faults demo_conf Map.empty)) None))))"
proof -
  have ok: "oidc_cache_ok Some Some (None :: (gostring \<times> oidc_conf) option)" by (simp add: oidc_cache_ok_def)
  have p: "plain_conf demo_conf" by (simp add: plain_conf_def demo_conf_def)
  obtain cl where "fst (oidc_client Some Some no_faults (snd (set_oidc_config no_faults demo_conf Map.empty)) None) =
      Some (Some cl)"
    using demo_conf_stored [of Map.empty] by (simp add: oidc_client_def Let_def) (simp add: demo_conf_def)
  then show ?thesis using oidc_client_current [OF ok demo_conf_stored p, of Map.empty] by simp
qed

text \<open>
  An OIDC update that fails half way mixes two configurations. If storing the new secret
  fails, the update is answered with an error, and the next client is built from the new issuer
  and client id with the old secret, which is then presented to the new issuer.
\<close>

theorem oidc_update_can_mix:
  assumes "oidc_config no_faults db = Some old" and "\<forall>v\<in>{oc_client_id old, oc_secret old, oc_redirect old}. v \<noteq> []"
    and "check_conf q = Some new" and "enc (oc_secret new) = Some cipher"
    and "fl 0 = False" and "fl 1 = False" and "fl 2 = True"
    and "dec (oc_secret old) = Some secret"
    and "discover \<lparr>oc_issuer = oc_issuer new, oc_client_id = oc_client_id new, oc_secret = secret,
           oc_redirect = oc_redirect old\<rparr> = Some client"
  shows "\<exists>db'. oidc_put_handler enc fl (Some q) db = (Auth_http 500, db') \<and>
    fst (oidc_client dec discover no_faults db' None) = Some (Some client)"
proof -
  let ?db = "db(oidc_issuer_url_key \<mapsto> oc_issuer new, oidc_client_id_key \<mapsto> oc_client_id new)"
  have put: "oidc_put_handler enc fl (Some q) db = (Auth_http 500, ?db)"
    using assms(3-7) by (simp add: oidc_put_handler_def set_oidc_config_def settings_set_def)
  have new: "oc_issuer new \<noteq> []" "oc_client_id new \<noteq> []"
    using assms(3) by (auto simp: check_conf_def Let_def split: if_splits)
  have "oidc_config no_faults ?db = Some \<lparr>oc_issuer = oc_issuer new, oc_client_id = oc_client_id new,
      oc_secret = oc_secret old, oc_redirect = oc_redirect old\<rparr>"
    using assms(1,2) by (auto simp: oidc_config_def oidc_field_def settings_get_def empty_conf_def split: option.splits)
  then have "fst (oidc_client dec discover no_faults ?db None) = Some (Some client)"
    using assms(2,8,9) new by (simp add: oidc_client_def Let_def)
  then show ?thesis using put by blast
qed

theorem oidc_update_can_mix_witness:
  "\<exists>db'. oidc_put_handler Some (\<lambda>n. n = 2) (Some (demo_conf\<lparr>oc_issuer := ''https://new'', oc_secret := ''s2''\<rparr>))
        (snd (set_oidc_config no_faults demo_conf Map.empty)) = (Auth_http 500, db') \<and>
    fst (oidc_client Some Some no_faults db' None) =
      Some (Some (demo_conf\<lparr>oc_issuer := ''https://new''\<rparr>))"
proof -
  have c: "check_conf (demo_conf\<lparr>oc_issuer := ''https://new'', oc_secret := ''s2''\<rparr>) =
      Some (demo_conf\<lparr>oc_issuer := ''https://new'', oc_secret := ''s2''\<rparr>)"
    unfolding demo_conf_def by code_simp
  show ?thesis
    using oidc_update_can_mix [OF demo_conf_stored [of Map.empty] _ c, where enc = Some and cipher = "''s2''"
        and fl = "\<lambda>n. n = 2" and dec = Some and discover = Some and secret = "''k''"
        and client = "demo_conf\<lparr>oc_issuer := ''https://new''\<rparr>"]
    by (simp add: demo_conf_def)
qed

end
