(* ===== verification/Stream.thy ===== *)
theory Stream
  imports Gate
begin

text \<open>
  \<open>internal/sectionlock/stream.go\<close>: the periodic re-check of a long-lived stream. A stream
  keeps the decision and the ticket it was opened with; \<open>live\<close> is what a tick sees of the
  gate through the \<open>LiveLookup\<close> interface.
\<close>

section \<open>The re-check\<close>

definition stream_recheck_interval :: duration where
  "stream_recheck_interval = 30 * second"

record live_view =
  lv_locked :: "store_error + sset"
  lv_valid_ticket :: "gostring \<Rightarrow> gtime option"
  lv_epoch :: int

definition gate_live :: "crypto \<Rightarrow> faults \<Rightarrow> settings_db \<Rightarrow> gtime \<Rightarrow> gate \<Rightarrow> live_view" where
  "gate_live cr fl db now g =
     \<lparr>lv_locked = fst (locked_now (fl 0) (fl 1) db g),
      lv_valid_ticket = (\<lambda>t. valid_ticket cr t now),
      lv_epoch = g_epoch g\<rparr>"

definition stream_revoked ::
  "decision option \<Rightarrow> live_view option \<Rightarrow> gostring \<Rightarrow> sset \<Rightarrow> bool" where
  "stream_revoked dec lv ticket sections =
     (if set_len sections = 0 then False
      else case dec of
        None \<Rightarrow> False
      | Some d \<Rightarrow>
          if \<not> d_enforcing d then False
          else case lv of
            None \<Rightarrow> False
          | Some l \<Rightarrow>
              (case lv_locked l of
                 Inl e \<Rightarrow> True
               | Inr ids \<Rightarrow>
                   if \<not> set_intersects ids sections then False
                   else if lv_epoch l = d_epoch d \<and> lv_valid_ticket l ticket \<noteq> None then False
                   else if d_unlocked d \<and> d_expires_at d = zero_time then False
                   else True))"

section \<open>The interface of the live lookup\<close>

text \<open>
  What a revocation promises to a tick: it moves the epoch on and leaves the configuration and
  the validity of tickets alone. A stream's epoch is then behind for good.
\<close>

locale live_lookup =
  fixes look :: "'s \<Rightarrow> live_view" and rev_op :: "'s \<Rightarrow> 's"
  assumes rev_epoch: "lv_epoch (look (rev_op s)) = lv_epoch (look s) + 1"
    and rev_locked: "lv_locked (look (rev_op s)) = lv_locked (look s)"
    and rev_ticket: "lv_valid_ticket (look (rev_op s)) = lv_valid_ticket (look s)"
begin

lemma after_revocations:
  "lv_epoch (look ((rev_op ^^ n) s)) = lv_epoch (look s) + int n \<and>
   lv_locked (look ((rev_op ^^ n) s)) = lv_locked (look s)"
  by (induction n) (simp_all add: rev_epoch rev_locked)

lemma revoked_ticket_stream:
  assumes "d_epoch d = lv_epoch (look s)" and "d_enforcing d" and "\<not> (d_unlocked d \<and> d_expires_at d = zero_time)"
    and "lv_locked (look s) = Inr ids" and "set ids \<inter> set S \<noteq> {}" and "0 < n"
  shows "stream_revoked (Some d) (Some (look ((rev_op ^^ n) s))) tok S"
  using assms after_revocations [of n s]
  by (auto simp: stream_revoked_def set_intersects_iff set_len_def)

end

interpretation gl: live_lookup "gate_live cr fl db now" revoke for cr fl db now
  by unfold_locales
    (auto simp: gate_live_def revoke_def locked_now_def split: prod.split)

section \<open>Properties\<close>

lemma locked_now_current:
  "coherent db (g_store g) \<Longrightarrow> \<not> (fl 0 \<and> fl 1) \<Longrightarrow> fst (locked_now (fl 0) (fl 1) db g) = stored_sections db"
  by (auto simp: locked_now_def locked_sections_eq split: sum.split)

text \<open>
  When an open stream ends. For a stream opened by the decision on a browser request (a
  ticket or nothing, no PIN header), a later tick ends it exactly when its sections touch what
  is locked at the tick and its ticket is not live then or a revocation came in between; an
  unreadable configuration ends it too. In particular a stream opened while nothing was locked,
  by a holder of a live ticket, survives a section being locked; and time alone ends a stream
  whose ticket has run out.
\<close>

theorem stream_tick_policy:
  assumes "collision_free cr" and "gate_ok cr db g" and "no_double_fault fl" and "rq_enforcing req"
    and "rq_pin req = []" and "stored_sections db = Inr ids"
    and "decide cr fl clk db req g = (Inr d, g1)" and "0 \<le> clk 0" and "S \<noteq> []"
    and "gate_ok cr db' g'"
  shows "stream_revoked (Some d) (Some (gate_live cr (\<lambda>_. False) db' now g')) (rq_ticket req) S \<longleftrightarrow>
    (case stored_sections db' of
       Inl e \<Rightarrow> True
     | Inr ids' \<Rightarrow> set ids' \<inter> set S \<noteq> {} \<and>
         (g_epoch g' \<noteq> g_epoch g \<or> valid_ticket cr (rq_ticket req) now = None))"
proof -
  have d: "d_enforcing d" "d_epoch d = g_epoch g"
    "d_unlocked d = (ids \<noteq> [] \<and> credential cr clk db req (g_lockout g))"
    "d_expires_at d = (if ids = [] \<or> stored_pin db = [] then zero_time
       else case valid_ticket cr (rq_ticket req) (clk 0) of None \<Rightarrow> zero_time | Some x \<Rightarrow> x)"
    using decide_spec [OF assms(1-4,6), of clk] assms(7) by auto
  have late: "valid_ticket cr (rq_ticket req) (clk 0) = Some x \<Longrightarrow> x \<noteq> zero_time" for x
    using assms(8)
    by (auto simp: valid_ticket_def validate_ticket_at_def zero_time_def Let_def
        split: if_splits option.splits prod.splits)
  have "\<not> (d_unlocked d \<and> d_expires_at d = zero_time)"
    using d late assms(5) by (auto simp: credential_def verify_ref_def split: option.splits)
  moreover have "fst (locked_now False False db' g') = stored_sections db'"
    using locked_now_current [of db' g' "\<lambda>_. False"] assms(10) by (simp add: gate_ok_def)
  ultimately show ?thesis using d assms(9)
    by (auto simp: stream_revoked_def gate_live_def set_intersects_iff set_len_def split: sum.split)
qed

theorem stream_tick_policy_witness:
  "(\<exists>d g1. decide demo_crypto (\<lambda>_. False) (\<lambda>_. 0) demo_db
       \<lparr>rq_enforcing = True, rq_ticket = [], rq_pin = [], rq_identity = ''ip:1''\<rparr> (new_gate new_store) = (Inr d, g1) \<and>
     stream_revoked (Some d) (Some (gate_live demo_crypto (\<lambda>_. False) demo_db 0 (new_gate new_store))) [] [''queue''])"
proof -
  let ?q = "\<lparr>rq_enforcing = True, rq_ticket = [], rq_pin = [], rq_identity = ''ip:1''\<rparr>"
  have n: "no_double_fault (\<lambda>_. False)" by (simp add: no_double_fault_def)
  obtain d g1 where d: "decide demo_crypto (\<lambda>_. False) (\<lambda>_. 0) demo_db ?q (new_gate new_store) = (Inr d, g1)"
    using decide_spec [OF demo_collision_free demo_gate_ok n _ demo_stored(2), where req = ?q and clk = "\<lambda>_. 0"]
    by auto
  show ?thesis
    using stream_tick_policy [OF demo_collision_free demo_gate_ok n _ _ demo_stored(2) d _ _ demo_gate_ok,
        where S = "[''queue'']" and db' = demo_db and now = 0] d
    by (auto simp: demo_stored valid_ticket_def validate_ticket_at_def)
qed


lemma demo_ticket: "\<exists>tok x. valid_ticket demo_crypto tok 0 = Some x"
proof -
  have l: "length ''nonce-12byte'' = nonce_size" by code_simp
  obtain tok where t: "encrypt_with_aad demo_seal (Some ''nonce-12byte'')
      (marshal_payload False ticket_type 1800) unlock_aad = Some tok"
    by (auto simp: encrypt_with_aad_def)
  have "valid_ticket demo_crypto tok 0 = Some (time_of_unix 1800)"
    using ticket_of_sealed [OF demo_aead l t, of 0]
    by (simp add: valid_ticket_def demo_crypto_def time_of_unix_def)
  then show ?thesis by blast
qed


text \<open>
  A stream opened with a PIN header outlives the PIN. Once opened, no later tick ends it
  while the configuration can be read: neither a change of the PIN, nor a revocation, nor the
  locking of its section, though the caller need not know the new PIN.
\<close>

theorem header_stream_survives:
  assumes "d_unlocked d" and "d_expires_at d = zero_time" and "gate_ok cr db' g'"
    and "stored_sections db' = Inr ids'"
  shows "\<not> stream_revoked (Some d) (Some (gate_live cr (\<lambda>_. False) db' now g')) tok S"
  using assms locked_now_current [of db' g' "\<lambda>_. False"]
  by (auto simp: stream_revoked_def gate_live_def gate_ok_def)

theorem header_stream_survives_witness:
  "(case set_pin Some False ''777777'' demo_db new_store of
      (r, db', s') \<Rightarrow> r = None \<and>
        \<not> stream_revoked (Some (zero_decision\<lparr>d_enforcing := True, d_unlocked := True\<rparr>))
          (Some (gate_live demo_crypto (\<lambda>_. False) db' 0 (revoke ((new_gate new_store)\<lparr>g_store := s'\<rparr>)))) [] [''queue''])"
proof -
  let ?db = "demo_db(pin_hash_key \<mapsto> ''777777'')"
  have sp: "set_pin Some False ''777777'' demo_db new_store = (None, ?db, invalidate_pin new_store)"
    by (simp add: set_pin_def min_pin_length_def settings_set_def)
  have "gate_ok demo_crypto ?db (revoke ((new_gate new_store)\<lparr>g_store := invalidate_pin new_store\<rparr>))"
    using coherent_set_pin [OF coherent_new sp]
    by (simp add: gate_ok_def revoke_def new_gate_def memo_ok_def)
  moreover have "stored_sections ?db = Inr [''queue'']" using demo_stored(2) by simp
  ultimately show ?thesis unfolding sp prod.case
    using header_stream_survives [of "zero_decision\<lparr>d_enforcing := True, d_unlocked := True\<rparr>"]
    by (simp add: zero_decision_def)
qed

end
