(* ===== verification/Go_Float.thy ===== *)
theory Go_Float
  imports Complex_Main "HOL-Library.Log_Nat"
begin

text \<open>
  Go's \<open>float64\<close> arithmetic on the non-negative numbers the program computes with: a float is
  the rational it stands for, and an operation is the exact one rounded to 53 bits, ties to
  even. The exponent is not bounded: the program's sizes, durations and rates stay far from
  the ends of its range.
\<close>

type_synonym f64 = rat

section \<open>Rounding to an integer, ties to even\<close>

definition round_even :: "rat \<Rightarrow> int" where
  "round_even x =
     (let f = \<lfloor>x\<rfloor>; r = x - of_int f
      in if r < 1 / 2 then f else if 1 / 2 < r then f + 1 else if even f then f else f + 1)"

lemma round_even_cases: "round_even x = \<lfloor>x\<rfloor> \<or> round_even x = \<lfloor>x\<rfloor> + 1"
  by (simp add: round_even_def Let_def)

lemma round_even_of_int [simp]: "round_even (of_int n) = n"
  by (simp add: round_even_def)

lemma round_even_mono:
  assumes "x \<le> y"
  shows "round_even x \<le> round_even y"
proof (cases "\<lfloor>x\<rfloor> = \<lfloor>y\<rfloor>")
  case True
  then show ?thesis using assms by (simp add: round_even_def Let_def)
next
  case False
  then have "\<lfloor>x\<rfloor> + 1 \<le> \<lfloor>y\<rfloor>" using floor_mono [OF assms] by linarith
  then show ?thesis using round_even_cases [of x] round_even_cases [of y] by linarith
qed

section \<open>The exponent\<close>

definition ilog2 :: "rat \<Rightarrow> int" where
  "ilog2 x =
     (let (p, q) = quotient_of x; l = bitlen p - bitlen q
      in if 2 powi l \<le> x then l else l - 1)"

lemma bitlen_pos:
  assumes "0 < p"
  shows "2 powi (bitlen p - 1) \<le> (of_int p :: rat)" and "(of_int p :: rat) < 2 powi bitlen p"
proof -
  have b: "2 ^ nat (bitlen p - 1) \<le> p \<and> p < 2 ^ nat (bitlen p)"
    using bitlen_bounds [OF assms] .
  have pos: "0 < bitlen p" using assms by (simp add: bitlen_eq_zero_iff bitlen_nonneg order.strict_iff_order)
  have "(of_int (2 ^ nat (bitlen p - 1)) :: rat) \<le> of_int p" using b by (simp only: of_int_le_iff)
  then show "2 powi (bitlen p - 1) \<le> (of_int p :: rat)" using pos by (simp add: power_int_def)
  have "(of_int p :: rat) < of_int (2 ^ nat (bitlen p))" using b by (simp only: of_int_less_iff)
  then show "(of_int p :: rat) < 2 powi bitlen p" using pos by (simp add: power_int_def)
qed

lemma ilog2_bounds:
  assumes "0 < x"
  shows "2 powi ilog2 x \<le> x" and "x < 2 powi (ilog2 x + 1)"
proof -
  obtain p q where pq: "quotient_of x = (p, q)" by (cases "quotient_of x")
  have q: "0 < q" using quotient_of_denom_pos [OF pq] .
  have x: "x = of_int p / of_int q" using quotient_of_div [OF pq] .
  have p: "0 < p" using assms q x by (simp add: zero_less_divide_iff)
  let ?l = "bitlen p - bitlen q"
  have "of_int p / of_int q < 2 powi bitlen p / (2 powi (bitlen q - 1) :: rat)"
    using bitlen_pos(1) [OF q] bitlen_pos(2) [OF p] p
    by (intro frac_less) (simp_all add: zero_less_power_int)
  also have "\<dots> = 2 powi (?l + 1)" by (simp add: power_int_diff [symmetric] algebra_simps)
  finally have hi: "x < 2 powi (?l + 1)" using x by simp
  have "2 powi (bitlen p - 1) / (2 powi bitlen q :: rat) \<le> of_int p / of_int q"
    using bitlen_pos(1) [OF p] bitlen_pos(2) [OF q] p q
    by (intro frac_le) (simp_all add: less_imp_le zero_less_power_int)
  moreover have "2 powi (bitlen p - 1) / (2 powi bitlen q :: rat) = 2 powi (?l - 1)"
    by (simp add: power_int_diff [symmetric] algebra_simps)
  ultimately have lo: "2 powi (?l - 1) \<le> x" using x by simp
  show "2 powi ilog2 x \<le> x" using lo pq by (simp add: ilog2_def Let_def)
  show "x < 2 powi (ilog2 x + 1)" using hi pq by (simp add: ilog2_def Let_def)
qed

lemma powi_mono_iff: "2 powi a \<le> (2 powi b :: rat) \<longleftrightarrow> a \<le> b"
proof
  assume le: "2 powi a \<le> (2 powi b :: rat)"
  show "a \<le> b"
  proof (rule ccontr)
    assume "\<not> a \<le> b"
    then have "(2 powi b :: rat) < 2 powi a" by (intro power_int_strict_increasing) simp_all
    then show False using le by simp
  qed
qed (simp add: power_int_increasing)

lemma powi_strict: "(2 powi a :: rat) < 2 powi b \<Longrightarrow> a < b"
  by (metis not_le powi_mono_iff)

lemma ilog2_mono: "0 < x \<Longrightarrow> x \<le> y \<Longrightarrow> ilog2 x \<le> ilog2 y"
  using ilog2_bounds(1) [of x] ilog2_bounds(2) [of y] powi_strict [of "ilog2 x" "ilog2 y + 1"] by linarith

section \<open>Rounding to a float\<close>

definition rnd :: "rat \<Rightarrow> f64" where
  "rnd x = (if x \<le> 0 then 0
     else let u = 2 powi (ilog2 x - 52) in of_int (round_even (x / u)) * u)"

definition f_of_int :: "int \<Rightarrow> f64" where "f_of_int n = rnd (of_int n)"
definition f_mul :: "f64 \<Rightarrow> f64 \<Rightarrow> f64" where "f_mul x y = rnd (x * y)"
definition f_div :: "f64 \<Rightarrow> f64 \<Rightarrow> f64" where "f_div x y = rnd (x / y)"

lemma rnd_binade:
  assumes "0 < x"
  shows "2 powi ilog2 x \<le> rnd x" and "rnd x \<le> 2 powi (ilog2 x + 1)"
proof -
  let ?u = "2 powi (ilog2 x - 52) :: rat"
  have u: "0 < ?u" by (simp add: zero_less_power_int)
  have k: "2 powi ilog2 x = of_int (2 ^ 52) * ?u" "2 powi (ilog2 x + 1) = of_int (2 ^ 53) * ?u"
    using power_int_add [of "2 :: rat" "52" "ilog2 x - 52"] power_int_add [of "2 :: rat" "53" "ilog2 x - 52"]
    by (simp_all add: algebra_simps)
  have "of_int (2 ^ 52) \<le> x / ?u" "x / ?u \<le> of_int (2 ^ 53)"
    using ilog2_bounds [OF assms] u unfolding k by (simp_all add: field_simps)
  then have "2 ^ 52 \<le> round_even (x / ?u)" "round_even (x / ?u) \<le> 2 ^ 53"
    using round_even_mono [of "of_int (2 ^ 52)" "x / ?u"] round_even_mono [of "x / ?u" "of_int (2 ^ 53)"]
    by (simp_all only: round_even_of_int)
  then have "(of_int (2 ^ 52) :: rat) \<le> of_int (round_even (x / ?u))"
    "(of_int (round_even (x / ?u)) :: rat) \<le> of_int (2 ^ 53)"
    by (simp_all only: of_int_le_iff)
  then show "2 powi ilog2 x \<le> rnd x" "rnd x \<le> 2 powi (ilog2 x + 1)"
    using assms u unfolding k by (simp_all add: rnd_def Let_def del: of_int_power)
qed

lemma rnd_nonneg [simp]: "0 \<le> rnd x"
proof (cases "0 < x")
  case True
  then show ?thesis using rnd_binade(1) [OF True] by (meson order_trans zero_le_power_int zero_le_numeral)
qed (simp add: rnd_def)

lemma rnd_pos: "0 < x \<Longrightarrow> 0 < rnd x"
  using rnd_binade(1) [of x] by (meson less_le_trans zero_less_power_int zero_less_numeral)

lemma rnd_mono: "x \<le> y \<Longrightarrow> rnd x \<le> rnd y"
proof (cases "0 < x")
  case False
  then show ?thesis by (simp add: rnd_def [of x])
next
  case True
  assume le: "x \<le> y"
  then have y: "0 < y" using True by simp
  show ?thesis
  proof (cases "ilog2 x = ilog2 y")
    case True
    let ?u = "2 powi (ilog2 y - 52) :: rat"
    have u: "0 < ?u" by (simp add: zero_less_power_int)
    have "x / ?u \<le> y / ?u" using le u by (simp add: divide_right_mono)
    then have "(of_int (round_even (x / ?u)) :: rat) \<le> of_int (round_even (y / ?u))"
      using round_even_mono by (simp only: of_int_le_iff)
    then show ?thesis using \<open>0 < x\<close> y u by (simp add: rnd_def Let_def True)
  next
    case False
    then have "ilog2 x + 1 \<le> ilog2 y" using ilog2_mono [OF \<open>0 < x\<close> le] by simp
    then have "(2 powi (ilog2 x + 1) :: rat) \<le> 2 powi ilog2 y" by (simp only: powi_mono_iff)
    then show ?thesis using rnd_binade(2) [OF \<open>0 < x\<close>] rnd_binade(1) [OF y] by linarith
  qed
qed

text \<open>A rounded value is a float: rounding it again changes nothing.\<close>

lemma ilog2_unique: "2 powi k \<le> x \<Longrightarrow> x < 2 powi (k + 1) \<Longrightarrow> ilog2 x = k"
proof -
  assume k: "2 powi k \<le> x" "x < 2 powi (k + 1)"
  have x: "0 < x" using k(1) zero_less_power_int [of "2 :: rat" k] by linarith
  have "k < ilog2 x + 1" using k(1) ilog2_bounds(2) [OF x] by (intro powi_strict) linarith
  moreover have "ilog2 x < k + 1" using k(2) ilog2_bounds(1) [OF x] by (intro powi_strict) linarith
  ultimately show ?thesis by simp
qed

lemma rnd_representable:
  assumes "0 < n" and "n \<le> 2 ^ 53"
  shows "rnd (of_int n * 2 powi e) = of_int n * 2 powi e"
proof -
  let ?x = "of_int n * 2 powi e :: rat"
  have e: "0 < (2 powi e :: rat)" by (simp add: zero_less_power_int)
  have x: "0 < ?x" using assms(1) e by simp
  have "?x \<le> of_int (2 ^ 53) * 2 powi e" using assms(2) e by (intro mult_right_mono) (simp_all only: of_int_le_iff less_imp_le)
  also have "\<dots> = 2 powi (53 + e)" using power_int_add [of "2 :: rat" 53 e] by simp
  finally have le: "?x \<le> 2 powi (53 + e)" .
  show ?thesis
  proof (cases "?x = 2 powi (53 + e)")
    case True
    have "ilog2 ?x = 53 + e" unfolding True by (rule ilog2_unique) (simp_all add: power_int_strict_increasing)
    moreover have k: "(2 powi (53 + e) :: rat) = of_int (2 ^ 52) * 2 powi (53 + e - 52)"
      using power_int_add [of "2 :: rat" 52 "53 + e - 52"] by simp
    moreover have "(2 powi (53 + e) :: rat) / 2 powi (53 + e - 52) = of_int (2 ^ 52)"
      unfolding k by (simp add: zero_less_power_int)
    ultimately have "rnd ?x = of_int (2 ^ 52) * 2 powi (53 + e - 52)"
      using True x by (simp only: rnd_def Let_def round_even_of_int not_le [symmetric] if_False)
    then show ?thesis using True k by simp
  next
    case False
    then have "2 powi ilog2 ?x < (2 powi (53 + e) :: rat)" using le ilog2_bounds(1) [OF x] by linarith
    then have "ilog2 ?x < 53 + e" by (rule powi_strict)
    then obtain k where k: "e = (ilog2 ?x - 52) + int k" using zle_iff_zadd [of "ilog2 ?x - 52" e] by auto
    let ?u = "2 powi (ilog2 ?x - 52) :: rat"
    have u: "0 < ?u" by (simp add: zero_less_power_int)
    have "(2 powi e :: rat) = 2 powi ((ilog2 ?x - 52) + int k)" using k by simp
    also have "\<dots> = ?u * 2 ^ k" by (simp add: power_int_add)
    finally have eq: "?x = of_int (n * 2 ^ k) * ?u" by (simp add: mult.commute)
    then have "?x / ?u = of_int (n * 2 ^ k)" using u by (simp add: field_simps)
    then have r: "rnd ?x = of_int (n * 2 ^ k) * ?u" using x by (simp only: rnd_def Let_def round_even_of_int not_le [symmetric] if_False)
    show ?thesis by (rule trans [OF r eq [symmetric]])
  qed
qed

lemma rnd_form:
  assumes "0 < x"
  shows "\<exists>n. rnd x = of_int n * 2 powi (ilog2 x - 52) \<and> 0 < n \<and> n \<le> 2 ^ 53"
proof -
  let ?u = "2 powi (ilog2 x - 52) :: rat" and ?n = "round_even (x / 2 powi (ilog2 x - 52))"
  have u: "0 < ?u" by (simp add: zero_less_power_int)
  have r: "rnd x = of_int ?n * ?u" using assms by (simp add: rnd_def Let_def)
  have "(2 powi (ilog2 x + 1) :: rat) = of_int (2 ^ 53) * ?u"
    using power_int_add [of "2 :: rat" 53 "ilog2 x - 52"] by (simp add: algebra_simps)
  then have "of_int ?n * ?u \<le> of_int (2 ^ 53) * ?u" using rnd_binade(2) [OF assms] r by simp
  then have "?n \<le> 2 ^ 53" using u by (simp only: mult_le_cancel_right_pos of_int_le_iff)
  moreover have "0 < ?n" using rnd_pos [OF assms] r u by (simp add: zero_less_mult_iff)
  ultimately show ?thesis using r by blast
qed

lemma rnd_idem [simp]: "rnd (rnd x) = rnd x"
proof (cases "0 < x")
  case True
  then show ?thesis using rnd_form [OF True] rnd_representable by auto
qed (simp add: rnd_def)

lemma rnd_of_nat: "0 < n \<Longrightarrow> n \<le> 2 ^ 53 \<Longrightarrow> rnd (of_int n) = of_int n"
  using rnd_representable [of n 0] by simp

lemma rnd_ge_1: "1 \<le> x \<Longrightarrow> 1 \<le> rnd x"
  using rnd_mono [of 1 x] rnd_of_nat [of 1] by simp

lemma f_div_shrinks: "1 \<le> a \<Longrightarrow> f_div (rnd x) a \<le> rnd x"
  using rnd_mono [of "rnd x / a" "rnd x"] rnd_nonneg [of x] by (simp add: f_div_def divide_le_eq mult_le_cancel_left1 not_less)

lemma f_mul_mono: "0 \<le> a \<Longrightarrow> x \<le> y \<Longrightarrow> f_mul x a \<le> f_mul y a"
  by (simp add: f_mul_def rnd_mono mult_right_mono)

lemma f_div_mono: "0 \<le> a \<Longrightarrow> x \<le> y \<Longrightarrow> f_div x a \<le> f_div y a"
  by (simp add: f_div_def rnd_mono divide_right_mono)

lemma f_div_antimono: "0 \<le> x \<Longrightarrow> 0 < a \<Longrightarrow> a \<le> b \<Longrightarrow> f_div x b \<le> f_div x a"
  by (simp add: f_div_def rnd_mono divide_left_mono)

lemma f_of_int_mono: "m \<le> n \<Longrightarrow> f_of_int m \<le> f_of_int n"
  by (simp add: f_of_int_def rnd_mono)

lemma f_nonneg [simp]: "0 \<le> f_of_int n" "0 \<le> f_mul x y" "0 \<le> f_div x y"
  by (simp_all add: f_of_int_def f_mul_def f_div_def)

lemma f_of_int_0 [simp]: "f_of_int 0 = 0"
  by (simp add: f_of_int_def rnd_def)

end
