(* ===== verification/Release_Score.thy ===== *)
theory Release_Score
  imports Prelude Go_Float
begin

text \<open>
  \<open>internal/release/release.go\<close>: scoring a parsed release against a preference profile. The
  parse itself, a list of regular expressions over the title, is not modelled: an \<open>info\<close> is
  its result. Titles, groups and flags are ASCII.
\<close>

section \<open>Parsed releases and profiles\<close>

record release_info =
  ri_resolution :: int
  ri_source :: gostring
  ri_codec :: gostring
  ri_group :: gostring
  ri_hdr :: bool
  ri_channels :: int

definition channels_unknown :: int where "channels_unknown = 0"
definition channels_51 :: int where "channels_51 = 1"
definition channels_71 :: int where "channels_71 = 2"

definition channels_from_count :: "int \<Rightarrow> int" where
  "channels_from_count n = (if 8 \<le> n then channels_71 else if 6 \<le> n then channels_51 else channels_unknown)"

definition pixel_to_height :: "gostring \<Rightarrow> int" where
  "pixel_to_height token =
     (let s = to_lower token
      in if has_prefix ''1280x'' s then 720
         else if has_prefix ''3840x'' s then 2160
         else if has_prefix ''1920x'' s then 1080
         else 0)"

record profile =
  pf_resolutions :: "int list"
  pf_sources :: "gostring list"
  pf_codecs :: "gostring list"
  pf_blocked :: "gostring list"

definition default_profile :: profile where
  "default_profile =
     \<lparr>pf_resolutions = [1080, 2160, 720, 480],
      pf_sources = [''web-dl'', ''webrip'', ''bluray'', ''web'', ''hdtv'', ''dvdrip''],
      pf_codecs = [''x265'', ''x264''],
      pf_blocked = []\<rparr>"

section \<open>Scoring\<close>

text \<open>\<open>rank\<close> and \<open>rankString\<close>, one function at two types.\<close>

fun rank_of :: "'a list \<Rightarrow> 'a \<Rightarrow> int" where
  "rank_of [] v = 0"
| "rank_of (x # xs) v = (if x = v then int (length (x # xs)) else rank_of xs v)"

definition blocked_group_score :: int where "blocked_group_score = -1000"

fun group_blocked :: "gostring list \<Rightarrow> gostring \<Rightarrow> bool" where
  "group_blocked [] g = False"
| "group_blocked (b # bs) g = (if g \<noteq> [] \<and> equal_fold g b then True else group_blocked bs g)"

definition score :: "release_info \<Rightarrow> profile \<Rightarrow> int" where
  "score info prefs =
     (if group_blocked (pf_blocked prefs) (ri_group info) then blocked_group_score
      else rank_of (pf_resolutions prefs) (ri_resolution info) * 100
         + rank_of (pf_sources prefs) (ri_source info) * 10
         + rank_of (pf_codecs prefs) (ri_codec info))"

text \<open>\<open>sc_published\<close> is the parsed publish date, \<open>None\<close> when it is empty or does not parse.\<close>

record scored =
  sc_info :: release_info
  sc_protocol :: gostring
  sc_seeders :: int
  sc_published :: "gtime option"
  sc_flags :: "gostring list"

definition torrent_seeder_cap :: int where "torrent_seeder_cap = 200"
definition usenet_age_cap_days :: int where "usenet_age_cap_days = 30"
definition usenet_age_weight :: int where "usenet_age_weight = 3"
definition indexer_trust_bonus :: int where "indexer_trust_bonus = 50"

text \<open>
  \<open>time.Time.Sub\<close> saturates; \<open>Hours\<close> is the whole hours plus the float quotient of the
  rest. A negative duration above minus one day is truncated to day 0.
\<close>

definition time_sub :: "gtime \<Rightarrow> gtime \<Rightarrow> duration" where
  "time_sub a b = max (- (2 ^ 63)) (min (2 ^ 63 - 1) (a - b))"

definition hours :: "duration \<Rightarrow> f64" where
  "hours d = rnd (f_of_int (d div hour) + f_div (f_of_int (d mod hour)) (f_of_int hour))"

definition days_since :: "gtime option \<Rightarrow> gtime \<Rightarrow> int option" where
  "days_since published now =
     (case published of
        None \<Rightarrow> None
      | Some t \<Rightarrow>
          let d = time_sub now t
          in if d < 0 then (if d \<le> - (24 * hour) then None else Some 0)
             else Some \<lfloor>f_div (hours d) 24\<rfloor>)"

fun trusted :: "gostring list \<Rightarrow> bool" where
  "trusted [] = False"
| "trusted (f # fs) = (if equal_fold f ''freeleech'' \<or> equal_fold f ''internal'' then True else trusted fs)"

definition protocol_bonus :: "scored \<Rightarrow> gtime \<Rightarrow> int" where
  "protocol_bonus c now =
     (if sc_protocol c = ''torrent'' then
        (let seeders = (if torrent_seeder_cap < sc_seeders c then torrent_seeder_cap else sc_seeders c)
         in if 0 < seeders then seeders else 0)
      else if sc_protocol c = ''usenet'' then
        (case days_since (sc_published c) now of
           None \<Rightarrow> 0
         | Some d0 \<Rightarrow>
             (let d = (if usenet_age_cap_days < d0 then usenet_age_cap_days else d0)
              in (usenet_age_cap_days - d) * usenet_age_weight))
      else 0)"

definition score_candidate :: "scored \<Rightarrow> profile \<Rightarrow> gtime \<Rightarrow> int" where
  "score_candidate c prefs now =
     (let s = score (sc_info c) prefs
      in if s = blocked_group_score then s
         else s + protocol_bonus c now + (if trusted (sc_flags c) then indexer_trust_bonus else 0))"

section \<open>Ranks\<close>

lemma rank_of_nonneg [simp]: "0 \<le> rank_of xs v"
  by (induction xs) auto

lemma rank_of_le: "rank_of xs v \<le> int (length xs)"
  by (induction xs) auto

lemma rank_of_zero: "rank_of xs v = 0 \<longleftrightarrow> v \<notin> set xs"
  by (induction xs) auto

lemma rank_of_nth: "distinct xs \<Longrightarrow> i < length xs \<Longrightarrow> rank_of xs (xs ! i) = int (length xs - i)"
proof (induction xs arbitrary: i)
  case (Cons x xs)
  then show ?case by (cases i) (auto simp: nth_Cons')
qed simp

lemma group_blocked_iff: "group_blocked bs g \<longleftrightarrow> g \<noteq> [] \<and> (\<exists>b\<in>set bs. equal_fold g b)"
  by (induction bs) auto

lemma trusted_iff: "trusted fs \<longleftrightarrow> (\<exists>f\<in>set fs. equal_fold f ''freeleech'' \<or> equal_fold f ''internal'')"
  by (induction fs) auto

lemma score_nonneg: "\<not> group_blocked (pf_blocked p) (ri_group i) \<Longrightarrow> 0 \<le> score i p"
  by (simp add: score_def)

lemma score_blocked: "score i p = blocked_group_score \<longleftrightarrow> group_blocked (pf_blocked p) (ri_group i)"
proof -
  have "\<not> group_blocked (pf_blocked p) (ri_group i) \<Longrightarrow> score i p \<noteq> blocked_group_score"
    using score_nonneg [of p i] by (auto simp: blocked_group_score_def)
  then show ?thesis by (auto simp: score_def)
qed

text \<open>The preferences as a tuple, most significant first.\<close>

definition preference :: "profile \<Rightarrow> release_info \<Rightarrow> int \<times> int \<times> int" where
  "preference p i = (rank_of (pf_resolutions p) (ri_resolution i), rank_of (pf_sources p) (ri_source i),
     rank_of (pf_codecs p) (ri_codec i))"

definition better_preference :: "int \<times> int \<times> int \<Rightarrow> int \<times> int \<times> int \<Rightarrow> bool" where
  "better_preference a b \<longleftrightarrow> (case (a, b) of ((r, s, c), (r', s', c')) \<Rightarrow>
     r' < r \<or> r = r' \<and> (s' < s \<or> s = s' \<and> c' < c))"

text \<open>Profiles small enough for the weights 100, 10 and 1 to keep the axes apart.\<close>

definition weighable :: "profile \<Rightarrow> bool" where
  "weighable p \<longleftrightarrow> length (pf_sources p) \<le> 9 \<and> length (pf_codecs p) \<le> 9"

lemma score_lexicographic_core:
  assumes "weighable p" and "\<not> group_blocked (pf_blocked p) (ri_group a)" and "\<not> group_blocked (pf_blocked p) (ri_group b)"
  shows "score b p < score a p \<longleftrightarrow> better_preference (preference p a) (preference p b)"
proof -
  have "rank_of (pf_sources p) s \<le> 9" "rank_of (pf_codecs p) c \<le> 9" for s c
    using assms(1) rank_of_le [of "pf_sources p" s] rank_of_le [of "pf_codecs p" c] by (simp_all add: weighable_def)
  then show ?thesis
    using assms(2,3) rank_of_nonneg [of "pf_sources p" "ri_source a"] rank_of_nonneg [of "pf_sources p" "ri_source b"]
      rank_of_nonneg [of "pf_codecs p" "ri_codec a"] rank_of_nonneg [of "pf_codecs p" "ri_codec b"]
    by (smt (verit) score_def preference_def better_preference_def case_prod_conv)
qed

lemma bonus_nonneg: "0 \<le> protocol_bonus c now"
  by (simp add: protocol_bonus_def Let_def usenet_age_cap_days_def usenet_age_weight_def
      torrent_seeder_cap_def split: option.split)

text \<open>
  What the signals outside the title can do: a blocked group keeps the one negative score and is last;
  for any other candidate they only add, at most 200 for seeders or 90 for age, and 50 for trust.
\<close>

theorem candidate_score_range:
  "if group_blocked (pf_blocked p) (ri_group (sc_info c)) then score_candidate c p now = blocked_group_score
   else 0 \<le> score_candidate c p now \<and>
     score (sc_info c) p \<le> score_candidate c p now \<and> score_candidate c p now \<le> score (sc_info c) p + 250"
proof -
  have days: "days_since (sc_published c) now = Some d \<Longrightarrow> 0 \<le> d" for d
    by (auto simp: days_since_def Let_def split: option.splits if_splits)
  have "protocol_bonus c now \<le> 200"
  proof (cases "days_since (sc_published c) now")
    case None
    then show ?thesis by (simp add: protocol_bonus_def torrent_seeder_cap_def Let_def)
  next
    case (Some d)
    then show ?thesis using days [OF Some]
      by (simp add: protocol_bonus_def torrent_seeder_cap_def usenet_age_cap_days_def usenet_age_weight_def Let_def)
  qed
  then show ?thesis
    using bonus_nonneg [of c now] score_nonneg [of p "sc_info c"] score_blocked [of "sc_info c" p]
    by (auto simp: score_candidate_def Let_def indexer_trust_bonus_def)
qed

text \<open>
  Seeders alone outrank the preferred resolution and source, although the cap is said to keep them
  from it: 200 seeders are worth two ranks of resolution.
\<close>

theorem seeders_override_resolution:
  "let best = \<lparr>ri_resolution = 1080, ri_source = ''web-dl'', ri_codec = ''x265'', ri_group = [], ri_hdr = False, ri_channels = 0\<rparr>;
       poor = \<lparr>ri_resolution = 2160, ri_source = [], ri_codec = [], ri_group = [], ri_hdr = False, ri_channels = 0\<rparr>;
       sc = (\<lambda>i n. \<lparr>sc_info = i, sc_protocol = ''torrent'', sc_seeders = n, sc_published = None, sc_flags = []\<rparr>)
   in score poor default_profile + 160 < score best default_profile \<and>
      score_candidate (sc best 0) default_profile now < score_candidate (sc poor 200) default_profile now"
  by (simp add: Let_def score_candidate_def score_def default_profile_def protocol_bonus_def torrent_seeder_cap_def
      blocked_group_score_def)

end
