(* ===== verification/Quality.thy ===== *)
theory Quality
  imports Release_Score
begin

text \<open>
  \<open>internal/quality/quality.go\<close> and \<open>probe.go\<close>: tiers, their order, the bands of
  accepted tiers, the codec preference list, the profile a tier stands for, and the labels made
  from a probe. A tier is any string, the four below are the recognized ones.
\<close>

section \<open>Tiers\<close>

type_synonym tier = gostring

definition tier_low :: tier where "tier_low = ''low''"
definition tier_medium :: tier where "tier_medium = ''medium''"
definition tier_high :: tier where "tier_high = ''high''"
definition tier_lossless :: tier where "tier_lossless = ''lossless''"

lemmas tiers = tier_low_def tier_medium_def tier_high_def tier_lossless_def

definition tier_default :: tier where "tier_default = tier_high"

definition all_tiers :: "tier list" where
  "all_tiers = [tier_low, tier_medium, tier_high, tier_lossless]"

definition tier_rank :: "tier \<Rightarrow> int" where
  "tier_rank t =
     (if t = tier_lossless then 4 else if t = tier_high then 3 else if t = tier_medium then 2
      else if t = tier_low then 1 else 0)"

definition tiers_at_or_above :: "tier \<Rightarrow> tier list" where
  "tiers_at_or_above floor0 =
     (let floor = (if tier_rank floor0 \<le> 0 then tier_default else floor0)
      in filter (\<lambda>t. tier_rank floor \<le> tier_rank t) all_tiers)"

definition tiers_between :: "tier \<Rightarrow> tier \<Rightarrow> tier list" where
  "tiers_between floor0 ceiling0 =
     (let floor = (if tier_rank floor0 \<le> 0 then tier_default else floor0);
          ceiling1 = (if tier_rank ceiling0 \<le> 0 then tier_lossless else ceiling0);
          ceiling = (if tier_rank ceiling1 < tier_rank floor then floor else ceiling1)
      in filter (\<lambda>t. tier_rank floor \<le> tier_rank t \<and> tier_rank t \<le> tier_rank ceiling) all_tiers)"

text \<open>
  The loop of \<open>Lowest\<close> and \<open>Highest\<close> with the comparison as an argument; \<open>best\<close> is
  what it has found so far.
\<close>

fun extreme_from :: "(tier \<Rightarrow> tier \<Rightarrow> bool) \<Rightarrow> tier option \<Rightarrow> tier list \<Rightarrow> tier option" where
  "extreme_from better best [] = best"
| "extreme_from better best (t # ts) =
     (if tier_rank t \<le> 0 then extreme_from better best ts
      else case best of
        None \<Rightarrow> extreme_from better (Some t) ts
      | Some b \<Rightarrow> extreme_from better (if better t b then Some t else best) ts)"

definition lowest :: "tier list \<Rightarrow> tier" where
  "lowest ts = (case extreme_from (\<lambda>t low. tier_rank t < tier_rank low) None ts of None \<Rightarrow> tier_default | Some t \<Rightarrow> t)"

definition highest :: "tier list \<Rightarrow> tier" where
  "highest ts = (case extreme_from (\<lambda>t high. tier_rank high < tier_rank t) None ts of None \<Rightarrow> tier_default | Some t \<Rightarrow> t)"

section \<open>The codec preference list\<close>

definition default_codec_rank :: "gostring list" where
  "default_codec_rank = [''av1'', ''x265'', ''x264'']"

fun keep_codecs :: "gostring list \<Rightarrow> gostring list \<Rightarrow> gostring list" where
  "keep_codecs out [] = out"
| "keep_codecs out (c # cs) =
     (let c' = to_lower (trim_space c)
      in if c' \<notin> set default_codec_rank \<or> c' \<in> set out then keep_codecs out cs
         else keep_codecs (out @ [c']) cs)"

definition normalize_codec_rank :: "gostring list \<Rightarrow> gostring list" where
  "normalize_codec_rank order =
     (let out = keep_codecs [] order in out @ filter (\<lambda>c. c \<notin> set out) default_codec_rank)"

fun index_of :: "gostring list \<Rightarrow> gostring \<Rightarrow> int" where
  "index_of [] c = 0"
| "index_of (x # xs) c = (if x = c then 0 else 1 + index_of xs c)"

definition codec_rank_index :: "gostring \<Rightarrow> gostring list \<Rightarrow> int" where
  "codec_rank_index codec order = index_of (normalize_codec_rank order) (to_lower (trim_space codec))"

section \<open>Profiles\<close>

definition resolution_ladder :: "int list" where
  "resolution_ladder = [2160, 1080, 720, 480]"

definition resolutions_for :: "int \<Rightarrow> int list" where
  "resolutions_for max_resolution =
     (if max_resolution \<le> 0 then pf_resolutions default_profile
      else filter (\<lambda>r. r \<le> max_resolution) resolution_ladder)"

definition sources_for :: "tier \<Rightarrow> gostring list" where
  "sources_for t =
     (if t = tier_low then [''webrip'', ''hdtv'', ''web'', ''web-dl'']
      else if t = tier_medium then [''web-dl'', ''webrip'', ''web'', ''hdtv'']
      else if t = tier_lossless then [''remux'', ''bluray'', ''web-dl'']
      else pf_sources default_profile)"

definition codecs_for :: "tier \<Rightarrow> gostring list" where
  "codecs_for t =
     (if t = tier_low then [''x265''] else if t = tier_lossless then [] else pf_codecs default_profile)"

definition profile_for :: "tier \<Rightarrow> int \<Rightarrow> profile" where
  "profile_for t max_resolution =
     \<lparr>pf_resolutions = resolutions_for max_resolution, pf_sources = sources_for t, pf_codecs = codecs_for t,
      pf_blocked = []\<rparr>"

definition infer_tier :: "release_info \<Rightarrow> tier option" where
  "infer_tier info =
     (if ri_source info = ''remux'' then Some tier_lossless
      else if ri_source info = ''bluray'' then
        (if ri_codec info = ''x265'' then Some tier_lossless else Some tier_high)
      else if ri_source info = ''webrip'' \<or> ri_source info = ''hdtv'' then
        (if ri_codec info = ''x265'' then Some tier_low else Some tier_medium)
      else if ri_source info = ''web-dl'' \<or> ri_source info = ''web'' then Some tier_medium
      else if ri_source info = ''dvdrip'' then Some tier_low
      else None)"

section \<open>Probes\<close>

record probe =
  pb_width :: int
  pb_height :: int
  pb_bit_rate :: int
  pb_codec :: gostring

fun contains_sub :: "gostring \<Rightarrow> gostring \<Rightarrow> bool" where
  "contains_sub sub [] = (sub = [])"
| "contains_sub sub (c # cs) = (has_prefix sub (c # cs) \<or> contains_sub sub cs)"

definition tier_from_probe :: "probe option \<Rightarrow> tier" where
  "tier_from_probe p =
     (case p of
        None \<Rightarrow> []
      | Some p \<Rightarrow>
          if pb_width p = 0 \<and> pb_height p = 0 \<and> pb_bit_rate p = 0 then []
          else
            let h = (if pb_height p = 0 then pb_width p else pb_height p);
                codec = to_lower (pb_codec p);
                hevc = contains_sub ''hevc'' codec \<or> contains_sub ''h265'' codec \<or> codec = ''265''
            in if 2160 \<le> h \<and> hevc \<and> 25000000 \<le> pb_bit_rate p then tier_lossless
               else if 2160 \<le> h then tier_high
               else if 1080 \<le> h \<and> 12000000 \<le> pb_bit_rate p then tier_high
               else if 1080 \<le> h then tier_medium
               else if 720 \<le> h then tier_medium
               else if 0 < h then tier_low
               else [])"

text \<open>\<open>ToUpper\<close>, on ASCII, and the file-name label of a codec.\<close>

definition upper_char :: "char \<Rightarrow> char" where
  "upper_char c = (if (97 :: nat) \<le> of_char c \<and> of_char c \<le> (122 :: nat) then char_of (of_char c - (32 :: nat)) else c)"

definition codec_label :: "gostring \<Rightarrow> gostring" where
  "codec_label codec =
     (let c = to_lower (trim_space codec)
      in if c = ''hevc'' \<or> c = ''h265'' \<or> c = ''265'' then ''HEVC''
         else if c = ''h264'' \<or> c = ''avc'' \<or> c = ''avc1'' then ''H264''
         else if c = ''av1'' then ''AV1''
         else if c = ''vp9'' then ''VP9''
         else if c = [] then []
         else map upper_char c)"

section \<open>Laws\<close>

lemma tier_rank_simps [simp]:
  "tier_rank tier_low = 1" "tier_rank tier_medium = 2" "tier_rank tier_high = 3" "tier_rank tier_lossless = 4"
  "tier_rank tier_default = 3" "tier_rank [] = 0"
  by (simp_all add: tier_rank_def tiers tier_default_def)

lemma tier_rank_range: "0 \<le> tier_rank t \<and> tier_rank t \<le> 4"
  by (simp add: tier_rank_def)

lemma known_tier: "0 < tier_rank t \<longleftrightarrow> t \<in> set all_tiers"
  by (auto simp: tier_rank_def all_tiers_def)

lemma tier_rank_inj: "0 < tier_rank t \<Longrightarrow> tier_rank t = tier_rank u \<Longrightarrow> t = u"
  by (auto simp: tier_rank_def split: if_splits)

lemma extreme_from_step:
  "extreme_from better (Some b) (t # ts) =
     extreme_from better (Some (if 0 < tier_rank t \<and> better t b then t else b)) ts"
  by auto

lemma extreme_from_Some:
  assumes better: "\<And>t b. better t b \<longleftrightarrow> f t < (f b :: int)"
  shows "0 < tier_rank b \<Longrightarrow>
    \<exists>t. extreme_from better (Some b) ts = Some t \<and> 0 < tier_rank t \<and> t \<in> insert b (set ts) \<and> f t \<le> f b \<and>
    (\<forall>u\<in>set ts. 0 < tier_rank u \<longrightarrow> f t \<le> f u)"
proof (induction ts arbitrary: b)
  case (Cons t ts)
  define b' where "b' = (if 0 < tier_rank t \<and> better t b then t else b)"
  have b': "0 < tier_rank b'" "b' \<in> {t, b}" "f b' \<le> f b" "0 < tier_rank t \<longrightarrow> f b' \<le> f t"
    using Cons.prems better [of t b] by (auto simp: b'_def)
  obtain u where u: "extreme_from better (Some b') ts = Some u" "0 < tier_rank u" "u \<in> insert b' (set ts)" "f u \<le> f b'"
    "\<forall>v\<in>set ts. 0 < tier_rank v \<longrightarrow> f u \<le> f v"
    using Cons.IH [OF b'(1)] by blast
  have "u \<in> insert b (set (t # ts))" using u(3) b'(2) by auto
  moreover have "f u \<le> f b" "\<forall>v\<in>set (t # ts). 0 < tier_rank v \<longrightarrow> f u \<le> f v" using u(4,5) b'(3,4) by auto
  ultimately show ?case using u(1,2) unfolding extreme_from_step b'_def [symmetric] by blast
qed simp

lemma extreme_from_None:
  assumes better: "\<And>t b. better t b \<longleftrightarrow> f t < (f b :: int)"
  shows "(extreme_from better None ts = None \<and> (\<forall>u\<in>set ts. tier_rank u \<le> 0)) \<or>
    (\<exists>t\<in>set ts. extreme_from better None ts = Some t \<and> 0 < tier_rank t \<and>
       (\<forall>u\<in>set ts. 0 < tier_rank u \<longrightarrow> f t \<le> f u))"
proof (induction ts)
  case (Cons t ts)
  show ?case
  proof (cases "0 < tier_rank t")
    case True
    have "extreme_from better None (t # ts) = extreme_from better (Some t) ts" using True by simp
    then show ?thesis using extreme_from_Some [where better = better and f = f, OF better True, of ts] by auto
  next
    case False
    then have "extreme_from better None (t # ts) = extreme_from better None ts" by simp
    then show ?thesis using Cons.IH False by auto
  qed
qed simp

lemma lowest_spec:
  assumes "t \<in> set ts" and "0 < tier_rank t"
  shows "lowest ts \<in> set ts \<and> 0 < tier_rank (lowest ts) \<and> (\<forall>u\<in>set ts. 0 < tier_rank u \<longrightarrow> tier_rank (lowest ts) \<le> tier_rank u)"
  using extreme_from_None [where better = "\<lambda>t low. tier_rank t < tier_rank low" and f = tier_rank and ts = ts] assms
  by (auto simp: lowest_def)

lemma highest_spec:
  assumes "t \<in> set ts" and "0 < tier_rank t"
  shows "highest ts \<in> set ts \<and> 0 < tier_rank (highest ts) \<and> (\<forall>u\<in>set ts. 0 < tier_rank u \<longrightarrow> tier_rank u \<le> tier_rank (highest ts))"
  using extreme_from_None [where better = "\<lambda>t high. tier_rank high < tier_rank t" and f = "\<lambda>t. - tier_rank t" and ts = ts] assms
  by (auto simp: highest_def)

lemma keep_codecs_spec:
  "distinct out \<Longrightarrow> set out \<subseteq> set default_codec_rank \<Longrightarrow>
     distinct (keep_codecs out cs) \<and> set (keep_codecs out cs) \<subseteq> set default_codec_rank"
  by (induction out cs rule: keep_codecs.induct) (simp_all add: Let_def)

lemma default_codecs_distinct: "distinct default_codec_rank"
  by (simp add: default_codec_rank_def)

lemma normalize_perm: "mset (normalize_codec_rank order) = mset default_codec_rank"
proof -
  let ?out = "keep_codecs [] order"
  have "distinct ?out" "set ?out \<subseteq> set default_codec_rank" using keep_codecs_spec [of "[]" order] by auto
  then have "distinct (normalize_codec_rank order)" "set (normalize_codec_rank order) = set default_codec_rank"
    using default_codecs_distinct by (auto simp: normalize_codec_rank_def Let_def)
  then show ?thesis using default_codecs_distinct by (simp add: set_eq_iff_mset_eq_distinct)
qed

lemma keep_codecs_canonical:
  "distinct (out @ cs) \<Longrightarrow> set cs \<subseteq> set default_codec_rank \<Longrightarrow> keep_codecs out cs = out @ cs"
proof (induction out cs rule: keep_codecs.induct)
  case (2 out c cs)
  have "to_lower (trim_space x) = x" if "x \<in> set default_codec_rank" for x
    using that by (auto simp: default_codec_rank_def) code_simp+
  then have "to_lower (trim_space c) = c" using "2.prems"(2) by simp
  then show ?case using 2 by (simp add: Let_def)
qed simp

lemma normalize_canonical:
  assumes "mset cs = mset default_codec_rank"
  shows "normalize_codec_rank cs = cs"
proof -
  have "distinct cs" "set cs = set default_codec_rank"
    using assms default_codecs_distinct mset_eq_setD mset_eq_imp_distinct_iff by blast+
  then show ?thesis using keep_codecs_canonical [of "[]" cs] by (simp add: normalize_codec_rank_def Let_def)
qed

lemma normalize_idem: "normalize_codec_rank (normalize_codec_rank order) = normalize_codec_rank order"
  using normalize_canonical normalize_perm by blast

lemma index_of_bounds: "0 \<le> index_of xs c \<and> index_of xs c \<le> int (length xs) \<and> (index_of xs c < int (length xs) \<longleftrightarrow> c \<in> set xs)"
  by (induction xs) auto

lemma index_of_member: "c \<in> set xs \<Longrightarrow> index_of xs c < int (length xs) \<and> xs ! nat (index_of xs c) = c"
  by (induction xs) (auto simp: nat_add_distrib index_of_bounds)

lemma band_members:
  "tiers_between f c = filter (\<lambda>t. tier_rank (if tier_rank f \<le> 0 then tier_default else f) \<le> tier_rank t \<and>
     tier_rank t \<le> max (tier_rank (if tier_rank f \<le> 0 then tier_default else f))
       (tier_rank (if tier_rank c \<le> 0 then tier_lossless else c))) all_tiers"
  by (simp add: tiers_between_def Let_def max_def)

text \<open>
  A band of accepted tiers keeps its bounds: its lowest tier is the floor, its highest the ceiling (the
  floor again when the ceiling is below it), unknown bounds being the default and lossless; and the
  expansion of a stored floor is the band up to lossless.
\<close>

theorem tier_band:
  "let f = (if tier_rank floor0 \<le> 0 then tier_default else floor0);
       c = (if tier_rank ceiling0 \<le> 0 then tier_lossless else ceiling0)
   in lowest (tiers_between floor0 ceiling0) = f \<and>
      highest (tiers_between floor0 ceiling0) = (if tier_rank c < tier_rank f then f else c) \<and>
      tiers_at_or_above floor0 = tiers_between floor0 tier_lossless"
proof -
  define f where "f = (if tier_rank floor0 \<le> 0 then tier_default else floor0)"
  define c where "c = (if tier_rank ceiling0 \<le> 0 then tier_lossless else ceiling0)"
  define top where "top = (if tier_rank c < tier_rank f then f else c)"
  have pos: "0 < tier_rank f" "0 < tier_rank top" by (auto simp: f_def c_def top_def)
  have top: "tier_rank top = max (tier_rank f) (tier_rank c)" by (simp add: top_def)
  have band: "tiers_between floor0 ceiling0 = filter (\<lambda>t. tier_rank f \<le> tier_rank t \<and> tier_rank t \<le> tier_rank top) all_tiers"
    by (simp only: band_members f_def [symmetric] c_def [symmetric] top)
  have ends: "f \<in> set (tiers_between floor0 ceiling0)" "top \<in> set (tiers_between floor0 ceiling0)"
    using pos top by (simp_all add: band known_tier [symmetric])
  have "tier_rank (lowest (tiers_between floor0 ceiling0)) = tier_rank f"
    using lowest_spec [OF ends(1) pos(1)] ends(1) pos(1) by (auto simp: band intro: order_antisym)
  then have l: "lowest (tiers_between floor0 ceiling0) = f"
    using tier_rank_inj [of "lowest (tiers_between floor0 ceiling0)" f] pos(1) by simp
  have "tier_rank (highest (tiers_between floor0 ceiling0)) = tier_rank top"
    using highest_spec [OF ends(2) pos(2)] ends(2) pos(2) by (auto simp: band intro: order_antisym)
  then have h: "highest (tiers_between floor0 ceiling0) = top"
    using tier_rank_inj [of "highest (tiers_between floor0 ceiling0)" top] pos(2) by simp
  have "tier_rank t \<le> 4" for t using tier_rank_range by simp
  then have "tiers_at_or_above floor0 = tiers_between floor0 tier_lossless"
    by (simp add: tiers_at_or_above_def band_members Let_def max.absorb2)
  then show ?thesis using l h by (simp add: Let_def f_def [symmetric] c_def [symmetric] top_def)
qed

text \<open>
  C37. The operator's codec order is canonical after one normalisation: it is a permutation of the three
  known codecs, an order that already is one is kept, normalising again changes nothing, and the index
  of a codec is below three exactly for a known one.
\<close>

theorem codec_order_canonical:
  "mset (normalize_codec_rank order) = mset default_codec_rank \<and>
   normalize_codec_rank (normalize_codec_rank order) = normalize_codec_rank order \<and>
   codec_rank_index c (normalize_codec_rank order) = codec_rank_index c order \<and>
   (codec_rank_index c order < 3 \<longleftrightarrow> to_lower (trim_space c) \<in> set default_codec_rank)"
proof -
  note p = normalize_perm [of order]
  have "set (normalize_codec_rank order) = set default_codec_rank" by (rule mset_eq_setD [OF p])
  moreover have "length (normalize_codec_rank order) = 3" using mset_eq_length [OF p] by (simp add: default_codec_rank_def)
  ultimately show ?thesis
    using p index_of_bounds [of "normalize_codec_rank order" "to_lower (trim_space c)"]
    by (simp add: normalize_idem codec_rank_index_def)
qed

text \<open>
  C36. Under the profile of any tier and any resolution cap the weighted sum orders releases lexicographically:
  resolution first, then source, the codec only between releases equal on both.
\<close>

theorem score_lexicographic:
  "score b (profile_for t cap) < score a (profile_for t cap) \<longleftrightarrow>
   better_preference (preference (profile_for t cap) a) (preference (profile_for t cap) b)"
proof -
  have "weighable (profile_for t cap)"
    by (simp add: weighable_def profile_for_def sources_for_def codecs_for_def default_profile_def)
  moreover have "\<not> group_blocked (pf_blocked (profile_for t cap)) g" for g by (simp add: profile_for_def)
  ultimately show ?thesis using score_lexicographic_core by blast
qed

end
