(* ===== verification/Stable_Sort.thy ===== *)
theory Stable_Sort
  imports Prelude
begin

text \<open>
  \<open>sort.SliceStable\<close> and the loops that pick a best element, for an ordering function of the
  program. \<open>sort_by\<close> is an insertion sort: for a strict weak order every stable sort returns
  the same list, so it stands for the library's.
\<close>

fun insert_by :: "('a \<Rightarrow> 'a \<Rightarrow> bool) \<Rightarrow> 'a \<Rightarrow> 'a list \<Rightarrow> 'a list" where
  "insert_by lt x [] = [x]"
| "insert_by lt x (y # ys) = (if lt y x then y # insert_by lt x ys else x # y # ys)"

definition sort_by :: "('a \<Rightarrow> 'a \<Rightarrow> bool) \<Rightarrow> 'a list \<Rightarrow> 'a list" where
  "sort_by lt xs = foldr (insert_by lt) xs []"

text \<open>The loop over the indices that keeps the first admissible one and any later, better one.\<close>

definition pick_step :: "('a \<Rightarrow> 'a \<Rightarrow> bool) \<Rightarrow> ('a \<Rightarrow> bool) \<Rightarrow> 'a list \<Rightarrow> nat option \<Rightarrow> nat \<Rightarrow> nat option" where
  "pick_step better ok xs p i =
     (if \<not> ok (xs ! i) then p
      else case p of None \<Rightarrow> Some i | Some j \<Rightarrow> if better (xs ! i) (xs ! j) then Some i else p)"

definition pick_best :: "('a \<Rightarrow> 'a \<Rightarrow> bool) \<Rightarrow> ('a \<Rightarrow> bool) \<Rightarrow> 'a list \<Rightarrow> nat option" where
  "pick_best better ok xs = foldl (pick_step better ok xs) None [0..<length xs]"

lemma mset_insert_by [simp]: "mset (insert_by lt x xs) = add_mset x (mset xs)"
  by (induction xs) auto

lemma mset_sort_by [simp]: "mset (sort_by lt xs) = mset xs"
  unfolding sort_by_def by (induction xs) auto

lemma set_insert_by [simp]: "set (insert_by lt x xs) = insert x (set xs)"
  by (metis mset_insert_by set_mset_mset set_mset_add_mset_insert)

lemma set_sort_by [simp]: "set (sort_by lt xs) = set xs"
  by (metis mset_sort_by set_mset_mset)

lemma length_sort_by [simp]: "length (sort_by lt xs) = length xs"
  by (metis mset_sort_by size_mset)

lemma sort_by_Nil [simp]: "sort_by lt [] = []"
  by (simp add: sort_by_def)

lemma sort_by_Cons: "sort_by lt (x # xs) = insert_by lt x (sort_by lt xs)"
  by (simp add: sort_by_def)

text \<open>What the program's comparison functions promise to the sort: a strict weak order.\<close>

locale weak_order =
  fixes lt :: "'a \<Rightarrow> 'a \<Rightarrow> bool"
  assumes asym: "lt x y \<Longrightarrow> \<not> lt y x"
    and negtrans: "lt x y \<Longrightarrow> lt x z \<or> lt z y"
begin

lemma trans: "lt x y \<Longrightarrow> lt y z \<Longrightarrow> lt x z"
  using negtrans [of x y z] asym by blast

lemma not_less_trans: "\<not> lt y x \<Longrightarrow> \<not> lt z y \<Longrightarrow> \<not> lt z x"
  using negtrans by blast

lemma less_trans_not_less: "lt x y \<Longrightarrow> \<not> lt z y \<Longrightarrow> lt x z"
  using negtrans [of x y z] by blast

lemma not_less_trans_less: "\<not> lt y x \<Longrightarrow> lt y z \<Longrightarrow> lt x z"
  using negtrans [of y z x] by blast

lemma sorted_insert:
  "sorted_wrt (\<lambda>a b. \<not> lt b a) ys \<Longrightarrow> sorted_wrt (\<lambda>a b. \<not> lt b a) (insert_by lt x ys)"
proof (induction ys)
  case (Cons y ys)
  then have ys: "\<forall>z\<in>set ys. \<not> lt z y" "sorted_wrt (\<lambda>a b. \<not> lt b a) ys" by auto
  show ?case
  proof (cases "lt y x")
    case True
    then show ?thesis using Cons.IH [OF ys(2)] ys(1) asym [OF True] by simp
  next
    case False
    then show ?thesis using ys not_less_trans [OF False] by simp
  qed
qed simp

lemma sorted_sort: "sorted_wrt (\<lambda>a b. \<not> lt b a) (sort_by lt xs)"
  by (induction xs) (simp_all add: sort_by_Cons sorted_insert)

text \<open>Equivalent elements keep their order.\<close>

lemma filter_insert:
  assumes "sorted_wrt (\<lambda>a b. \<not> lt b a) ys"
  shows "filter (\<lambda>a. \<not> lt a x \<and> \<not> lt x a) (insert_by lt z ys) =
    filter (\<lambda>a. \<not> lt a x \<and> \<not> lt x a) (z # ys)"
  using assms
proof (induction ys)
  case (Cons y ys)
  then show ?case using negtrans [of y z x] by auto
qed simp

lemma stable_sort: "filter (\<lambda>a. \<not> lt a x \<and> \<not> lt x a) (sort_by lt xs) =
    filter (\<lambda>a. \<not> lt a x \<and> \<not> lt x a) xs"
  by (induction xs) (simp_all add: sort_by_Cons filter_insert [OF sorted_sort])

text \<open>The pick is a best admissible element, and the earliest of them.\<close>

definition picked :: "('a \<Rightarrow> bool) \<Rightarrow> 'a list \<Rightarrow> nat \<Rightarrow> nat option \<Rightarrow> bool" where
  "picked ok xs n p \<longleftrightarrow> (case p of
     None \<Rightarrow> \<forall>j<n. \<not> ok (xs ! j)
   | Some k \<Rightarrow> k < n \<and> ok (xs ! k) \<and> (\<forall>j<n. ok (xs ! j) \<longrightarrow> \<not> lt (xs ! j) (xs ! k)) \<and>
       (\<forall>j<k. ok (xs ! j) \<longrightarrow> lt (xs ! k) (xs ! j)))"

lemma picked_step:
  assumes "picked ok xs n p"
  shows "picked ok xs (Suc n) (pick_step lt ok xs p n)"
proof (cases "ok (xs ! n)")
  case False
  then show ?thesis using assms by (auto simp: picked_def pick_step_def less_Suc_eq split: option.split)
next
  case ok: True
  show ?thesis
  proof (cases p)
    case None
    then show ?thesis using assms ok asym by (auto simp: picked_def pick_step_def less_Suc_eq)
  next
    case (Some k)
    note k = assms [unfolded picked_def Some option.case]
    show ?thesis
    proof (cases "lt (xs ! n) (xs ! k)")
      case True
      have "\<not> lt (xs ! j) (xs ! n) \<and> lt (xs ! n) (xs ! j)" if "j < n" "ok (xs ! j)" for j
        using k that less_trans_not_less [OF True] asym by blast
      then show ?thesis using ok Some True asym by (auto simp: picked_def pick_step_def less_Suc_eq)
    next
      case False
      then show ?thesis using k ok Some by (auto simp: picked_def pick_step_def less_Suc_eq)
    qed
  qed
qed

lemma picked_upto: "picked ok xs n (foldl (pick_step lt ok xs) None [0..<n])"
  by (induction n) (simp_all add: picked_step, simp add: picked_def)

lemma pick_best_spec: "picked ok xs (length xs) (pick_best lt ok xs)"
  using picked_upto by (simp add: pick_best_def)

end

end
