(* ===== verification/Autograb.thy ===== *)
theory Autograb
  imports Quality Stable_Sort
begin

text \<open>
  \<open>internal/autograb/autograb.go\<close>: the scorer that decides, with nobody watching, which
  release to download. The bitrate of a candidate is computed in the floats of \<open>Go_Float\<close>
  (runtimes are finite); titles are ASCII. A pick index is \<open>None\<close> for the code's \<open>-1\<close>.
\<close>

section \<open>The floor table\<close>

definition default_min_seeders :: int where "default_min_seeders = 5"
definition non_av1_padding_factor :: f64 where "non_av1_padding_factor = rnd (5 / 4)"
definition mislabel_factor :: f64 where "mislabel_factor = rnd (4 / 10)"
definition runtime_low_ratio :: f64 where "runtime_low_ratio = rnd (70 / 100)"
definition runtime_high_ratio :: f64 where "runtime_high_ratio = rnd (130 / 100)"
definition hdr_floor_factor :: f64 where "hdr_floor_factor = rnd (125 / 100)"
definition channel_51_floor_factor :: f64 where "channel_51_floor_factor = rnd (110 / 100)"
definition channel_71_floor_factor :: f64 where "channel_71_floor_factor = rnd (120 / 100)"

definition codec_multipliers :: "gostring \<rightharpoonup> f64" where
  "codec_multipliers = [''x264'' \<mapsto> 1, ''x265'' \<mapsto> rnd (5 / 10), ''av1'' \<mapsto> rnd (35 / 100)]"

definition codec_multiplier :: "gostring \<Rightarrow> f64" where
  "codec_multiplier codec = (case codec_multipliers (to_lower codec) of Some m \<Rightarrow> m | None \<Rightarrow> 1)"

definition is_av1 :: "gostring \<Rightarrow> bool" where
  "is_av1 codec = equal_fold codec ''av1''"

definition floor_row :: "rat \<Rightarrow> rat \<Rightarrow> rat \<Rightarrow> rat \<Rightarrow> int \<rightharpoonup> f64" where
  "floor_row a b c d = [480 \<mapsto> rnd a, 720 \<mapsto> rnd b, 1080 \<mapsto> rnd c, 2160 \<mapsto> rnd d]"

definition floor_table :: "tier \<rightharpoonup> (int \<rightharpoonup> f64)" where
  "floor_table =
     [tier_low \<mapsto> floor_row (3 / 10) (8 / 10) 2 8,
      tier_medium \<mapsto> floor_row (8 / 10) 2 5 20,
      tier_high \<mapsto> floor_row (16 / 10) 4 10 40,
      tier_lossless \<mapsto> floor_row (28 / 10) 7 18 70]"

text \<open>Reading a nested map: a missing row is the nil map, a missing entry the zero value.\<close>

definition floor_entry :: "tier \<Rightarrow> int \<Rightarrow> f64 option" where
  "floor_entry t res = (case floor_table t of None \<Rightarrow> None | Some row \<Rightarrow> row res)"

definition floor_value :: "tier \<Rightarrow> int \<Rightarrow> f64" where
  "floor_value t res = (case floor_entry t res of None \<Rightarrow> 0 | Some f \<Rightarrow> f)"

definition floor_rungs :: "int list" where
  "floor_rungs = [480, 720, 1080, 2160]"

section \<open>Candidates and their rung\<close>

record candidate =
  cd_title :: gostring
  cd_protocol :: gostring
  cd_seeders :: int
  cd_size :: int
  cd_runtime :: f64
  cd_resolution :: int
  cd_codec :: gostring
  cd_source :: gostring
  cd_hdr :: bool
  cd_channels :: int
  cd_animation :: bool

definition empty_candidate :: candidate where
  "empty_candidate =
     \<lparr>cd_title = [], cd_protocol = [], cd_seeders = 0, cd_size = 0, cd_runtime = 0, cd_resolution = 0,
      cd_codec = [], cd_source = [], cd_hdr = False, cd_channels = 0, cd_animation = False\<rparr>"

definition snap_floor_resolution :: "candidate \<Rightarrow> int" where
  "snap_floor_resolution c =
     (if 2160 \<le> cd_resolution c then 2160
      else if 1080 \<le> cd_resolution c then 1080
      else if 720 \<le> cd_resolution c then 720
      else if 480 \<le> cd_resolution c then 480
      else
        let src = to_lower (cd_source c);
            codec = to_lower (cd_codec c);
            title = to_lower (cd_title c)
        in if src = ''dvdrip'' \<or> codec = ''xvid'' \<or> codec = ''divx'' then 480
           else if contains_sub ''vhs'' title \<or> contains_sub ''dvdrip'' title \<or> contains_sub ''dvd-rip'' title
             \<or> contains_sub ''divx'' title then 480
           else 0)"

fun first_tier_met :: "f64 \<Rightarrow> int \<Rightarrow> tier list \<Rightarrow> tier" where
  "first_tier_met mbps res [] = tier_low"
| "first_tier_met mbps res (t # ts) =
     (case floor_entry t res of
        Some fl \<Rightarrow> if fl \<le> mbps then t else first_tier_met mbps res ts
      | None \<Rightarrow> first_tier_met mbps res ts)"

definition highest_tier_for_mbps :: "f64 \<Rightarrow> int \<Rightarrow> tier" where
  "highest_tier_for_mbps mbps resolution =
     (if mbps \<le> 0 then []
      else
        let res0 = snap_floor_resolution (empty_candidate\<lparr>cd_resolution := resolution\<rparr>);
            res = (if res0 = 0 then 1080 else res0)
        in first_tier_met mbps res [tier_lossless, tier_high, tier_medium, tier_low])"

section \<open>Floors and accepted tiers per rung\<close>

definition or_default :: "tier \<Rightarrow> tier" where
  "or_default t = (if tier_rank t \<le> 0 then tier_default else t)"

fun on_rungs :: "(int \<Rightarrow> 'a) \<Rightarrow> int list \<Rightarrow> (int \<rightharpoonup> 'a) \<Rightarrow> (int \<rightharpoonup> 'a)" where
  "on_rungs f [] out = out"
| "on_rungs f (r # rs) out = on_rungs f rs (out(r \<mapsto> f r))"

definition uniform_floors :: "tier \<Rightarrow> int \<rightharpoonup> tier" where
  "uniform_floors fl = on_rungs (\<lambda>r. or_default fl) floor_rungs Map.empty"

definition floor_at :: "(int \<rightharpoonup> tier) \<Rightarrow> int \<Rightarrow> tier" where
  "floor_at floors r = (case floors r of None \<Rightarrow> [] | Some t \<Rightarrow> t)"

definition accepted_from_floors :: "(int \<rightharpoonup> tier) \<Rightarrow> int \<rightharpoonup> tier list" where
  "accepted_from_floors floors =
     on_rungs (\<lambda>r. tiers_at_or_above (or_default (floor_at floors r))) floor_rungs Map.empty"

definition uniform_accepted :: "tier list \<Rightarrow> int \<rightharpoonup> tier list" where
  "uniform_accepted accepted = on_rungs (\<lambda>r. accepted) floor_rungs Map.empty"

definition floor_for_resolution :: "(int \<rightharpoonup> tier) \<Rightarrow> candidate \<Rightarrow> tier" where
  "floor_for_resolution floors c =
     (let res = snap_floor_resolution c;
          rest = lowest (filter (\<lambda>t. 0 < tier_rank t) (map (floor_at floors) floor_rungs))
      in case floors res of
           Some t \<Rightarrow> if 0 < tier_rank t then t else rest
         | None \<Rightarrow> rest)"

section \<open>Grading one candidate\<close>

datatype grade_status =
  Qualified | Below_floor | Mislabeled | Low_seeders | Unknown_bitrate | Unknown_resolution

record grade =
  gr_candidate :: candidate
  gr_known :: bool
  gr_implied :: f64
  gr_equiv :: f64
  gr_score :: f64
  gr_floor :: f64
  gr_status :: grade_status
  gr_qualified :: bool

definition table_floor_mbps :: "tier \<Rightarrow> candidate \<Rightarrow> f64 option" where
  "table_floor_mbps t c =
     (let row = (case floor_table t of Some row \<Rightarrow> row | None \<Rightarrow> (case floor_table tier_default of Some row \<Rightarrow> row | None \<Rightarrow> Map.empty))
      in if row (cd_resolution c) \<noteq> None \<and> cd_animation c \<and> cd_resolution c = 480
         then Some (floor_value tier_low 480)
         else row (cd_resolution c))"

definition feature_floor_mbps :: "f64 \<Rightarrow> candidate \<Rightarrow> f64" where
  "feature_floor_mbps base c =
     (let hdr = (if cd_hdr c then hdr_floor_factor else 1);
          ch = (if cd_channels c = channels_51 then channel_51_floor_factor
                else if cd_channels c = channels_71 then channel_71_floor_factor
                else 1)
      in f_mul (f_mul base hdr) ch)"

definition implied_mbps :: "candidate \<Rightarrow> f64" where
  "implied_mbps c = f_div (f_div (f_mul (f_of_int (cd_size c)) 8) (cd_runtime c)) (rnd 1000000)"

definition equiv_mbps :: "candidate \<Rightarrow> f64" where
  "equiv_mbps c = f_div (implied_mbps c) (codec_multiplier (cd_codec c))"

definition padded_mbps :: "bool \<Rightarrow> candidate \<Rightarrow> f64" where
  "padded_mbps pad c =
     (if pad \<and> \<not> is_av1 (cd_codec c) then f_div (equiv_mbps c) non_av1_padding_factor else equiv_mbps c)"

definition grade_of :: "candidate \<Rightarrow> tier \<Rightarrow> int \<Rightarrow> bool \<Rightarrow> grade" where
  "grade_of c0 t min_seeders0 pad =
     (let min_seeders = (if min_seeders0 \<le> 0 then default_min_seeders else min_seeders0);
          c = c0\<lparr>cd_resolution := snap_floor_resolution c0\<rparr>;
          g = \<lparr>gr_candidate = c, gr_known = False, gr_implied = 0, gr_equiv = 0, gr_score = 0, gr_floor = 0,
               gr_status = Unknown_bitrate, gr_qualified = False\<rparr>
      in if cd_size c \<le> 0 \<or> cd_runtime c \<le> 0 then g
         else
           let g1 = g\<lparr>gr_known := True, gr_implied := implied_mbps c, gr_equiv := equiv_mbps c, gr_score := padded_mbps pad c\<rparr>
           in case table_floor_mbps t c of
                None \<Rightarrow> g1\<lparr>gr_status := Unknown_resolution\<rparr>
              | Some fl \<Rightarrow>
                  let g2 = g1\<lparr>gr_floor := feature_floor_mbps fl c\<rparr>
                  in if gr_equiv g2 < f_mul mislabel_factor (floor_value tier_low (cd_resolution c))
                     then g2\<lparr>gr_status := Mislabeled\<rparr>
                     else if pad \<and> cd_protocol c = ''torrent'' \<and> cd_seeders c < min_seeders
                     then g2\<lparr>gr_status := Low_seeders\<rparr>
                     else if t = tier_lossless \<and> (equal_fold (cd_source c) ''remux'' \<or> equal_fold (cd_source c) ''bluray'')
                     then g2\<lparr>gr_status := Qualified, gr_qualified := True\<rparr>
                     else if gr_floor g2 \<le> gr_score g2
                     then g2\<lparr>gr_status := Qualified, gr_qualified := True\<rparr>
                     else g2\<lparr>gr_status := Below_floor\<rparr>)"

definition grade_candidate :: "candidate \<Rightarrow> tier \<Rightarrow> int \<Rightarrow> grade" where
  "grade_candidate c t min_seeders = grade_of c t min_seeders True"

definition grade_imported_file :: "candidate \<Rightarrow> tier \<Rightarrow> grade" where
  "grade_imported_file c t = grade_of c t 0 False"

section \<open>Selecting among candidates\<close>

record selection =
  sl_grades :: "grade list"
  sl_pick :: "nat option"
  sl_fallback :: bool
  sl_stopgap :: bool
  sl_ranked :: "nat list"

definition has_qualified :: "selection \<Rightarrow> bool" where
  "has_qualified s \<longleftrightarrow> sl_pick s \<noteq> None \<and> \<not> sl_fallback s \<and> \<not> sl_stopgap s"

definition better_qualified :: "gostring list \<Rightarrow> grade \<Rightarrow> grade \<Rightarrow> bool" where
  "better_qualified order a b =
     (let ca = gr_candidate a; cb = gr_candidate b
      in if cd_hdr ca \<noteq> cd_hdr cb then cd_hdr ca
         else if cd_channels ca \<noteq> cd_channels cb then cd_channels cb < cd_channels ca
         else let ia = codec_rank_index (cd_codec ca) order; ib = codec_rank_index (cd_codec cb) order
              in if ia \<noteq> ib then ia < ib else gr_score b < gr_score a)"

definition rank_before :: "gostring list \<Rightarrow> grade \<Rightarrow> grade \<Rightarrow> bool" where
  "rank_before order a b =
     (if gr_qualified a \<noteq> gr_qualified b then gr_qualified a
      else if gr_qualified a then better_qualified order a b
      else gr_score b < gr_score a)"

definition selection_from_grades :: "grade list \<Rightarrow> gostring list \<Rightarrow> selection" where
  "selection_from_grades grades order =
     (let best = pick_best (better_qualified order) gr_qualified grades;
          spare = pick_best (better_qualified order) (\<lambda>g. gr_status g = Below_floor) grades;
          pick = (if best = None then spare else best)
      in \<lparr>sl_grades = grades, sl_pick = pick, sl_fallback = (pick = None),
          sl_stopgap = (best = None \<and> pick \<noteq> None),
          sl_ranked = sort_by (\<lambda>i j. rank_before order (grades ! i) (grades ! j)) [0..<length grades]\<rparr>)"

definition select_ranked :: "candidate list \<Rightarrow> tier \<Rightarrow> int \<Rightarrow> gostring list \<Rightarrow> selection" where
  "select_ranked cs t min_seeders order =
     selection_from_grades (map (\<lambda>c. grade_candidate c t min_seeders) cs) order"

definition select_tier :: "candidate list \<Rightarrow> tier \<Rightarrow> int \<Rightarrow> selection" where
  "select_tier cs t min_seeders = select_ranked cs t min_seeders []"

fun recognised :: "tier list \<Rightarrow> tier list \<Rightarrow> tier list" where
  "recognised out [] = out"
| "recognised out (t # ts) =
     (if tier_rank t \<le> 0 \<or> t \<in> set out then recognised out ts else recognised (out @ [t]) ts)"

definition zero_selection :: selection where
  "zero_selection = \<lparr>sl_grades = [], sl_pick = Some 0, sl_fallback = False, sl_stopgap = False, sl_ranked = []\<rparr>"

fun walk_tiers :: "candidate list \<Rightarrow> int \<Rightarrow> selection \<Rightarrow> tier list \<Rightarrow> selection" where
  "walk_tiers cs min_seeders best [] = best"
| "walk_tiers cs min_seeders best (t # ts) =
     (let s = select_tier cs t min_seeders in if has_qualified s then s else walk_tiers cs min_seeders s ts)"

definition tiers_to_try :: "tier list \<Rightarrow> tier list" where
  "tiers_to_try accepted =
     (let f = recognised [] accepted; f' = (if f = [] then tiers_at_or_above tier_default else f)
      in sort_by (\<lambda>t u. tier_rank u < tier_rank t) f')"

definition select_best :: "candidate list \<Rightarrow> tier list \<Rightarrow> int \<Rightarrow> selection" where
  "select_best cs accepted min_seeders = walk_tiers cs min_seeders zero_selection (tiers_to_try accepted)"

definition accepted_at :: "(int \<rightharpoonup> tier list) \<Rightarrow> candidate \<Rightarrow> tier list" where
  "accepted_at accepted c = (case accepted (snap_floor_resolution c) of Some ts \<Rightarrow> ts | None \<Rightarrow> [])"

definition grade_by_resolution :: "(int \<rightharpoonup> tier list) \<Rightarrow> int \<Rightarrow> candidate \<Rightarrow> grade" where
  "grade_by_resolution accepted min_seeders c =
     (case sl_grades (select_best [c] (accepted_at accepted c) min_seeders) of
        [g] \<Rightarrow> g
      | _ \<Rightarrow> grade_candidate c tier_default min_seeders)"

definition select_best_by_resolution_ranked ::
  "candidate list \<Rightarrow> (int \<rightharpoonup> tier list) \<Rightarrow> int \<Rightarrow> gostring list \<Rightarrow> selection" where
  "select_best_by_resolution_ranked cs accepted min_seeders order =
     selection_from_grades (map (grade_by_resolution accepted min_seeders) cs) order"

definition select_best_by_resolution :: "candidate list \<Rightarrow> (int \<rightharpoonup> tier list) \<Rightarrow> int \<Rightarrow> selection" where
  "select_best_by_resolution cs accepted min_seeders = select_best_by_resolution_ranked cs accepted min_seeders []"

text \<open>\<open>RuntimeMismatch\<close>: the two booleans \<open>mismatch\<close> and \<open>checked\<close>.\<close>

definition runtime_mismatch :: "f64 \<Rightarrow> f64 \<Rightarrow> bool \<times> bool" where
  "runtime_mismatch probed expected =
     (if probed \<le> 0 \<or> expected \<le> 0 then (False, False)
      else
        let ratio = f_div probed expected
        in if ratio < runtime_low_ratio \<or> runtime_high_ratio < ratio then (True, True) else (False, True))"

section \<open>The two orders\<close>

interpretation qual: weak_order "better_qualified order" for order
  by unfold_locales (auto simp: better_qualified_def Let_def split: if_splits)

interpretation rank: weak_order "\<lambda>i j. rank_before order (grades ! i) (grades ! j)" for order grades
  by unfold_locales (auto simp: rank_before_def dest: qual.asym qual.negtrans split: if_splits)

interpretation tiers_down: weak_order "\<lambda>t u. tier_rank u < tier_rank t"
  by unfold_locales auto

section \<open>What a grade says\<close>

lemma snap_range: "snap_floor_resolution c \<in> {0, 480, 720, 1080, 2160}"
  by (simp add: snap_floor_resolution_def Let_def)

lemma snap_idem [simp]: "snap_floor_resolution (c\<lparr>cd_resolution := snap_floor_resolution c\<rparr>) = snap_floor_resolution c"
  by (simp add: snap_floor_resolution_def Let_def)

lemma rung_lookup:
  "floor_row a b c d r = None \<longleftrightarrow> r \<notin> {480, 720, 1080, 2160}"
  by (simp add: floor_row_def)

lemma table_rows [simp]:
  "floor_table tier_low = Some (floor_row (3 / 10) (8 / 10) 2 8)"
  "floor_table tier_medium = Some (floor_row (8 / 10) 2 5 20)"
  "floor_table tier_high = Some (floor_row (16 / 10) 4 10 40)"
  "floor_table tier_lossless = Some (floor_row (28 / 10) 7 18 70)"
  by (simp_all add: floor_table_def tiers)

lemma table_row_cases: "\<exists>a b c d. (case floor_table t of Some row \<Rightarrow> row | None \<Rightarrow> (case floor_table tier_default of Some row \<Rightarrow> row | None \<Rightarrow> Map.empty)) = floor_row a b c d"
  by (cases "t \<in> set all_tiers") (auto simp: all_tiers_def floor_table_def tier_default_def)

lemma table_floor_None: "table_floor_mbps t c = None \<longleftrightarrow> cd_resolution c \<notin> {480, 720, 1080, 2160}"
  using table_row_cases [of t] by (auto simp: table_floor_mbps_def Let_def rung_lookup)

text \<open>The gates that do not depend on the tier, and the one that does.\<close>

definition snapped :: "candidate \<Rightarrow> candidate" where
  "snapped c = c\<lparr>cd_resolution := snap_floor_resolution c\<rparr>"

definition seeders_needed :: "int \<Rightarrow> int" where
  "seeders_needed n = (if n \<le> 0 then default_min_seeders else n)"

definition eligible :: "bool \<Rightarrow> int \<Rightarrow> candidate \<Rightarrow> bool" where
  "eligible pad min_seeders c \<longleftrightarrow>
     0 < cd_size c \<and> 0 < cd_runtime c \<and> snap_floor_resolution c \<noteq> 0 \<and>
     f_mul mislabel_factor (floor_value tier_low (snap_floor_resolution c)) \<le> equiv_mbps c \<and>
     (pad \<and> cd_protocol c = ''torrent'' \<longrightarrow> seeders_needed min_seeders \<le> cd_seeders c)"

definition floor_needed :: "tier \<Rightarrow> candidate \<Rightarrow> f64" where
  "floor_needed t c = (case table_floor_mbps t (snapped c) of None \<Rightarrow> 0 | Some fl \<Rightarrow> feature_floor_mbps fl c)"

definition untouched_source :: "candidate \<Rightarrow> bool" where
  "untouched_source c \<longleftrightarrow> equal_fold (cd_source c) ''remux'' \<or> equal_fold (cd_source c) ''bluray''"

definition clears_floor :: "bool \<Rightarrow> tier \<Rightarrow> candidate \<Rightarrow> bool" where
  "clears_floor pad t c \<longleftrightarrow> t = tier_lossless \<and> untouched_source c \<or> floor_needed t c \<le> padded_mbps pad c"

lemma snapped_simps [simp]:
  "implied_mbps (c\<lparr>cd_resolution := r\<rparr>) = implied_mbps c" "equiv_mbps (c\<lparr>cd_resolution := r\<rparr>) = equiv_mbps c"
  "padded_mbps pad (c\<lparr>cd_resolution := r\<rparr>) = padded_mbps pad c"
  "feature_floor_mbps fl (c\<lparr>cd_resolution := r\<rparr>) = feature_floor_mbps fl c"
  by (simp_all add: implied_mbps_def equiv_mbps_def padded_mbps_def feature_floor_mbps_def)

lemma snap_rung: "snap_floor_resolution c \<in> {480, 720, 1080, 2160} \<longleftrightarrow> snap_floor_resolution c \<noteq> 0"
  using snap_range [of c] by auto

lemma grade_candidate_kept [simp]: "gr_candidate (grade_of c t n pad) = snapped c"
  by (simp add: grade_of_def snapped_def Let_def split: option.split)

lemma grade_verdict:
  "gr_qualified (grade_of c t n pad) \<longleftrightarrow> eligible pad n c \<and> clears_floor pad t c"
  "gr_status (grade_of c t n pad) = Below_floor \<longleftrightarrow> eligible pad n c \<and> \<not> clears_floor pad t c"
proof -
  let ?g = "grade_of c t n pad" and ?r = "snap_floor_resolution c"
  have "(gr_qualified ?g \<longleftrightarrow> eligible pad n c \<and> clears_floor pad t c) \<and>
    (gr_status ?g = Below_floor \<longleftrightarrow> eligible pad n c \<and> \<not> clears_floor pad t c)"
  proof (cases "0 < cd_size c \<and> 0 < cd_runtime c")
    case False
    then show ?thesis by (auto simp: grade_of_def eligible_def)
  next
    case known: True
    show ?thesis
    proof (cases "table_floor_mbps t (snapped c)")
      case None
      then have "?r = 0" using table_floor_None [of t "snapped c"] snap_rung [of c] by (simp add: snapped_def)
      then show ?thesis using known None by (simp add: grade_of_def eligible_def Let_def snapped_def)
    next
      case (Some fl)
      then have r: "?r \<noteq> 0" using table_floor_None [of t "snapped c"] snap_rung [of c] by (auto simp: snapped_def)
      have n: "(if n \<le> 0 then default_min_seeders else n) = seeders_needed n" by (simp add: seeders_needed_def)
      have fl: "floor_needed t c = feature_floor_mbps fl c" using Some by (simp add: floor_needed_def)
      show ?thesis using known r fl Some
        by (simp add: grade_of_def n Let_def eligible_def clears_floor_def untouched_source_def snapped_def not_less)
    qed
  qed
  then show "gr_qualified ?g \<longleftrightarrow> eligible pad n c \<and> clears_floor pad t c"
    and "gr_status ?g = Below_floor \<longleftrightarrow> eligible pad n c \<and> \<not> clears_floor pad t c" by auto
qed

text \<open>Grading after the download asks for no margin and no seeders, so it never asks for more.\<close>

lemma padding_lowers: "padded_mbps True c \<le> padded_mbps False c"
  by (simp add: padded_mbps_def equiv_mbps_def f_div_def [of "implied_mbps c"] f_div_shrinks
      non_av1_padding_factor_def rnd_ge_1)

text \<open>More bytes in the same time are a higher bitrate, on every scale.\<close>

lemma codec_multiplier_pos: "0 < codec_multiplier codec"
  by (simp add: codec_multiplier_def codec_multipliers_def rnd_pos)

lemma bitrate_mono:
  assumes "cd_size c \<le> s" and "0 < cd_runtime c"
  shows "implied_mbps c \<le> implied_mbps (c\<lparr>cd_size := s\<rparr>)" and "equiv_mbps c \<le> equiv_mbps (c\<lparr>cd_size := s\<rparr>)"
    and "padded_mbps pad c \<le> padded_mbps pad (c\<lparr>cd_size := s\<rparr>)"
proof -
  show i: "implied_mbps c \<le> implied_mbps (c\<lparr>cd_size := s\<rparr>)"
    using assms by (simp add: implied_mbps_def f_div_mono f_mul_mono f_of_int_mono)
  show e: "equiv_mbps c \<le> equiv_mbps (c\<lparr>cd_size := s\<rparr>)"
    using i codec_multiplier_pos [of "cd_codec c"] by (simp add: equiv_mbps_def f_div_mono)
  show "padded_mbps pad c \<le> padded_mbps pad (c\<lparr>cd_size := s\<rparr>)"
    using e by (simp add: padded_mbps_def f_div_mono non_av1_padding_factor_def)
qed

lemma size_irrelevant [simp]:
  "snap_floor_resolution (c\<lparr>cd_size := s\<rparr>) = snap_floor_resolution c"
  "table_floor_mbps t (c\<lparr>cd_size := s\<rparr>) = table_floor_mbps t c"
  "feature_floor_mbps fl (c\<lparr>cd_size := s\<rparr>) = feature_floor_mbps fl c"
  "untouched_source (c\<lparr>cd_size := s\<rparr>) = untouched_source c"
  by (simp_all add: snap_floor_resolution_def table_floor_mbps_def feature_floor_mbps_def untouched_source_def
      Let_def cong: if_cong)

lemma floor_needed_size [simp]: "floor_needed t (c\<lparr>cd_size := s\<rparr>) = floor_needed t c"
proof -
  have "snapped (c\<lparr>cd_size := s\<rparr>) = (snapped c)\<lparr>cd_size := s\<rparr>" by (simp add: snapped_def)
  then show ?thesis by (simp add: floor_needed_def cong: option.case_cong)
qed

lemma grade_size_mono_core:
  assumes "cd_size c \<le> s" and "gr_qualified (grade_of c t n pad)"
  shows "gr_qualified (grade_of (c\<lparr>cd_size := s\<rparr>) t n pad)"
proof -
  have e: "eligible pad n c" "clears_floor pad t c" using assms(2) by (simp_all add: grade_verdict)
  have "0 < cd_runtime c" using e(1) by (simp add: eligible_def)
  note m = bitrate_mono [OF assms(1) this]
  have "eligible pad n (c\<lparr>cd_size := s\<rparr>)" using e(1) assms(1) m(2) by (auto simp: eligible_def)
  moreover have "clears_floor pad t (c\<lparr>cd_size := s\<rparr>)" using e(2) m(3) [of pad] by (auto simp: clears_floor_def)
  ultimately show ?thesis by (simp add: grade_verdict)
qed

text \<open>The floors rise with the tier on every rung.\<close>

lemma floor_value_mono:
  assumes "0 < tier_rank t" and "tier_rank t \<le> tier_rank u" and "r \<in> {480, 720, 1080, 2160}"
  shows "floor_value t r \<le> floor_value u r"
proof -
  have "t \<in> set all_tiers" "u \<in> set all_tiers" using assms(1,2) by (auto simp: known_tier [symmetric])
  then show ?thesis using assms(2,3)
    by (auto simp: all_tiers_def floor_value_def floor_entry_def floor_row_def intro!: rnd_mono)
qed

lemma table_floor_value:
  assumes "0 < tier_rank t" and "cd_resolution c \<in> {480, 720, 1080, 2160}"
  shows "table_floor_mbps t c = Some (if cd_animation c \<and> cd_resolution c = 480 then floor_value tier_low 480
    else floor_value t (cd_resolution c))"
proof -
  have "t \<in> set all_tiers" using assms(1) by (simp add: known_tier)
  then show ?thesis using assms(2)
    by (auto simp: all_tiers_def table_floor_mbps_def floor_value_def floor_entry_def floor_row_def Let_def)
qed

lemma feature_floor_mono: "a \<le> b \<Longrightarrow> feature_floor_mbps a c \<le> feature_floor_mbps b c"
  by (simp add: feature_floor_mbps_def Let_def f_mul_mono hdr_floor_factor_def channel_51_floor_factor_def
      channel_71_floor_factor_def)

lemma floor_needed_mono:
  assumes "0 < tier_rank t" and "tier_rank t \<le> tier_rank u" and "snap_floor_resolution c \<noteq> 0"
  shows "floor_needed t c \<le> floor_needed u c"
proof -
  have r: "cd_resolution (snapped c) \<in> {480, 720, 1080, 2160}" using assms(3) snap_rung [of c] by (simp add: snapped_def)
  show ?thesis
    using table_floor_value [OF assms(1) r] table_floor_value [OF order_less_le_trans [OF assms(1,2)] r]
      floor_value_mono [OF assms(1,2) r]
    by (simp add: floor_needed_def feature_floor_mono)
qed

section \<open>What a selection says\<close>

lemma pick_single: "pick_best lt ok [x] = (if ok x then Some 0 else None)"
  by (simp add: pick_best_def pick_step_def)

lemma picked_None: "pick_best (better_qualified order) ok gs = None \<longleftrightarrow> (\<forall>g\<in>set gs. \<not> ok g)"
proof (cases "pick_best (better_qualified order) ok gs")
  case None
  then show ?thesis using qual.pick_best_spec [where order = order and ok = ok and xs = gs] by (auto simp: qual.picked_def in_set_conv_nth)
next
  case (Some k)
  then have "k < length gs" "ok (gs ! k)" using qual.pick_best_spec [where order = order and ok = ok and xs = gs] by (simp_all add: qual.picked_def)
  then show ?thesis using Some by (auto intro: bexI [of _ "gs ! k"])
qed

lemma picked_Some:
  assumes "pick_best (better_qualified order) ok gs = Some k"
  shows "k < length gs" and "ok (gs ! k)"
    and "j < length gs \<Longrightarrow> ok (gs ! j) \<Longrightarrow> \<not> better_qualified order (gs ! j) (gs ! k)"
    and "j < k \<Longrightarrow> ok (gs ! j) \<Longrightarrow> better_qualified order (gs ! k) (gs ! j)"
  using qual.pick_best_spec [where order = order and ok = ok and xs = gs] assms by (auto simp: qual.picked_def)

text \<open>The pick of a selection, its kind, and that there is none only when nothing is even a stopgap.\<close>

lemma selection_cases:
  "case sl_pick (selection_from_grades gs order) of
     None \<Rightarrow> sl_fallback (selection_from_grades gs order) \<and> \<not> sl_stopgap (selection_from_grades gs order) \<and>
       (\<forall>g\<in>set gs. \<not> gr_qualified g \<and> gr_status g \<noteq> Below_floor)
   | Some k \<Rightarrow> \<not> sl_fallback (selection_from_grades gs order) \<and> k < length gs \<and>
       (if sl_stopgap (selection_from_grades gs order)
        then gr_status (gs ! k) = Below_floor \<and> (\<forall>g\<in>set gs. \<not> gr_qualified g)
        else gr_qualified (gs ! k))"
proof (cases "pick_best (better_qualified order) gr_qualified gs")
  case (Some k)
  then show ?thesis using picked_Some [OF Some] by (simp add: selection_from_grades_def)
next
  case None
  then have none: "\<forall>g\<in>set gs. \<not> gr_qualified g" by (simp add: picked_None)
  show ?thesis
  proof (cases "pick_best (better_qualified order) (\<lambda>g. gr_status g = Below_floor) gs")
    case (Some k)
    then show ?thesis using picked_Some [OF Some] None none by (simp add: selection_from_grades_def)
  next
    case none2: None
    then have "\<forall>g\<in>set gs. gr_status g \<noteq> Below_floor" by (simp add: picked_None)
    then show ?thesis using None none2 none by (simp add: selection_from_grades_def)
  qed
qed

lemma select_single:
  "has_qualified (select_tier [c] t n) \<longleftrightarrow> gr_qualified (grade_candidate c t n)"
  "sl_grades (select_tier [c] t n) = [grade_candidate c t n]"
  by (simp_all add: select_tier_def select_ranked_def selection_from_grades_def has_qualified_def pick_single)

lemma walk_single:
  assumes "ts \<noteq> []"
  shows "\<exists>t\<in>set ts. sl_grades (walk_tiers [c] n best ts) = [grade_candidate c t n] \<and>
    (gr_qualified (grade_candidate c t n) \<longleftrightarrow> (\<exists>u\<in>set ts. gr_qualified (grade_candidate c u n)))"
  using assms
proof (induction ts arbitrary: best)
  case (Cons t ts)
  show ?case
  proof (cases "gr_qualified (grade_candidate c t n) \<or> ts = []")
    case True
    then show ?thesis by (auto simp: select_single Let_def)
  next
    case False
    then obtain u where "u \<in> set ts" "sl_grades (walk_tiers [c] n (select_tier [c] t n) ts) = [grade_candidate c u n]"
      "gr_qualified (grade_candidate c u n) \<longleftrightarrow> (\<exists>v\<in>set ts. gr_qualified (grade_candidate c v n))"
      using Cons.IH by blast
    then show ?thesis using False by (auto simp: select_single Let_def)
  qed
qed simp

lemma recognised_set: "set (recognised out ts) = set out \<union> {t \<in> set ts. 0 < tier_rank t}"
proof (induction ts arbitrary: out)
  case (Cons t ts)
  show ?case
  proof (cases "tier_rank t \<le> 0 \<or> t \<in> set out")
    case True
    then show ?thesis unfolding recognised.simps if_P [OF True] Cons.IH by force
  next
    case False
    then show ?thesis unfolding recognised.simps if_not_P [OF False] Cons.IH by force
  qed
qed simp

lemma recognised_distinct: "distinct out \<Longrightarrow> distinct (recognised out ts)"
  by (induction out ts rule: recognised.induct) auto

lemma tiers_to_try_known: "t \<in> set (tiers_to_try ts) \<Longrightarrow> 0 < tier_rank t"
  using known_tier [of t]
  by (simp add: tiers_to_try_def Let_def recognised_set tiers_at_or_above_def split: if_split_asm)

lemma tiers_to_try_nonempty: "tiers_to_try ts \<noteq> []"
proof -
  have "tier_lossless \<in> set (tiers_at_or_above tier_default)"
    by (simp add: tiers_at_or_above_def all_tiers_def)
  then have "set (tiers_to_try ts) \<noteq> {}" by (auto simp: tiers_to_try_def Let_def split: if_splits)
  then show ?thesis by auto
qed

lemma tiers_to_try_highest_first: "sorted_wrt (\<lambda>t u. tier_rank u \<le> tier_rank t) (tiers_to_try ts)"
  using tiers_down.sorted_sort by (simp add: tiers_to_try_def Let_def not_less)

lemma grade_by_resolution_spec:
  "\<exists>t\<in>set (tiers_to_try (accepted_at acc c)). grade_by_resolution acc n c = grade_candidate c t n \<and>
     (gr_qualified (grade_by_resolution acc n c) \<longleftrightarrow>
       (\<exists>u\<in>set (tiers_to_try (accepted_at acc c)). gr_qualified (grade_candidate c u n)))"
  using walk_single [OF tiers_to_try_nonempty, of "accepted_at acc c" c n zero_selection]
  by (auto simp: grade_by_resolution_def select_best_def)

text \<open>
  C17. The search path as a whole. Every pick has a known size and runtime, a rung, a plausible bitrate and
  enough seeders; a pick that is not a stopgap clears the floor of a tier accepted for its own
  resolution; a stopgap is taken only when no candidate clears a floor accepted for its resolution, and
  nothing is picked only when no candidate passes the gates at all.
\<close>

theorem unattended_pick_sound:
  "let s = select_best_by_resolution_ranked cs acc n order in
   case sl_pick s of
     None \<Rightarrow> sl_fallback s \<and> \<not> (\<exists>c\<in>set cs. eligible True n c)
   | Some k \<Rightarrow> \<not> sl_fallback s \<and> k < length cs \<and> eligible True n (cs ! k) \<and>
       (if sl_stopgap s
        then \<not> (\<exists>c\<in>set cs. \<exists>t\<in>set (tiers_to_try (accepted_at acc c)). eligible True n c \<and> clears_floor True t c)
        else \<exists>t\<in>set (tiers_to_try (accepted_at acc (cs ! k))). clears_floor True t (cs ! k))"
proof -
  let ?gs = "map (grade_by_resolution acc n) cs"
  have best: "gr_qualified (grade_by_resolution acc n c) \<longleftrightarrow>
      eligible True n c \<and> (\<exists>u\<in>set (tiers_to_try (accepted_at acc c)). clears_floor True u c)"
    "gr_status (grade_by_resolution acc n c) = Below_floor \<Longrightarrow> eligible True n c"
    "eligible True n c \<Longrightarrow> gr_qualified (grade_by_resolution acc n c) \<or> gr_status (grade_by_resolution acc n c) = Below_floor" for c
    using grade_by_resolution_spec [of acc c n] by (auto simp: grade_candidate_def grade_verdict)
  note cases = selection_cases [of ?gs order]
  show ?thesis
  proof (cases "sl_pick (selection_from_grades ?gs order)")
    case None
    have "\<forall>c\<in>set cs. \<not> eligible True n c" using cases best(3) unfolding None by simp blast
    then show ?thesis using cases unfolding select_best_by_resolution_ranked_def Let_def None by simp
  next
    case (Some k)
    note c = cases [unfolded Some option.case]
    then have k: "k < length cs" by simp
    show ?thesis
    proof (cases "sl_stopgap (selection_from_grades ?gs order)")
      case True
      then have "eligible True n (cs ! k)" "\<forall>c\<in>set cs. \<not> gr_qualified (grade_by_resolution acc n c)"
        using c k best(2) by simp_all
      then show ?thesis using c k best(1) True unfolding select_best_by_resolution_ranked_def Let_def Some by simp
    next
      case False
      then have "gr_qualified (grade_by_resolution acc n (cs ! k))" using c k by simp
      then show ?thesis using c k best(1) False unfolding select_best_by_resolution_ranked_def Let_def Some by simp
    qed
  qed
qed

text \<open>
  The ranking lists every candidate once, better ones first and equals in their order; the pick beats or
  equals every candidate of its kind under the operator's order, and is the first of its equals.
\<close>

theorem ranking_and_pick:
  "let s = selection_from_grades gs order in
   mset (sl_ranked s) = mset [0..<length gs] \<and>
   sorted_wrt (\<lambda>i j. \<not> rank_before order (gs ! j) (gs ! i)) (sl_ranked s) \<and>
   (\<forall>i. filter (\<lambda>j. \<not> rank_before order (gs ! j) (gs ! i) \<and> \<not> rank_before order (gs ! i) (gs ! j)) (sl_ranked s) =
     filter (\<lambda>j. \<not> rank_before order (gs ! j) (gs ! i) \<and> \<not> rank_before order (gs ! i) (gs ! j)) [0..<length gs]) \<and>
   (has_qualified s \<longrightarrow> (\<exists>k<length gs. sl_pick s = Some k \<and> gr_qualified (gs ! k) \<and>
     (\<forall>j<length gs. gr_qualified (gs ! j) \<longrightarrow> \<not> better_qualified order (gs ! j) (gs ! k) \<and>
        (j < k \<longrightarrow> better_qualified order (gs ! k) (gs ! j)))))"
proof -
  let ?p = "pick_best (better_qualified order) gr_qualified gs"
  have "\<exists>k<length gs. sl_pick (selection_from_grades gs order) = Some k \<and> gr_qualified (gs ! k) \<and>
     (\<forall>j<length gs. gr_qualified (gs ! j) \<longrightarrow> \<not> better_qualified order (gs ! j) (gs ! k) \<and>
        (j < k \<longrightarrow> better_qualified order (gs ! k) (gs ! j)))"
    if h: "has_qualified (selection_from_grades gs order)"
  proof -
    obtain k where k: "?p = Some k" using h by (auto simp: has_qualified_def selection_from_grades_def Let_def split: if_splits)
    then have "sl_pick (selection_from_grades gs order) = Some k" by (simp add: selection_from_grades_def)
    then show ?thesis using picked_Some [OF k] by auto
  qed
  then show ?thesis
    by (simp add: selection_from_grades_def Let_def rank.sorted_sort rank.stable_sort)
qed

text \<open>A file that cleared the search floor is never refused after the download for its bitrate.\<close>

theorem import_not_stricter:
  assumes "gr_qualified (grade_candidate c t n)"
  shows "gr_qualified (grade_imported_file c t)"
  using assms padding_lowers [of c]
  by (auto simp: grade_candidate_def grade_imported_file_def grade_verdict eligible_def clears_floor_def)

text \<open>More bytes never lose a candidate its qualification, at any tier, before or after the download.\<close>

theorem grade_size_monotone:
  assumes "cd_size c \<le> bytes" and "gr_qualified (grade_of c t n pad)"
  shows "gr_qualified (grade_of (c\<lparr>cd_size := bytes\<rparr>) t n pad)"
  using grade_size_mono_core [OF assms] .

text \<open>A candidate that clears a tier's floor clears every lower tier's, an untouched source aside.\<close>

theorem lower_tier_more_lenient:
  assumes "gr_qualified (grade_of c u n pad)" and "0 < tier_rank t" and "tier_rank t \<le> tier_rank u"
    and "u = tier_lossless \<longrightarrow> \<not> untouched_source c"
  shows "gr_qualified (grade_of c t n pad)"
proof -
  have e: "eligible pad n c" and f: "floor_needed u c \<le> padded_mbps pad c"
    using assms(1,4) by (auto simp: grade_verdict clears_floor_def)
  have "floor_needed t c \<le> floor_needed u c" using floor_needed_mono [OF assms(2,3)] e by (simp add: eligible_def)
  then show ?thesis using e f by (simp add: grade_verdict clears_floor_def)
qed

text \<open>
  A measured duration is flagged only outside the band around the expected one, and never when either is
  unknown; the expected duration itself is never flagged.
\<close>

theorem runtime_band:
  "runtime_mismatch probed expected =
     (0 < probed \<and> 0 < expected \<and> (f_div probed expected < runtime_low_ratio \<or> runtime_high_ratio < f_div probed expected),
      0 < probed \<and> 0 < expected) \<and>
   runtime_mismatch d d = (False, 0 < d)"
proof -
  have "f_div d d = 1" if "0 < d" using that rnd_of_nat [of 1] by (simp add: f_div_def)
  moreover have "\<not> 1 < runtime_low_ratio" "\<not> runtime_high_ratio < 1"
    using rnd_mono [of "70 / 100" 1] rnd_of_nat [of 1]
    by (simp_all add: runtime_low_ratio_def runtime_high_ratio_def rnd_ge_1 not_less)
  ultimately show ?thesis by (simp add: runtime_mismatch_def Let_def not_less)
qed

section \<open>Concrete searches\<close>

text \<open>A two-hour film: an HDR release of 9 GB and one without HDR of 30 GB, both in x265 at 1080p.\<close>

definition film :: "int \<Rightarrow> bool \<Rightarrow> candidate" where
  "film bytes hdr =
     \<lparr>cd_title = ''Film.2020.1080p'', cd_protocol = ''usenet'', cd_seeders = 0, cd_size = bytes, cd_runtime = 7200,
      cd_resolution = 1080, cd_codec = ''x265'', cd_source = ''web-dl'', cd_hdr = hdr, cd_channels = 0, cd_animation = False\<rparr>"

lemma film_qualifies: "gr_qualified (grade_of (film 9000000000 True) tier_medium 0 True)"
  by code_simp

theorem import_not_stricter_witness:
  "gr_qualified (grade_candidate (film 9000000000 True) tier_medium 0) \<and>
   gr_qualified (grade_imported_file (film 9000000000 True) tier_medium)"
proof -
  have q: "gr_qualified (grade_candidate (film 9000000000 True) tier_medium 0)"
    using film_qualifies by (simp add: grade_candidate_def)
  then show ?thesis using import_not_stricter [OF q] by simp
qed

theorem grade_size_monotone_witness:
  "gr_qualified (grade_of (film 9000000000 True) tier_medium 0 True) \<and>
   gr_qualified (grade_of ((film 9000000000 True)\<lparr>cd_size := 10000000000\<rparr>) tier_medium 0 True)"
  using film_qualifies grade_size_monotone [OF _ film_qualifies, of 10000000000] by (simp add: film_def)

theorem lower_tier_more_lenient_witness:
  "gr_qualified (grade_of (film 9000000000 True) tier_medium 0 True) \<and> gr_qualified (grade_of (film 9000000000 True) tier_low 0 True)"
proof -
  have "tier_medium \<noteq> tier_lossless" by (simp add: tiers)
  then show ?thesis using film_qualifies lower_tier_more_lenient [OF film_qualifies, of tier_low] by simp
qed

lemma film_pick:
  "let s = select_tier [film 9000000000 True, film 30000000000 False] tier_medium 0 in
   sl_pick s = Some 0 \<and> has_qualified s \<and> gr_qualified (sl_grades s ! 1) \<and> gr_score (sl_grades s ! 0) < gr_score (sl_grades s ! 1)"
  by code_simp

theorem ranking_and_pick_witness:
  "let s = selection_from_grades (map (\<lambda>c. grade_candidate c tier_medium 0) [film 9000000000 True, film 30000000000 False]) [] in
   has_qualified s \<and> mset (sl_ranked s) = {#0, 1#} \<and> (\<exists>k<2. sl_pick s = Some k \<and> gr_qualified (sl_grades s ! k))"
proof -
  define gs where "gs = map (\<lambda>c. grade_candidate c tier_medium 0) [film 9000000000 True, film 30000000000 False]"
  have s: "selection_from_grades gs [] = select_tier [film 9000000000 True, film 30000000000 False] tier_medium 0"
    by (simp add: gs_def select_tier_def select_ranked_def)
  have q: "has_qualified (selection_from_grades gs [])" unfolding s using film_pick by (simp add: Let_def)
  have g: "sl_grades (selection_from_grades gs []) = gs" by (simp only: selection_from_grades_def Let_def selection.simps)
  have n: "length gs = 2" by (simp add: gs_def)
  note t = ranking_and_pick [of gs "[]", unfolded Let_def n]
  have "mset (sl_ranked (selection_from_grades gs [])) = {#0, 1#}"
    using conjunct1 [OF t] by (simp add: numeral_2_eq_2)
  moreover have "\<exists>k<2. sl_pick (selection_from_grades gs []) = Some k \<and> gr_qualified (gs ! k)"
    using mp [OF conjunct2 [OF conjunct2 [OF conjunct2 [OF t]]] q] by blast
  ultimately show ?thesis unfolding gs_def [symmetric] Let_def g using q by blast
qed

text \<open>
  The pick is not the qualified candidate with the highest score: the smaller release in HDR is preferred
  to one of three times its bitrate.
\<close>

theorem pick_prefers_hdr:
  "let s = select_tier [film 9000000000 True, film 30000000000 False] tier_medium 0 in
   sl_pick s = Some 0 \<and> has_qualified s \<and> gr_qualified (sl_grades s ! 1) \<and> gr_score (sl_grades s ! 0) < gr_score (sl_grades s ! 1)"
  by (rule film_pick)

end
