(* ===== verification/Go_Time.thy ===== *)
theory Go_Time
  imports Prelude
begin

text \<open>
  Timestamps as text. The program stores times as strings in the layout
  \<open>2006-01-02T15:04:05.000Z\<close> (\<open>FormatTime\<close> of \<open>internal/grabs/grabs.go\<close>) and
  compares them in SQL as strings. The calendar is the proleptic Gregorian one of \<open>time.Time\<close>,
  from year 1; years above 9999 do not fit the layout.
\<close>

section \<open>The order of strings\<close>

fun str_less :: "gostring \<Rightarrow> gostring \<Rightarrow> bool" where
  "str_less xs [] = False"
| "str_less [] (y # ys) = True"
| "str_less (x # xs) (y # ys) =
     ((of_char x :: nat) < of_char y \<or> x = y \<and> str_less xs ys)"

definition str_le :: "gostring \<Rightarrow> gostring \<Rightarrow> bool" where
  "str_le a b \<longleftrightarrow> \<not> str_less b a"

lemma of_char_inj: "(of_char x :: nat) = of_char y \<longleftrightarrow> x = y"
  by (metis char_of_char)

lemma str_less_irrefl [simp]: "\<not> str_less xs xs"
  by (induction xs) auto

lemma str_less_linear: "str_less xs ys \<or> xs = ys \<or> str_less ys xs"
proof (induction xs ys rule: str_less.induct)
  case (1 xs)
  show ?case by (cases xs) auto
next
  case (3 x xs y ys)
  then show ?case using of_char_inj [of x y] by auto
qed simp

lemma str_less_trans: "str_less xs ys \<Longrightarrow> str_less ys zs \<Longrightarrow> str_less xs zs"
proof (induction xs ys arbitrary: zs rule: str_less.induct)
  case (2 y ys)
  then show ?case by (cases zs) auto
next
  case (3 x xs y ys)
  then show ?case by (cases zs) auto
qed simp

lemma str_le_refl [simp]: "str_le xs xs"
  by (simp add: str_le_def)

lemma str_le_Nil [simp]: "str_le [] ys"
  by (cases ys) (simp_all add: str_le_def)

lemma str_le_trans: "str_le xs ys \<Longrightarrow> str_le ys zs \<Longrightarrow> str_le xs zs"
  using str_less_trans str_less_linear unfolding str_le_def by metis

lemma str_less_append:
  "length xs = length ys \<Longrightarrow> str_less (xs @ us) (ys @ vs) \<longleftrightarrow> str_less xs ys \<or> xs = ys \<and> str_less us vs"
  by (induction xs ys rule: list_induct2) auto

section \<open>Zero-padded decimals\<close>

fun pad :: "nat \<Rightarrow> nat \<Rightarrow> gostring" where
  "pad 0 n = []"
| "pad (Suc w) n = pad w (n div 10) @ [char_of (48 + n mod 10)]"

lemma length_pad [simp]: "length (pad w n) = w"
  by (induction w arbitrary: n) auto

lemma digit_code: "(d :: nat) < 10 \<Longrightarrow> (of_char (char_of (48 + d) :: char) :: nat) = 48 + d"
  by simp

lemma digit_less: "(d :: nat) < 10 \<Longrightarrow> e < 10 \<Longrightarrow> str_less [char_of (48 + d)] [char_of (48 + e)] \<longleftrightarrow> d < e"
  by (simp add: digit_code)

lemma radix_less: "(c :: nat) < r \<Longrightarrow> d < r \<Longrightarrow> a * r + c < b * r + d \<longleftrightarrow> a < b \<or> a = b \<and> c < d"
proof -
  assume c: "c < r" "d < r"
  have *: "a * r + c < b * r + d" if "a < b" "c < r" for a b c d
  proof -
    have "Suc a * r \<le> b * r" using that(1) by (intro mult_le_mono1) simp
    then show ?thesis using that(2) by simp
  qed
  show ?thesis using * [of a b c d] * [of b a d c] c by (cases a b rule: linorder_cases) auto
qed

lemma radix_eq: "(c :: nat) < r \<Longrightarrow> d < r \<Longrightarrow> a * r + c = b * r + d \<longleftrightarrow> a = b \<and> c = d"
  using radix_less [of c r d a b] radix_less [of d r c b a] by (metis nat_neq_iff)

lemma pad_less: "m < 10 ^ w \<Longrightarrow> n < 10 ^ w \<Longrightarrow> str_less (pad w m) (pad w n) \<longleftrightarrow> m < n"
proof (induction w arbitrary: m n)
  case (Suc w)
  have "m div 10 < 10 ^ w" "n div 10 < 10 ^ w" using Suc.prems by (simp_all add: div_less_iff_less_mult)
  note IH = Suc.IH [OF this] Suc.IH [OF this(2,1)]
  have eq: "pad w (m div 10) = pad w (n div 10) \<longleftrightarrow> m div 10 = n div 10"
    using IH(1) IH(2) str_less_irrefl by (metis nat_neq_iff)
  have d: "str_less [char_of (48 + m mod 10)] [char_of (48 + n mod 10)] \<longleftrightarrow> m mod 10 < n mod 10"
    by (rule digit_less) simp_all
  have "str_less (pad (Suc w) m) (pad (Suc w) n) \<longleftrightarrow> m div 10 < n div 10 \<or> m div 10 = n div 10 \<and> m mod 10 < n mod 10"
    unfolding pad.simps str_less_append [OF trans [OF length_pad length_pad [symmetric]]] IH(1) eq d ..
  also have "\<dots> \<longleftrightarrow> m < n" using radix_less [of "m mod 10" 10 "n mod 10" "m div 10" "n div 10"] by simp
  finally show ?case .
qed simp

lemma pad_inj: "m < 10 ^ w \<Longrightarrow> n < 10 ^ w \<Longrightarrow> pad w m = pad w n \<longleftrightarrow> m = n"
  by (metis pad_less str_less_irrefl nat_neq_iff)

text \<open>A fixed-width layout: numbers with their widths, each followed by a separator.\<close>

fun layout :: "(nat \<times> gostring) list \<Rightarrow> nat list \<Rightarrow> gostring" where
  "layout ((w, sep) # fs) (n # ns) = pad w n @ sep @ layout fs ns"
| "layout fs ns = []"

fun fits :: "(nat \<times> gostring) list \<Rightarrow> nat list \<Rightarrow> bool" where
  "fits ((w, sep) # fs) (n # ns) = (n < 10 ^ w \<and> fits fs ns)"
| "fits fs ns = (fs = [] \<and> ns = [])"

fun lex_less :: "nat list \<Rightarrow> nat list \<Rightarrow> bool" where
  "lex_less (m # ms) (n # ns) = (m < n \<or> m = n \<and> lex_less ms ns)"
| "lex_less ms ns = False"

lemma layout_less: "fits fs ms \<Longrightarrow> fits fs ns \<Longrightarrow> str_less (layout fs ms) (layout fs ns) \<longleftrightarrow> lex_less ms ns"
proof (induction fs arbitrary: ms ns)
  case Nil
  then show ?case by (cases ms; cases ns) auto
next
  case (Cons f fs)
  obtain w sep where f: "f = (w, sep)" by (cases f)
  obtain m ms' where m: "ms = m # ms'" using Cons.prems(1) by (cases ms) (auto simp: f)
  obtain n ns' where n: "ns = n # ns'" using Cons.prems(2) by (cases ns) (auto simp: f)
  have "str_less (sep @ layout fs ms') (sep @ layout fs ns') \<longleftrightarrow> str_less (layout fs ms') (layout fs ns')"
    by (simp add: str_less_append)
  then show ?case using Cons by (simp add: f m n str_less_append pad_less pad_inj)
qed

lemma lex_less_irrefl [simp]: "\<not> lex_less ns ns"
  by (induction ns) auto

section \<open>The calendar\<close>

definition leap :: "nat \<Rightarrow> bool" where
  "leap y \<longleftrightarrow> y mod 4 = 0 \<and> (y mod 100 \<noteq> 0 \<or> y mod 400 = 0)"

definition days_in_year :: "nat \<Rightarrow> nat" where
  "days_in_year y = (if leap y then 366 else 365)"

definition month_lengths :: "nat \<Rightarrow> nat list" where
  "month_lengths y = [31, if leap y then 29 else 28, 31, 30, 31, 30, 31, 31, 30, 31, 30, 31]"

text \<open>The year holding the \<open>d\<close>-th day after 1 January of year \<open>y\<close>, and the day in it.\<close>

function year_from :: "nat \<Rightarrow> nat \<Rightarrow> nat \<times> nat" where
  "year_from y d = (if d < days_in_year y then (y, d) else year_from (Suc y) (d - days_in_year y))"
  by auto
termination
  by (relation "measure snd") (auto simp: days_in_year_def not_less split: if_splits)

declare year_from.simps [simp del]

fun month_from :: "nat list \<Rightarrow> nat \<Rightarrow> nat \<Rightarrow> nat \<times> nat" where
  "month_from [] m d = (m, d)"
| "month_from (l # ls) m d = (if d < l then (m, d) else month_from ls (Suc m) (d - l))"

lemma year_from_ge: "y \<le> fst (year_from y d)"
proof (induction y d rule: year_from.induct)
  case (1 y d)
  then show ?case by (subst year_from.simps) (auto dest: Suc_leD)
qed

lemma year_from_day: "snd (year_from y d) < days_in_year (fst (year_from y d))"
proof (induction y d rule: year_from.induct)
  case (1 y d)
  then show ?case by (subst (1 2) year_from.simps) auto
qed

lemma year_from_mono:
  "d < e \<Longrightarrow> fst (year_from y d) < fst (year_from y e) \<or>
     fst (year_from y d) = fst (year_from y e) \<and> snd (year_from y d) < snd (year_from y e)"
proof (induction y d arbitrary: e rule: year_from.induct)
  case (1 y d)
  show ?case
  proof (cases "d < days_in_year y")
    case True
    then have d: "year_from y d = (y, d)" by (simp add: year_from.simps [of y d])
    show ?thesis
    proof (cases "e < days_in_year y")
      case True
      then show ?thesis using d "1.prems" by (simp add: year_from.simps [of y e])
    next
      case False
      then show ?thesis using d year_from_ge [of "Suc y" "e - days_in_year y"] by (simp add: year_from.simps [of y e])
    qed
  next
    case False
    then have "year_from y d = year_from (Suc y) (d - days_in_year y)"
      "year_from y e = year_from (Suc y) (e - days_in_year y)"
      using "1.prems" by (simp_all add: year_from.simps [of y d] year_from.simps [of y e])
    moreover have "d - days_in_year y < e - days_in_year y" using False "1.prems" by simp
    ultimately show ?thesis using "1.IH" [OF False] by metis
  qed
qed

lemma month_from_ge: "m \<le> fst (month_from ls m d)"
  by (induction ls m d rule: month_from.induct) auto

lemma month_from_mono:
  "d < e \<Longrightarrow> fst (month_from ls m d) < fst (month_from ls m e) \<or>
     fst (month_from ls m d) = fst (month_from ls m e) \<and> snd (month_from ls m d) < snd (month_from ls m e)"
proof (induction ls m d arbitrary: e rule: month_from.induct)
  case (2 l ls m d)
  show ?case
  proof (cases "d < l")
    case True
    then show ?thesis using "2.prems" month_from_ge [of "Suc m" ls "e - l"] by auto
  next
    case False
    then have "d - l < e - l" using "2.prems" by simp
    then show ?thesis using "2.IH" [OF False] False "2.prems" by auto
  qed
qed simp

lemma month_from_bound:
  "d < sum_list ls \<Longrightarrow> \<forall>l\<in>set ls. l \<le> k \<Longrightarrow>
     fst (month_from ls m d) < m + length ls \<and> snd (month_from ls m d) < k"
proof (induction ls m d rule: month_from.induct)
  case (2 l ls m d)
  show ?case
  proof (cases "d < l")
    case False
    then have "d - l < sum_list ls" using "2.prems" by simp
    then show ?thesis using "2.IH" [OF False] False "2.prems" by auto
  qed (use "2.prems" in auto)
qed simp

lemma month_lengths_facts: "length (month_lengths y) = 12" "\<forall>l\<in>set (month_lengths y). l \<le> 31"
  by (simp_all add: month_lengths_def)

lemma month_lengths_sum: "sum_list (month_lengths y) = days_in_year y"
  by (simp add: month_lengths_def days_in_year_def)

section \<open>FormatTime\<close>

text \<open>Whole milliseconds since year 1: the layout drops the rest.\<close>

definition millis :: "gtime \<Rightarrow> nat" where
  "millis t = nat ((t - zero_time) div 1000000)"

definition date_fields :: "nat \<Rightarrow> nat list" where
  "date_fields day =
     (let y = year_from 1 day; m = month_from (month_lengths (fst y)) 1 (snd y) in [fst y, fst m, Suc (snd m)])"

definition clock_fields :: "nat \<Rightarrow> nat list" where
  "clock_fields ms = [ms div 3600000, ms div 60000 mod 60, ms div 1000 mod 60, ms mod 1000]"

definition day_ms :: nat where
  "day_ms = 86400000"

definition time_fields :: "gtime \<Rightarrow> nat list" where
  "time_fields t = date_fields (millis t div day_ms) @ clock_fields (millis t mod day_ms)"

definition time_layout :: "(nat \<times> gostring) list" where
  "time_layout = [(4, ''-''), (2, ''-''), (2, ''T''), (2, '':''), (2, '':''), (2, ''.''), (3, ''Z'')]"

definition format_time :: "gtime \<Rightarrow> gostring" where
  "format_time t = layout time_layout (time_fields t)"

definition in_layout :: "gtime \<Rightarrow> bool" where
  "in_layout t \<longleftrightarrow> zero_time \<le> t \<and> hd (time_fields t) \<le> 9999"

lemma lex_less_append: "length ms = length ns \<Longrightarrow> lex_less (ms @ us) (ns @ vs) \<longleftrightarrow> lex_less ms ns \<or> ms = ns \<and> lex_less us vs"
  by (induction ms ns rule: list_induct2) auto

lemma length_date_fields [simp]: "length (date_fields day) = 3"
  by (simp add: date_fields_def Let_def)

lemma date_less:
  assumes "d < e"
  shows "lex_less (date_fields d) (date_fields e)"
  using year_from_mono [OF assms, of 1]
    month_from_mono [of "snd (year_from 1 d)" "snd (year_from 1 e)" "month_lengths (fst (year_from 1 e))" 1]
  unfolding date_fields_def Let_def lex_less.simps Suc_less_eq nat.inject by metis

lemma clock_split: "(ms :: nat) = ((ms div 3600000 * 60 + ms div 60000 mod 60) * 60 + ms div 1000 mod 60) * 1000 + ms mod 1000"
proof -
  have "ms = ms div 1000 * 1000 + ms mod 1000" by simp
  also have "ms div 1000 = ms div 1000 div 60 * 60 + ms div 1000 mod 60" by simp
  also have "ms div 1000 div 60 = ms div 60000" by (simp add: div_mult2_eq [symmetric])
  also have "ms div 60000 = ms div 60000 div 60 * 60 + ms div 60000 mod 60" by simp
  also have "ms div 60000 div 60 = ms div 3600000" by (simp add: div_mult2_eq [symmetric])
  finally show ?thesis .
qed

lemma radix_clock:
  fixes h m s x h' m' s' x' :: nat
  assumes "((h * 60 + m) * 60 + s) * 1000 + x < ((h' * 60 + m') * 60 + s') * 1000 + x'"
    and "m < 60" "m' < 60" "s < 60" "s' < 60" "x < 1000" "x' < 1000"
  shows "lex_less [h, m, s, x] [h', m', s', x']"
  using assms(1)
  unfolding radix_less [OF assms(6,7)] radix_less [OF assms(4,5)] radix_less [OF assms(2,3)] radix_eq [OF assms(4,5)]
    radix_eq [OF assms(2,3)] lex_less.simps by blast

lemma clock_less: "ms < ns \<Longrightarrow> lex_less (clock_fields ms) (clock_fields ns)"
  unfolding clock_fields_def
  by (rule radix_clock) (simp_all only: clock_split [symmetric] mod_less_divisor zero_less_numeral)

lemma fields_less:
  assumes "millis t < millis u"
  shows "lex_less (time_fields t) (time_fields u)"
proof -
  have "0 < day_ms" by (simp add: day_ms_def)
  note r = mod_less_divisor [OF this]
  have "millis t div day_ms < millis u div day_ms \<or>
      millis t div day_ms = millis u div day_ms \<and> millis t mod day_ms < millis u mod day_ms"
    using assms radix_less [OF r [of "millis t"] r [of "millis u"], of "millis t div day_ms" "millis u div day_ms"]
    by (simp only: div_mult_mod_eq)
  then show ?thesis
  proof
    assume "millis t div day_ms < millis u div day_ms"
    note date_less [OF this]
    then show ?thesis by (simp only: time_fields_def lex_less_append length_date_fields) simp
  next
    assume e: "millis t div day_ms = millis u div day_ms \<and> millis t mod day_ms < millis u mod day_ms"
    note clock_less [OF conjunct2 [OF e]]
    then show ?thesis by (simp only: time_fields_def lex_less_append length_date_fields conjunct1 [OF e]) simp
  qed
qed

lemma fields_fit:
  assumes "in_layout t"
  shows "fits time_layout (time_fields t)"
proof -
  let ?y = "year_from 1 (millis t div day_ms)"
  let ?m = "month_from (month_lengths (fst ?y)) 1 (snd ?y)"
  have "snd ?y < sum_list (month_lengths (fst ?y))" by (simp only: month_lengths_sum year_from_day)
  then have m: "fst ?m < 13" "snd ?m < 31"
    using month_from_bound [of "snd ?y" "month_lengths (fst ?y)" 31 1] by (simp_all add: month_lengths_facts)
  have y: "fst ?y \<le> 9999" using assms by (simp add: in_layout_def time_fields_def date_fields_def Let_def)
  have fits: "fits [(2, ''T''), (2, '':''), (2, '':''), (2, ''.''), (3, ''Z'')] (d # clock_fields ms)"
    if "ms < 86400000" "d < 32" for d ms
  proof -
    have "ms div 3600000 < 24" using that(1) by (intro less_mult_imp_div_less) simp
    moreover have "n mod 60 < 100" for n :: nat by (rule less_trans [of _ 60]) simp_all
    ultimately show ?thesis using that(2) by (simp add: clock_fields_def)
  qed
  have "millis t mod day_ms < 86400000" by (simp add: day_ms_def)
  from fits [OF this, of "Suc (snd ?m)"] show ?thesis
    using m y by (simp add: time_layout_def time_fields_def date_fields_def Let_def)
qed

lemma format_less:
  assumes "in_layout t" and "in_layout u"
  shows "str_less (format_time t) (format_time u) \<longleftrightarrow> millis t < millis u"
proof -
  have "\<not> lex_less (time_fields t) (time_fields u)" if "\<not> millis t < millis u"
  proof (cases "millis t = millis u")
    case True
    then show ?thesis by (simp add: time_fields_def)
  next
    case False
    then have "str_less (format_time u) (format_time t)"
      using that fields_less [of u t] layout_less [OF fields_fit fields_fit, of u t] assms by (simp add: format_time_def)
    then show ?thesis using str_less_trans [of "format_time u" "format_time t" "format_time u"]
        layout_less [OF fields_fit fields_fit, of t u] assms by (auto simp: format_time_def)
  qed
  then show ?thesis using layout_less [OF fields_fit fields_fit, of t u] fields_less [of t u] assms
    by (auto simp: format_time_def)
qed

lemma format_le: "in_layout t \<Longrightarrow> in_layout u \<Longrightarrow> str_le (format_time t) (format_time u) \<longleftrightarrow> millis t \<le> millis u"
  by (simp add: str_le_def format_less not_less)

lemma format_nonempty [simp]: "format_time t \<noteq> []" "[] \<noteq> format_time t"
  by (simp_all add: format_time_def time_layout_def time_fields_def date_fields_def Let_def)

lemma in_layout_year_one: "zero_time \<le> t \<Longrightarrow> t < zero_time + 31536000000000000 \<Longrightarrow> in_layout t"
proof -
  assume t: "zero_time \<le> t" "t < zero_time + 31536000000000000"
  have "millis t < 31536000000" using t by (simp add: millis_def nat_less_iff div_less_iff_less_mult)
  then have "millis t div day_ms < 365" by (simp add: less_mult_imp_div_less day_ms_def)
  then show ?thesis using t(1)
    by (simp add: in_layout_def time_fields_def date_fields_def Let_def year_from.simps [of "Suc 0"] days_in_year_def leap_def)
qed

text \<open>
  The texts order like the times they stand for, to the millisecond: comparing two stored timestamps as
  strings is comparing the times, and two times have one text exactly when they fall in the same
  millisecond.
\<close>

theorem timestamps_order_as_text:
  assumes "in_layout t" and "in_layout u"
  shows "(str_le (format_time t) (format_time u) \<longleftrightarrow> millis t \<le> millis u) \<and>
    (format_time t = format_time u \<longleftrightarrow> millis t = millis u)"
proof -
  have "format_time t = format_time u \<longleftrightarrow> millis t = millis u"
    using format_less [OF assms] format_less [OF assms(2,1)] str_less_linear [of "format_time t" "format_time u"]
    by (metis nat_neq_iff str_less_irrefl)
  then show ?thesis using format_le [OF assms] by simp
qed

theorem timestamps_order_as_text_witness:
  "str_le (format_time zero_time) (format_time (zero_time + 5000000)) \<and>
   format_time zero_time = format_time (zero_time + 999999)"
  using timestamps_order_as_text [of zero_time "zero_time + 5000000"]
    timestamps_order_as_text [of zero_time "zero_time + 999999"]
  by (simp add: in_layout_year_one millis_def)

end
