(* ===== verification/Grabs.thy ===== *)
theory Grabs
  imports Go_Time Json Stable_Sort
begin

text \<open>
  \<open>internal/grabs/grabs.go\<close>, \<open>retry.go\<close> and \<open>alternate.go\<close>: the table of
  requested downloads and every operation on it, over the schema of
  \<open>internal/db/migrations\<close> (columns with their defaults, the unique index on held requests).
  A call may fail without effect; its failure is an argument, and so are the database clock, the
  encryption of download URLs, SHA-256, and the order in which an unordered query reads the rows. No
  statement of the program deletes a row.
\<close>

section \<open>Rows\<close>

datatype grab_status = Queued | Downloading | Completed | Imported | Failed | Pending_retry

record grab =
  g_id :: int
  g_mode :: gostring
  g_title :: gostring
  g_tmdb :: int
  g_tvdb :: int
  g_season :: int
  g_episode :: int
  g_season_specified :: bool
  g_profile :: int
  g_indexer :: gostring
  g_protocol :: gostring
  g_client :: gostring
  g_client_ref :: gostring
  g_gid :: gostring
  g_dl_status :: gostring
  g_staging :: gostring
  g_status :: grab_status
  g_root :: gostring
  g_flagged :: bool
  g_flag_reason :: gostring
  g_url :: gostring
  g_retry_after :: gostring
  g_retry_count :: int
  g_retry_reason :: gostring
  g_hold :: gostring
  g_monitor_key :: gostring
  g_scope :: gostring
  g_transport :: int
  g_origin :: gostring
  g_tried :: gostring
  g_created :: gostring
  g_updated :: gostring

text \<open>The table in the order of its ids. The URL column of a stored row is encrypted.\<close>

record grab_store =
  gs_rows :: "grab list"
  gs_next :: int

definition empty_store :: grab_store where
  "empty_store = \<lparr>gs_rows = [], gs_next = 1\<rparr>"

datatype grab_error = No_grab | Held_request_exists | Bad_tmdb_id | Db_error

text \<open>The partial unique index on \<open>(mode, tmdb_id)\<close> where \<open>hold_until\<close> is not empty.\<close>

definition held_key :: "grab \<Rightarrow> gostring \<times> int" where
  "held_key g = (g_mode g, g_tmdb g)"

definition held_unique :: "grab list \<Rightarrow> bool" where
  "held_unique rows \<longleftrightarrow> distinct (map held_key (filter (\<lambda>g. g_hold g \<noteq> []) rows))"

section \<open>Reading\<close>

type_synonym codec = "gostring \<Rightarrow> gostring option"

definition encrypt_url :: "codec \<Rightarrow> codec" where
  "encrypt_url enc url = (if url = [] then Some [] else enc url)"

definition scan_grab :: "codec \<Rightarrow> grab \<Rightarrow> grab option" where
  "scan_grab dec row =
     (if g_url row = [] then Some row
      else case dec (g_url row) of None \<Rightarrow> None | Some u \<Rightarrow> Some (row\<lparr>g_url := u\<rparr>))"

fun scan_grabs :: "codec \<Rightarrow> grab list \<Rightarrow> grab list option" where
  "scan_grabs dec [] = Some []"
| "scan_grabs dec (r # rs) =
     (case scan_grab dec r of
        None \<Rightarrow> None
      | Some g \<Rightarrow> (case scan_grabs dec rs of None \<Rightarrow> None | Some gs \<Rightarrow> Some (g # gs)))"

definition scan_first :: "codec \<Rightarrow> grab list \<Rightarrow> grab_error + grab" where
  "scan_first dec rows =
     (case rows of
        [] \<Rightarrow> Inl No_grab
      | r # rs \<Rightarrow> (case scan_grab dec r of None \<Rightarrow> Inl Db_error | Some g \<Rightarrow> Inr g))"

text \<open>\<open>ORDER BY k ASC, id ASC\<close> and \<open>ORDER BY k DESC, id DESC\<close> on a text column.\<close>

definition row_before :: "(grab \<Rightarrow> gostring) \<Rightarrow> grab \<Rightarrow> grab \<Rightarrow> bool" where
  "row_before k a b \<longleftrightarrow> str_less (k a) (k b) \<or> k a = k b \<and> g_id a < g_id b"

definition list_grabs :: "codec \<Rightarrow> gostring \<Rightarrow> grab_store \<Rightarrow> grab list option" where
  "list_grabs dec m db =
     scan_grabs dec (sort_by (\<lambda>a b. row_before g_created b a) (filter (\<lambda>g. g_mode g = m) (gs_rows db)))"

definition get_grab :: "codec \<Rightarrow> int \<Rightarrow> grab_store \<Rightarrow> grab_error + grab" where
  "get_grab dec n db = scan_first dec (filter (\<lambda>g. g_id g = n) (gs_rows db))"

definition list_active :: "codec \<Rightarrow> grab_store \<Rightarrow> grab list option" where
  "list_active dec db = scan_grabs dec (filter (\<lambda>g. g_status g \<notin> {Imported, Failed}) (gs_rows db))"

text \<open>No order is asked for here: \<open>shuffle\<close> is the one the database reads the rows in.\<close>

definition get_by_download_gid ::
  "codec \<Rightarrow> (grab list \<Rightarrow> grab list) \<Rightarrow> gostring \<Rightarrow> grab_store \<Rightarrow> grab_error + grab" where
  "get_by_download_gid dec shuffle gid db =
     (if gid = [] then Inl No_grab else scan_first dec (filter (\<lambda>g. g_gid g = gid) (shuffle (gs_rows db))))"

definition active_by_download_gid :: "codec \<Rightarrow> gostring \<Rightarrow> gostring \<Rightarrow> grab_store \<Rightarrow> grab_error + grab" where
  "active_by_download_gid dec m gid db =
     (if gid = [] then Inl No_grab
      else scan_first dec
        (filter (\<lambda>g. g_mode g = m \<and> g_gid g = gid \<and> g_status g \<notin> {Imported, Failed}) (gs_rows db)))"

definition hold_passed :: "gostring \<Rightarrow> grab \<Rightarrow> bool" where
  "hold_passed now g \<longleftrightarrow> g_hold g = [] \<or> str_le (g_hold g) now"

definition retry_due :: "gostring \<Rightarrow> grab \<Rightarrow> bool" where
  "retry_due now g \<longleftrightarrow>
     g_status g = Pending_retry \<and> g_gid g = [] \<and> g_retry_after g \<noteq> [] \<and> str_le (g_retry_after g) now \<and> hold_passed now g"

definition release_due :: "gostring \<Rightarrow> grab \<Rightarrow> bool" where
  "release_due now g \<longleftrightarrow>
     g_status g = Pending_retry \<and> g_gid g = [] \<and> g_retry_after g = [] \<and> g_hold g \<noteq> [] \<and> str_le (g_hold g) now"

definition resume_due :: "gostring \<Rightarrow> grab \<Rightarrow> bool" where
  "resume_due now g \<longleftrightarrow>
     g_status g = Pending_retry \<and> g_gid g \<noteq> [] \<and> g_retry_after g \<noteq> [] \<and> str_le (g_retry_after g) now \<and> hold_passed now g"

definition due_for_retry :: "codec \<Rightarrow> gtime \<Rightarrow> grab_store \<Rightarrow> grab list option" where
  "due_for_retry dec now db =
     scan_grabs dec (sort_by (row_before g_retry_after) (filter (retry_due (format_time now)) (gs_rows db)))"

definition due_for_release :: "codec \<Rightarrow> gtime \<Rightarrow> grab_store \<Rightarrow> grab list option" where
  "due_for_release dec now db =
     scan_grabs dec (sort_by (row_before g_hold) (filter (release_due (format_time now)) (gs_rows db)))"

definition due_for_resume :: "codec \<Rightarrow> gtime \<Rightarrow> grab_store \<Rightarrow> grab list option" where
  "due_for_resume dec now db =
     scan_grabs dec (sort_by (row_before g_retry_after) (filter (resume_due (format_time now)) (gs_rows db)))"

text \<open>\<open>excludes.Key\<close>, and the loop of \<open>FindPendingRetry\<close>, which decrypts every row it passes.\<close>

definition exclude_key :: "gostring \<Rightarrow> int \<Rightarrow> gostring \<Rightarrow> gostring" where
  "exclude_key m tmdb title =
     (if 0 < tmdb then m @ '':tmdb:'' @ show_int tmdb else m @ '':title:'' @ to_lower (trim_space title))"

fun first_with_key :: "codec \<Rightarrow> gostring \<Rightarrow> grab list \<Rightarrow> grab_error + grab" where
  "first_with_key dec want [] = Inl No_grab"
| "first_with_key dec want (r # rs) =
     (case scan_grab dec r of
        None \<Rightarrow> Inl Db_error
      | Some g \<Rightarrow> if exclude_key (g_mode g) (g_tmdb g) (g_title g) = want then Inr g else first_with_key dec want rs)"

definition find_pending_retry ::
  "codec \<Rightarrow> gostring \<Rightarrow> int \<Rightarrow> gostring \<Rightarrow> int \<Rightarrow> bool \<Rightarrow> int \<Rightarrow> grab_store \<Rightarrow> grab_error + grab" where
  "find_pending_retry dec m tmdb title season specified episode db =
     first_with_key dec (exclude_key m tmdb title)
       (filter (\<lambda>g. g_mode g = m \<and> g_status g = Pending_retry \<and> g_season g = season \<and>
          g_season_specified g = specified \<and> g_episode g = episode) (gs_rows db))"

definition find_held_request :: "codec \<Rightarrow> gostring \<Rightarrow> int \<Rightarrow> grab_store \<Rightarrow> grab_error + grab" where
  "find_held_request dec m tmdb db =
     scan_first dec (filter (\<lambda>g. g_mode g = m \<and> g_tmdb g = tmdb \<and> g_hold g \<noteq> []) (gs_rows db))"

section \<open>Writing\<close>

text \<open>
  One \<open>UPDATE\<close> with its \<open>WHERE\<close>: it stamps \<open>updated_at\<close>, is refused as a whole when
  it would break the index, and reports an unknown row when it changed none.
\<close>

definition update_rows :: "(grab \<Rightarrow> bool) \<Rightarrow> (grab \<Rightarrow> grab) \<Rightarrow> grab list \<Rightarrow> grab list" where
  "update_rows p f rows = map (\<lambda>g. if p g then f g else g) rows"

definition exec_update ::
  "bool \<Rightarrow> gostring \<Rightarrow> (grab \<Rightarrow> bool) \<Rightarrow> (grab \<Rightarrow> grab) \<Rightarrow> grab_store \<Rightarrow> grab_error option \<times> grab_store" where
  "exec_update fault clock p f db =
     (let rows = update_rows p (\<lambda>g. (f g)\<lparr>g_updated := clock\<rparr>) (gs_rows db) in
      if fault \<or> \<not> held_unique rows then (Some Db_error, db)
      else (if \<exists>g\<in>set (gs_rows db). p g then None else Some No_grab, db\<lparr>gs_rows := rows\<rparr>))"

definition with_id :: "int \<Rightarrow> grab \<Rightarrow> bool" where
  "with_id n g \<longleftrightarrow> g_id g = n"

text \<open>\<open>Create\<close>: the returned grab keeps what its caller put into the columns that are not inserted.\<close>

definition normal_grab :: "grab \<Rightarrow> grab" where
  "normal_grab g =
     (if g_status g = Pending_retry then g
      else g\<lparr>g_status := Queued, g_retry_after := [], g_retry_count := 0, g_retry_reason := [], g_hold := []\<rparr>)"

definition create_grab :: "bool \<Rightarrow> codec \<Rightarrow> gostring \<Rightarrow> grab \<Rightarrow> grab_store \<Rightarrow> (grab_error + grab) \<times> grab_store" where
  "create_grab fault enc clock g0 db =
     (let g = normal_grab g0 in
      case encrypt_url enc (g_url g) of
        None \<Rightarrow> (Inl Db_error, db)
      | Some cipher \<Rightarrow>
          (let g' = g\<lparr>g_id := gs_next db, g_created := clock, g_updated := clock\<rparr>;
               row = g'\<lparr>g_url := cipher, g_flagged := False, g_flag_reason := [], g_scope := [], g_transport := 0,
                 g_origin := [], g_tried := []\<rparr>;
               rows = gs_rows db @ [row];
               db' = db\<lparr>gs_next := gs_next db + 1\<rparr>
           in if fault then (Inl Db_error, db)
              else if \<not> held_unique rows then (Inl (if g_hold g \<noteq> [] then Held_request_exists else Db_error), db')
              else (Inr g', db'\<lparr>gs_rows := rows\<rparr>)))"

definition update_status :: "bool \<Rightarrow> gostring \<Rightarrow> int \<Rightarrow> grab_status \<Rightarrow> grab_store \<Rightarrow> grab_error option \<times> grab_store" where
  "update_status fault clock n st = exec_update fault clock (with_id n) (\<lambda>g. g\<lparr>g_status := st\<rparr>)"

definition mark_imported_if_not ::
  "bool \<Rightarrow> codec \<Rightarrow> gostring \<Rightarrow> int \<Rightarrow> grab_store \<Rightarrow> (grab_error + bool) \<times> grab_store" where
  "mark_imported_if_not fault dec clock n db =
     (case exec_update fault clock (\<lambda>g. with_id n g \<and> g_status g \<noteq> Imported) (\<lambda>g. g\<lparr>g_status := Imported\<rparr>) db of
        (None, db') \<Rightarrow> (Inr True, db')
      | (Some No_grab, db') \<Rightarrow> (case get_grab dec n db' of Inl e \<Rightarrow> (Inl e, db') | Inr g \<Rightarrow> (Inr False, db'))
      | (Some e, db') \<Rightarrow> (Inl e, db'))"

definition flag_grab :: "bool \<Rightarrow> gostring \<Rightarrow> int \<Rightarrow> gostring \<Rightarrow> grab_store \<Rightarrow> grab_error option \<times> grab_store" where
  "flag_grab fault clock n reason =
     exec_update fault clock (with_id n) (\<lambda>g. g\<lparr>g_flagged := True, g_flag_reason := reason\<rparr>)"

definition set_download_gid :: "bool \<Rightarrow> gostring \<Rightarrow> int \<Rightarrow> gostring \<Rightarrow> grab_store \<Rightarrow> grab_error option \<times> grab_store" where
  "set_download_gid fault clock n gid = exec_update fault clock (with_id n) (\<lambda>g. g\<lparr>g_gid := gid\<rparr>)"

definition set_download_status ::
  "bool \<Rightarrow> gostring \<Rightarrow> int \<Rightarrow> gostring \<Rightarrow> gostring \<Rightarrow> grab_store \<Rightarrow> grab_error option \<times> grab_store" where
  "set_download_status fault clock n st path =
     exec_update fault clock (with_id n) (\<lambda>g. g\<lparr>g_dl_status := st, g_staging := path\<rparr>)"

text \<open>The row functions of the parks, and the operations.\<close>

definition park_row :: "gostring \<Rightarrow> gostring \<Rightarrow> grab \<Rightarrow> grab" where
  "park_row after reason g =
     g\<lparr>g_retry_count := g_retry_count g + 1, g_status := Pending_retry, g_retry_after := after, g_retry_reason := reason,
       g_gid := [], g_transport := 0, g_tried := []\<rparr>"

definition set_pending_retry ::
  "bool \<Rightarrow> gostring \<Rightarrow> int \<Rightarrow> gtime \<Rightarrow> gostring \<Rightarrow> grab_store \<Rightarrow> grab_error option \<times> grab_store" where
  "set_pending_retry fault clock n after reason =
     exec_update fault clock (with_id n) (park_row (format_time after) reason)"

definition set_pending_retry_with_scope ::
  "bool \<Rightarrow> gostring \<Rightarrow> int \<Rightarrow> gtime \<Rightarrow> gostring \<Rightarrow> gostring \<Rightarrow> grab_store \<Rightarrow> grab_error option \<times> grab_store" where
  "set_pending_retry_with_scope fault clock n after reason scope =
     exec_update fault clock (with_id n) (\<lambda>g. (park_row (format_time after) reason g)\<lparr>g_scope := scope\<rparr>)"

text \<open>The one update whose caller does not learn whether the row existed.\<close>

definition clear_next_search_scope :: "bool \<Rightarrow> gostring \<Rightarrow> int \<Rightarrow> grab_store \<Rightarrow> grab_error option \<times> grab_store" where
  "clear_next_search_scope fault clock n db =
     (case exec_update fault clock (with_id n) (\<lambda>g. g\<lparr>g_scope := []\<rparr>) db of
        (Some No_grab, db') \<Rightarrow> (None, db')
      | r \<Rightarrow> r)"

definition set_retry_after ::
  "bool \<Rightarrow> gostring \<Rightarrow> int \<Rightarrow> gtime \<Rightarrow> gostring \<Rightarrow> grab_store \<Rightarrow> grab_error option \<times> grab_store" where
  "set_retry_after fault clock n after reason =
     exec_update fault clock (with_id n) (\<lambda>g. g\<lparr>g_retry_after := format_time after, g_retry_reason := reason\<rparr>)"

definition promote_row :: "gostring \<Rightarrow> gostring \<Rightarrow> grab \<Rightarrow> grab" where
  "promote_row now reason g =
     g\<lparr>g_status := Pending_retry, g_retry_after := now, g_retry_reason := reason, g_gid := [],
       g_hold := (if g_hold g \<noteq> [] \<and> str_less now (g_hold g) then now else g_hold g)\<rparr>"

definition promote_to_front ::
  "bool \<Rightarrow> gostring \<Rightarrow> int \<Rightarrow> gtime \<Rightarrow> gostring \<Rightarrow> grab_store \<Rightarrow> grab_error option \<times> grab_store" where
  "promote_to_front fault clock n now reason =
     exec_update fault clock (\<lambda>g. with_id n g \<and> g_status g \<in> {Pending_retry, Queued})
       (promote_row (format_time now) reason)"

definition set_hold_until ::
  "bool \<Rightarrow> gostring \<Rightarrow> int \<Rightarrow> gtime \<Rightarrow> gostring \<Rightarrow> grab_store \<Rightarrow> grab_error option \<times> grab_store" where
  "set_hold_until fault clock n until reason =
     exec_update fault clock (with_id n) (\<lambda>g. g\<lparr>g_hold := format_time until, g_retry_reason := reason\<rparr>)"

definition rearm_held_request ::
  "bool \<Rightarrow> gostring \<Rightarrow> int \<Rightarrow> gtime \<Rightarrow> gostring \<Rightarrow> grab_store \<Rightarrow> grab_error option \<times> grab_store" where
  "rearm_held_request fault clock n until reason =
     exec_update fault clock (\<lambda>g. with_id n g \<and> g_status g = Failed \<and> g_hold g \<noteq> [])
       (\<lambda>g. g\<lparr>g_status := Pending_retry, g_gid := [], g_retry_after := [], g_hold := format_time until,
          g_retry_reason := reason\<rparr>)"

definition hold_for_release ::
  "bool \<Rightarrow> gostring \<Rightarrow> int \<Rightarrow> gtime \<Rightarrow> gostring \<Rightarrow> grab_store \<Rightarrow> grab_error option \<times> grab_store" where
  "hold_for_release fault clock n until reason =
     exec_update fault clock (\<lambda>g. with_id n g \<and> g_status g = Pending_retry)
       (\<lambda>g. g\<lparr>g_hold := format_time until, g_retry_after := [], g_retry_reason := reason\<rparr>)"

record dispatch =
  d_indexer :: gostring
  d_protocol :: gostring
  d_client :: gostring
  d_root :: gostring
  d_url :: gostring
  d_gid :: gostring

definition relaunch_row :: "dispatch \<Rightarrow> gostring \<Rightarrow> grab \<Rightarrow> grab" where
  "relaunch_row d cipher g =
     g\<lparr>g_status := Queued, g_indexer := d_indexer d, g_protocol := d_protocol d, g_client := d_client d, g_root := d_root d,
       g_url := cipher, g_transport := (if g_gid g = d_gid d then g_transport g else 0), g_gid := d_gid d,
       g_retry_after := [], g_retry_reason := []\<rparr>"

definition relaunch ::
  "bool \<Rightarrow> codec \<Rightarrow> gostring \<Rightarrow> int \<Rightarrow> dispatch \<Rightarrow> grab_store \<Rightarrow> grab_error option \<times> grab_store" where
  "relaunch fault enc clock n d db =
     (case encrypt_url enc (d_url d) of
        None \<Rightarrow> (Some Db_error, db)
      | Some cipher \<Rightarrow> exec_update fault clock (with_id n) (relaunch_row d cipher) db)"

definition set_origin :: "bool \<Rightarrow> gostring \<Rightarrow> int \<Rightarrow> gostring \<Rightarrow> grab_store \<Rightarrow> grab_error option \<times> grab_store" where
  "set_origin fault clock n origin = exec_update fault clock (with_id n) (\<lambda>g. g\<lparr>g_origin := origin\<rparr>)"

definition set_tmdb_id :: "bool \<Rightarrow> gostring \<Rightarrow> int \<Rightarrow> int \<Rightarrow> grab_store \<Rightarrow> grab_error option \<times> grab_store" where
  "set_tmdb_id fault clock n tmdb db =
     (if tmdb \<le> 0 then (Some Bad_tmdb_id, db)
      else exec_update fault clock (with_id n) (\<lambda>g. g\<lparr>g_tmdb := tmdb\<rparr>) db)"

definition set_monitor_entity_key :: "bool \<Rightarrow> gostring \<Rightarrow> int \<Rightarrow> gostring \<Rightarrow> grab_store \<Rightarrow> grab_error option \<times> grab_store" where
  "set_monitor_entity_key fault clock n k = exec_update fault clock (with_id n) (\<lambda>g. g\<lparr>g_monitor_key := k\<rparr>)"

definition resume_row :: "gostring \<Rightarrow> gostring \<Rightarrow> grab \<Rightarrow> grab" where
  "resume_row after reason g = g\<lparr>g_status := Pending_retry, g_retry_after := after, g_retry_reason := reason\<rparr>"

definition park_for_transport_resume ::
  "bool \<Rightarrow> gostring \<Rightarrow> int \<Rightarrow> gtime \<Rightarrow> gostring \<Rightarrow> grab_store \<Rightarrow> grab_error option \<times> grab_store" where
  "park_for_transport_resume fault clock n after reason =
     exec_update fault clock (with_id n)
       (\<lambda>g. (resume_row (format_time after) reason g)\<lparr>g_transport := g_transport g + 1\<rparr>)"

definition park_for_shutdown_resume ::
  "bool \<Rightarrow> gostring \<Rightarrow> int \<Rightarrow> gtime \<Rightarrow> gostring \<Rightarrow> grab_store \<Rightarrow> grab_error option \<times> grab_store" where
  "park_for_shutdown_resume fault clock n after reason =
     exec_update fault clock (with_id n) (resume_row (format_time after) reason)"

end
