(* ===== verification/Grab_Runs.thy ===== *)
theory Grab_Runs
  imports Grabs
begin

text \<open>
  \<open>internal/grabs/retry.go\<close> and \<open>alternate.go\<close>: the backoff ladders, the keys of
  releases already tried, and what every sequence of operations on the table keeps: held requests stay
  held until their date, are promoted once, and are found again however far they have travelled.
\<close>

section \<open>The ladders\<close>

definition max_transport_retries :: int where "max_transport_retries = 4"

definition transport_backoff :: "int \<Rightarrow> duration" where
  "transport_backoff n =
     (if n = 1 then 2 * minute else if n = 2 then 5 * minute else if n = 3 then 15 * minute
      else if n = 4 then 30 * minute else 0)"

definition retry_backoff :: "int \<Rightarrow> duration" where
  "retry_backoff n =
     (if n \<le> 0 then 24 * hour else if n = 1 then 3 * 24 * hour else if n = 2 then 10 * 24 * hour
      else if n = 3 then 30 * 24 * hour else if n = 4 then 60 * 24 * hour else 90 * 24 * hour)"

definition park_with_backoff ::
  "bool \<Rightarrow> codec \<Rightarrow> gostring \<Rightarrow> int \<Rightarrow> gtime \<Rightarrow> gostring \<Rightarrow> grab_store \<Rightarrow> grab_error option \<times> grab_store" where
  "park_with_backoff fault dec clock n now reason db =
     (case get_grab dec n db of
        Inl e \<Rightarrow> (Some e, db)
      | Inr g \<Rightarrow> set_pending_retry fault clock n (now + retry_backoff (g_retry_count g + 1)) reason db)"

section \<open>Keys of tried releases\<close>

text \<open>\<open>strings.Fields\<close>, on ASCII; \<open>word\<close> is the word being read, backwards.\<close>

fun fields_from :: "gostring \<Rightarrow> gostring \<Rightarrow> gostring list" where
  "fields_from word [] = (if word = [] then [] else [rev word])"
| "fields_from word (c # cs) =
     (if is_space c then (if word = [] then fields_from [] cs else rev word # fields_from [] cs)
      else fields_from (c # word) cs)"

definition normalise_title :: "gostring \<Rightarrow> gostring" where
  "normalise_title s = join_on (CHR '' '') (fields_from [] (to_lower s))"

text \<open>\<open>sha8\<close> is the first eight bytes of the SHA-256 of a text, in hexadecimal.\<close>

definition release_keys :: "(gostring \<Rightarrow> gostring) \<Rightarrow> gostring \<Rightarrow> gostring \<Rightarrow> gostring list" where
  "release_keys sha8 url title =
     (if url \<noteq> [] then [''u:'' @ sha8 url] else []) @
     (if title \<noteq> [] \<and> normalise_title title \<noteq> [] then [''t:'' @ sha8 (normalise_title title)] else [])"

definition group_key :: "gostring \<Rightarrow> gostring" where
  "group_key name = (let g = to_lower (trim_space name) in if g = [] then [] else ''g:'' @ g)"

definition parse_tried :: "gostring \<Rightarrow> gostring list" where
  "parse_tried s = (if s = [] then [] else filter (\<lambda>l. l \<noteq> []) (map trim_space (split_on (CHR 0x0A) s)))"

definition format_tried :: "gostring list \<Rightarrow> gostring" where
  "format_tried keys = join_on (CHR 0x0A) keys"

fun alternate_attempts :: "gostring list \<Rightarrow> int" where
  "alternate_attempts [] = 0"
| "alternate_attempts (k # ks) = (if has_prefix ''u:'' k then 1 + alternate_attempts ks else alternate_attempts ks)"

text \<open>The keys seen so far are those of the output.\<close>

fun append_keys :: "gostring list \<Rightarrow> gostring list \<Rightarrow> gostring list" where
  "append_keys out [] = out"
| "append_keys out (k # ks) = (if k \<in> set out then append_keys out ks else append_keys (out @ [k]) ks)"

text \<open>The park for an alternate release: a read, then one update with what was read.\<close>

definition tried_release_keys :: "int \<Rightarrow> grab_store \<Rightarrow> grab_error + gostring list" where
  "tried_release_keys n db =
     (case filter (with_id n) (gs_rows db) of [] \<Rightarrow> Inl Db_error | r # rs \<Rightarrow> Inr (parse_tried (g_tried r)))"

definition alternate_row :: "gostring \<Rightarrow> gostring \<Rightarrow> gostring \<Rightarrow> grab \<Rightarrow> grab" where
  "alternate_row after reason merged g =
     g\<lparr>g_status := Pending_retry, g_retry_after := after, g_retry_reason := reason, g_gid := [], g_transport := 0,
       g_tried := merged\<rparr>"

definition alternate_write ::
  "bool \<Rightarrow> gostring \<Rightarrow> int \<Rightarrow> gtime \<Rightarrow> gostring \<Rightarrow> gostring list \<Rightarrow> gostring list \<Rightarrow> grab_store \<Rightarrow> grab_error option \<times> grab_store" where
  "alternate_write fault clock n after reason existing new_keys =
     exec_update fault clock (with_id n)
       (alternate_row (format_time after) reason (format_tried (append_keys existing new_keys)))"

definition park_for_alternate_release ::
  "bool \<Rightarrow> gostring \<Rightarrow> int \<Rightarrow> gtime \<Rightarrow> gostring \<Rightarrow> gostring list \<Rightarrow> grab_store \<Rightarrow> grab_error option \<times> grab_store" where
  "park_for_alternate_release fault clock n after reason new_keys db =
     (case tried_release_keys n db of
        Inl e \<Rightarrow> (Some e, db)
      | Inr existing \<Rightarrow> alternate_write fault clock n after reason existing new_keys db)"

section \<open>Sequences of operations\<close>

datatype grab_act =
    A_create grab
  | A_status int grab_status
  | A_imported int
  | A_flag int gostring
  | A_gid int gostring
  | A_download int gostring gostring
  | A_park int gtime gostring
  | A_park_scope int gtime gostring gostring
  | A_clear_scope int
  | A_retry_after int gtime gostring
  | A_promote int gtime gostring
  | A_hold int gtime gostring
  | A_rearm int gtime gostring
  | A_hold_release int gtime gostring
  | A_relaunch int dispatch
  | A_origin int gostring
  | A_tmdb int int
  | A_monitor int gostring
  | A_transport int gtime gostring
  | A_shutdown int gtime gostring
  | A_alternate int gtime gostring "gostring list"
  | A_backoff int gtime gostring

text \<open>One operation, with its failure and the database clock.\<close>

fun act :: "codec \<Rightarrow> codec \<Rightarrow> bool \<Rightarrow> gostring \<Rightarrow> grab_act \<Rightarrow> grab_store \<Rightarrow> grab_store" where
  "act enc dec f c (A_create g) db = snd (create_grab f enc c g db)"
| "act enc dec f c (A_status n st) db = snd (update_status f c n st db)"
| "act enc dec f c (A_imported n) db = snd (mark_imported_if_not f dec c n db)"
| "act enc dec f c (A_flag n r) db = snd (flag_grab f c n r db)"
| "act enc dec f c (A_gid n gid) db = snd (set_download_gid f c n gid db)"
| "act enc dec f c (A_download n st p) db = snd (set_download_status f c n st p db)"
| "act enc dec f c (A_park n t r) db = snd (set_pending_retry f c n t r db)"
| "act enc dec f c (A_park_scope n t r sc) db = snd (set_pending_retry_with_scope f c n t r sc db)"
| "act enc dec f c (A_clear_scope n) db = snd (clear_next_search_scope f c n db)"
| "act enc dec f c (A_retry_after n t r) db = snd (set_retry_after f c n t r db)"
| "act enc dec f c (A_promote n t r) db = snd (promote_to_front f c n t r db)"
| "act enc dec f c (A_hold n t r) db = snd (set_hold_until f c n t r db)"
| "act enc dec f c (A_rearm n t r) db = snd (rearm_held_request f c n t r db)"
| "act enc dec f c (A_hold_release n t r) db = snd (hold_for_release f c n t r db)"
| "act enc dec f c (A_relaunch n d) db = snd (relaunch f enc c n d db)"
| "act enc dec f c (A_origin n x) db = snd (set_origin f c n x db)"
| "act enc dec f c (A_tmdb n x) db = snd (set_tmdb_id f c n x db)"
| "act enc dec f c (A_monitor n x) db = snd (set_monitor_entity_key f c n x db)"
| "act enc dec f c (A_transport n t r) db = snd (park_for_transport_resume f c n t r db)"
| "act enc dec f c (A_shutdown n t r) db = snd (park_for_shutdown_resume f c n t r db)"
| "act enc dec f c (A_alternate n t r ks) db = snd (park_for_alternate_release f c n t r ks db)"
| "act enc dec f c (A_backoff n t r) db = snd (park_with_backoff f dec c n t r db)"

type_synonym grab_call = "bool \<times> gostring \<times> grab_act"

definition run :: "codec \<Rightarrow> codec \<Rightarrow> grab_call list \<Rightarrow> grab_store \<Rightarrow> grab_store" where
  "run enc dec calls db = foldl (\<lambda>db (f, c, a). act enc dec f c a db) db calls"

lemma run_Nil [simp]: "run enc dec [] db = db"
  by (simp add: run_def)

lemma run_Cons [simp]: "run enc dec ((f, c, a) # calls) db = run enc dec calls (act enc dec f c a db)"
  by (simp add: run_def)

section \<open>What one operation does to a row\<close>

fun writes_hold :: "grab_act \<Rightarrow> int set" where
  "writes_hold (A_promote n t r) = {n}"
| "writes_hold (A_hold n t r) = {n}"
| "writes_hold (A_rearm n t r) = {n}"
| "writes_hold (A_hold_release n t r) = {n}"
| "writes_hold _ = {}"

fun reholds :: "grab_act \<Rightarrow> int set" where
  "reholds (A_rearm n t r) = {n}"
| "reholds (A_hold_release n t r) = {n}"
| "reholds _ = {}"

fun writes_tmdb :: "grab_act \<Rightarrow> int set" where
  "writes_tmdb (A_tmdb n x) = {n}"
| "writes_tmdb _ = {}"

text \<open>
  How the callers use the three operations that take a state as an argument: a dispatch has a download
  id, and a status is never set to \<open>pending_retry\<close> but by a park.
\<close>

fun well_used :: "grab_act \<Rightarrow> bool" where
  "well_used (A_gid n gid) = (gid \<noteq> [])"
| "well_used (A_status n st) = (st \<noteq> Pending_retry)"
| "well_used (A_relaunch n d) = (d_gid d \<noteq> [])"
| "well_used _ = True"

text \<open>A row that has been searched, dispatched or ended: no longer one that only waits for its date.\<close>

definition attempted :: "grab \<Rightarrow> bool" where
  "attempted g \<longleftrightarrow> g_status g \<noteq> Pending_retry \<or> g_gid g \<noteq> [] \<or> g_retry_after g \<noteq> []"

definition keeps :: "grab_act \<Rightarrow> grab \<Rightarrow> grab \<Rightarrow> bool" where
  "keeps a g g' \<longleftrightarrow>
     g_id g' = g_id g \<and> g_mode g' = g_mode g \<and> (g_hold g \<noteq> [] \<longrightarrow> g_hold g' \<noteq> []) \<and>
     (g_id g \<notin> writes_hold a \<longrightarrow> g_hold g' = g_hold g) \<and>
     (g_id g \<notin> writes_tmdb a \<longrightarrow> g_tmdb g' = g_tmdb g) \<and>
     (well_used a \<and> g_id g \<notin> reholds a \<and> attempted g \<longrightarrow> attempted g')"

definition row_step :: "(grab \<Rightarrow> grab \<Rightarrow> bool) \<Rightarrow> grab_store \<Rightarrow> grab_store \<Rightarrow> bool" where
  "row_step R db db' \<longleftrightarrow> list_all2 R (gs_rows db) (gs_rows db') \<and> gs_next db' = gs_next db"

lemma keeps_refl [simp]: "keeps a g g"
  by (simp add: keeps_def)

lemma row_step_refl: "(\<And>g. R g g) \<Longrightarrow> row_step R db db"
  by (simp add: row_step_def list.rel_refl)

lemma exec_step:
  assumes "\<And>g. R g g" and "\<And>g. p g \<Longrightarrow> R g ((h g)\<lparr>g_updated := c\<rparr>)"
  shows "row_step R db (snd (exec_update f c p h db))"
proof -
  have "list_all2 R rows (update_rows p (\<lambda>g. (h g)\<lparr>g_updated := c\<rparr>) rows)" for rows
    using assms by (induction rows) (auto simp: update_rows_def)
  then show ?thesis using row_step_refl [of R db] assms(1) by (simp add: exec_update_def Let_def row_step_def)
qed

named_theorems grab_ops

lemmas [grab_ops] = update_status_def flag_grab_def set_download_gid_def set_download_status_def set_pending_retry_def
  set_pending_retry_with_scope_def set_retry_after_def promote_to_front_def set_hold_until_def rearm_held_request_def
  hold_for_release_def set_origin_def set_monitor_entity_key_def park_for_transport_resume_def
  park_for_shutdown_resume_def alternate_write_def

named_theorems row_functions

lemmas [row_functions] = park_row_def promote_row_def relaunch_row_def resume_row_def alternate_row_def

lemma act_keeps:
  assumes "\<And>g. a \<noteq> A_create g"
  shows "row_step (keeps a) db (act enc dec f c a db)"
proof (cases a)
  case (A_imported n)
  have "snd (mark_imported_if_not f dec c n db) =
      snd (exec_update f c (\<lambda>g. with_id n g \<and> g_status g \<noteq> Imported) (\<lambda>g. g\<lparr>g_status := Imported\<rparr>) db)"
    by (auto simp: mark_imported_if_not_def split: prod.split option.split grab_error.split sum.split)
  then show ?thesis by (simp add: A_imported) (rule exec_step, simp, simp add: keeps_def attempted_def)
next
  case (A_clear_scope n)
  have "snd (clear_next_search_scope f c n db) = snd (exec_update f c (with_id n) (\<lambda>g. g\<lparr>g_scope := []\<rparr>) db)"
    by (auto simp: clear_next_search_scope_def split: prod.split option.split grab_error.split)
  then show ?thesis by (simp add: A_clear_scope) (rule exec_step, simp, simp add: keeps_def attempted_def)
next
  case (A_relaunch n d)
  show ?thesis
  proof (cases "encrypt_url enc (d_url d)")
    case None
    then show ?thesis by (simp add: A_relaunch relaunch_def row_step_refl)
  next
    case (Some u)
    then show ?thesis
      by (simp add: A_relaunch relaunch_def) (rule exec_step, simp, simp add: keeps_def attempted_def relaunch_row_def)
  qed
next
  case (A_tmdb n x)
  show ?thesis
  proof (cases "x \<le> 0")
    case True
    then show ?thesis by (simp add: A_tmdb set_tmdb_id_def row_step_refl)
  next
    case False
    then show ?thesis
      by (simp add: A_tmdb set_tmdb_id_def) (rule exec_step, simp, simp add: keeps_def attempted_def with_id_def)
  qed
next
  case (A_alternate n t r ks)
  show ?thesis
  proof (cases "tried_release_keys n db")
    case (Inl e)
    then show ?thesis by (simp add: A_alternate park_for_alternate_release_def row_step_refl)
  next
    case (Inr existing)
    then show ?thesis
      by (simp add: A_alternate park_for_alternate_release_def alternate_write_def)
        (rule exec_step, simp, simp add: keeps_def attempted_def alternate_row_def)
  qed
next
  case (A_backoff n t r)
  show ?thesis
  proof (cases "get_grab dec n db")
    case (Inl e)
    then show ?thesis by (simp add: A_backoff park_with_backoff_def row_step_refl)
  next
    case (Inr g)
    then show ?thesis
      by (simp add: A_backoff park_with_backoff_def set_pending_retry_def)
        (rule exec_step, simp, simp add: keeps_def attempted_def park_row_def)
  qed
qed (use assms in \<open>simp_all add: grab_ops\<close>,
  (rule exec_step, simp, simp add: keeps_def attempted_def with_id_def row_functions)+)

section \<open>What the table keeps\<close>

text \<open>Ids grow and are never reused; held requests are unique.\<close>

definition table_ok :: "grab_store \<Rightarrow> bool" where
  "table_ok db \<longleftrightarrow> sorted_wrt (<) (map g_id (gs_rows db)) \<and> (\<forall>g\<in>set (gs_rows db). g_id g < gs_next db) \<and>
     held_unique (gs_rows db)"

lemma table_ok_empty [simp]: "table_ok empty_store"
  by (simp add: table_ok_def empty_store_def held_unique_def)

lemma keeps_ids: "list_all2 (keeps a) rows rows' \<Longrightarrow> map g_id rows' = map g_id rows"
  by (induction rule: list_all2_induct) (auto simp: keeps_def)

lemma create_grab_cases:
  "create_grab f enc c g db = (r, db') \<Longrightarrow>
     (gs_rows db' = gs_rows db \<and> gs_next db \<le> gs_next db' \<and> (\<exists>e. r = Inl e)) \<or>
     (\<exists>row. gs_rows db' = gs_rows db @ [row] \<and> g_id row = gs_next db \<and> gs_next db' = gs_next db + 1 \<and>
       held_unique (gs_rows db') \<and> (\<exists>g'. r = Inr g' \<and> g_id g' = gs_next db))"
  by (auto simp: create_grab_def Let_def split: option.splits if_splits)

text \<open>One operation keeps the rows there are, in their places, and adds at most one at the end.\<close>

lemma act_rows:
  "\<exists>old new. gs_rows (act enc dec f c a db) = old @ new \<and> list_all2 (keeps a) (gs_rows db) old \<and>
     (new = [] \<and> gs_next db \<le> gs_next (act enc dec f c a db) \<or>
      (\<exists>row. new = [row] \<and> g_id row = gs_next db \<and> gs_next (act enc dec f c a db) = gs_next db + 1))"
proof (cases "\<exists>g. a = A_create g")
  case True
  then obtain g where a: "a = A_create g" by blast
  obtain r db' where cr: "create_grab f enc c g db = (r, db')" by (cases "create_grab f enc c g db")
  then have act: "act enc dec f c a db = db'" by (simp add: a)
  have refl: "list_all2 (keeps a) rows rows" for rows by (simp add: list.rel_refl)
  from create_grab_cases [OF cr] show ?thesis
  proof (elim disjE exE conjE)
    fix e assume "gs_rows db' = gs_rows db" "gs_next db \<le> gs_next db'"
    then show ?thesis using refl [of "gs_rows db"] unfolding act by (intro exI [of _ "gs_rows db"] exI [of _ "[]"]) simp
  next
    fix row g' assume "gs_rows db' = gs_rows db @ [row]" "g_id row = gs_next db" "gs_next db' = gs_next db + 1"
    then show ?thesis using refl [of "gs_rows db"] unfolding act by (intro exI [of _ "gs_rows db"] exI [of _ "[row]"]) simp
  qed
next
  case False
  then have "row_step (keeps a) db (act enc dec f c a db)" by (intro act_keeps) blast
  then show ?thesis unfolding row_step_def
    by (intro exI [of _ "gs_rows (act enc dec f c a db)"] exI [of _ "[]"]) simp
qed

lemma exec_held_unique: "held_unique (gs_rows db) \<Longrightarrow> held_unique (gs_rows (snd (exec_update f c p h db)))"
  by (simp add: exec_update_def Let_def)

lemma act_held_unique: "held_unique (gs_rows db) \<Longrightarrow> held_unique (gs_rows (act enc dec f c a db))"
proof (cases a)
  case (A_create g)
  obtain r db' where "create_grab f enc c g db = (r, db')" by (cases "create_grab f enc c g db")
  moreover assume "held_unique (gs_rows db)"
  ultimately show ?thesis using create_grab_cases [of f enc c g db r db'] A_create by auto
next
  case (A_imported n)
  moreover have "snd (mark_imported_if_not f dec c n db) =
      snd (exec_update f c (\<lambda>g. with_id n g \<and> g_status g \<noteq> Imported) (\<lambda>g. g\<lparr>g_status := Imported\<rparr>) db)"
    by (auto simp: mark_imported_if_not_def split: prod.split option.split grab_error.split sum.split)
  ultimately show "held_unique (gs_rows db) \<Longrightarrow> ?thesis" by (simp add: exec_held_unique)
next
  case (A_clear_scope n)
  moreover have "snd (clear_next_search_scope f c n db) = snd (exec_update f c (with_id n) (\<lambda>g. g\<lparr>g_scope := []\<rparr>) db)"
    by (auto simp: clear_next_search_scope_def split: prod.split option.split grab_error.split)
  ultimately show "held_unique (gs_rows db) \<Longrightarrow> ?thesis" by (simp add: exec_held_unique)
qed (simp_all add: grab_ops exec_held_unique relaunch_def set_tmdb_id_def park_for_alternate_release_def park_with_backoff_def
    split: option.split sum.split)

lemma act_table_ok: "table_ok db \<Longrightarrow> table_ok (act enc dec f c a db)"
proof -
  assume ok: "table_ok db"
  let ?db = "act enc dec f c a db"
  obtain old new where new: "gs_rows ?db = old @ new" "list_all2 (keeps a) (gs_rows db) old"
    "new = [] \<and> gs_next db \<le> gs_next ?db \<or> (\<exists>row. new = [row] \<and> g_id row = gs_next db \<and> gs_next ?db = gs_next db + 1)"
    using act_rows [of enc dec f c a db] by blast
  have ids: "map g_id (gs_rows ?db) = map g_id (gs_rows db) @ map g_id new"
    unfolding new(1) using keeps_ids [OF new(2)] by simp
  have below: "\<forall>x\<in>set (map g_id (gs_rows db)). x < gs_next db" using ok by (auto simp: table_ok_def)
  have s: "sorted_wrt (<) (map g_id (gs_rows db))" using ok by (simp add: table_ok_def)
  have "sorted_wrt (<) (map g_id (gs_rows ?db))" unfolding ids sorted_wrt_append using s below new(3) by auto
  moreover have "\<forall>x\<in>set (map g_id (gs_rows ?db)). x < gs_next ?db" unfolding ids using below new(3) by auto
  ultimately show ?thesis using ok act_held_unique [of db] by (auto simp: table_ok_def)
qed

lemma run_table_ok: "table_ok db \<Longrightarrow> table_ok (run enc dec calls db)"
proof (induction calls arbitrary: db)
  case (Cons call calls)
  then show ?case by (cases call) (simp add: act_table_ok)
qed simp

text \<open>A row and what has become of it: the only row with its id.\<close>

definition row_of :: "int \<Rightarrow> grab_store \<Rightarrow> grab option" where
  "row_of n db = find (with_id n) (gs_rows db)"

lemma row_of_Some: "row_of n db = Some g \<Longrightarrow> g \<in> set (gs_rows db) \<and> g_id g = n"
  by (auto simp: row_of_def find_Some_iff with_id_def)

lemma row_of_unique: "table_ok db \<Longrightarrow> g \<in> set (gs_rows db) \<Longrightarrow> row_of (g_id g) db = Some g"
proof -
  assume ok: "table_ok db" and g: "g \<in> set (gs_rows db)"
  have "distinct (map g_id (gs_rows db))" using ok strict_sorted_iff by (auto simp: table_ok_def)
  then have "\<forall>h\<in>set (gs_rows db). g_id h = g_id g \<longrightarrow> h = g" using g by (auto simp: distinct_map inj_on_def)
  then show ?thesis using g
    by (cases "row_of (g_id g) db") (auto simp: row_of_def find_None_iff find_Some_iff with_id_def)
qed

lemma find_keeps:
  "list_all2 (keeps a) rows rows' \<Longrightarrow> find (with_id n) rows = Some g \<Longrightarrow>
     \<exists>g'. find (with_id n) (rows' @ new) = Some g' \<and> keeps a g g'"
proof (induction rule: list_all2_induct)
  case (Cons r rs r' rs')
  have "g_id r' = g_id r" using Cons.hyps(1) by (simp add: keeps_def)
  then show ?case using Cons by (auto simp: with_id_def split: if_splits)
qed simp

lemma act_row: "row_of n db = Some g \<Longrightarrow> \<exists>g'. row_of n (act enc dec f c a db) = Some g' \<and> keeps a g g'"
proof -
  assume g: "row_of n db = Some g"
  obtain old new where rows: "gs_rows (act enc dec f c a db) = old @ new" "list_all2 (keeps a) (gs_rows db) old"
    using act_rows [of enc dec f c a db] by blast
  show ?thesis using find_keeps [OF rows(2), of n g new] g by (simp add: row_of_def rows(1))
qed

text \<open>What any sequence of operations keeps of a row.\<close>

lemma run_row:
  assumes "row_of n db = Some g"
  shows "\<exists>g'. row_of n (run enc dec calls db) = Some g' \<and> g_mode g' = g_mode g \<and> (g_hold g \<noteq> [] \<longrightarrow> g_hold g' \<noteq> []) \<and>
    ((\<forall>(f, c, a)\<in>set calls. n \<notin> writes_hold a) \<longrightarrow> g_hold g' = g_hold g) \<and>
    ((\<forall>(f, c, a)\<in>set calls. n \<notin> writes_tmdb a) \<longrightarrow> g_tmdb g' = g_tmdb g) \<and>
    ((\<forall>(f, c, a)\<in>set calls. well_used a \<and> n \<notin> reholds a) \<longrightarrow> attempted g \<longrightarrow> attempted g')"
  using assms
proof (induction calls arbitrary: db g)
  case (Cons call calls)
  obtain f c a where call: "call = (f, c, a)" by (cases call)
  obtain g1 where g1: "row_of n (act enc dec f c a db) = Some g1" "keeps a g g1" using act_row [OF Cons.prems] by blast
  have n: "g_id g = n" using row_of_Some [OF Cons.prems] by simp
  note k = g1(2) [unfolded keeps_def n]
  obtain g' where h: "row_of n (run enc dec calls (act enc dec f c a db)) = Some g'"
    "g_mode g' = g_mode g1" "g_hold g1 \<noteq> [] \<longrightarrow> g_hold g' \<noteq> []"
    "(\<forall>(f, c, a)\<in>set calls. n \<notin> writes_hold a) \<longrightarrow> g_hold g' = g_hold g1"
    "(\<forall>(f, c, a)\<in>set calls. n \<notin> writes_tmdb a) \<longrightarrow> g_tmdb g' = g_tmdb g1"
    "(\<forall>(f, c, a)\<in>set calls. well_used a \<and> n \<notin> reholds a) \<longrightarrow> attempted g1 \<longrightarrow> attempted g'"
    using Cons.IH [OF g1(1)] by blast
  show ?case
  proof (intro exI [of _ g'] conjI)
    show "row_of n (run enc dec (call # calls) db) = Some g'" using h(1) by (simp add: call)
    show "g_mode g' = g_mode g" "g_hold g \<noteq> [] \<longrightarrow> g_hold g' \<noteq> []" using h(2,3) k by simp_all
    show "(\<forall>(f, c, a)\<in>set (call # calls). n \<notin> writes_hold a) \<longrightarrow> g_hold g' = g_hold g" using h(4) k by (simp add: call)
    show "(\<forall>(f, c, a)\<in>set (call # calls). n \<notin> writes_tmdb a) \<longrightarrow> g_tmdb g' = g_tmdb g" using h(5) k by (simp add: call)
    show "(\<forall>(f, c, a)\<in>set (call # calls). well_used a \<and> n \<notin> reholds a) \<longrightarrow> attempted g \<longrightarrow> attempted g'"
      using h(6) k by (simp add: call)
  qed
qed simp

end
