(* ===== verification/Grab_Facts.thy ===== *)
theory Grab_Facts
  imports Grab_Runs
begin

text \<open>
  What the operations on the grabs table guarantee, and where they do not: the three due queries, held
  requests, promotion, the keys of tried releases and the transport ladder.
\<close>

section \<open>The due queries\<close>

lemma str_less_total_order:
  "str_less xs ys \<Longrightarrow> str_less xs zs \<or> str_less zs ys"
  using str_less_linear [of zs ys] str_less_trans [of xs ys zs] by blast

interpretation row_order: weak_order "row_before k" for k
proof
  fix x y z
  show "row_before k x y \<Longrightarrow> \<not> row_before k y x"
    unfolding row_before_def using str_less_trans [of "k x" "k y" "k x"] str_less_irrefl [of "k x"] by (metis less_asym)
  show "row_before k x y \<Longrightarrow> row_before k x z \<or> row_before k z y"
    unfolding row_before_def using str_less_total_order [of "k x" "k y" "k z"] str_less_linear [of "k x" "k z"]
    by (metis less_linear less_trans)
qed

lemma scan_grab_fields:
  assumes "scan_grab dec r = Some g"
  shows "g_id g = g_id r" "retry_due now g = retry_due now r" "release_due now g = release_due now r"
    "resume_due now g = resume_due now r" "g_mode g = g_mode r" "g_tmdb g = g_tmdb r" "g_hold g = g_hold r"
  using assms by (auto simp: scan_grab_def retry_due_def release_due_def resume_due_def hold_passed_def
      split: if_splits option.splits)

lemma scan_grabs_rows:
  "scan_grabs dec rs = Some gs \<Longrightarrow> g \<in> set gs \<Longrightarrow> \<exists>r\<in>set rs. scan_grab dec r = Some g"
  by (induction rs arbitrary: gs) (auto split: option.splits)

lemma due_scan:
  assumes "scan_grabs dec (sort_by lt (filter P rows)) = Some gs" and "g \<in> set gs"
  shows "\<exists>r\<in>set rows. g_id r = g_id g \<and> P r"
proof -
  obtain r where "r \<in> set (sort_by lt (filter P rows))" "scan_grab dec r = Some g"
    using scan_grabs_rows [OF assms] by blast
  then show ?thesis using scan_grab_fields(1) [of dec r g] by (intro bexI [of _ r]) simp_all
qed

lemma due_rows:
  "due_for_retry dec now db = Some gs \<Longrightarrow> g \<in> set gs \<Longrightarrow>
     \<exists>r\<in>set (gs_rows db). g_id r = g_id g \<and> retry_due (format_time now) r"
  "due_for_release dec now db = Some gs \<Longrightarrow> g \<in> set gs \<Longrightarrow>
     \<exists>r\<in>set (gs_rows db). g_id r = g_id g \<and> release_due (format_time now) r"
  "due_for_resume dec now db = Some gs \<Longrightarrow> g \<in> set gs \<Longrightarrow>
     \<exists>r\<in>set (gs_rows db). g_id r = g_id g \<and> resume_due (format_time now) r"
  unfolding due_for_retry_def due_for_release_def due_for_resume_def by (rule due_scan, assumption+)+

lemma due_row:
  assumes "table_ok db" and "row_of n db = Some g"
  shows "due_for_retry dec now db = Some gs \<Longrightarrow> n \<in> g_id ` set gs \<Longrightarrow> retry_due (format_time now) g"
    and "due_for_release dec now db = Some gs \<Longrightarrow> n \<in> g_id ` set gs \<Longrightarrow> release_due (format_time now) g"
    and "due_for_resume dec now db = Some gs \<Longrightarrow> n \<in> g_id ` set gs \<Longrightarrow> resume_due (format_time now) g"
proof -
  have u: "r = g" if "r \<in> set (gs_rows db)" "g_id r = n" for r
    using row_of_unique [OF assms(1) that(1)] that(2) assms(2) by simp
  show "due_for_retry dec now db = Some gs \<Longrightarrow> n \<in> g_id ` set gs \<Longrightarrow> retry_due (format_time now) g"
    using u due_rows(1) [of dec now db gs] by fastforce
  show "due_for_release dec now db = Some gs \<Longrightarrow> n \<in> g_id ` set gs \<Longrightarrow> release_due (format_time now) g"
    using u due_rows(2) [of dec now db gs] by fastforce
  show "due_for_resume dec now db = Some gs \<Longrightarrow> n \<in> g_id ` set gs \<Longrightarrow> resume_due (format_time now) g"
    using u due_rows(3) [of dec now db gs] by fastforce
qed

lemma due_kinds_exclusive:
  "\<not> (retry_due s g \<and> release_due t g)" "\<not> (retry_due s g \<and> resume_due t g)" "\<not> (release_due s g \<and> resume_due t g)"
  by (auto simp: retry_due_def release_due_def resume_due_def)

lemma due_row_exists:
  assumes "table_ok db" and "due_for_retry dec t db = Some gs \<or> due_for_release dec t db = Some gs \<or> due_for_resume dec t db = Some gs"
    and "n \<in> g_id ` set gs"
  shows "\<exists>g. row_of n db = Some g"
proof -
  obtain r where "r \<in> set (gs_rows db)" "g_id r = n" using assms(2,3) due_rows [of dec t db gs] by fastforce
  then show ?thesis using row_of_unique [OF assms(1)] by blast
qed

text \<open>
  A row is on at most one track: whatever the three clocks, no row is due for retry, for release and for
  a transport resume twice.
\<close>

theorem due_lists_disjoint:
  assumes "table_ok db"
    and "due_for_retry dec t1 db = Some a" and "due_for_release dec t2 db = Some b" and "due_for_resume dec t3 db = Some c"
  shows "g_id ` set a \<inter> g_id ` set b = {} \<and> g_id ` set a \<inter> g_id ` set c = {} \<and> g_id ` set b \<inter> g_id ` set c = {}"
proof -
  note facts = due_row [OF assms(1)] due_row_exists [OF assms(1)] due_kinds_exclusive
  have "n \<notin> g_id ` set b" if "n \<in> g_id ` set a" for n
    using facts(1) [OF _ assms(2)] facts(2) [OF _ assms(3)] facts(4) [of dec t1 a n] assms(2) that facts(5) by blast
  moreover have "n \<notin> g_id ` set c" if "n \<in> g_id ` set a" for n
    using facts(1) [OF _ assms(2)] facts(3) [OF _ assms(4)] facts(4) [of dec t1 a n] assms(2) that facts(6) by blast
  moreover have "n \<notin> g_id ` set c" if "n \<in> g_id ` set b" for n
    using facts(2) [OF _ assms(3)] facts(3) [OF _ assms(4)] facts(4) [of dec t2 b n] assms(3) that facts(7) by blast
  ultimately show ?thesis by blast
qed

section \<open>Held requests\<close>

lemma not_yet: "in_layout now \<Longrightarrow> in_layout d \<Longrightarrow> millis now < millis d \<Longrightarrow> \<not> str_le (format_time d) (format_time now)"
  by (simp add: format_le)

text \<open>
  C18. A held row is not searched before its date: however the table is used in between, as long as nobody
  rewrites this row's hold, no due query returns it at an earlier time.
\<close>

theorem held_until_date:
  assumes "table_ok db" and "row_of n db = Some g" and "g_hold g = format_time d"
    and "\<forall>(f, c, a)\<in>set calls. n \<notin> writes_hold a"
    and "in_layout now" and "in_layout d" and "millis now < millis d"
    and "due_for_retry dec now (run enc dec calls db) = Some gs \<or> due_for_release dec now (run enc dec calls db) = Some gs \<or>
      due_for_resume dec now (run enc dec calls db) = Some gs"
  shows "n \<notin> g_id ` set gs"
proof
  assume n: "n \<in> g_id ` set gs"
  obtain g' where g': "row_of n (run enc dec calls db) = Some g'" "g_hold g' = format_time d"
    using run_row [OF assms(2), of enc dec calls] assms(3,4) by auto
  have "\<not> hold_passed (format_time now) g'" "\<not> release_due (format_time now) g'"
    using not_yet [OF assms(5-7)] g'(2) by (simp_all add: hold_passed_def release_due_def)
  then show False using due_row [OF run_table_ok [OF assms(1)] g'(1), of dec now gs] assms(8) n
    by (auto simp: retry_due_def resume_due_def)
qed

text \<open>
  Promotion fires once: a row that was parked, dispatched or ended is never due for release again, unless
  it is held anew.
\<close>

theorem promotion_fires_once:
  assumes "table_ok db" and "row_of n db = Some g" and "attempted g"
    and "\<forall>(f, c, a)\<in>set calls. well_used a \<and> n \<notin> reholds a"
    and "due_for_release dec now (run enc dec calls db) = Some gs"
  shows "n \<notin> g_id ` set gs"
proof
  assume n: "n \<in> g_id ` set gs"
  obtain g' where g': "row_of n (run enc dec calls db) = Some g'" "attempted g'"
    using run_row [OF assms(2), of enc dec calls] assms(3,4) by auto
  then have "release_due (format_time now) g'"
    using due_row(2) [OF run_table_ok [OF assms(1)] g'(1) assms(5) n] by simp
  then show False using g'(2) by (simp add: release_due_def attempted_def)
qed

lemma held_key_unique:
  assumes "held_unique rows" and "g \<in> set rows" and "h \<in> set rows" and "g_hold g \<noteq> []" and "g_hold h \<noteq> []"
    and "held_key g = held_key h"
  shows "g = h"
  using assms by (auto simp: held_unique_def distinct_map inj_on_def)

text \<open>
  There is never more than one held request for a film, whatever the order of the calls, and asking for
  a second one is refused.
\<close>

theorem held_requests_unique:
  assumes "g \<in> set (gs_rows (run enc dec calls empty_store))" and "h \<in> set (gs_rows (run enc dec calls empty_store))"
    and "g_hold g \<noteq> []" and "g_hold h \<noteq> []" and "g_mode g = g_mode h" and "g_tmdb g = g_tmdb h"
  shows "g = h \<and>
    (g_status k = Pending_retry \<and> g_hold k \<noteq> [] \<and> g_mode k = g_mode g \<and> g_tmdb k = g_tmdb g \<and> encrypt_url enc (g_url k) \<noteq> None \<longrightarrow>
     fst (create_grab False enc clock k (run enc dec calls empty_store)) = Inl Held_request_exists)"
proof -
  let ?rows = "gs_rows (run enc dec calls empty_store)"
  have u: "held_unique ?rows" using run_table_ok [OF table_ok_empty] by (simp add: table_ok_def)
  have "\<not> held_unique (?rows @ [k'])" if "g_hold k' \<noteq> []" "held_key k' = held_key g" for k'
    using that assms(1,3) by (auto simp: held_unique_def)
  then have "fst (create_grab False enc clock k (run enc dec calls empty_store)) = Inl Held_request_exists"
    if "g_status k = Pending_retry" "g_hold k \<noteq> []" "g_mode k = g_mode g" "g_tmdb k = g_tmdb g" "encrypt_url enc (g_url k) \<noteq> None"
    using that by (auto simp: create_grab_def normal_grab_def Let_def held_key_def)
  then show ?thesis using held_key_unique [OF u assms(1-4)] assms(5,6) by (simp add: held_key_def)
qed

lemma filter_unique: "(\<And>h. h \<in> set rows \<Longrightarrow> P h \<Longrightarrow> h = g) \<Longrightarrow> g \<in> set rows \<Longrightarrow> P g \<Longrightarrow> \<exists>rest. filter P rows = g # rest"
proof -
  assume u: "\<And>h. h \<in> set rows \<Longrightarrow> P h \<Longrightarrow> h = g" and g: "g \<in> set rows" "P g"
  have "filter P rows \<noteq> []" using g by (auto simp: filter_empty_conv)
  then obtain h rest where f: "filter P rows = h # rest" by (cases "filter P rows") auto
  have "set (h # rest) = {x \<in> set rows. P x}" unfolding f [symmetric] by simp
  then have "h = g" using u [of h] by auto
  then show ?thesis using f by blast
qed

text \<open>
  A second click finds the first request, however far it has travelled: once a request is found for a
  film, every later state of the table yields the same row, or the row cannot be decrypted.
\<close>

theorem held_request_found_again:
  assumes "table_ok db" and "find_held_request dec m tmdb db = Inr g"
    and "\<forall>(f, c, a)\<in>set calls. g_id g \<notin> writes_tmdb a"
  shows "case find_held_request dec m tmdb (run enc dec calls db) of Inr g' \<Rightarrow> g_id g' = g_id g | Inl e \<Rightarrow> e = Db_error"
proof -
  let ?P = "\<lambda>g. g_mode g = m \<and> g_tmdb g = tmdb \<and> g_hold g \<noteq> []"
  obtain r rest where r: "filter ?P (gs_rows db) = r # rest" "scan_grab dec r = Some g"
    using assms(2) by (auto simp: find_held_request_def scan_first_def split: list.splits option.splits)
  then have "r \<in> set (filter ?P (gs_rows db))" by simp
  then have mem: "r \<in> set (gs_rows db)" "g_mode r = m" "g_tmdb r = tmdb" "g_hold r \<noteq> []" by simp_all
  have n: "g_id g = g_id r" using scan_grab_fields(1) [OF r(2)] .
  obtain r' where r': "row_of (g_id r) (run enc dec calls db) = Some r'" "g_mode r' = m" "g_hold r' \<noteq> []" "g_tmdb r' = tmdb"
    using run_row [OF row_of_unique [OF assms(1) mem(1)], of enc dec calls] mem assms(3) n by auto
  have id: "r' \<in> set (gs_rows (run enc dec calls db))" "g_id r' = g_id r" using row_of_Some [OF r'(1)] by simp_all
  have "held_unique (gs_rows (run enc dec calls db))" using run_table_ok [OF assms(1)] by (simp add: table_ok_def)
  then have "h = r'" if "h \<in> set (gs_rows (run enc dec calls db))" "?P h" for h
    using held_key_unique [OF _ that(1) id(1)] that(2) r' by (simp add: held_key_def)
  then have "\<exists>rest. filter ?P (gs_rows (run enc dec calls db)) = r' # rest"
    using filter_unique [of "gs_rows (run enc dec calls db)" ?P r'] id(1) r' by blast
  then obtain rest' where f: "filter ?P (gs_rows (run enc dec calls db)) = r' # rest'" by blast
  have *: "find_held_request dec m tmdb (run enc dec calls db) =
      (case scan_grab dec r' of None \<Rightarrow> Inl Db_error | Some g \<Rightarrow> Inr g)"
    by (simp only: find_held_request_def scan_first_def f list.case)
  then show ?thesis
  proof (cases "scan_grab dec r'")
    case (Some g')
    then show ?thesis using * id(2) n scan_grab_fields(1) [OF Some] by simp
  qed simp
qed

section \<open>Single updates\<close>

lemma update_rows_held:
  assumes "\<And>g. p g \<Longrightarrow> held_key (h g) = held_key g \<and> (g_hold (h g) = [] \<longleftrightarrow> g_hold g = [])"
  shows "held_unique (update_rows p h rows) = held_unique rows"
proof -
  have "map held_key (filter (\<lambda>g. g_hold g \<noteq> []) (update_rows p h rows)) = map held_key (filter (\<lambda>g. g_hold g \<noteq> []) rows)"
    using assms by (induction rows) (auto simp: update_rows_def)
  then show ?thesis by (simp add: held_unique_def)
qed

lemma row_of_update:
  assumes "\<And>g. g_id (h g) = g_id g" and "row_of n db = Some g" and "p g"
  shows "row_of n (db\<lparr>gs_rows := update_rows p h (gs_rows db)\<rparr>) = Some (h g)"
proof -
  have "find (with_id n) (update_rows p h rows) = map_option (\<lambda>g. if p g then h g else g) (find (with_id n) rows)" for rows
    using assms(1) by (induction rows) (auto simp: update_rows_def with_id_def)
  then show ?thesis using assms(2,3) by (simp add: row_of_def)
qed

text \<open>An update that does not fail and leaves keys and holds alone is carried out.\<close>

lemma exec_row:
  assumes "table_ok db" and "row_of n db = Some g" and "p g"
    and "\<And>g. g_id (h g) = g_id g \<and> g_mode (h g) = g_mode g \<and> g_tmdb (h g) = g_tmdb g \<and> (g_hold (h g) = [] \<longleftrightarrow> g_hold g = [])"
  shows "fst (exec_update False c p h db) = None"
    and "snd (exec_update False c p h db) = db\<lparr>gs_rows := update_rows p (\<lambda>g. (h g)\<lparr>g_updated := c\<rparr>) (gs_rows db)\<rparr>"
    and "row_of n (snd (exec_update False c p h db)) = Some ((h g)\<lparr>g_updated := c\<rparr>)"
    and "table_ok (snd (exec_update False c p h db))"
proof -
  let ?f = "\<lambda>g. (h g)\<lparr>g_updated := c\<rparr>"
  have h: "g_id (?f g) = g_id g" "held_key (?f g) = held_key g \<and> (g_hold (?f g) = [] \<longleftrightarrow> g_hold g = [])" for g
    using assms(4) by (simp_all add: held_key_def)
  have u: "held_unique (update_rows p ?f (gs_rows db))"
    using assms(1) update_rows_held [of p ?f] h(2) by (simp add: table_ok_def)
  have m: "g \<in> set (gs_rows db)" using row_of_Some [OF assms(2)] by simp
  show "fst (exec_update False c p h db) = None" using u m assms(3) by (auto simp: exec_update_def Let_def)
  show s: "snd (exec_update False c p h db) = db\<lparr>gs_rows := update_rows p ?f (gs_rows db)\<rparr>"
    using u by (simp add: exec_update_def Let_def)
  show "row_of n (snd (exec_update False c p h db)) = Some (?f g)"
    unfolding s using row_of_update [of ?f n db g p] h(1) assms(2,3) by simp
  have "map g_id (update_rows p ?f rows) = map g_id rows" for rows
    using h(1) by (induction rows) (auto simp: update_rows_def)
  then have ids: "map g_id (gs_rows (snd (exec_update False c p h db))) = map g_id (gs_rows db)" by (simp add: s)
  have "g_id y < gs_next db" if "y \<in> set (gs_rows (snd (exec_update False c p h db)))" for y
  proof -
    have "g_id y \<in> set (map g_id (gs_rows db))" unfolding ids [symmetric] using that by simp
    then show ?thesis using assms(1) by (auto simp: table_ok_def)
  qed
  then show "table_ok (snd (exec_update False c p h db))" using assms(1) u ids by (simp add: table_ok_def s)
qed

lemma updated_simps [simp]:
  "retry_due t (g\<lparr>g_updated := c\<rparr>) = retry_due t g" "release_due t (g\<lparr>g_updated := c\<rparr>) = release_due t g"
  "hold_passed t (g\<lparr>g_updated := c\<rparr>) = hold_passed t g"
  by (simp_all add: retry_due_def release_due_def hold_passed_def)

text \<open>
  Promoting a request that is downloading orphans the download: its id is forgotten, so its completion
  finds no row to import, and the request is at once due for another search. Re-arming a held request
  refuses exactly this; promotion accepts it.
\<close>

theorem promote_strands_download:
  assumes "table_ok db" and "row_of n db = Some g" and "g_status g = Queued" and "g_gid g \<noteq> []" and "g_hold g = []"
    and "\<forall>h\<in>set (gs_rows db). g_gid h = g_gid g \<longrightarrow> g_id h = n"
    and "\<And>rows :: grab list. set (shuffle rows) = set rows"
  shows "let r = promote_to_front False clock n now reason db in
    fst r = None \<and> get_by_download_gid dec shuffle (g_gid g) (snd r) = Inl No_grab \<and>
    (\<exists>g'. row_of n (snd r) = Some g' \<and> retry_due (format_time now) g')"
proof -
  let ?p = "\<lambda>g. with_id n g \<and> g_status g \<in> {Pending_retry, Queued}" and ?h = "promote_row (format_time now) reason"
  have id: "g_id g = n" using row_of_Some [OF assms(2)] by simp
  have "?p g" using id assms(3) by (simp add: with_id_def)
  note e = exec_row [OF assms(1,2), of ?p ?h, OF this]
  have h: "g_id (?h x) = g_id x \<and> g_mode (?h x) = g_mode x \<and> g_tmdb (?h x) = g_tmdb x \<and> (g_hold (?h x) = [] \<longleftrightarrow> g_hold x = [])" for x
    by (simp add: promote_row_def)
  note e = e [OF h]
  have "\<forall>x\<in>set (gs_rows (snd (exec_update False clock ?p ?h db))). g_gid x \<noteq> g_gid g"
  proof
    fix x assume "x \<in> set (gs_rows (snd (exec_update False clock ?p ?h db)))"
    then obtain y where y: "y \<in> set (gs_rows db)" "x = (if ?p y then (?h y)\<lparr>g_updated := clock\<rparr> else y)"
      unfolding e(2) by (auto simp: update_rows_def)
    show "g_gid x \<noteq> g_gid g"
    proof (cases "?p y")
      case True
      then show ?thesis using y(2) assms(4) by (simp add: promote_row_def)
    next
      case False
      then have "y \<noteq> g" using \<open>?p g\<close> by blast
      then have "g_id y \<noteq> n" using row_of_unique [OF assms(1) y(1)] assms(2) by auto
      then show ?thesis using y False assms(6) by auto
    qed
  qed
  then have "filter (\<lambda>x. g_gid x = g_gid g) (shuffle (gs_rows (snd (exec_update False clock ?p ?h db)))) = []"
    by (simp only: filter_empty_conv assms(7))
  then have "get_by_download_gid dec shuffle (g_gid g) (snd (exec_update False clock ?p ?h db)) = Inl No_grab"
    using assms(4) by (simp add: get_by_download_gid_def scan_first_def)
  moreover have "retry_due (format_time now) (?h g)"
    using assms(5) by (simp add: retry_due_def hold_passed_def promote_row_def)
  ultimately show ?thesis using e(1,3) by (simp add: promote_to_front_def Let_def)
qed

text \<open>
  No status is final: a park that arrives late puts a cancelled or an imported request back on the retry
  track, where it is due at the time the park names.
\<close>

theorem late_park_revives:
  assumes "table_ok db" and "row_of n db = Some g" and "g_status g \<in> {Failed, Imported}" and "g_hold g = []"
  shows "let r = set_pending_retry False clock n after reason db in
    fst r = None \<and> (\<exists>g'. row_of n (snd r) = Some g' \<and> retry_due (format_time after) g')"
proof -
  have p: "with_id n g" using row_of_Some [OF assms(2)] by (simp add: with_id_def)
  note e = exec_row [OF assms(1,2), of "with_id n" "park_row (format_time after) reason", OF p]
  have "retry_due (format_time after) (park_row (format_time after) reason g)"
    using assms(4) by (simp add: retry_due_def hold_passed_def park_row_def)
  then show ?thesis using e(1,3) by (simp add: set_pending_retry_def Let_def park_row_def)
qed

section \<open>The transport ladder\<close>

definition resume_cycle :: "gostring \<Rightarrow> int \<Rightarrow> gtime \<Rightarrow> gostring \<Rightarrow> dispatch \<Rightarrow> grab_call list" where
  "resume_cycle c n t r d = [(False, c, A_transport n t r), (False, c, A_relaunch n d)]"

lemma resume_cycle_row:
  assumes "table_ok db" and "row_of n db = Some g" and "d_gid d = g_gid g" and "encrypt_url enc (d_url d) = Some u"
  shows "\<exists>g'. row_of n (run enc dec (resume_cycle c n t r d) db) = Some g' \<and> g_gid g' = g_gid g \<and> g_transport g' = g_transport g + 1"
proof -
  have p: "with_id n g" using row_of_Some [OF assms(2)] by (simp add: with_id_def)
  let ?h = "\<lambda>g. (resume_row (format_time t) r g)\<lparr>g_transport := g_transport g + 1\<rparr>"
  note e = exec_row [OF assms(1,2), of "with_id n" ?h c, OF p]
  have h: "g_id (?h x) = g_id x \<and> g_mode (?h x) = g_mode x \<and> g_tmdb (?h x) = g_tmdb x \<and> (g_hold (?h x) = [] \<longleftrightarrow> g_hold x = [])" for x
    by (simp add: resume_row_def)
  note e = e [OF h]
  let ?db = "snd (exec_update False c (with_id n) ?h db)" and ?g = "(?h g)\<lparr>g_updated := c\<rparr>"
  have p2: "with_id n ?g" using p by (simp add: with_id_def resume_row_def)
  have h2: "g_id (relaunch_row d u x) = g_id x \<and> g_mode (relaunch_row d u x) = g_mode x \<and> g_tmdb (relaunch_row d u x) = g_tmdb x \<and>
    (g_hold (relaunch_row d u x) = [] \<longleftrightarrow> g_hold x = [])" for x by (simp add: relaunch_row_def)
  note e2 = exec_row(3) [OF e(4,3), of "with_id n" "relaunch_row d u" c, OF p2 h2]
  have "run enc dec (resume_cycle c n t r d) db = snd (exec_update False c (with_id n) (relaunch_row d u) ?db)"
    by (simp add: resume_cycle_def park_for_transport_resume_def relaunch_def assms(4))
  then show ?thesis using e2 assms(3) by (simp add: relaunch_row_def resume_row_def)
qed


section \<open>Keys of tried releases\<close>

definition clean_key :: "gostring \<Rightarrow> bool" where
  "clean_key k \<longleftrightarrow> k \<noteq> [] \<and> trim_space k = k \<and> CHR 0x0A \<notin> set k"

lemma trim_ends:
  assumes "trim_space s \<noteq> []"
  shows "\<not> is_space (hd (trim_space s)) \<and> \<not> is_space (last (trim_space s))"
proof -
  define u where "u = dropWhile is_space s"
  define v where "v = dropWhile is_space (rev u)"
  have t: "trim_space s = rev v" by (simp add: trim_space_def u_def v_def)
  then have v: "v \<noteq> []" using assms by simp
  then have u: "u \<noteq> []" by (auto simp: v_def)
  have "rev u = takeWhile is_space (rev u) @ v" by (simp add: v_def)
  then have "last (rev u) = last v" using v by (metis last_appendR)
  then have "hd (rev v) = hd u" using u v by (simp add: last_rev hd_rev)
  moreover have "\<not> is_space (hd u)" using hd_dropWhile [of is_space s] u by (simp add: u_def)
  moreover have "\<not> is_space (hd v)" using hd_dropWhile [of is_space "rev u"] v by (simp add: v_def)
  ultimately show ?thesis using v by (simp add: t last_rev)
qed

lemma trim_trim: "trim_space (trim_space s) = trim_space s"
  using trim_ends [of s] by (intro trim_space_id) blast

lemma set_trim: "set (trim_space s) \<subseteq> set s"
proof
  fix c assume "c \<in> set (trim_space s)"
  then have "c \<in> set (dropWhile is_space s)"
    using set_dropWhileD [of c is_space "rev (dropWhile is_space s)"] by (simp add: trim_space_def)
  then show "c \<in> set s" by (rule set_dropWhileD)
qed

lemma parse_clean: "k \<in> set (parse_tried s) \<Longrightarrow> clean_key k"
proof -
  assume "k \<in> set (parse_tried s)"
  then obtain l where l: "l \<in> set (split_on (CHR 0x0A) s)" "k = trim_space l" "k \<noteq> []"
    by (auto simp: parse_tried_def split: if_splits)
  then show ?thesis using split_on_pieces [OF l(1)] set_trim [of l] by (auto simp: clean_key_def trim_trim)
qed

lemma parse_format: "\<forall>k\<in>set ks. clean_key k \<Longrightarrow> parse_tried (format_tried ks) = ks"
proof (cases ks)
  case (Cons k ks')
  assume c: "\<forall>k\<in>set ks. clean_key k"
  then have "map trim_space ks = ks" "filter (\<lambda>l. l \<noteq> []) ks = ks" "\<forall>k\<in>set ks. CHR 0x0A \<notin> set k"
    by (auto simp: clean_key_def intro: map_idI filter_True)
  moreover have "join_on (CHR 0x0A) ks \<noteq> []" using c Cons by (cases ks') (auto simp: clean_key_def)
  ultimately show ?thesis using split_join [of ks "CHR 0x0A"] Cons by (simp add: parse_tried_def format_tried_def)
qed (simp add: parse_tried_def format_tried_def)

lemma append_keys_spec:
  "\<exists>rest. append_keys out ks = out @ rest \<and> set (append_keys out ks) = set out \<union> set ks \<and>
     (distinct out \<longrightarrow> distinct (append_keys out ks))"
proof (induction out ks rule: append_keys.induct)
  case (2 out k ks)
  then show ?case by (cases "k \<in> set out") auto
qed simp

text \<open>
  What was tried stays excluded: a park for an alternate release stores, behind the keys already there
  and without repeating one, the keys of the release that failed, and reading the column back gives
  exactly this list.
\<close>

theorem tried_keys_accumulate:
  assumes "table_ok db" and "row_of n db = Some g" and "\<forall>k\<in>set new_keys. clean_key k"
  shows "let r = park_for_alternate_release False clock n after reason new_keys db in
    fst r = None \<and> (\<exists>rest. tried_release_keys n (snd r) = Inr (parse_tried (g_tried g) @ rest) \<and>
      set (parse_tried (g_tried g) @ rest) = set (parse_tried (g_tried g)) \<union> set new_keys)"
proof -
  let ?ks = "append_keys (parse_tried (g_tried g)) new_keys"
  let ?h = "alternate_row (format_time after) reason (format_tried ?ks)"
  have p: "with_id n g" using row_of_Some [OF assms(2)] by (simp add: with_id_def)
  have h: "g_id (?h x) = g_id x \<and> g_mode (?h x) = g_mode x \<and> g_tmdb (?h x) = g_tmdb x \<and> (g_hold (?h x) = [] \<longleftrightarrow> g_hold x = [])" for x
    by (simp add: alternate_row_def)
  note e = exec_row [OF assms(1,2), of "with_id n" ?h clock, OF p h]
  have read: "tried_release_keys n db = Inr (parse_tried (g_tried g))" if "row_of n db = Some g" for db g
  proof -
    have "filter (with_id n) rows = [] \<longleftrightarrow> find (with_id n) rows = None"
      "find (with_id n) rows = Some g \<Longrightarrow> \<exists>rest. filter (with_id n) rows = g # rest" for rows
      by (induction rows) (auto split: if_splits)
    then show ?thesis using that by (fastforce simp: tried_release_keys_def row_of_def)
  qed
  obtain rest where rest: "?ks = parse_tried (g_tried g) @ rest" "set ?ks = set (parse_tried (g_tried g)) \<union> set new_keys"
    using append_keys_spec [of "parse_tried (g_tried g)" new_keys] by blast
  have "\<forall>k\<in>set ?ks. clean_key k" using rest(2) parse_clean assms(3) by auto
  then have "parse_tried (g_tried ((?h g)\<lparr>g_updated := clock\<rparr>)) = ?ks"
    by (simp add: alternate_row_def parse_format)
  moreover have "park_for_alternate_release False clock n after reason new_keys db = exec_update False clock (with_id n) ?h db"
    by (simp add: park_for_alternate_release_def read [OF assms(2)] alternate_write_def)
  ultimately show ?thesis using e(1) read [OF e(3)] rest by (auto simp: Let_def)
qed

section \<open>Concrete tables\<close>

definition demo_grab :: grab where
  "demo_grab =
     \<lparr>g_id = 1, g_mode = ''movies'', g_title = ''Film'', g_tmdb = 7, g_tvdb = 0, g_season = 0, g_episode = 0,
      g_season_specified = False, g_profile = 0, g_indexer = [], g_protocol = ''usenet'', g_client = [], g_client_ref = [],
      g_gid = [], g_dl_status = [], g_staging = [], g_status = Pending_retry, g_root = ''/m'', g_flagged = False,
      g_flag_reason = [], g_url = [], g_retry_after = [], g_retry_count = 0, g_retry_reason = [], g_hold = [],
      g_monitor_key = [], g_scope = [], g_transport = 0, g_origin = [], g_tried = [], g_created = [], g_updated = []\<rparr>"

definition demo_store :: "grab \<Rightarrow> grab_store" where
  "demo_store g = \<lparr>gs_rows = [g], gs_next = 2\<rparr>"

lemma demo_facts: "g_id g = 1 \<Longrightarrow> table_ok (demo_store g) \<and> row_of 1 (demo_store g) = Some g"
  by (simp add: demo_store_def table_ok_def held_unique_def row_of_def with_id_def)

lemma scan_total: "(\<And>u. dec u \<noteq> None) \<Longrightarrow> \<exists>gs. scan_grabs dec rows = Some gs"
proof (induction rows)
  case (Cons r rows)
  then obtain gs where "scan_grabs dec rows = Some gs" by blast
  moreover obtain u where "dec (g_url r) = Some u" using Cons.prems [of "g_url r"] by auto
  ultimately show ?case by (simp add: scan_grab_def)
qed simp

definition release_day :: gtime where
  "release_day = zero_time + 864000000000000"

lemma demo_times: "in_layout zero_time" "in_layout release_day" "millis zero_time < millis release_day"
  by (simp_all add: release_day_def in_layout_year_one millis_def)

abbreviation parked :: grab where
  "parked \<equiv> demo_grab\<lparr>g_retry_after := format_time zero_time\<rparr>"

abbreviation held :: grab where
  "held \<equiv> demo_grab\<lparr>g_hold := format_time release_day\<rparr>"

theorem due_lists_disjoint_witness:
  "due_for_retry Some zero_time (demo_store parked) = Some [parked] \<and>
   g_id ` set [parked] \<inter> g_id ` set ([] :: grab list) = {}"
proof -
  have q: "due_for_retry Some zero_time (demo_store parked) = Some [parked]"
    "due_for_release Some zero_time (demo_store parked) = Some []" "due_for_resume Some zero_time (demo_store parked) = Some []"
    by (simp_all add: due_for_retry_def due_for_release_def due_for_resume_def demo_store_def retry_due_def release_due_def
        resume_due_def hold_passed_def demo_grab_def sort_by_Cons scan_grab_def)
  have "table_ok (demo_store parked)" using demo_facts [of parked] by (simp add: demo_grab_def)
  then show ?thesis using due_lists_disjoint [OF _ q] q(1) by blast
qed

text \<open>A failing retry of the same film stamps the held row; it stays invisible before the release day.\<close>

theorem held_until_date_witness:
  "\<exists>gs. due_for_retry Some zero_time (run Some Some [(False, [], A_retry_after 1 zero_time [])] (demo_store held)) = Some gs \<and>
     1 \<notin> g_id ` set gs"
proof -
  let ?calls = "[(False, [], A_retry_after 1 zero_time [])]"
  obtain gs where gs: "due_for_retry Some zero_time (run Some Some ?calls (demo_store held)) = Some gs"
    unfolding due_for_retry_def using scan_total [of Some] by blast
  have "table_ok (demo_store held)" "row_of 1 (demo_store held) = Some held" using demo_facts [of held] by (simp_all add: demo_grab_def)
  then have "1 \<notin> g_id ` set gs"
    using held_until_date [where db = "demo_store held" and n = 1 and g = held and d = release_day and calls = ?calls
        and now = zero_time and enc = Some and dec = Some and gs = gs] demo_times gs by simp
  then show ?thesis using gs by blast
qed

theorem promotion_fires_once_witness:
  "\<exists>gs. due_for_release Some release_day (run Some Some [(False, [], A_shutdown 1 zero_time [])]
     (demo_store (held\<lparr>g_retry_after := format_time zero_time\<rparr>))) = Some gs \<and> 1 \<notin> g_id ` set gs"
proof -
  let ?calls = "[(False, [], A_shutdown 1 zero_time [])]" and ?g = "held\<lparr>g_retry_after := format_time zero_time\<rparr>"
  obtain gs where gs: "due_for_release Some release_day (run Some Some ?calls (demo_store ?g)) = Some gs"
    unfolding due_for_release_def using scan_total [of Some] by blast
  have "table_ok (demo_store ?g)" "row_of 1 (demo_store ?g) = Some ?g" using demo_facts [of ?g] by (simp_all add: demo_grab_def)
  moreover have "attempted ?g" by (simp add: attempted_def)
  ultimately have "1 \<notin> g_id ` set gs"
    using promotion_fires_once [where db = "demo_store ?g" and n = 1 and g = ?g and calls = ?calls and dec = Some
        and now = release_day and enc = Some and gs = gs] gs by simp
  then show ?thesis using gs by blast
qed

theorem held_requests_unique_witness:
  "gs_rows (run Some Some [(False, [], A_create held)] empty_store) = [held] \<and>
   fst (create_grab False Some [] held (run Some Some [(False, [], A_create held)] empty_store)) = Inl Held_request_exists"
proof -
  let ?calls = "[(False, [], A_create held)]"
  have rows: "gs_rows (run Some Some ?calls empty_store) = [held]"
    by (simp add: create_grab_def normal_grab_def encrypt_url_def empty_store_def held_unique_def demo_grab_def Let_def)
  have "held \<in> set (gs_rows (run Some Some ?calls empty_store))" unfolding rows by simp
  from held_requests_unique [OF this this, of held "[]"] show ?thesis
    using rows by (simp add: demo_grab_def encrypt_url_def)
qed

theorem held_request_found_again_witness:
  "case find_held_request Some ''movies'' 7 (run Some Some [(False, [], A_promote 1 zero_time [])] (demo_store held)) of
     Inr g \<Rightarrow> g_id g = 1 | Inl e \<Rightarrow> e = Db_error"
proof -
  have f: "find_held_request Some ''movies'' 7 (demo_store held) = Inr held"
    by (simp add: find_held_request_def scan_first_def demo_store_def demo_grab_def scan_grab_def)
  have "table_ok (demo_store held)" using demo_facts [of held] by (simp add: demo_grab_def)
  note t = held_request_found_again [OF this f, where calls = "[(False, [], A_promote 1 zero_time [])]" and enc = Some]
  have i: "g_id held = 1" by (simp add: demo_grab_def)
  have "\<forall>(f, c, a)\<in>set [(False, [], A_promote 1 zero_time [])]. g_id held \<notin> writes_tmdb a" by simp
  from t [OF this] show ?thesis unfolding i .
qed

theorem promote_strands_download_witness:
  "let g = demo_grab\<lparr>g_status := Queued, g_gid := ''nzb-1''\<rparr>; r = promote_to_front False [] 1 zero_time [] (demo_store g)
   in fst r = None \<and> get_by_download_gid Some (\<lambda>rows. rows) ''nzb-1'' (snd r) = Inl No_grab \<and>
      (\<exists>g'. row_of 1 (snd r) = Some g' \<and> retry_due (format_time zero_time) g')"
proof -
  let ?g = "demo_grab\<lparr>g_status := Queued, g_gid := ''nzb-1''\<rparr>"
  have "table_ok (demo_store ?g)" "row_of 1 (demo_store ?g) = Some ?g" using demo_facts [of ?g] by (simp_all add: demo_grab_def)
  from promote_strands_download [OF this, where shuffle = "\<lambda>rows. rows" and clock = "[]" and now = zero_time and reason = "[]" and dec = Some]
  show ?thesis by (simp add: demo_grab_def demo_store_def Let_def)
qed

theorem late_park_revives_witness:
  "let r = set_pending_retry False [] 1 zero_time [] (demo_store (demo_grab\<lparr>g_status := Failed\<rparr>)) in
   fst r = None \<and> (\<exists>g'. row_of 1 (snd r) = Some g' \<and> retry_due (format_time zero_time) g')"
proof -
  let ?g = "demo_grab\<lparr>g_status := Failed\<rparr>"
  have "table_ok (demo_store ?g)" "row_of 1 (demo_store ?g) = Some ?g" using demo_facts [of ?g] by (simp_all add: demo_grab_def)
  from late_park_revives [OF this, of "[]" zero_time "[]"] show ?thesis by (simp add: demo_grab_def Let_def)
qed

definition demo_dispatch :: dispatch where
  "demo_dispatch = \<lparr>d_indexer = [], d_protocol = ''usenet'', d_client = [], d_root = ''/m'', d_url = ''u'', d_gid = ''nzb-1''\<rparr>"


theorem tried_keys_accumulate_witness:
  "let r = park_for_alternate_release False [] 1 zero_time [] [''u:2''] (demo_store (demo_grab\<lparr>g_tried := ''u:1''\<rparr>)) in
   fst r = None \<and> (\<exists>ks. tried_release_keys 1 (snd r) = Inr ks \<and> {''u:1'', ''u:2''} = set ks)"
proof -
  let ?g = "demo_grab\<lparr>g_tried := ''u:1''\<rparr>"
  have db: "table_ok (demo_store ?g)" "row_of 1 (demo_store ?g) = Some ?g" using demo_facts [of ?g] by (simp_all add: demo_grab_def)
  have keys: "clean_key ''u:2''" "parse_tried ''u:1'' = [''u:1'']" by code_simp+
  have new: "\<forall>k\<in>set [''u:2'']. clean_key k" using keys(1) by simp
  have g: "parse_tried (g_tried ?g) = [''u:1'']" using keys(2) by simp
  note t = tried_keys_accumulate [OF db new, of "[]" zero_time "[]", unfolded Let_def g]
  have "{''u:1'', ''u:2''} = set [''u:1''] \<union> set [''u:2'']" by auto
  then show ?thesis unfolding Let_def using t by metis
qed

end
