(* ===== verification/Apply_Gate.thy ===== *)
theory Apply_Gate
  imports Prelude
begin

text \<open>
  \<open>internal/proposals/applygate.go\<close>: the gate that counts the applies in flight for a review
  queue, defers a rescan that arrives meanwhile, and starts the registered rescans when the last apply
  ends. Each method is one critical section. A hook is whatever its type says; what the gate does with
  hooks is to hand them out, so \<open>end_apply\<close> returns those it starts.
\<close>

section \<open>The gate\<close>

type_synonym gate_key = "gostring \<times> gostring"

text \<open>A missing count is 0 and a missing flag is false, as for Go's maps.\<close>

record 'h apply_gate =
  ag_counts :: "gate_key \<Rightarrow> int"
  ag_deferred :: "gate_key \<Rightarrow> bool"
  ag_hooks :: "gate_key \<Rightarrow> 'h list"

definition new_apply_gate :: "'h apply_gate" where
  "new_apply_gate = \<lparr>ag_counts = \<lambda>_. 0, ag_deferred = \<lambda>_. False, ag_hooks = \<lambda>_. []\<rparr>"

definition begin_apply :: "gate_key \<Rightarrow> 'h apply_gate \<Rightarrow> 'h apply_gate" where
  "begin_apply k g = g\<lparr>ag_counts := (ag_counts g)(k := ag_counts g k + 1)\<rparr>"

definition end_apply :: "gate_key \<Rightarrow> 'h apply_gate \<Rightarrow> 'h list \<times> 'h apply_gate" where
  "end_apply k g =
     (let c = ag_counts g k - 1 in
      if 0 < c then ([], g\<lparr>ag_counts := (ag_counts g)(k := c)\<rparr>)
      else (if ag_deferred g k then ag_hooks g k else [],
            g\<lparr>ag_counts := (ag_counts g)(k := 0), ag_deferred := (ag_deferred g)(k := False)\<rparr>))"

definition apply_in_flight :: "gate_key \<Rightarrow> 'h apply_gate \<Rightarrow> bool" where
  "apply_in_flight k g \<longleftrightarrow> 0 < ag_counts g k"

definition mark_deferred :: "gate_key \<Rightarrow> 'h apply_gate \<Rightarrow> 'h apply_gate" where
  "mark_deferred k g = g\<lparr>ag_deferred := (ag_deferred g)(k := True)\<rparr>"

definition register_apply_idle :: "gate_key \<Rightarrow> 'h \<Rightarrow> 'h apply_gate \<Rightarrow> 'h apply_gate" where
  "register_apply_idle k h g = g\<lparr>ag_hooks := (ag_hooks g)(k := ag_hooks g k @ [h])\<rparr>"

lemmas gate_defs = begin_apply_def end_apply_def apply_in_flight_def mark_deferred_def register_apply_idle_def Let_def

section \<open>Sequences of calls\<close>

datatype 'h gate_call = Begin gate_key | End gate_key | Mark gate_key | Register gate_key 'h

fun gate_act :: "'h gate_call \<Rightarrow> 'h apply_gate \<Rightarrow> 'h list \<times> 'h apply_gate" where
  "gate_act (Begin k) g = ([], begin_apply k g)"
| "gate_act (End k) g = end_apply k g"
| "gate_act (Mark k) g = ([], mark_deferred k g)"
| "gate_act (Register k h) g = ([], register_apply_idle k h g)"

text \<open>The hooks started by the calls, in order, and the gate after them.\<close>

fun gate_run :: "'h gate_call list \<Rightarrow> 'h apply_gate \<Rightarrow> 'h list \<times> 'h apply_gate" where
  "gate_run [] g = ([], g)"
| "gate_run (c # cs) g = (let (hs, g') = gate_act c g; (hs', g'') = gate_run cs g' in (hs @ hs', g''))"

lemma gate_act_keeps_hooks: "set (ag_hooks g k) \<subseteq> set (ag_hooks (snd (gate_act c g)) k)"
  by (cases c) (auto simp: gate_defs)

text \<open>A flag raised while the count is positive is lowered only by starting the hooks.\<close>

lemma deferred_kept_or_fired:
  "ag_deferred g k \<Longrightarrow> gate_act c g = (hs, g') \<Longrightarrow> ag_deferred g' k \<or> set (ag_hooks g k) \<subseteq> set hs"
  by (cases c) (auto simp: gate_defs split: if_splits)

lemma deferred_while_counted:
  "ag_deferred g k \<Longrightarrow> 0 < ag_counts g k \<Longrightarrow> gate_act c g = (hs, g') \<Longrightarrow>
   ag_deferred g' k \<and> 0 < ag_counts g' k \<or> set (ag_hooks g k) \<subseteq> set hs"
  by (cases c) (auto simp: gate_defs split: if_splits)

lemma hooks_fire_before_idle:
  "ag_deferred g k \<Longrightarrow> 0 < ag_counts g k \<Longrightarrow> gate_run cs g = (hs, g') \<Longrightarrow> \<not> apply_in_flight k g' \<Longrightarrow>
   set (ag_hooks g k) \<subseteq> set hs"
proof (induction cs arbitrary: g hs)
  case Nil
  then show ?case by (simp add: apply_in_flight_def)
next
  case (Cons c cs)
  obtain hs1 g1 where c: "gate_act c g = (hs1, g1)" by fastforce
  obtain hs2 g2 where cs: "gate_run cs g1 = (hs2, g2)" by fastforce
  have hs: "hs = hs1 @ hs2" "g2 = g'" using Cons.prems(3) by (simp_all add: c cs Let_def)
  show ?case
  proof (cases "set (ag_hooks g k) \<subseteq> set hs1")
    case False
    then have "ag_deferred g1 k" "0 < ag_counts g1 k"
      using deferred_while_counted [OF Cons.prems(1,2) c] by auto
    then have "set (ag_hooks g1 k) \<subseteq> set hs2" using Cons.IH [of g1 hs2] cs hs(2) Cons.prems(4) by simp
    then show ?thesis using gate_act_keeps_hooks [of g k c] c hs(1) by auto
  qed (auto simp: hs(1))
qed

text \<open>Between two ends of an apply for a queue none of its hooks is started.\<close>

definition ends :: "gate_key \<Rightarrow> 'h gate_call \<Rightarrow> bool" where
  "ends k c \<longleftrightarrow> c = End k"

lemma gate_act_fires_only_at_end:
  "gate_act c g = (hs, g') \<Longrightarrow> \<not> (\<exists>k. ends k c) \<Longrightarrow> hs = []"
  by (cases c) (auto simp: ends_def)

section \<open>Paired calls\<close>

text \<open>
  The handlers pair every \<open>Begin\<close> with one \<open>End\<close>: \<open>opened k cs\<close> is the number of
  applies for \<open>k\<close> still open after \<open>cs\<close>, where no call ends an apply that is not open.
\<close>

fun opened :: "gate_key \<Rightarrow> 'h gate_call list \<Rightarrow> int" where
  "opened k [] = 0"
| "opened k (c # cs) = (if c = Begin k then 1 else if c = End k then - 1 else 0) + opened k cs"

fun paired :: "'h apply_gate \<Rightarrow> 'h gate_call list \<Rightarrow> bool" where
  "paired g [] = True"
| "paired g (c # cs) = ((\<forall>k. ends k c \<longrightarrow> apply_in_flight k g) \<and> paired (snd (gate_act c g)) cs)"

lemma gate_act_counts:
  "\<forall>k. ends k c \<longrightarrow> apply_in_flight k g \<Longrightarrow>
   ag_counts (snd (gate_act c g)) k = ag_counts g k + (if c = Begin k then 1 else if c = End k then - 1 else 0)"
  by (cases c) (auto simp: gate_defs ends_def)

lemma gate_run_counts:
  "paired g cs \<Longrightarrow> ag_counts (snd (gate_run cs g)) k = ag_counts g k + opened k cs"
proof (induction cs arbitrary: g)
  case (Cons c cs)
  have "ag_counts (snd (gate_run cs (snd (gate_act c g)))) k = ag_counts (snd (gate_act c g)) k + opened k cs"
    using Cons by simp
  then show ?case using Cons.prems gate_act_counts [of c g k] by (simp add: case_prod_unfold Let_def)
qed simp

end
