(* ===== verification/Proposals.thy ===== *)
theory Proposals
  imports Apply_Gate Go_Float
begin

text \<open>
  \<open>internal/proposals/proposals.go\<close>: the review queue, its rows, and every operation of its store,
  over the schema of \<open>internal/db/migrations\<close> (the partial unique index on live source paths). The
  JSON columns are held decoded; a NULL time is the empty text, as every query reads it. A call may
  fail without effect; its failure is an argument, and so is the clock of the database, which dates a
  new row by its id. Rolled back inserts keep the ids they took, as a sequence of PostgreSQL does.
\<close>

section \<open>Rows\<close>

datatype prop_status = Pending | Unmatched | Applied | Dismissed

definition wf_rename :: gostring where "wf_rename = ''rename''"
definition wf_purge :: gostring where "wf_purge = ''purge''"
definition wf_dedup :: gostring where "wf_dedup = ''dedup''"

record dup_candidate =
  dc_label :: gostring
  dc_path :: gostring
  dc_tracked :: int
  dc_resolution :: int
  dc_codec :: gostring
  dc_bitrate :: int
  dc_size :: int
  dc_phash :: gostring
  dc_winner :: bool

record proposal =
  p_id :: int
  p_mode :: gostring
  p_workflow :: gostring
  p_status :: prop_status
  p_name :: gostring
  p_path :: gostring
  p_root :: gostring
  p_title :: gostring
  p_tvdb :: int
  p_tmdb :: int
  p_season :: int
  p_episode :: int
  p_episode_title :: gostring
  p_extra :: "int list"
  p_year :: int
  p_profile :: int
  p_reason :: gostring
  p_tracked :: int
  p_foreign :: gostring
  p_item_type :: gostring
  p_candidates :: "dup_candidate list"
  p_similarity :: f64
  p_studio :: gostring
  p_date :: gostring
  p_draft :: gostring
  p_draft_at :: gostring
  p_phash :: gostring
  p_duration :: int
  p_gb_box :: gostring
  p_gb_scene :: gostring
  p_fingerprint_at :: gostring
  p_genres :: "gostring list"
  p_cast :: "gostring list"
  p_created :: gostring
  p_applied_at :: gostring

text \<open>The zero value of the struct.\<close>

definition zero_proposal :: proposal where
  "zero_proposal = \<lparr>p_id = 0, p_mode = [], p_workflow = [], p_status = Pending, p_name = [], p_path = [], p_root = [],
     p_title = [], p_tvdb = 0, p_tmdb = 0, p_season = 0, p_episode = 0, p_episode_title = [], p_extra = [], p_year = 0,
     p_profile = 0, p_reason = [], p_tracked = 0, p_foreign = [], p_item_type = [], p_candidates = [],
     p_similarity = 0, p_studio = [], p_date = [], p_draft = [], p_draft_at = [], p_phash = [], p_duration = 0,
     p_gb_box = [], p_gb_scene = [], p_fingerprint_at = [], p_genres = [], p_cast = [], p_created = [],
     p_applied_at = []\<rparr>"

record prop_store =
  ps_rows :: "proposal list"
  ps_next :: int

datatype prop_error = No_proposal | Replace_deferred | Move_conflict | Prop_db_error

definition live :: "proposal \<Rightarrow> bool" where
  "live p \<longleftrightarrow> p_status p \<in> {Pending, Unmatched}"

definition in_queue :: "gate_key \<Rightarrow> proposal \<Rightarrow> bool" where
  "in_queue k p \<longleftrightarrow> p_mode p = fst k \<and> p_workflow p = snd k \<and> live p"

text \<open>\<open>proposals_live_source_path_uidx\<close>.\<close>

definition live_key :: "proposal \<Rightarrow> gate_key \<times> gostring" where
  "live_key p = ((p_mode p, p_workflow p), p_path p)"

definition indexed :: "proposal \<Rightarrow> bool" where
  "indexed p \<longleftrightarrow> live p \<and> p_path p \<noteq> []"

definition paths_unique :: "proposal list \<Rightarrow> bool" where
  "paths_unique rows \<longleftrightarrow> distinct (map live_key (filter indexed rows))"

section \<open>Single statements\<close>

definition set_row :: "int \<Rightarrow> (proposal \<Rightarrow> proposal) \<Rightarrow> proposal list \<Rightarrow> proposal list" where
  "set_row n f rows = map (\<lambda>p. if p_id p = n then f p else p) rows"

definition has_row :: "int \<Rightarrow> proposal list \<Rightarrow> bool" where
  "has_row n rows \<longleftrightarrow> n \<in> p_id ` set rows"

text \<open>An \<open>UPDATE ... WHERE id = ?\<close> and the check of its row count (\<open>dbutil.CheckAffected\<close>).\<close>

definition update_prop ::
  "bool \<Rightarrow> int \<Rightarrow> (proposal \<Rightarrow> proposal) \<Rightarrow> prop_store \<Rightarrow> prop_error option \<times> prop_store" where
  "update_prop fault n f db =
     (let rows = set_row n f (ps_rows db) in
      if fault \<or> \<not> paths_unique rows then (Some Prop_db_error, db)
      else (if has_row n (ps_rows db) then None else Some No_proposal, db\<lparr>ps_rows := rows\<rparr>))"

definition mark_applied ::
  "bool \<Rightarrow> gostring \<Rightarrow> int \<Rightarrow> int \<Rightarrow> prop_store \<Rightarrow> prop_error option \<times> prop_store" where
  "mark_applied fault now n tracked =
     update_prop fault n (\<lambda>p. p\<lparr>p_status := Applied, p_tracked := tracked, p_applied_at := now\<rparr>)"

definition dismiss_prop :: "bool \<Rightarrow> int \<Rightarrow> prop_store \<Rightarrow> prop_error option \<times> prop_store" where
  "dismiss_prop fault n = update_prop fault n (\<lambda>p. p\<lparr>p_status := Dismissed\<rparr>)"

definition delete_prop :: "bool \<Rightarrow> int \<Rightarrow> prop_store \<Rightarrow> prop_error option \<times> prop_store" where
  "delete_prop fault n db =
     (if fault then (Some Prop_db_error, db)
      else (if has_row n (ps_rows db) then None else Some No_proposal,
            db\<lparr>ps_rows := filter (\<lambda>p. p_id p \<noteq> n) (ps_rows db)\<rparr>))"

definition repick ::
  "bool \<Rightarrow> int \<Rightarrow> gostring \<Rightarrow> int \<Rightarrow> int \<Rightarrow> int \<Rightarrow> prop_store \<Rightarrow> prop_error option \<times> prop_store" where
  "repick fault n title tmdb tvdb year =
     update_prop fault n (\<lambda>p. p\<lparr>p_title := title, p_tmdb := tmdb, p_tvdb := tvdb, p_year := year,
       p_status := Pending, p_reason := []\<rparr>)"

definition repick_episode ::
  "bool \<Rightarrow> int \<Rightarrow> gostring \<Rightarrow> int \<Rightarrow> int \<Rightarrow> int \<Rightarrow> int \<Rightarrow> int \<Rightarrow> gostring \<Rightarrow> prop_store \<Rightarrow> prop_error option \<times> prop_store" where
  "repick_episode fault n title tmdb tvdb year season episode etitle =
     update_prop fault n (\<lambda>p. p\<lparr>p_title := title, p_tmdb := tmdb, p_tvdb := tvdb, p_year := year,
       p_season := season, p_episode := episode, p_extra := [], p_episode_title := etitle,
       p_status := Pending, p_reason := []\<rparr>)"

definition repick_adult_scene ::
  "bool \<Rightarrow> int \<Rightarrow> gostring \<Rightarrow> gostring \<Rightarrow> gostring \<Rightarrow> gostring \<Rightarrow> gostring \<Rightarrow> prop_store \<Rightarrow> prop_error option \<times> prop_store" where
  "repick_adult_scene fault n title studio date box scene =
     update_prop fault n (\<lambda>p. p\<lparr>p_title := title, p_studio := studio, p_date := date, p_gb_box := box,
       p_gb_scene := scene, p_status := Pending, p_reason := []\<rparr>)"

definition mark_draft_submitted ::
  "bool \<Rightarrow> gostring \<Rightarrow> int \<Rightarrow> gostring \<Rightarrow> prop_store \<Rightarrow> prop_error option \<times> prop_store" where
  "mark_draft_submitted fault now n draft = update_prop fault n (\<lambda>p. p\<lparr>p_draft := draft, p_draft_at := now\<rparr>)"

definition mark_fingerprint_submitted ::
  "bool \<Rightarrow> gostring \<Rightarrow> int \<Rightarrow> prop_store \<Rightarrow> prop_error option \<times> prop_store" where
  "mark_fingerprint_submitted fault now n = update_prop fault n (\<lambda>p. p\<lparr>p_fingerprint_at := now\<rparr>)"

text \<open>Every column but the id, the mode, the workflow and the creation time.\<close>

definition snapshot_row :: "proposal \<Rightarrow> proposal \<Rightarrow> proposal" where
  "snapshot_row s p = s\<lparr>p_id := p_id p, p_mode := p_mode p, p_workflow := p_workflow p, p_created := p_created p\<rparr>"

definition restore_snapshot :: "bool \<Rightarrow> proposal \<Rightarrow> prop_store \<Rightarrow> prop_error option \<times> prop_store" where
  "restore_snapshot fault s = update_prop fault (p_id s) (snapshot_row s)"

text \<open>An insert; the row's id and creation time are the database's.\<close>

definition insert_prop :: "(int \<Rightarrow> gostring) \<Rightarrow> proposal \<Rightarrow> prop_store \<Rightarrow> proposal option \<times> prop_store" where
  "insert_prop clock row db =
     (let n = ps_next db; row' = row\<lparr>p_id := n, p_created := clock n\<rparr>; rows = ps_rows db @ [row'] in
      if paths_unique rows then (Some row', \<lparr>ps_rows = rows, ps_next = n + 1\<rparr>)
      else (None, db\<lparr>ps_next := n + 1\<rparr>))"

definition insert_applied ::
  "bool \<Rightarrow> (int \<Rightarrow> gostring) \<Rightarrow> proposal \<Rightarrow> prop_store \<Rightarrow> (prop_error + proposal) \<times> prop_store" where
  "insert_applied fault clock p0 db =
     (let p = p0\<lparr>p_status := Applied, p_workflow := wf_rename\<rparr>;
          row = p\<lparr>p_draft := [], p_draft_at := [], p_fingerprint_at := [], p_applied_at := clock (ps_next db)\<rparr> in
      if fault then (Inl Prop_db_error, db)
      else case insert_prop clock row db of
        (None, db') \<Rightarrow> (Inl Prop_db_error, db')
      | (Some r, db') \<Rightarrow> (Inr (p\<lparr>p_id := p_id r, p_created := p_created r, p_applied_at := p_applied_at r\<rparr>), db'))"

section \<open>Queries\<close>


definition in_workflow :: "gate_key \<Rightarrow> proposal \<Rightarrow> bool" where
  "in_workflow k p \<longleftrightarrow> p_mode p = fst k \<and> p_workflow p = snd k"

text \<open>The rows of a table that stands in the order of its ids, last first.\<close>

definition list_props :: "gate_key \<Rightarrow> prop_store \<Rightarrow> proposal list" where
  "list_props k db = rev (filter (in_workflow k) (ps_rows db))"

definition max_proposal_page_size :: int where "max_proposal_page_size = 200"
definition default_proposal_page_size :: int where "default_proposal_page_size = 50"

datatype list_view = View_live | View_history

definition parse_list_view :: "gostring \<Rightarrow> list_view" where
  "parse_list_view raw = (if equal_fold (trim_space raw) ''history'' then View_history else View_live)"

fun list_view_statuses :: "list_view \<Rightarrow> prop_status \<times> prop_status" where
  "list_view_statuses View_history = (Applied, Dismissed)"
| "list_view_statuses View_live = (Pending, Unmatched)"

definition in_view :: "list_view \<Rightarrow> proposal \<Rightarrow> bool" where
  "in_view v p \<longleftrightarrow> p_status p = fst (list_view_statuses v) \<or> p_status p = snd (list_view_statuses v)"

definition page_limit :: "int \<Rightarrow> int" where
  "page_limit limit =
     (let l = if limit \<le> 0 then default_proposal_page_size else limit in min l max_proposal_page_size)"

definition list_page :: "gate_key \<Rightarrow> int \<Rightarrow> int \<Rightarrow> list_view \<Rightarrow> prop_store \<Rightarrow> proposal list \<times> int" where
  "list_page k limit offset v db =
     (let rows = filter (in_view v) (list_props k db) in
      (take (nat (page_limit limit)) (drop (nat (max 0 offset)) rows), int (length rows)))"

definition list_pending_ids :: "gate_key \<Rightarrow> prop_store \<Rightarrow> int list" where
  "list_pending_ids k db = map p_id (filter (\<lambda>p. p_status p = Pending) (list_props k db))"

definition first_prop :: "proposal list \<Rightarrow> prop_error + proposal" where
  "first_prop rows = (case rows of [] \<Rightarrow> Inl No_proposal | r # rs \<Rightarrow> Inr r)"

definition get_prop :: "int \<Rightarrow> prop_store \<Rightarrow> prop_error + proposal" where
  "get_prop n db = first_prop (filter (\<lambda>p. p_id p = n) (ps_rows db))"

definition get_live_by_source_path :: "gate_key \<Rightarrow> gostring \<Rightarrow> prop_store \<Rightarrow> prop_error + proposal" where
  "get_live_by_source_path k path db =
     (if path = [] then Inl No_proposal
      else first_prop (filter (\<lambda>p. in_queue k p \<and> p_path p = path) (ps_rows db)))"

section \<open>Replacing the live queue\<close>

text \<open>
  The live rows of a queue by source path, read at the start of the transaction; of two rows of one
  path the later read wins.
\<close>

type_synonym existing = "gostring \<Rightarrow> (int \<times> gostring) option"

definition existing_rows :: "gate_key \<Rightarrow> prop_store \<Rightarrow> existing" where
  "existing_rows k db =
     map_of (rev (map (\<lambda>p. (p_path p, p_id p, p_created p))
       (filter (\<lambda>p. in_queue k p \<and> p_path p \<noteq> []) (ps_rows db))))"

text \<open>The columns a rescan writes over those of a row that is kept.\<close>

definition rescan_row :: "proposal \<Rightarrow> proposal \<Rightarrow> proposal" where
  "rescan_row q p =
     q\<lparr>p_id := p_id p, p_mode := p_mode p, p_workflow := p_workflow p, p_path := p_path p,
       p_draft := p_draft p, p_draft_at := p_draft_at p, p_fingerprint_at := p_fingerprint_at p,
       p_created := p_created p, p_applied_at := p_applied_at p\<rparr>"

definition insert_row :: "proposal \<Rightarrow> proposal" where
  "insert_row q = q\<lparr>p_draft := [], p_draft_at := [], p_fingerprint_at := [], p_applied_at := []\<rparr>"

text \<open>One entry of a scan: the returned proposal, or nothing when its statement fails.\<close>

definition stage_one ::
  "gate_key \<Rightarrow> (int \<Rightarrow> gostring) \<Rightarrow> existing \<Rightarrow> proposal \<Rightarrow> prop_store \<Rightarrow> proposal option \<times> prop_store" where
  "stage_one k clock ex p db =
     (let q = p\<lparr>p_mode := fst k, p_workflow := snd k\<rparr> in
      case (if p_path q \<noteq> [] then ex (p_path q) else None) of
        Some (n, created) \<Rightarrow>
          (let rows = set_row n (rescan_row q) (ps_rows db) in
           if paths_unique rows then (Some (q\<lparr>p_id := n, p_created := created\<rparr>), db\<lparr>ps_rows := rows\<rparr>)
           else (None, db))
      | None \<Rightarrow>
          (case insert_prop clock (insert_row q) db of
             (None, db') \<Rightarrow> (None, db')
           | (Some r, db') \<Rightarrow> (Some (q\<lparr>p_id := p_id r, p_created := p_created r\<rparr>), db')))"

fun stage ::
  "gate_key \<Rightarrow> (int \<Rightarrow> gostring) \<Rightarrow> existing \<Rightarrow> proposal list \<Rightarrow> prop_store \<Rightarrow> proposal list option \<times> prop_store" where
  "stage k clock ex [] db = (Some [], db)"
| "stage k clock ex (p # ps) db =
     (case stage_one k clock ex p db of
        (None, db') \<Rightarrow> (None, db')
      | (Some q, db') \<Rightarrow>
          (case stage k clock ex ps db' of
             (None, db'') \<Rightarrow> (None, db'')
           | (Some qs, db'') \<Rightarrow> (Some (q # qs), db'')))"

definition drop_orphans :: "gate_key \<Rightarrow> int set \<Rightarrow> proposal list \<Rightarrow> proposal list" where
  "drop_orphans k ids rows = filter (\<lambda>p. \<not> (in_queue k p \<and> p_id p \<notin> ids)) rows"

text \<open>The statements of the transaction and its commit; an aborted one leaves the rows as they were.\<close>

definition replace_tx ::
  "bool \<Rightarrow> gate_key \<Rightarrow> (int \<Rightarrow> gostring) \<Rightarrow> existing \<Rightarrow> proposal list \<Rightarrow> prop_store \<Rightarrow> (prop_error + proposal list) \<times> prop_store" where
  "replace_tx fault k clock ex fresh db =
     (case stage k clock ex fresh db of
        (None, db') \<Rightarrow> (Inl Prop_db_error, db\<lparr>ps_next := ps_next db'\<rparr>)
      | (Some out, db') \<Rightarrow>
          if fault then (Inl Prop_db_error, db\<lparr>ps_next := ps_next db'\<rparr>)
          else (Inr out, db'\<lparr>ps_rows := drop_orphans k (set (map p_id out)) (ps_rows db')\<rparr>))"

text \<open>
  \<open>ReplacePending\<close> when nothing else runs: both looks at the gate see the same. The race with the
  applies is in \<open>Replace_Race\<close>.
\<close>

definition replace_pending ::
  "bool \<Rightarrow> gate_key \<Rightarrow> (int \<Rightarrow> gostring) \<Rightarrow> proposal list \<Rightarrow> 'h apply_gate \<Rightarrow> prop_store \<Rightarrow>
   (prop_error + proposal list) \<times> 'h apply_gate \<times> prop_store" where
  "replace_pending fault k clock fresh g db =
     (if apply_in_flight k g then (Inl Replace_deferred, mark_deferred k g, db)
      else (case replace_tx fault k clock (existing_rows k db) fresh db of (r, db') \<Rightarrow> (r, g, db')))"

section \<open>Moving a proposal to another mode\<close>

record move_target =
  mt_mode :: gostring
  mt_root :: gostring
  mt_title :: gostring
  mt_tmdb :: int
  mt_year :: int
  mt_season :: int
  mt_episode :: int
  mt_studio :: gostring
  mt_date :: gostring
  mt_gb_box :: gostring
  mt_gb_scene :: gostring
  mt_foreign :: gostring
  mt_item_type :: gostring
  mt_candidates :: "dup_candidate list"

definition move_row :: "move_target \<Rightarrow> proposal \<Rightarrow> proposal" where
  "move_row t p =
     p\<lparr>p_mode := mt_mode t, p_root := mt_root t, p_candidates := mt_candidates t, p_tracked := 0,
       p_title := mt_title t, p_tmdb := mt_tmdb t, p_tvdb := 0, p_year := mt_year t,
       p_season := mt_season t, p_episode := mt_episode t, p_extra := [],
       p_studio := mt_studio t, p_date := mt_date t, p_gb_box := mt_gb_box t, p_gb_scene := mt_gb_scene t,
       p_foreign := mt_foreign t, p_item_type := mt_item_type t, p_phash := [], p_duration := 0,
       p_genres := [], p_cast := [], p_draft := [], p_draft_at := [], p_fingerprint_at := [],
       p_status := Pending, p_reason := []\<rparr>"

text \<open>One transaction over the library and the queue. \<open>retire\<close> is the deletion of tracking rows.\<close>

definition move_mode ::
  "bool \<Rightarrow> int \<Rightarrow> move_target \<Rightarrow> ('l \<Rightarrow> 'l option) \<Rightarrow> 'l \<times> prop_store \<Rightarrow> prop_error option \<times> 'l \<times> prop_store" where
  "move_mode fault n t retire s =
     (case retire (fst s) of
        None \<Rightarrow> (Some Prop_db_error, s)
      | Some lib \<Rightarrow>
          (let rows = set_row n (move_row t) (ps_rows (snd s)) in
           if fault then (Some Prop_db_error, s)
           else if \<not> paths_unique rows then (Some Move_conflict, s)
           else if \<not> has_row n (ps_rows (snd s)) then (Some No_proposal, s)
           else (None, lib, (snd s)\<lparr>ps_rows := rows\<rparr>)))"

end
