(* ===== verification/Prop_Facts.thy ===== *)
theory Prop_Facts
  imports Proposals
begin

text \<open>
  What the operations of the review queue keep and promise: the invariant of the table, the exact
  effect of a rescan, its failures, its repetition, pages, moves, and undo.
\<close>

section \<open>The invariant\<close>

definition store_ok :: "prop_store \<Rightarrow> bool" where
  "store_ok db \<longleftrightarrow> sorted_wrt (<) (map p_id (ps_rows db)) \<and> (\<forall>p\<in>set (ps_rows db). p_id p < ps_next db) \<and>
     paths_unique (ps_rows db)"

lemma row_ids [simp]:
  "p_id (move_row t p) = p_id p" "p_id (rescan_row q p) = p_id p" "p_id (snapshot_row s p) = p_id p"
  by (simp_all add: move_row_def rescan_row_def snapshot_row_def)

lemma map_id_set_row: "(\<And>p. p_id (f p) = p_id p) \<Longrightarrow> map p_id (set_row n f rows) = map p_id rows"
  by (simp add: set_row_def)

lemma sorted_ids_distinct: "sorted_wrt (<) (map p_id rows) \<Longrightarrow> distinct (map p_id rows)"
  by (metis strict_sorted_iff)

lemma sorted_wrt_map_filter: "sorted_wrt P (map f xs) \<Longrightarrow> sorted_wrt P (map f (filter Q xs))"
  by (induction xs) auto

lemma paths_unique_filter: "paths_unique rows \<Longrightarrow> paths_unique (filter Q rows)"
  unfolding paths_unique_def by (induction rows) (auto split: if_splits)

lemma store_okI:
  "sorted_wrt (<) (map p_id (ps_rows db)) \<Longrightarrow> (\<And>n. n \<in> set (map p_id (ps_rows db)) \<Longrightarrow> n < ps_next db) \<Longrightarrow>
   paths_unique (ps_rows db) \<Longrightarrow> store_ok db"
  by (auto simp: store_ok_def)

lemma store_okD:
  assumes "store_ok db"
  shows "sorted_wrt (<) (map p_id (ps_rows db))" "distinct (map p_id (ps_rows db))"
    "n \<in> set (map p_id (ps_rows db)) \<Longrightarrow> n < ps_next db" "paths_unique (ps_rows db)"
  using assms sorted_ids_distinct by (auto simp: store_ok_def)

text \<open>A rewriting of rows that keeps their ids and passes the index keeps the invariant.\<close>

lemma store_ok_set_row:
  "store_ok db \<Longrightarrow> (\<And>p. p_id (f p) = p_id p) \<Longrightarrow> paths_unique (set_row n f (ps_rows db)) \<Longrightarrow>
   store_ok (db\<lparr>ps_rows := set_row n f (ps_rows db)\<rparr>)"
  by (rule store_okI) (auto simp: map_id_set_row dest: store_okD simp del: set_map)

lemma store_ok_filter: "store_ok db \<Longrightarrow> store_ok (db\<lparr>ps_rows := filter Q (ps_rows db)\<rparr>)"
  by (auto simp: store_ok_def intro: sorted_wrt_map_filter paths_unique_filter)

lemma store_ok_next: "store_ok db \<Longrightarrow> ps_next db \<le> m \<Longrightarrow> store_ok (db\<lparr>ps_next := m\<rparr>)"
  by (fastforce simp: store_ok_def)

lemma store_ok_insert:
  assumes "store_ok db" "insert_prop clock row db = (r, db')"
  shows "store_ok db' \<and> ps_next db' = ps_next db + 1"
  using assms
  by (fastforce simp: insert_prop_def Let_def store_ok_def sorted_wrt_append split: if_splits)

lemma update_prop_ok:
  "store_ok db \<Longrightarrow> (\<And>p. p_id (f p) = p_id p) \<Longrightarrow> store_ok (snd (update_prop fault n f db))"
  by (simp add: update_prop_def Let_def store_ok_set_row)

lemma stage_one_ok:
  assumes ok: "store_ok db" and st: "stage_one k clock ex p db = (r, db')"
  shows "store_ok db' \<and> ps_next db \<le> ps_next db'"
proof (cases "if p_path p \<noteq> [] then ex (p_path p) else None")
  case None
  then obtain r1 where "insert_prop clock (insert_row (p\<lparr>p_mode := fst k, p_workflow := snd k\<rparr>)) db = (r1, db')"
    using st by (auto simp: stage_one_def Let_def split: prod.splits option.splits if_splits)
  then show ?thesis using store_ok_insert [OF ok] by fastforce
next
  case (Some a)
  then show ?thesis using st ok
    by (auto simp: stage_one_def Let_def intro: store_ok_set_row split: prod.splits if_splits)
qed

lemma stage_ok:
  "store_ok db \<Longrightarrow> stage k clock ex ps db = (r, db') \<Longrightarrow> store_ok db' \<and> ps_next db \<le> ps_next db'"
proof (induction ps arbitrary: db r db')
  case (Cons p ps)
  obtain r1 db1 where 1: "stage_one k clock ex p db = (r1, db1)" by fastforce
  have ok1: "store_ok db1" "ps_next db \<le> ps_next db1" using stage_one_ok [OF Cons.prems(1) 1] by auto
  show ?case
  proof (cases r1)
    case None
    then show ?thesis using Cons.prems(2) 1 ok1 by simp
  next
    case (Some q)
    obtain r2 db2 where 2: "stage k clock ex ps db1 = (r2, db2)" by fastforce
    then have "db' = db2" using Cons.prems(2) 1 Some by (simp split: option.splits)
    then show ?thesis using Cons.IH [OF ok1(1) 2] ok1(2) by auto
  qed
qed simp

lemma replace_tx_ok: "store_ok db \<Longrightarrow> store_ok (snd (replace_tx fault k clock ex fresh db))"
  using stage_ok [of db k clock ex fresh]
  by (cases "stage k clock ex fresh db")
    (auto simp: replace_tx_def drop_orphans_def store_ok_next store_ok_filter split: option.splits)

lemma move_mode_ok:
  "store_ok (snd s) \<Longrightarrow> move_mode fault n t retire s = (e, s') \<Longrightarrow> store_ok (snd s')"
  by (cases s) (auto simp: move_mode_def Let_def store_ok_set_row split: option.splits if_splits)

section \<open>Sequences of operations\<close>

datatype prop_step =
    P_applied int int
  | P_dismiss int
  | P_delete int
  | P_repick int gostring int int int
  | P_episode int gostring int int int int int gostring
  | P_scene int gostring gostring gostring gostring gostring
  | P_draft int gostring
  | P_fingerprint int
  | P_restore proposal
  | P_insert proposal
  | P_replace gate_key existing "proposal list"
  | P_move int move_target

text \<open>
  One operation, with its failure and the clock. A replacement comes with the live rows its
  transaction read, which may be older than the table it writes to.
\<close>

fun prop_exec :: "bool \<Rightarrow> (int \<Rightarrow> gostring) \<Rightarrow> prop_step \<Rightarrow> prop_store \<Rightarrow> prop_store" where
  "prop_exec f c (P_applied n t) db = snd (mark_applied f (c 0) n t db)"
| "prop_exec f c (P_dismiss n) db = snd (dismiss_prop f n db)"
| "prop_exec f c (P_delete n) db = snd (delete_prop f n db)"
| "prop_exec f c (P_repick n t tm tv y) db = snd (repick f n t tm tv y db)"
| "prop_exec f c (P_episode n t tm tv y s e et) db = snd (repick_episode f n t tm tv y s e et db)"
| "prop_exec f c (P_scene n t st d b sc) db = snd (repick_adult_scene f n t st d b sc db)"
| "prop_exec f c (P_draft n d) db = snd (mark_draft_submitted f (c 0) n d db)"
| "prop_exec f c (P_fingerprint n) db = snd (mark_fingerprint_submitted f (c 0) n db)"
| "prop_exec f c (P_restore s) db = snd (restore_snapshot f s db)"
| "prop_exec f c (P_insert p) db = snd (insert_applied f c p db)"
| "prop_exec f c (P_replace k ex fresh) db = snd (replace_tx f k c ex fresh db)"
| "prop_exec f c (P_move n t) db = snd (snd (move_mode f n t Some ((), db)))"

type_synonym prop_call = "bool \<times> (int \<Rightarrow> gostring) \<times> prop_step"

definition prop_run :: "prop_call list \<Rightarrow> prop_store \<Rightarrow> prop_store" where
  "prop_run calls db = foldl (\<lambda>db (f, c, a). prop_exec f c a db) db calls"

lemma prop_run_Nil [simp]: "prop_run [] db = db"
  by (simp add: prop_run_def)

lemma prop_run_Cons [simp]: "prop_run ((f, c, a) # calls) db = prop_run calls (prop_exec f c a db)"
  by (simp add: prop_run_def)

lemmas prop_ops = mark_applied_def dismiss_prop_def repick_def repick_episode_def repick_adult_scene_def
  mark_draft_submitted_def mark_fingerprint_submitted_def restore_snapshot_def snapshot_row_def

lemma insert_applied_ok: "store_ok db \<Longrightarrow> store_ok (snd (insert_applied f c p db))"
  by (auto simp: insert_applied_def Let_def dest: store_ok_insert split: prod.splits option.splits)

lemma prop_exec_ok: "store_ok db \<Longrightarrow> store_ok (prop_exec f c a db)"
  by (cases a)
    (auto simp: prop_ops update_prop_ok delete_prop_def store_ok_filter insert_applied_ok replace_tx_ok
      intro: move_mode_ok [of "((), db)" _ _ _ Some, OF _ surjective_pairing, simplified])

lemma prop_run_ok: "store_ok db \<Longrightarrow> store_ok (prop_run calls db)"
  by (induction calls arbitrary: db) (auto simp: prop_exec_ok)

end
