(* ===== verification/Prop_Replace.thy ===== *)
theory Prop_Replace
  imports Prop_Facts
begin

text \<open>
  What a rescan does to the review queue: a reference definition of the table after it (the rows of
  other queues and the history untouched, the live rows found again kept in place with their ids, the
  others dropped, the new entries appended), and the proof that the statements of
  \<open>ReplacePending\<close> compute it.
\<close>

section \<open>The reference\<close>

definition to_queue :: "gate_key \<Rightarrow> proposal \<Rightarrow> proposal" where
  "to_queue k q = q\<lparr>p_mode := fst k, p_workflow := snd k\<rparr>"

text \<open>The entry of a scan that a row is found again by.\<close>

definition scan_entry :: "gate_key \<Rightarrow> proposal list \<Rightarrow> proposal \<Rightarrow> proposal option" where
  "scan_entry k fresh p =
     (if in_queue k p \<and> p_path p \<noteq> [] then find (\<lambda>q. p_path q = p_path p) fresh else None)"

definition rescanned :: "gate_key \<Rightarrow> proposal list \<Rightarrow> proposal \<Rightarrow> proposal" where
  "rescanned k fresh p = (case scan_entry k fresh p of None \<Rightarrow> p | Some q \<Rightarrow> rescan_row (to_queue k q) p)"

definition is_new :: "existing \<Rightarrow> proposal \<Rightarrow> bool" where
  "is_new ex q \<longleftrightarrow> p_path q = [] \<or> ex (p_path q) = None"

fun number_rows :: "(int \<Rightarrow> gostring) \<Rightarrow> int \<Rightarrow> proposal list \<Rightarrow> proposal list" where
  "number_rows clock n [] = []"
| "number_rows clock n (q # qs) = (insert_row q)\<lparr>p_id := n, p_created := clock n\<rparr> # number_rows clock (n + 1) qs"

definition new_rows :: "gate_key \<Rightarrow> (int \<Rightarrow> gostring) \<Rightarrow> existing \<Rightarrow> proposal list \<Rightarrow> int \<Rightarrow> proposal list" where
  "new_rows k clock ex fresh n = number_rows clock n (map (to_queue k) (filter (is_new ex) fresh))"

definition merged_rows :: "gate_key \<Rightarrow> (int \<Rightarrow> gostring) \<Rightarrow> proposal list \<Rightarrow> prop_store \<Rightarrow> proposal list" where
  "merged_rows k clock fresh db =
     map (rescanned k fresh) (filter (\<lambda>p. in_queue k p \<longrightarrow> scan_entry k fresh p \<noteq> None) (ps_rows db)) @
     new_rows k clock (existing_rows k db) fresh (ps_next db)"

text \<open>The proposals returned: the entries with the ids and dates of their rows.\<close>

fun scan_out :: "gate_key \<Rightarrow> (int \<Rightarrow> gostring) \<Rightarrow> existing \<Rightarrow> int \<Rightarrow> proposal list \<Rightarrow> proposal list" where
  "scan_out k clock ex n [] = []"
| "scan_out k clock ex n (q # qs) =
     (if is_new ex q then (to_queue k q)\<lparr>p_id := n, p_created := clock n\<rparr> # scan_out k clock ex (n + 1) qs
      else (to_queue k q)\<lparr>p_id := fst (the (ex (p_path q))), p_created := snd (the (ex (p_path q)))\<rparr> #
        scan_out k clock ex n qs)"

definition scan_paths :: "proposal list \<Rightarrow> gostring list" where
  "scan_paths fresh = filter (\<lambda>s. s \<noteq> []) (map p_path fresh)"

lemma scan_paths_simps [simp]:
  "scan_paths [] = []" "scan_paths (q # qs) = (if p_path q = [] then scan_paths qs else p_path q # scan_paths qs)"
  by (simp_all add: scan_paths_def)

lemma in_scan_paths: "s \<in> set (scan_paths qs) \<longleftrightarrow> s \<noteq> [] \<and> (\<exists>q\<in>set qs. p_path q = s)"
  by (auto simp: scan_paths_def)

lemma scan_entry_None: "in_queue k p \<Longrightarrow> scan_entry k qs p \<noteq> None \<longleftrightarrow> (\<exists>q\<in>set qs. p_path q \<noteq> [] \<and> p_path q = p_path p)"
  unfolding scan_entry_def by (simp add: find_None_iff del: not_None_eq) metis

lemma find_path_None: "s \<noteq> [] \<Longrightarrow> find (\<lambda>q. p_path q = s) qs = None \<longleftrightarrow> s \<notin> set (scan_paths qs)"
  by (auto simp: in_scan_paths find_None_iff)

section \<open>Columns\<close>

lemma rescan_row_cols [simp]:
  "p_mode (rescan_row q p) = p_mode p" "p_workflow (rescan_row q p) = p_workflow p"
  "p_path (rescan_row q p) = p_path p" "p_created (rescan_row q p) = p_created p"
  "p_status (rescan_row q p) = p_status q" "p_draft (rescan_row q p) = p_draft p"
  "p_draft_at (rescan_row q p) = p_draft_at p" "p_fingerprint_at (rescan_row q p) = p_fingerprint_at p"
  by (simp_all add: rescan_row_def)

lemma to_queue_cols [simp]:
  "p_path (to_queue k q) = p_path q" "p_status (to_queue k q) = p_status q" "p_mode (to_queue k q) = fst k"
  "p_workflow (to_queue k q) = snd k" "live (to_queue k q) = live q"
  by (simp_all add: to_queue_def live_def)

lemma insert_row_cols [simp]:
  "p_path (insert_row q) = p_path q" "p_status (insert_row q) = p_status q" "p_mode (insert_row q) = p_mode q"
  "p_workflow (insert_row q) = p_workflow q"
  by (simp_all add: insert_row_def)

lemma in_queue_rescan: "live q \<Longrightarrow> in_queue k p \<Longrightarrow> in_queue k (rescan_row q p)"
  by (simp add: in_queue_def live_def)

lemma scan_entry_cong:
  "in_queue k p = in_queue k p' \<Longrightarrow> p_path p = p_path p' \<Longrightarrow> scan_entry k qs p = scan_entry k qs p'"
  by (simp add: scan_entry_def)

lemma existing_iff:
  assumes "paths_unique (ps_rows db)"
  shows "existing_rows k db s = Some (n, c) \<longleftrightarrow>
    s \<noteq> [] \<and> (\<exists>p\<in>set (ps_rows db). in_queue k p \<and> p_path p = s \<and> p_id p = n \<and> p_created p = c)"
proof -
  let ?qs = "filter (\<lambda>p. in_queue k p \<and> p_path p \<noteq> []) (ps_rows db)"
  have "map p_path ?qs = map snd (map live_key ?qs)" by (simp add: live_key_def)
  have "?qs = filter (\<lambda>p. in_queue k p) (filter indexed (ps_rows db))"
    by (auto simp: indexed_def in_queue_def intro!: filter_cong)
  then have d: "distinct (map live_key ?qs)"
    using assms unfolding paths_unique_def by (metis distinct_map_filter)
  have "distinct (map p_path ?qs)"
    using d by (auto simp: distinct_map inj_on_def live_key_def in_queue_def)
  then have "distinct (map fst (rev (map (\<lambda>p. (p_path p, p_id p, p_created p)) ?qs)))"
    by (simp add: comp_def flip: rev_map)
  then have "existing_rows k db s = Some (n, c) \<longleftrightarrow>
    (s, n, c) \<in> set (rev (map (\<lambda>p. (p_path p, p_id p, p_created p)) ?qs))"
    by (simp add: existing_rows_def map_of_eq_Some_iff del: set_rev)
  then show ?thesis by auto
qed

section \<open>The statements\<close>

text \<open>
  What the transaction read agrees with the table for the entries still to come: the row of a path is
  the one live row there, and a path without a row has none.
\<close>

definition agrees_at :: "gate_key \<Rightarrow> gostring \<Rightarrow> (int \<times> gostring) option \<Rightarrow> int \<Rightarrow> proposal list \<Rightarrow> bool" where
  "agrees_at k s e nxt rows \<longleftrightarrow>
     (case e of
        Some (n, c) \<Rightarrow> n < nxt \<and> (\<forall>p\<in>set rows. p_id p = n \<longleftrightarrow> in_queue k p \<and> p_path p = s)
      | None \<Rightarrow> \<forall>p\<in>set rows. \<not> (in_queue k p \<and> p_path p = s))"

definition agrees :: "gate_key \<Rightarrow> existing \<Rightarrow> proposal list \<Rightarrow> prop_store \<Rightarrow> bool" where
  "agrees k ex qs db \<longleftrightarrow> (\<forall>s\<in>set (scan_paths qs). agrees_at k s (ex s) (ps_next db) (ps_rows db))"

lemma agrees_existing:
  assumes ok: "store_ok db"
  shows "agrees k (existing_rows k db) qs db"
  unfolding agrees_def
proof
  fix s
  assume s: "s \<in> set (scan_paths qs)"
  note ex = existing_iff [OF store_okD(4) [OF ok], of k s]
  show "agrees_at k s (existing_rows k db s) (ps_next db) (ps_rows db)"
  proof (cases "existing_rows k db s")
    case None
    then show ?thesis using ex s by (auto simp: agrees_at_def in_scan_paths)
  next
    case (Some nc)
    then obtain p where p: "p \<in> set (ps_rows db)" "in_queue k p" "p_path p = s" "p_id p = fst nc" "s \<noteq> []"
      using ex by (cases nc) auto
    have n: "fst nc < ps_next db" using ok p(1,4) by (auto simp: store_ok_def)
    have "p_id r = fst nc \<longleftrightarrow> in_queue k r \<and> p_path r = s" if r: "r \<in> set (ps_rows db)" for r
    proof
      assume "p_id r = fst nc"
      then have "r = p" using inj_onD [of p_id "set (ps_rows db)" r p] store_okD(2) [OF ok] r p(1,4)
        by (simp add: distinct_map)
      then show "in_queue k r \<and> p_path r = s" using p by simp
    next
      assume q: "in_queue k r \<and> p_path r = s"
      have "indexed r" "indexed p" using q p(2,3,5) by (auto simp: indexed_def in_queue_def)
      moreover have "live_key r = live_key p" using q p(2,3) by (simp add: live_key_def in_queue_def)
      ultimately have "r = p" using store_okD(4) [OF ok] r p(1)
        by (auto simp: paths_unique_def distinct_map inj_on_def)
      then show "p_id r = fst nc" using p(4) by simp
    qed
    then show ?thesis using Some n by (cases nc) (simp add: agrees_at_def)
  qed
qed

text \<open>One entry that finds its row.\<close>

lemma rescanned_one:
  "rescanned k [q] p =
     (if in_queue k p \<and> p_path p \<noteq> [] \<and> p_path q = p_path p then rescan_row (to_queue k q) p else p)"
  by (simp add: rescanned_def scan_entry_def)

lemma set_row_rescan:
  assumes ag: "\<forall>p\<in>set rows. p_id p = n \<longleftrightarrow> in_queue k p \<and> p_path p = p_path q" and "p_path q \<noteq> []"
  shows "set_row n (rescan_row (to_queue k q)) rows = map (rescanned k [q]) rows"
  using assms by (auto simp: set_row_def rescanned_one)

lemma live_key_rescanned:
  assumes "live q"
  shows "indexed (rescanned k [q] p) = indexed p" "live_key (rescanned k [q] p) = live_key p"
    "in_queue k (rescanned k [q] p) = in_queue k p" "p_path (rescanned k [q] p) = p_path p"
    "p_id (rescanned k [q] p) = p_id p"
  using assms
  by (auto simp: rescanned_one indexed_def live_key_def in_queue_def live_def)

lemma paths_unique_rescanned: "live q \<Longrightarrow> paths_unique (map (rescanned k [q]) rows) = paths_unique rows"
  by (simp add: paths_unique_def filter_map comp_def live_key_rescanned)

lemma rescanned_Cons:
  assumes "live q" "p_path q \<notin> set (scan_paths qs)"
  shows "rescanned k (q # qs) p = rescanned k qs (rescanned k [q] p)"
proof (cases "in_queue k p \<and> p_path p \<noteq> [] \<and> p_path q = p_path p")
  case True
  then have e: "rescanned k [q] p = rescan_row (to_queue k q) p" "rescanned k (q # qs) p = rescan_row (to_queue k q) p"
    by (auto simp: rescanned_def scan_entry_def)
  have "scan_entry k qs (rescan_row (to_queue k q) p) = None"
    using assms(2) True by (auto simp: scan_entry_def find_path_None)
  then show ?thesis using e by (simp add: rescanned_def)
next
  case False
  then have "rescanned k [q] p = p" by (auto simp: rescanned_one)
  moreover have "scan_entry k (q # qs) p = scan_entry k qs p" using False by (auto simp: scan_entry_def)
  ultimately show ?thesis by (simp add: rescanned_def)
qed

lemma agrees_rescanned:
  assumes ag: "agrees k ex (q # qs) db" and "live q"
  shows "agrees k ex qs (db\<lparr>ps_rows := map (rescanned k [q]) (ps_rows db)\<rparr>)"
proof -
  have "agrees_at k s e n (map (rescanned k [q]) rows) = agrees_at k s e n rows" for s e n rows
    by (auto simp: agrees_at_def live_key_rescanned [OF assms(2)] split: option.splits)
  moreover have "set (scan_paths qs) \<subseteq> set (scan_paths (q # qs))" by auto
  ultimately show ?thesis using ag by (auto simp: agrees_def)
qed

text \<open>One entry without a row.\<close>

lemma agrees_insert:
  assumes ag: "agrees k ex (q # qs) db" and "p_path q \<notin> set (scan_paths qs)"
    and r: "p_id r = ps_next db" "p_path r = p_path q"
  shows "agrees k ex qs \<lparr>ps_rows = ps_rows db @ [r], ps_next = ps_next db + 1\<rparr>"
  unfolding agrees_def
proof
  fix s
  assume s: "s \<in> set (scan_paths qs)"
  then have "agrees_at k s (ex s) (ps_next db) (ps_rows db)" using ag by (auto simp: agrees_def)
  moreover have "p_path r \<noteq> s" using s assms(2) r(2) by auto
  ultimately show "agrees_at k s (ex s) (ps_next \<lparr>ps_rows = ps_rows db @ [r], ps_next = ps_next db + 1\<rparr>)
      (ps_rows \<lparr>ps_rows = ps_rows db @ [r], ps_next = ps_next db + 1\<rparr>)"
    using r(1) by (auto simp: agrees_at_def split: option.splits)
qed

lemma paths_unique_snoc:
  assumes "paths_unique rows" and "\<forall>p\<in>set rows. indexed r \<longrightarrow> indexed p \<longrightarrow> live_key p \<noteq> live_key r"
  shows "paths_unique (rows @ [r])"
  using assms by (auto simp: paths_unique_def)

lemma stage_spec:
  assumes "paths_unique (ps_rows db)" "\<forall>q\<in>set qs. live q" "distinct (scan_paths qs)" "agrees k ex qs db"
  shows "stage k clock ex qs db =
    (Some (scan_out k clock ex (ps_next db) qs),
     \<lparr>ps_rows = map (rescanned k qs) (ps_rows db) @ new_rows k clock ex qs (ps_next db),
      ps_next = ps_next db + int (length (filter (is_new ex) qs))\<rparr>)"
  using assms
proof (induction qs arbitrary: db)
  case Nil
  have "rescanned k [] = id" by (auto simp: rescanned_def scan_entry_def)
  then show ?case by (simp add: new_rows_def)
next
  case (Cons q qs)
  note live = Cons.prems(2)
  have lq: "live q" using live by simp
  have nq: "p_path q \<noteq> [] \<Longrightarrow> p_path q \<notin> set (scan_paths qs)" "distinct (scan_paths qs)"
    using Cons.prems(3) by (auto split: if_splits)
  have nq': "p_path q \<notin> set (scan_paths qs)" using nq(1) by (cases "p_path q = []") (auto simp: in_scan_paths)
  show ?case
  proof (cases "is_new ex q")
    case False
    then obtain n c where ex: "p_path q \<noteq> []" "ex (p_path q) = Some (n, c)" by (auto simp: is_new_def)
    let ?rows = "map (rescanned k [q]) (ps_rows db)"
    have ag: "\<forall>p\<in>set (ps_rows db). p_id p = n \<longleftrightarrow> in_queue k p \<and> p_path p = p_path q"
      using Cons.prems(4) ex by (auto simp: agrees_def agrees_at_def)
    have rows: "set_row n (rescan_row (to_queue k q)) (ps_rows db) = ?rows" by (rule set_row_rescan [OF ag ex(1)])
    have u: "paths_unique ?rows" using Cons.prems(1) by (simp add: paths_unique_rescanned [OF lq])
    have one: "stage_one k clock ex q db = (Some ((to_queue k q)\<lparr>p_id := n, p_created := c\<rparr>), db\<lparr>ps_rows := ?rows\<rparr>)"
      using ex u rows by (simp add: stage_one_def Let_def to_queue_def)
    have IH: "stage k clock ex qs (db\<lparr>ps_rows := ?rows\<rparr>) =
      (Some (scan_out k clock ex (ps_next db) qs),
       \<lparr>ps_rows = map (rescanned k qs) ?rows @ new_rows k clock ex qs (ps_next db),
        ps_next = ps_next db + int (length (filter (is_new ex) qs))\<rparr>)"
      using Cons.IH [of "db\<lparr>ps_rows := ?rows\<rparr>"] u live nq(2) agrees_rescanned [OF Cons.prems(4) lq] by simp
    have "map (rescanned k qs) ?rows = map (rescanned k (q # qs)) (ps_rows db)"
      by (simp add: rescanned_Cons [OF lq nq'])
    then show ?thesis using one IH False ex by (simp add: new_rows_def)
  next
    case True
    let ?n = "ps_next db"
    let ?r = "(insert_row (to_queue k q))\<lparr>p_id := ?n, p_created := clock ?n\<rparr>"
    let ?db = "\<lparr>ps_rows = ps_rows db @ [?r], ps_next = ?n + 1\<rparr>"
    have "\<forall>p\<in>set (ps_rows db). indexed ?r \<longrightarrow> indexed p \<longrightarrow> live_key p \<noteq> live_key ?r"
      using True Cons.prems(4)
      by (auto simp: agrees_def agrees_at_def is_new_def indexed_def live_key_def in_queue_def)
    then have u: "paths_unique (ps_rows ?db)" using paths_unique_snoc [OF Cons.prems(1)] by simp
    have one: "stage_one k clock ex q db = (Some ((to_queue k q)\<lparr>p_id := ?n, p_created := clock ?n\<rparr>), ?db)"
      using True u by (auto simp: stage_one_def Let_def to_queue_def is_new_def insert_prop_def split: if_splits)
    have ag: "agrees k ex qs ?db" by (rule agrees_insert [OF Cons.prems(4) nq']) simp_all
    have IH: "stage k clock ex qs ?db =
      (Some (scan_out k clock ex (?n + 1) qs),
       \<lparr>ps_rows = map (rescanned k qs) (ps_rows db @ [?r]) @ new_rows k clock ex qs (?n + 1),
        ps_next = ?n + 1 + int (length (filter (is_new ex) qs))\<rparr>)"
      using Cons.IH [of ?db] u live nq(2) ag by simp
    have "scan_entry k qs ?r = None"
      using nq' find_path_None [of "p_path q" qs] by (cases "p_path q = []") (auto simp: scan_entry_def)
    then have r: "rescanned k qs ?r = ?r" by (simp add: rescanned_def)
    have "rescanned k (q # qs) p = rescanned k qs p" if "p \<in> set (ps_rows db)" for p
    proof -
      have "\<not> (in_queue k p \<and> p_path p \<noteq> [] \<and> p_path q = p_path p)"
        using True Cons.prems(4) that by (auto simp: is_new_def agrees_def agrees_at_def)
      then have "rescanned k [q] p = p" by (auto simp: rescanned_one)
      then show ?thesis using rescanned_Cons [OF lq nq'] by simp
    qed
    then have "map (rescanned k (q # qs)) (ps_rows db) = map (rescanned k qs) (ps_rows db)" by simp
    then show ?thesis using one IH True r by (simp add: new_rows_def)
  qed
qed

section \<open>The rescan\<close>

lemma new_row_in_queue:
  "r \<in> set (number_rows clock n qs) \<Longrightarrow> \<exists>q\<in>set qs. live r = live q \<and> p_mode r = p_mode q \<and> p_workflow r = p_workflow q"
  by (induction qs arbitrary: n) (auto simp: live_def)

lemma number_rows_ids: "map p_id (number_rows clock n qs) = map (\<lambda>i. n + int i) [0..<length qs]"
proof (induction qs arbitrary: n)
  case (Cons q qs)
  have "map (\<lambda>i. n + int i) [0..<length (q # qs)] = n # map (\<lambda>i. n + 1 + int i) [0..<length qs]"
    by (simp add: map_upt_Suc del: upt_Suc)
  then show ?case using Cons by simp
qed simp

text \<open>The ids of the returned proposals: those of the rows found again and of the new ones.\<close>

lemma scan_out_ids:
  "set (map p_id (scan_out k clock ex n qs)) =
   {fst (the (ex (p_path q))) | q. q \<in> set qs \<and> \<not> is_new ex q} \<union> set (map p_id (new_rows k clock ex qs n))"
  by (induction qs arbitrary: n) (auto simp: new_rows_def)

lemma rescanned_id [simp]: "p_id (rescanned k qs p) = p_id p"
  by (simp add: rescanned_def split: option.splits)

lemma in_queue_rescanned:
  assumes "\<forall>q\<in>set qs. live q"
  shows "in_queue k (rescanned k qs p) = in_queue k p"
proof (cases "scan_entry k qs p")
  case (Some q)
  then have "q \<in> set qs" "in_queue k p" by (auto simp: scan_entry_def find_Some_iff split: if_splits)
  then show ?thesis using Some assms in_queue_rescan [of "to_queue k q" k p] by (simp add: rescanned_def)
qed (simp add: rescanned_def)

lemma orphan_iff:
  assumes ok: "store_ok db" and p: "p \<in> set (ps_rows db)" and q: "in_queue k p"
    and out: "out = scan_out k clock (existing_rows k db) (ps_next db) fresh"
  shows "p_id p \<in> set (map p_id out) \<longleftrightarrow> scan_entry k fresh p \<noteq> None"
proof -
  let ?ex = "existing_rows k db"
  note ex = existing_iff [OF store_okD(4) [OF ok], of k]
  have "p_id p < ps_next db" using ok p by (auto simp: store_ok_def)
  then have "p_id p \<notin> set (map p_id (new_rows k clock ?ex fresh (ps_next db)))"
    unfolding new_rows_def number_rows_ids by auto
  then have "p_id p \<in> set (map p_id out) \<longleftrightarrow> (\<exists>q\<in>set fresh. \<not> is_new ?ex q \<and> fst (the (?ex (p_path q))) = p_id p)"
    unfolding out scan_out_ids by auto
  also have "\<dots> \<longleftrightarrow> (\<exists>q\<in>set fresh. p_path q \<noteq> [] \<and> p_path q = p_path p)"
  proof
    assume "\<exists>q\<in>set fresh. \<not> is_new ?ex q \<and> fst (the (?ex (p_path q))) = p_id p"
    then obtain q' n c where 1: "q' \<in> set fresh" "p_path q' \<noteq> []" "?ex (p_path q') = Some (n, c)" "n = p_id p"
      by (auto simp: is_new_def)
    then obtain r where "r \<in> set (ps_rows db)" "p_path r = p_path q'" "p_id r = p_id p" using ex by auto
    then have "r = p" using inj_onD [of p_id "set (ps_rows db)" r p] store_okD(2) [OF ok] p by (simp add: distinct_map)
    then show "\<exists>q\<in>set fresh. p_path q \<noteq> [] \<and> p_path q = p_path p" using 1 \<open>p_path r = p_path q'\<close> by auto
  next
    assume "\<exists>q\<in>set fresh. p_path q \<noteq> [] \<and> p_path q = p_path p"
    then obtain q' where 2: "q' \<in> set fresh" "p_path q' \<noteq> []" "p_path q' = p_path p" by auto
    then have "?ex (p_path q') = Some (p_id p, p_created p)" using ex p q by auto
    then show "\<exists>q\<in>set fresh. \<not> is_new ?ex q \<and> fst (the (?ex (p_path q))) = p_id p"
      using 2 by (intro bexI [of _ q']) (auto simp: is_new_def)
  qed
  also have "\<dots> \<longleftrightarrow> scan_entry k fresh p \<noteq> None" using scan_entry_None [OF q] by simp
  finally show ?thesis .
qed

lemma replace_tx_merges:
  assumes ok: "store_ok db" and lv: "\<forall>q\<in>set fresh. live q" and ds: "distinct (scan_paths fresh)"
  shows "replace_tx False k clock (existing_rows k db) fresh db =
    (Inr (scan_out k clock (existing_rows k db) (ps_next db) fresh),
     \<lparr>ps_rows = merged_rows k clock fresh db,
      ps_next = ps_next db + int (length (filter (is_new (existing_rows k db)) fresh))\<rparr>)"
proof -
  let ?ex = "existing_rows k db"
  let ?new = "new_rows k clock ?ex fresh (ps_next db)"
  let ?out = "scan_out k clock ?ex (ps_next db) fresh"
  let ?ids = "set (map p_id ?out)"
  have st: "stage k clock ?ex fresh db =
    (Some ?out, \<lparr>ps_rows = map (rescanned k fresh) (ps_rows db) @ ?new,
      ps_next = ps_next db + int (length (filter (is_new ?ex) fresh))\<rparr>)"
    by (rule stage_spec [OF store_okD(4) [OF ok] lv ds agrees_existing [OF ok]])
  have "set (map p_id ?new) \<subseteq> ?ids" unfolding scan_out_ids by auto
  then have new: "drop_orphans k ?ids ?new = ?new" by (auto simp: drop_orphans_def intro!: filter_True)
  have old: "drop_orphans k ?ids (map (rescanned k fresh) (ps_rows db)) =
      map (rescanned k fresh) (filter (\<lambda>p. in_queue k p \<longrightarrow> scan_entry k fresh p \<noteq> None) (ps_rows db))"
    unfolding drop_orphans_def filter_map comp_def rescanned_id in_queue_rescanned [OF lv]
    using orphan_iff [OF ok _ _ refl, of _ k clock fresh] by (intro arg_cong [where f = "map _"] filter_cong) auto
  have "drop_orphans k ?ids (map (rescanned k fresh) (ps_rows db) @ ?new) = merged_rows k clock fresh db"
    using old new by (simp add: merged_rows_def drop_orphans_def)
  then show ?thesis by (simp add: replace_tx_def st)
qed

text \<open>A row of the merged table in the queue carries the columns of the entry of its path.\<close>

lemma number_rows_rescan:
  "r \<in> set (number_rows clock n (map (to_queue k) qs)) \<Longrightarrow>
   \<exists>q\<in>set qs. p_path r = p_path q \<and> r = rescan_row (to_queue k q) r"
proof (induction qs arbitrary: n)
  case (Cons q qs)
  show ?case
  proof (cases "r \<in> set (number_rows clock (n + 1) (map (to_queue k) qs))")
    case False
    then have "r = (insert_row (to_queue k q))\<lparr>p_id := n, p_created := clock n\<rparr>" using Cons.prems by simp
    then show ?thesis by (simp add: insert_row_def rescan_row_def to_queue_def)
  qed (use Cons.IH in auto)
qed simp

lemma rescan_row_again [simp]: "rescan_row q (rescan_row q p) = rescan_row q p"
  by (simp add: rescan_row_def)

lemma merged_row_entry:
  assumes p: "p \<in> set (merged_rows k clock fresh db)" and q: "in_queue k p" and lv: "\<forall>q\<in>set fresh. live q"
  shows "\<exists>q\<in>set fresh. p_path p = p_path q \<and> p = rescan_row (to_queue k q) p"
proof (cases "p \<in> set (new_rows k clock (existing_rows k db) fresh (ps_next db))")
  case True
  then obtain q where "q \<in> set (filter (is_new (existing_rows k db)) fresh)"
      "p_path p = p_path q" "p = rescan_row (to_queue k q) p"
    unfolding new_rows_def by (blast dest: number_rows_rescan)
  then show ?thesis by auto
next
  case False
  then obtain r where r: "p = rescanned k fresh r" "in_queue k r \<longrightarrow> scan_entry k fresh r \<noteq> None"
    using p by (auto simp: merged_rows_def)
  then have "in_queue k r" using q in_queue_rescanned [OF lv] by simp
  then obtain q where q: "scan_entry k fresh r = Some q" using r(2) by auto
  then have "q \<in> set fresh" "p_path q = p_path r" by (auto simp: scan_entry_def find_Some_iff split: if_splits)
  moreover have "p = rescan_row (to_queue k q) r" using r(1) q by (simp add: rescanned_def)
  ultimately show ?thesis by (intro bexI [of _ q]) simp_all
qed

lemma number_rows_path: "q \<in> set qs \<Longrightarrow> \<exists>r\<in>set (number_rows clock n qs). p_path r = p_path q"
  by (induction qs arbitrary: n) auto

lemma number_rows_queue:
  "r \<in> set (number_rows clock n (map (to_queue k) qs)) \<Longrightarrow> \<forall>q\<in>set qs. live q \<Longrightarrow> in_queue k r"
  using new_row_in_queue [of r clock n "map (to_queue k) qs"] by (auto simp: in_queue_def)

text \<open>Every path of the scan has its live row afterwards.\<close>

lemma merged_path_live:
  assumes ok: "store_ok db" and lv: "\<forall>q\<in>set fresh. live q" and q: "q \<in> set fresh" "p_path q \<noteq> []"
  shows "\<exists>p\<in>set (merged_rows k clock fresh db). in_queue k p \<and> p_path p = p_path q"
proof (cases "is_new (existing_rows k db) q")
  case True
  let ?qs = "filter (is_new (existing_rows k db)) fresh"
  have "to_queue k q \<in> set (map (to_queue k) ?qs)" using True q(1) by simp
  then obtain r where "r \<in> set (new_rows k clock (existing_rows k db) fresh (ps_next db))" "p_path r = p_path q"
    using number_rows_path unfolding new_rows_def by fastforce
  moreover have "in_queue k r" if "r \<in> set (new_rows k clock (existing_rows k db) fresh (ps_next db))" for r
    using number_rows_queue [of r clock _ k ?qs] that lv unfolding new_rows_def by auto
  ultimately show ?thesis by (auto simp: merged_rows_def)
next
  case False
  then obtain n c where "existing_rows k db (p_path q) = Some (n, c)" by (auto simp: is_new_def)
  then obtain p where p: "p \<in> set (ps_rows db)" "in_queue k p" "p_path p = p_path q"
    using existing_iff [OF store_okD(4) [OF ok]] by blast
  have e: "scan_entry k fresh p \<noteq> None" using scan_entry_None [OF p(2)] p(3) q by auto
  then have "rescanned k fresh p \<in> set (merged_rows k clock fresh db)" using p(1) by (auto simp: merged_rows_def)
  moreover have "p_path (rescanned k fresh p) = p_path q" using p(3) by (simp add: rescanned_def split: option.splits)
  ultimately show ?thesis using in_queue_rescanned [OF lv] p(2) by blast
qed

lemma find_distinct_path:
  "distinct (scan_paths qs) \<Longrightarrow> q \<in> set qs \<Longrightarrow> p_path q \<noteq> [] \<Longrightarrow> find (\<lambda>r. p_path r = p_path q) qs = Some q"
  by (induction qs) (auto simp: in_scan_paths split: if_splits)

lemma merged_again:
  assumes ok: "store_ok db" and lv: "\<forall>q\<in>set fresh. live q" and ds: "distinct (scan_paths fresh)"
    and ne: "\<forall>q\<in>set fresh. p_path q \<noteq> []"
    and db': "ps_rows db' = merged_rows k clock fresh db" and ok': "store_ok db'"
  shows "filter (is_new (existing_rows k db')) fresh = [] \<and> merged_rows k clock' fresh db' = ps_rows db'"
proof -
  have "\<not> is_new (existing_rows k db') q" if q: "q \<in> set fresh" for q
  proof -
    have nq: "p_path q \<noteq> []" using ne q by simp
    obtain p where "p \<in> set (ps_rows db')" "in_queue k p" "p_path p = p_path q"
      using merged_path_live [OF ok lv q nq, of k clock] db' by auto
    then have "existing_rows k db' (p_path q) = Some (p_id p, p_created p)"
      using existing_iff [OF store_okD(4) [OF ok']] nq by auto
    then show ?thesis using nq by (simp add: is_new_def)
  qed
  then have new: "filter (is_new (existing_rows k db')) fresh = []" by auto
  have row: "(in_queue k p \<longrightarrow> scan_entry k fresh p \<noteq> None) \<and> rescanned k fresh p = p" if p: "p \<in> set (ps_rows db')" for p
  proof (cases "in_queue k p")
    case True
    then obtain q where q: "q \<in> set fresh" "p_path p = p_path q" "p = rescan_row (to_queue k q) p"
      using merged_row_entry [of p k clock fresh db] p db' lv by auto
    have "scan_entry k fresh p = Some q"
      using find_distinct_path [OF ds q(1)] ne q(1,2) True by (simp add: scan_entry_def)
    then show ?thesis using q(3) by (simp add: rescanned_def)
  qed (simp add: rescanned_def scan_entry_def)
  have "map (rescanned k fresh) (ps_rows db') = map id (ps_rows db')" by (rule map_cong) (use row in auto)
  moreover have "filter (\<lambda>p. in_queue k p \<longrightarrow> scan_entry k fresh p \<noteq> None) (ps_rows db') = ps_rows db'"
    using row by (auto intro: filter_True)
  ultimately show ?thesis using new by (simp add: merged_rows_def new_rows_def)
qed

section \<open>Scans that name a file twice\<close>

text \<open>A live row at a path the transaction did not read: an entry for it is refused by the index.\<close>

definition taken :: "gate_key \<Rightarrow> gostring \<Rightarrow> prop_store \<Rightarrow> bool" where
  "taken k s db \<longleftrightarrow> (\<exists>p\<in>set (ps_rows db). indexed p \<and> live_key p = (k, s))"

lemma stage_one_keeps_taken:
  assumes "taken k s db" "stage_one k clock ex q db = (Some r, db')" "live q"
  shows "taken k s db'"
proof -
  obtain p where p: "p \<in> set (ps_rows db)" "indexed p" "live_key p = (k, s)" using assms(1) by (auto simp: taken_def)
  have q: "indexed (rescan_row (to_queue k q) p)" "live_key (rescan_row (to_queue k q) p) = (k, s)"
    using p assms(3) by (simp_all add: indexed_def live_key_def live_def)
  have "ps_rows db' = ps_rows db @ [r'] \<or> ps_rows db' = set_row n (rescan_row (to_queue k q)) (ps_rows db)"
    if "r' = (insert_row (to_queue k q))\<lparr>p_id := ps_next db, p_created := clock (ps_next db)\<rparr>"
      "n = fst (the (ex (p_path q)))" for r' n
    using assms(2) that
    by (auto simp: stage_one_def Let_def insert_prop_def to_queue_def split: option.splits if_splits)
  then consider r' where "ps_rows db' = ps_rows db @ [r']"
    | n where "ps_rows db' = set_row n (rescan_row (to_queue k q)) (ps_rows db)" by blast
  then show ?thesis
  proof cases
    case 1
    then show ?thesis using p by (auto simp: taken_def)
  next
    case 2
    then have "p \<in> set (ps_rows db') \<or> rescan_row (to_queue k q) p \<in> set (ps_rows db')"
      using p(1) by (auto simp: set_row_def)
    then show ?thesis using p q by (auto simp: taken_def)
  qed
qed

lemma stage_one_takes:
  assumes "stage_one k clock ex q db = (Some r, db')" "live q" "p_path q \<noteq> []" "ex (p_path q) = None"
  shows "\<not> taken k (p_path q) db \<and> taken k (p_path q) db'"
proof -
  let ?r = "(insert_row (to_queue k q))\<lparr>p_id := ps_next db, p_created := clock (ps_next db)\<rparr>"
  have i: "paths_unique (ps_rows db @ [?r])" "ps_rows db' = ps_rows db @ [?r]"
    using assms(1,3,4)
    by (auto simp: stage_one_def Let_def to_queue_def insert_prop_def split: option.splits if_splits prod.splits)
  have r: "indexed ?r" "live_key ?r = (k, p_path q)" using assms(2,3) by (simp_all add: indexed_def live_key_def live_def)
  then have "(k, p_path q) \<notin> set (map live_key (filter indexed (ps_rows db)))"
    using i(1) by (simp add: paths_unique_def)
  then have "\<forall>p\<in>set (ps_rows db). indexed p \<longrightarrow> live_key p \<noteq> (k, p_path q)"
    by (auto simp: image_iff)
  then show ?thesis using r i(2) by (auto simp: taken_def)
qed

lemma stage_taken_fails:
  assumes "taken k s db" "\<forall>q\<in>set qs. live q" "q \<in> set qs" "p_path q = s" "s \<noteq> []" "ex s = None"
  shows "fst (stage k clock ex qs db) = None"
  using assms
proof (induction qs arbitrary: db)
  case (Cons p ps)
  obtain r db1 where 1: "stage_one k clock ex p db = (r, db1)" by fastforce
  show ?case
  proof (cases r)
    case (Some r1)
    have "p \<noteq> q" using stage_one_takes [of k clock ex p db r1 db1] 1 Some Cons.prems by auto
    then have "q \<in> set ps" using Cons.prems(3) by simp
    then have "fst (stage k clock ex ps db1) = None"
      using Cons.IH [OF stage_one_keeps_taken [of k s db clock ex p r1 db1]] 1 Some Cons.prems by simp
    then show ?thesis using 1 Some by (auto split: prod.splits)
  qed (simp add: 1)
qed simp

lemma stage_twice_fails:
  assumes "\<forall>q\<in>set (as @ q # bs @ r # cs). live q" "p_path q = s" "p_path r = s" "s \<noteq> []" "ex s = None"
  shows "fst (stage k clock ex (as @ q # bs @ r # cs) db) = None"
  using assms
proof (induction as arbitrary: db)
  case Nil
  obtain x db1 where 1: "stage_one k clock ex q db = (x, db1)" by fastforce
  show ?case
  proof (cases x)
    case (Some x1)
    then have "taken k s db1" using stage_one_takes [of k clock ex q db x1 db1] 1 Nil.prems by auto
    then have "fst (stage k clock ex (bs @ r # cs) db1) = None"
      using stage_taken_fails [of k s db1 "bs @ r # cs" r ex clock] Nil.prems by auto
    then show ?thesis using 1 Some by (auto split: prod.splits)
  qed (simp add: 1)
next
  case (Cons a as)
  obtain x db1 where 1: "stage_one k clock ex a db = (x, db1)" by fastforce
  have "fst (stage k clock ex (as @ q # bs @ r # cs) db1) = None" using Cons by simp
  then show ?case using 1 by (auto split: prod.splits option.splits)
qed

section \<open>Properties\<close>

definition sample_row :: "int \<Rightarrow> prop_status \<Rightarrow> gostring \<Rightarrow> proposal" where
  "sample_row n st path =
     zero_proposal\<lparr>p_id := n, p_mode := ''movies'', p_workflow := wf_rename, p_status := st, p_path := path\<rparr>"

definition sample_store :: prop_store where
  "sample_store = \<lparr>ps_rows = [sample_row 1 Applied ''/a'', sample_row 2 Pending ''/b'', sample_row 3 Unmatched ''/c''],
     ps_next = 4\<rparr>"

lemmas sample_defs = sample_store_def sample_row_def zero_proposal_def wf_rename_def

lemma sample_ok: "store_ok sample_store"
  by (simp add: store_ok_def paths_unique_def sample_defs indexed_def live_def live_key_def)

text \<open>
  C4. A rescan of a queue in which no apply is running turns the table into the reference merge: rows of
  other queues and the history are untouched, a live row whose file was found again keeps its id, its
  creation date and its submission stamps and takes the columns of the scan, a live row whose file was not
  found is dropped, and the new files follow with fresh ids; what is returned are the entries with the ids
  of their rows.
\<close>

theorem rescan_merges:
  assumes "store_ok db" and "\<forall>q\<in>set fresh. live q" and "distinct (scan_paths fresh)" and "\<not> apply_in_flight k g"
  shows "replace_pending False k clock fresh g db =
    (Inr (scan_out k clock (existing_rows k db) (ps_next db) fresh), g,
     \<lparr>ps_rows = merged_rows k clock fresh db,
      ps_next = ps_next db + int (length (filter (is_new (existing_rows k db)) fresh))\<rparr>)"
  using assms by (simp add: replace_pending_def replace_tx_merges)

theorem rescan_merges_witness:
  "let k = (''movies'', wf_rename); fresh = [sample_row 0 Unmatched ''/b'', sample_row 0 Pending ''/d''];
     db = snd (snd (replace_pending False k (\<lambda>n. ''t'') fresh (new_apply_gate :: unit apply_gate) sample_store)) in
   map p_id (ps_rows db) = [1, 2, 4] \<and> map p_path (ps_rows db) = [''/a'', ''/b'', ''/d''] \<and>
   map p_status (ps_rows db) = [Applied, Unmatched, Pending]"
proof -
  let ?k = "(''movies'', wf_rename)"
  let ?fresh = "[sample_row 0 Unmatched ''/b'', sample_row 0 Pending ''/d'']"
  have 1: "\<forall>q\<in>set ?fresh. live q" "distinct (scan_paths ?fresh)" "\<not> apply_in_flight ?k (new_apply_gate :: unit apply_gate)"
    by (simp_all add: sample_defs live_def apply_in_flight_def new_apply_gate_def)
  show ?thesis
    unfolding rescan_merges [OF sample_ok 1, of "\<lambda>n. ''t''"] Let_def
    by (simp add: merged_rows_def new_rows_def existing_rows_def rescanned_def scan_entry_def is_new_def sample_defs
      in_queue_def live_def to_queue_def rescan_row_def insert_row_def)
qed

text \<open>
  Scanning again without a change on disk changes nothing: after a rescan, a second one that finds the
  same files leaves every row and the next id as they are.
\<close>

theorem rescan_idempotent:
  assumes "store_ok db" and "\<forall>q\<in>set fresh. live q \<and> p_path q \<noteq> []" and "distinct (map p_path fresh)"
    and "\<not> apply_in_flight k g"
  shows "let db' = snd (snd (replace_pending False k clock fresh g db)) in
    snd (snd (replace_pending False k clock' fresh g db')) = db'"
proof -
  have lv: "\<forall>q\<in>set fresh. live q" and ne: "\<forall>q\<in>set fresh. p_path q \<noteq> []" using assms(2) by auto
  have "filter (\<lambda>s. s \<noteq> []) (map p_path fresh) = map p_path fresh" using ne by (auto intro: filter_True)
  then have ds: "distinct (scan_paths fresh)" using assms(3) by (simp add: scan_paths_def)
  obtain out db' where r: "replace_tx False k clock (existing_rows k db) fresh db = (Inr out, db')"
    and rows: "ps_rows db' = merged_rows k clock fresh db"
    using replace_tx_merges [OF assms(1) lv ds, of k clock] by simp
  have ok': "store_ok db'" using replace_tx_ok [OF assms(1), of False k clock "existing_rows k db" fresh] r by simp
  have again: "filter (is_new (existing_rows k db')) fresh = []" "merged_rows k clock' fresh db' = ps_rows db'"
    using merged_again [OF assms(1) lv ds ne rows ok'] by auto
  have "snd (replace_tx False k clock' (existing_rows k db') fresh db') = db'"
    unfolding replace_tx_merges [OF ok' lv ds] using again by simp
  then show ?thesis using assms(4) r by (simp add: replace_pending_def Let_def case_prod_unfold)
qed

theorem rescan_idempotent_witness:
  "let k = (''movies'', wf_rename); fresh = [sample_row 0 Unmatched ''/b'', sample_row 0 Pending ''/d''];
     g = (new_apply_gate :: unit apply_gate); db = snd (snd (replace_pending False k (\<lambda>n. ''t'') fresh g sample_store)) in
   snd (snd (replace_pending False k (\<lambda>n. ''u'') fresh g db)) = db"
proof -
  let ?fresh = "[sample_row 0 Unmatched ''/b'', sample_row 0 Pending ''/d'']"
  have 1: "\<forall>q\<in>set ?fresh. live q \<and> p_path q \<noteq> []" "distinct (map p_path ?fresh)"
    "\<not> apply_in_flight (''movies'', wf_rename) (new_apply_gate :: unit apply_gate)"
    by (simp_all add: sample_defs live_def apply_in_flight_def new_apply_gate_def)
  show ?thesis
    unfolding Let_def by (rule rescan_idempotent [OF sample_ok 1, unfolded Let_def])
qed

text \<open>
  A scan that names a file twice which has no live row is refused as a whole: the second insert breaks
  the index, the transaction rolls back, and the queue keeps its rows, whatever else the scan found.
\<close>

theorem duplicate_scan_refused:
  assumes "\<forall>q\<in>set fresh. live q" and "fresh = as @ q # bs @ r # cs" and "p_path q = p_path r" and "p_path q \<noteq> []"
    and "existing_rows k db (p_path q) = None" and "\<not> apply_in_flight k g"
  shows "let x = replace_pending fault k clock fresh g db in
    fst x = Inl Prop_db_error \<and> ps_rows (snd (snd x)) = ps_rows db"
proof -
  have "fst (stage k clock (existing_rows k db) fresh db) = None"
    unfolding assms(2) by (rule stage_twice_fails [of _ _ _ _ _ "p_path q"]) (use assms in auto)
  then obtain db' where "stage k clock (existing_rows k db) fresh db = (None, db')" by (metis surjective_pairing)
  then show ?thesis using assms(6) by (simp add: replace_pending_def replace_tx_def Let_def)
qed

theorem duplicate_scan_refused_witness:
  "let x = replace_pending False (''movies'', wf_rename) (\<lambda>n. ''t'')
       [sample_row 0 Pending ''/b'', sample_row 0 Pending ''/d'', sample_row 0 Pending ''/d'']
       (new_apply_gate :: unit apply_gate) sample_store in
   fst x = Inl Prop_db_error \<and> ps_rows (snd (snd x)) = ps_rows sample_store"
  by (rule duplicate_scan_refused [of _ "[sample_row 0 Pending ''/b'']" "sample_row 0 Pending ''/d''" "[]"
        "sample_row 0 Pending ''/d''" "[]"])
    (simp_all add: sample_defs live_def apply_in_flight_def new_apply_gate_def existing_rows_def in_queue_def)

end
