(* ===== verification/Prop_Claims.thy ===== *)
theory Prop_Claims
  imports Prop_Replace
begin

text \<open>
  Properties of the review queue beyond the rescan: the invariant of the table under every sequence of
  operations, pages, moves between modes, and the restoring of a snapshot.
\<close>

section \<open>The index\<close>

lemma paths_unique_iff:
  assumes "distinct (map p_id rows)"
  shows "paths_unique rows \<longleftrightarrow>
    (\<forall>p\<in>set rows. \<forall>r\<in>set rows. indexed p \<longrightarrow> indexed r \<longrightarrow> live_key p = live_key r \<longrightarrow> p_id p = p_id r)"
proof -
  have d: "distinct (filter indexed rows)" using assms by (simp add: distinct_map)
  have "p = r" if "p \<in> set rows" "r \<in> set rows" "p_id p = p_id r" for p r
    using assms that by (auto simp: distinct_map dest: inj_onD)
  then show ?thesis using d by (auto simp: paths_unique_def distinct_map inj_on_def)
qed

text \<open>An update of one row is refused exactly when another live row has the key it would take.\<close>

lemma set_row_unique:
  assumes ok: "store_ok db" and p: "p \<in> set (ps_rows db)" "p_id p = n" and f: "p_id (f p) = n"
  shows "paths_unique (set_row n f (ps_rows db)) \<longleftrightarrow>
    \<not> (\<exists>r\<in>set (ps_rows db). p_id r \<noteq> n \<and> indexed r \<and> indexed (f p) \<and> live_key r = live_key (f p))"
proof -
  let ?rows = "ps_rows db"
  have one: "r = p" if "r \<in> set ?rows" "p_id r = n" for r
    using store_okD(2) [OF ok] that p by (auto simp: distinct_map dest: inj_onD)
  then have "map p_id (set_row n f ?rows) = map p_id ?rows" using f by (auto simp: set_row_def)
  then have d: "distinct (map p_id (set_row n f ?rows))" using store_okD(2) [OF ok] by simp
  have s: "set (set_row n f ?rows) = insert (f p) {r \<in> set ?rows. p_id r \<noteq> n}"
  proof
    show "set (set_row n f ?rows) \<subseteq> insert (f p) {r \<in> set ?rows. p_id r \<noteq> n}"
      using one by (auto simp: set_row_def)
    have "f p \<in> set (set_row n f ?rows)" using p by (force simp: set_row_def)
    then show "insert (f p) {r \<in> set ?rows. p_id r \<noteq> n} \<subseteq> set (set_row n f ?rows)"
      by (force simp: set_row_def)
  qed
  have u: "p_id r = p_id r'" if "r \<in> set ?rows" "r' \<in> set ?rows" "indexed r" "indexed r'" "live_key r = live_key r'" for r r'
    using store_okD(4) [OF ok] that unfolding paths_unique_iff [OF store_okD(2) [OF ok]] by blast
  let ?rest = "{r \<in> set ?rows. p_id r \<noteq> n}"
  have "(\<forall>a\<in>insert (f p) ?rest. \<forall>r\<in>insert (f p) ?rest. indexed a \<longrightarrow> indexed r \<longrightarrow> live_key a = live_key r \<longrightarrow> p_id a = p_id r)
     \<longleftrightarrow> (\<forall>r\<in>?rest. indexed r \<longrightarrow> indexed (f p) \<longrightarrow> live_key r \<noteq> live_key (f p))" (is "?L \<longleftrightarrow> ?R")
  proof
    assume ?L
    then show ?R using f by (metis (mono_tags, lifting) insert_iff mem_Collect_eq)
  next
    assume R: ?R
    show ?L
    proof (intro ballI impI)
      fix a r
      assume "a \<in> insert (f p) ?rest" "r \<in> insert (f p) ?rest" "indexed a" "indexed r" "live_key a = live_key r"
      then consider "a = f p" "r = f p" | "a = f p" "r \<in> ?rest" | "a \<in> ?rest" "r = f p" | "a \<in> ?rest" "r \<in> ?rest"
        by blast
      then show "p_id a = p_id r"
      proof cases
        case 4
        then show ?thesis using u [of a r] \<open>indexed a\<close> \<open>indexed r\<close> \<open>live_key a = live_key r\<close> by simp
      qed (use R \<open>indexed a\<close> \<open>indexed r\<close> \<open>live_key a = live_key r\<close> in auto)
    qed
  qed
  then show ?thesis unfolding paths_unique_iff [OF d] s by blast
qed

lemma get_prop_Inr:
  assumes "store_ok db"
  shows "get_prop n db = Inr p \<longleftrightarrow> p \<in> set (ps_rows db) \<and> p_id p = n"
proof
  assume "get_prop n db = Inr p"
  then obtain rs where "filter (\<lambda>p. p_id p = n) (ps_rows db) = p # rs"
    by (auto simp: get_prop_def first_prop_def split: list.splits)
  then have "p \<in> set (filter (\<lambda>p. p_id p = n) (ps_rows db))" by simp
  then show "p \<in> set (ps_rows db) \<and> p_id p = n" by simp
next
  assume p: "p \<in> set (ps_rows db) \<and> p_id p = n"
  then have "p \<in> set (filter (\<lambda>p. p_id p = n) (ps_rows db))" by simp
  then obtain r rs where f: "filter (\<lambda>p. p_id p = n) (ps_rows db) = r # rs" by (metis list.set_cases)
  then have "r \<in> set (filter (\<lambda>p. p_id p = n) (ps_rows db))" by simp
  then have "r \<in> set (ps_rows db)" "p_id r = n" by simp_all
  then have "r = p" using store_okD(2) [OF assms] p by (auto simp: distinct_map dest: inj_onD)
  then show "get_prop n db = Inr p" using f by (simp add: get_prop_def first_prop_def)
qed

lemma get_prop_set_row:
  assumes "store_ok db" "get_prop n db = Inr p" "p_id (f p) = n"
  shows "get_prop n (db\<lparr>ps_rows := set_row n f (ps_rows db)\<rparr>) = Inr (f p)"
proof -
  have "filter (\<lambda>p. p_id p = n) (set_row n f rows) = map f (filter (\<lambda>p. p_id p = n) rows)"
    if "\<forall>r\<in>set rows. p_id r = n \<longrightarrow> p_id (f r) = n" for rows
    using that by (induction rows) (auto simp: set_row_def)
  moreover have "\<forall>r\<in>set (ps_rows db). p_id r = n \<longrightarrow> p_id (f r) = n"
    using get_prop_Inr [OF assms(1), of n] assms(2,3) by fastforce
  ultimately show ?thesis using assms(2) by (auto simp: get_prop_def first_prop_def split: list.splits)
qed

lemma has_row_get: "store_ok db \<Longrightarrow> has_row n (ps_rows db) \<longleftrightarrow> (\<exists>p. get_prop n db = Inr p)"
  by (auto simp: get_prop_Inr has_row_def)

section \<open>The lineage of a row\<close>

text \<open>A row of the table after an operation with an id that was taken before is the same proposal.\<close>

definition same_row :: "bool \<Rightarrow> proposal \<Rightarrow> proposal \<Rightarrow> bool" where
  "same_row moved p p' \<longleftrightarrow> p_id p' = p_id p \<and> p_workflow p' = p_workflow p \<and> p_created p' = p_created p \<and>
     (\<not> moved \<longrightarrow> p_mode p' = p_mode p)"

definition descends :: "(int \<Rightarrow> bool) \<Rightarrow> prop_store \<Rightarrow> prop_store \<Rightarrow> bool" where
  "descends moved db db' \<longleftrightarrow> ps_next db \<le> ps_next db' \<and>
     (\<forall>p'\<in>set (ps_rows db'). p_id p' < ps_next db \<longrightarrow> (\<exists>p\<in>set (ps_rows db). same_row (moved (p_id p)) p p'))"

lemma same_row_refl [simp]: "same_row m p p"
  by (simp add: same_row_def)

lemma same_row_self [intro]: "p \<in> set rows \<Longrightarrow> \<exists>q\<in>set rows. same_row (m (p_id q)) q p"
  by (rule bexI [of _ p]) simp_all

lemma descends_refl [simp]: "descends m db db"
  by (auto simp: descends_def)

lemma descends_trans:
  assumes "descends m db1 db2" "descends m db2 db3"
  shows "descends m db1 db3"
  unfolding descends_def
proof (intro conjI ballI impI)
  show "ps_next db1 \<le> ps_next db3" using assms by (auto simp: descends_def)
  fix p3
  assume "p3 \<in> set (ps_rows db3)" "p_id p3 < ps_next db1"
  moreover then obtain p2 where p2: "p2 \<in> set (ps_rows db2)" "same_row (m (p_id p2)) p2 p3"
    using assms by (fastforce simp: descends_def)
  ultimately have "p_id p2 < ps_next db1" by (simp add: same_row_def)
  then obtain p1 where "p1 \<in> set (ps_rows db1)" "same_row (m (p_id p1)) p1 p2"
    using assms(1) p2(1) by (auto simp: descends_def)
  then show "\<exists>p\<in>set (ps_rows db1). same_row (m (p_id p)) p p3" using p2(2) by (auto simp: same_row_def)
qed

lemma descends_rows:
  assumes "\<And>p'. p' \<in> set rows \<Longrightarrow> \<exists>p\<in>set (ps_rows db). same_row (m (p_id p)) p p'"
  shows "descends m db (db\<lparr>ps_rows := rows\<rparr>)"
  using assms by (simp add: descends_def)

lemma descends_set_row:
  assumes "\<And>p. same_row (m (p_id p)) p (f p) \<or> p_id p \<noteq> n"
  shows "descends m db (db\<lparr>ps_rows := set_row n f (ps_rows db)\<rparr>)"
proof (rule descends_rows)
  fix p'
  assume "p' \<in> set (set_row n f (ps_rows db))"
  then obtain p where p: "p \<in> set (ps_rows db)" "p' = (if p_id p = n then f p else p)" by (auto simp: set_row_def)
  then have "same_row (m (p_id p)) p p'" using assms [of p] by auto
  then show "\<exists>p\<in>set (ps_rows db). same_row (m (p_id p)) p p'" using p(1) by blast
qed

lemma descends_next: "descends m db (db\<lparr>ps_next := k\<rparr>) \<longleftrightarrow> ps_next db \<le> k"
  by (auto simp: descends_def)

lemma descends_insert: "insert_prop clock row db = (r, db') \<Longrightarrow> descends m db db'"
  by (auto simp: insert_prop_def Let_def descends_def split: if_splits)

lemma descends_stage_one: "stage_one k clock ex q db = (r, db') \<Longrightarrow> descends m db db'"
  by (auto simp: stage_one_def Let_def intro: descends_insert intro!: descends_set_row
      simp: same_row_def split: option.splits prod.splits if_splits)

lemma descends_stage: "stage k clock ex qs db = (r, db') \<Longrightarrow> descends m db db'"
proof (induction qs arbitrary: db r)
  case (Cons q qs)
  obtain r1 db1 where 1: "stage_one k clock ex q db = (r1, db1)" by fastforce
  obtain r2 db2 where 2: "stage k clock ex qs db1 = (r2, db2)" by fastforce
  have "db' = db1 \<or> db' = db2" using Cons.prems 1 2 by (auto split: option.splits)
  then show ?case using descends_stage_one [OF 1] descends_trans Cons.IH [of db1 r2] 2 by blast
qed simp

lemma descends_replace: "descends m db (snd (replace_tx f k c ex fresh db))"
proof -
  obtain r db' where st: "stage k c ex fresh db = (r, db')" by fastforce
  have d: "descends m db db'" by (rule descends_stage [OF st])
  then have "ps_next db \<le> ps_next db'" by (simp add: descends_def)
  moreover have "descends m db (db'\<lparr>ps_rows := filter Q (ps_rows db')\<rparr>)" for Q
    using d by (auto simp: descends_def)
  ultimately show ?thesis
    by (auto simp: replace_tx_def st descends_next drop_orphans_def split: option.splits)
qed

fun moves :: "prop_step \<Rightarrow> int \<Rightarrow> bool" where
  "moves (P_move n t) = (\<lambda>i. i = n)"
| "moves _ = (\<lambda>i. False)"

lemma descends_update:
  "(\<And>p. same_row False p (f p) \<or> p_id p \<noteq> n) \<Longrightarrow> descends (\<lambda>i. False) db (snd (update_prop fault n f db))"
  by (auto simp: update_prop_def Let_def intro: descends_set_row)

lemma descends_exec: "descends (moves a) db (prop_exec f c a db)"
proof (cases a)
  case (P_insert p)
  then show ?thesis
    by (auto simp: insert_applied_def Let_def intro: descends_insert split: prod.splits option.splits)
next
  case (P_replace k ex fresh)
  then show ?thesis by (simp add: descends_replace)
next
  case (P_delete n)
  then show ?thesis by (auto simp: delete_prop_def intro!: descends_rows same_row_self [where m = "\<lambda>_. False"])
next
  case (P_move n t)
  then show ?thesis
    by (auto simp: move_mode_def Let_def move_row_def same_row_def intro!: descends_set_row)
qed (auto simp: prop_ops same_row_def intro!: descends_update)

lemma descends_run:
  "\<forall>(f, c, a)\<in>set calls. \<not> moves a n \<Longrightarrow> descends (\<lambda>i. i \<noteq> n) db (prop_run calls db)"
proof (induction calls arbitrary: db)
  case (Cons x calls)
  obtain f c a where x: "x = (f, c, a)" by (cases x)
  have "descends (\<lambda>i. i \<noteq> n) db (prop_exec f c a db)"
    using descends_exec [of a db f c] Cons.prems by (fastforce simp: descends_def same_row_def x)
  then show ?case using Cons x by (auto intro: descends_trans)
qed simp

section \<open>Pages\<close>

lemma page_limit_id: "1 \<le> l \<Longrightarrow> l \<le> max_proposal_page_size \<Longrightarrow> page_limit l = l"
  by (simp add: page_limit_def Let_def)

lemma pages_concat:
  "concat (map (\<lambda>i. take l (drop (l * i) xs)) [0..<n]) = take (l * n) xs"
proof (induction n)
  case (Suc n)
  have "take (l * n) xs @ take l (drop (l * n) xs) = take (l * n + l) xs" by (simp add: take_add)
  then show ?case using Suc by (simp add: add.commute)
qed simp

text \<open>
  Paging through a view loses and repeats nothing: the pages of any size up to the limit, asked for one
  after the other, put together are the whole view, newest first; each reports the same total, which is its
  length.
\<close>

theorem pages_cover_view:
  assumes "1 \<le> l" and "l \<le> max_proposal_page_size"
    and "snd (list_page k l 0 v db) \<le> l * int n"
  shows "concat (map (\<lambda>i. fst (list_page k l (l * int i) v db)) [0..<n]) = filter (in_view v) (list_props k db) \<and>
    (\<forall>i. snd (list_page k l i v db) = int (length (filter (in_view v) (list_props k db))))"
proof -
  let ?xs = "filter (in_view v) (list_props k db)"
  have page: "fst (list_page k l (l * int i) v db) = take (nat l) (drop (nat l * i) ?xs)" for i
    using assms(1,2) by (simp add: list_page_def page_limit_id Let_def nat_mult_distrib max_def)
  have "length ?xs \<le> nat l * n" using assms(1,3) by (simp add: list_page_def Let_def) (metis nat_int nat_le_iff nat_mult_distrib
        of_nat_le_iff of_nat_mult int_nat_eq order.trans zero_le_one)
  then show ?thesis unfolding page pages_concat by (simp add: list_page_def Let_def)
qed

theorem pages_cover_view_witness:
  "concat (map (\<lambda>i. fst (list_page (''movies'', wf_rename) 1 (1 * int i) View_live sample_store)) [0..<2]) =
   [sample_row 3 Unmatched ''/c'', sample_row 2 Pending ''/b'']"
proof -
  have f: "filter (in_view View_live) (list_props (''movies'', wf_rename) sample_store) =
    [sample_row 3 Unmatched ''/c'', sample_row 2 Pending ''/b'']"
    by (simp add: list_props_def sample_defs in_workflow_def in_view_def)
  have "snd (list_page (''movies'', wf_rename) 1 0 View_live sample_store) \<le> 1 * int 2"
    by (simp add: list_page_def f Let_def)
  then show ?thesis
    using pages_cover_view [of 1 "(''movies'', wf_rename)" View_live sample_store 2] f
    by (simp add: max_proposal_page_size_def)
qed

section \<open>The table\<close>



section \<open>Moves\<close>

text \<open>
  A move to another mode happens entirely or not at all: when it fails neither the queue nor the
  library has changed, so the tracking rows of the old mode are not lost; when it succeeds they are retired
  and exactly the moved row is rewritten; and it is refused as a conflict exactly when the other mode has a
  live row for the same file.
\<close>

theorem move_all_or_nothing:
  assumes "store_ok db" and "get_prop n db = Inr p" and "move_mode fault n t retire (lib, db) = (e, lib', db')"
  shows "(e \<noteq> None \<longrightarrow> lib' = lib \<and> db' = db) \<and>
    (e = None \<longrightarrow> retire lib = Some lib' \<and> db' = db\<lparr>ps_rows := set_row n (\<lambda>_. move_row t p) (ps_rows db)\<rparr>) \<and>
    (e = Some Move_conflict \<longleftrightarrow> \<not> fault \<and> retire lib \<noteq> None \<and> p_path p \<noteq> [] \<and>
       (\<exists>r\<in>set (ps_rows db). p_id r \<noteq> n \<and> in_queue (mt_mode t, p_workflow p) r \<and> p_path r = p_path p))"
proof -
  have p: "p \<in> set (ps_rows db)" "p_id p = n" using get_prop_Inr [OF assms(1)] assms(2) by auto
  then have h: "has_row n (ps_rows db)" by (auto simp: has_row_def)
  have "r = p" if "r \<in> set (ps_rows db)" "p_id r = n" for r
    using store_okD(2) [OF assms(1)] that p by (auto simp: distinct_map dest: inj_onD)
  then have same: "set_row n (\<lambda>_. move_row t p) (ps_rows db) = set_row n (move_row t) (ps_rows db)"
    by (auto simp: set_row_def)
  have key: "indexed (move_row t p) \<longleftrightarrow> p_path p \<noteq> []"
      "live_key (move_row t p) = ((mt_mode t, p_workflow p), p_path p)"
    by (simp_all add: indexed_def live_def live_key_def move_row_def)
  have "paths_unique (set_row n (move_row t) (ps_rows db)) \<longleftrightarrow>
    \<not> (p_path p \<noteq> [] \<and> (\<exists>r\<in>set (ps_rows db). p_id r \<noteq> n \<and> in_queue (mt_mode t, p_workflow p) r \<and> p_path r = p_path p))"
    unfolding set_row_unique [OF assms(1) p, of "move_row t", simplified, OF p(2)] key
    by (auto simp: indexed_def in_queue_def live_key_def)
  then show ?thesis using assms(3) h unfolding same
    by (auto simp: move_mode_def Let_def split: option.splits if_splits)
qed

definition sample_target :: move_target where
  "sample_target = \<lparr>mt_mode = ''series'', mt_root = ''/tv'', mt_title = ''S'', mt_tmdb = 7, mt_year = 2000,
     mt_season = 2, mt_episode = 5, mt_studio = [], mt_date = [], mt_gb_box = [], mt_gb_scene = [],
     mt_foreign = [], mt_item_type = [], mt_candidates = []\<rparr>"

theorem move_all_or_nothing_witness:
  "let r = sample_row 4 Pending ''/b''\<lparr>p_mode := ''series''\<rparr>;
       db = sample_store\<lparr>ps_rows := ps_rows sample_store @ [r], ps_next := 5\<rparr> in
   move_mode False 2 sample_target Some (0 :: int, db) = (Some Move_conflict, 0, db)"
proof -
  let ?r = "sample_row 4 Pending ''/b''\<lparr>p_mode := ''series''\<rparr>"
  let ?db = "sample_store\<lparr>ps_rows := ps_rows sample_store @ [?r], ps_next := 5\<rparr>"
  have ok: "store_ok ?db"
    by (simp add: store_ok_def paths_unique_def sample_defs indexed_def live_def live_key_def)
  have g: "get_prop 2 ?db = Inr (sample_row 2 Pending ''/b'')"
    by (simp add: get_prop_def first_prop_def sample_defs)
  obtain e lib' db' where m: "move_mode False 2 sample_target Some (0 :: int, ?db) = (e, lib', db')"
    by (metis surjective_pairing)
  have "e = Some Move_conflict"
    using move_all_or_nothing [OF ok g m]
    by (simp add: sample_defs sample_target_def in_queue_def live_def)
  then show ?thesis using move_all_or_nothing [OF ok g m] m by (simp add: Let_def)
qed

text \<open>
  A move does not clear the episode title of the identification it discards: a proposal that is moved
  out of the series mode and back to another episode still carries the title of its first one.
\<close>

theorem moved_episode_title_stays:
  assumes "store_ok db" and "get_prop n db = Inr p"
    and "move_mode fault1 n t1 retire1 (lib, db) = (None, lib1, db1)"
    and "move_mode fault2 n t2 retire2 (lib1, db1) = (None, lib2, db2)"
  shows "\<exists>q. get_prop n db2 = Inr q \<and> p_mode q = mt_mode t2 \<and> p_title q = mt_title t2 \<and>
    p_season q = mt_season t2 \<and> p_episode q = mt_episode t2 \<and> p_episode_title q = p_episode_title p"
proof -
  have id: "p_id p = n" using get_prop_Inr [OF assms(1)] assms(2) by simp
  have m1: "db1 = db\<lparr>ps_rows := set_row n (move_row t1) (ps_rows db)\<rparr>"
    and m2: "db2 = db1\<lparr>ps_rows := set_row n (move_row t2) (ps_rows db1)\<rparr>"
    using assms(3,4) by (auto simp: move_mode_def Let_def split: option.splits if_splits)
  have ok1: "store_ok db1" using move_mode_ok [OF _ assms(3)] assms(1) by simp
  have g1: "get_prop n db1 = Inr (move_row t1 p)"
    unfolding m1 by (rule get_prop_set_row [OF assms(1,2)]) (simp add: id)
  have "get_prop n db2 = Inr (move_row t2 (move_row t1 p))"
    unfolding m2 by (rule get_prop_set_row [OF ok1 g1]) (simp add: id)
  then show ?thesis by (simp add: move_row_def)
qed

definition sample_episode :: prop_store where
  "sample_episode = \<lparr>ps_rows = [(sample_row 1 Pending ''/e'')\<lparr>p_mode := ''series'', p_season := 1, p_episode := 1,
     p_episode_title := ''Pilot''\<rparr>], ps_next = 2\<rparr>"

lemma move_single:
  "p_id p = n \<Longrightarrow> move_mode False n t Some (l, \<lparr>ps_rows = [p], ps_next = k\<rparr>) =
     (None, l, \<lparr>ps_rows = [move_row t p], ps_next = k\<rparr>)"
  by (simp add: move_mode_def Let_def set_row_def has_row_def paths_unique_def)

theorem moved_episode_title_stays_witness:
  "\<exists>q. get_prop 1 (snd (snd (move_mode False 1 sample_target Some (snd (move_mode False 1
       (sample_target\<lparr>mt_mode := ''movies''\<rparr>) Some ((), sample_episode)))))) = Inr q \<and>
     p_mode q = ''series'' \<and> p_season q = 2 \<and> p_episode q = 5 \<and> p_episode_title q = ''Pilot''"
proof -
  let ?t = "sample_target\<lparr>mt_mode := ''movies''\<rparr>"
  let ?p = "(sample_row 1 Pending ''/e'')\<lparr>p_mode := ''series'', p_season := 1, p_episode := 1, p_episode_title := ''Pilot''\<rparr>"
  have ok: "store_ok sample_episode"
    by (simp add: store_ok_def paths_unique_def sample_episode_def sample_defs)
  have g: "get_prop 1 sample_episode = Inr ?p"
    by (simp add: get_prop_def first_prop_def sample_episode_def sample_defs)
  note e = sample_episode_def sample_row_def zero_proposal_def
  have 1: "move_mode False 1 ?t Some ((), sample_episode) = (None, (), \<lparr>ps_rows = [move_row ?t ?p], ps_next = 2\<rparr>)"
    unfolding sample_episode_def by (rule move_single) (simp add: e)
  have 2: "move_mode False 1 sample_target Some ((), \<lparr>ps_rows = [move_row ?t ?p], ps_next = 2\<rparr>) =
      (None, (), \<lparr>ps_rows = [move_row sample_target (move_row ?t ?p)], ps_next = 2\<rparr>)"
    by (rule move_single) (simp add: e)
  have cols: "mt_mode sample_target = ''series''" "mt_season sample_target = 2" "mt_episode sample_target = 5"
      "p_episode_title ?p = ''Pilot''"
    by (simp_all add: sample_target_def)
  show ?thesis
    unfolding 1 snd_conv 2 using moved_episode_title_stays [OF ok g 1 2] unfolding cols by blast
qed

section \<open>Undo\<close>

text \<open>
  Undo brings a proposal back exactly as it was: after any operations on the table but a move of this
  proposal to another mode (applied, re-identified, submitted, rescanned, also with stale reads), restoring
  the snapshot makes a read return the snapshot; and the restoring fails only when the row is gone or
  another live row has meanwhile taken its file.
\<close>

theorem snapshot_roundtrip:
  assumes "store_ok db" and "get_prop n db = Inr p" and "\<forall>(f, c, a)\<in>set calls. \<not> moves a n"
  shows "let db' = prop_run calls db; r = restore_snapshot False p db' in
    (fst r = None \<longrightarrow> get_prop n (snd r) = Inr p) \<and>
    (fst r \<noteq> None \<longrightarrow> (\<forall>q. get_prop n db' \<noteq> Inr q) \<or>
       (\<exists>q\<in>set (ps_rows db'). p_id q \<noteq> n \<and> live q \<and> live_key q = live_key p))"
proof -
  let ?db = "prop_run calls db"
  have p: "p \<in> set (ps_rows db)" "p_id p = n" using get_prop_Inr [OF assms(1)] assms(2) by auto
  have ok: "store_ok ?db" by (rule prop_run_ok [OF assms(1)])
  show ?thesis
  proof (cases "has_row n (ps_rows ?db)")
    case False
    then have "fst (restore_snapshot False p ?db) \<noteq> None" "\<forall>q. get_prop n ?db \<noteq> Inr q"
      using has_row_get [OF ok] p(2) by (auto simp: restore_snapshot_def update_prop_def Let_def)
    then show ?thesis unfolding Let_def by blast
  next
    case True
    then obtain q where g: "get_prop n ?db = Inr q" using has_row_get [OF ok] by auto
    then have q: "q \<in> set (ps_rows ?db)" "p_id q = n" using get_prop_Inr [OF ok] by auto
    have "descends (\<lambda>i. i \<noteq> n) db ?db" by (rule descends_run [OF assms(3)])
    moreover have lt: "p_id q < ps_next db" using assms(1) p q(2) by (auto simp: store_ok_def)
    ultimately obtain p0 where "p0 \<in> set (ps_rows db)" "same_row (p_id p0 \<noteq> n) p0 q"
      using q lt unfolding descends_def by blast
    moreover then have "p_id p0 = n" using q(2) by (simp add: same_row_def)
    moreover then have "p0 = p"
      using calculation(1) p store_okD(2) [OF assms(1)] by (auto simp: distinct_map dest: inj_onD)
    ultimately have "same_row False p q" using p(2) by simp
    then have snap: "snapshot_row p q = p" using q(2) p(2) by (simp add: same_row_def snapshot_row_def)
    have set: "get_prop n (?db\<lparr>ps_rows := set_row n (snapshot_row p) (ps_rows ?db)\<rparr>) = Inr p"
      using get_prop_set_row [OF ok g, of "snapshot_row p"] snap p(2) by simp
    have u: "paths_unique (set_row n (snapshot_row p) (ps_rows ?db)) \<longleftrightarrow>
      \<not> (\<exists>r\<in>set (ps_rows ?db). p_id r \<noteq> n \<and> indexed r \<and> indexed p \<and> live_key r = live_key p)"
      using set_row_unique [OF ok q, of "snapshot_row p"] snap p(2) by simp
    show ?thesis using set u True p(2)
      by (auto simp: restore_snapshot_def update_prop_def Let_def indexed_def)
  qed
qed

theorem snapshot_roundtrip_witness:
  "let calls = [(False, \<lambda>_. ''t'', P_applied 2 9), (False, \<lambda>_. ''t'', P_fingerprint 2)];
       p = sample_row 2 Pending ''/b'' in
   get_prop 2 (prop_run calls sample_store) \<noteq> Inr p \<and>
   get_prop 2 (snd (restore_snapshot False p (prop_run calls sample_store))) = Inr p"
proof -
  let ?calls = "[(False, \<lambda>_. ''t'', P_applied 2 9), (False, \<lambda>_. ''t'', P_fingerprint 2)] :: prop_call list"
  let ?p = "sample_row 2 Pending ''/b''"
  have g: "get_prop 2 sample_store = Inr ?p" by (simp add: get_prop_def first_prop_def sample_defs)
  have "fst (restore_snapshot False ?p (prop_run ?calls sample_store)) = None"
    by (simp add: prop_ops update_prop_def Let_def set_row_def has_row_def paths_unique_def sample_defs indexed_def
      live_def live_key_def)
  moreover have "get_prop 2 (prop_run ?calls sample_store) \<noteq> Inr ?p"
    by (simp add: prop_ops update_prop_def Let_def set_row_def has_row_def paths_unique_def sample_defs indexed_def
      live_def live_key_def get_prop_def first_prop_def)
  ultimately show ?thesis
    using snapshot_roundtrip [OF sample_ok g, of ?calls] by (simp add: Let_def)
qed

end
