(* ===== verification/Replace_Race.thy ===== *)
theory Replace_Race
  imports Prop_Claims
begin

text \<open>
  Rescans racing applies: the steps of \<open>ReplacePending\<close> (\<open>internal/proposals/proposals.go\<close>) that
  others can run between, interleaved with \<open>BeginApply\<close> and \<open>EndApply\<close> of the handlers and with
  their writes. A rescan looks at the gate, reads the live rows of its queue, looks again, and commits; its
  statements take effect at the commit, on the table of that moment, with the rows read earlier.
\<close>

section \<open>States and steps\<close>

text \<open>Where a call of \<open>ReplacePending\<close> stands. \<open>Deferring\<close>: it has seen an apply and not yet said so.\<close>

datatype rescan_phase =
    Entered
  | Deferring
  | Admitted
  | Staged existing
  | Cleared existing
  | Returned "prop_error + proposal list"

text \<open>The hooks a call of \<open>end_apply\<close> started are kept with their queue; a hook is a number here.\<close>

record race =
  rw_gate :: "nat apply_gate"
  rw_db :: prop_store
  rw_open :: "gate_key \<Rightarrow> nat"
  rw_calls :: "nat \<Rightarrow> (gate_key \<times> proposal list \<times> rescan_phase) option"
  rw_fired :: "(gate_key \<times> nat) list"

datatype race_event =
    Begins gate_key
  | Ends gate_key
  | Calls nat gate_key "proposal list"
  | Looks nat
  | Defers nat
  | Reads nat
  | Looks_again nat
  | Commits nat bool "int \<Rightarrow> gostring"
  | Writes bool "int \<Rightarrow> gostring" prop_step

definition set_phase :: "nat \<Rightarrow> rescan_phase \<Rightarrow> race \<Rightarrow> race" where
  "set_phase i ph w =
     w\<lparr>rw_calls := (rw_calls w)(i := map_option (\<lambda>(k, fresh, _). (k, fresh, ph)) (rw_calls w i))\<rparr>"

fun rescans :: "prop_step \<Rightarrow> bool" where
  "rescans (P_replace k ex fresh) = True"
| "rescans _ = False"

inductive race_step :: "race \<Rightarrow> race_event \<Rightarrow> race \<Rightarrow> bool" where
  begins: "race_step w (Begins k)
     (w\<lparr>rw_gate := begin_apply k (rw_gate w), rw_open := (rw_open w)(k := rw_open w k + 1)\<rparr>)"
| ends: "0 < rw_open w k \<Longrightarrow> end_apply k (rw_gate w) = (hs, g) \<Longrightarrow> race_step w (Ends k)
     (w\<lparr>rw_gate := g, rw_open := (rw_open w)(k := rw_open w k - 1), rw_fired := rw_fired w @ map (Pair k) hs\<rparr>)"
| calls: "rw_calls w i = None \<Longrightarrow> race_step w (Calls i k fresh)
     (w\<lparr>rw_calls := (rw_calls w)(i \<mapsto> (k, fresh, Entered))\<rparr>)"
| looks: "rw_calls w i = Some (k, fresh, Entered) \<Longrightarrow> race_step w (Looks i)
     (set_phase i (if apply_in_flight k (rw_gate w) then Deferring else Admitted) w)"
| defers: "rw_calls w i = Some (k, fresh, Deferring) \<Longrightarrow> race_step w (Defers i)
     (set_phase i (Returned (Inl Replace_deferred)) (w\<lparr>rw_gate := mark_deferred k (rw_gate w)\<rparr>))"
| reads: "rw_calls w i = Some (k, fresh, Admitted) \<Longrightarrow> race_step w (Reads i)
     (set_phase i (Staged (existing_rows k (rw_db w))) w)"
| looks_again: "rw_calls w i = Some (k, fresh, Staged ex) \<Longrightarrow> race_step w (Looks_again i)
     (set_phase i (if apply_in_flight k (rw_gate w) then Deferring else Cleared ex) w)"
| commits: "rw_calls w i = Some (k, fresh, Cleared ex) \<Longrightarrow> replace_tx fault k clock ex fresh (rw_db w) = (r, db) \<Longrightarrow>
     race_step w (Commits i fault clock) (set_phase i (Returned r) (w\<lparr>rw_db := db\<rparr>))"
| writes: "\<not> rescans a \<Longrightarrow> race_step w (Writes fault clock a) (w\<lparr>rw_db := prop_exec fault clock a (rw_db w)\<rparr>)"

inductive race_run :: "race \<Rightarrow> race_event list \<Rightarrow> race \<Rightarrow> bool" where
  race_nil: "race_run w [] w"
| race_cons: "race_step w e w1 \<Longrightarrow> race_run w1 es w2 \<Longrightarrow> race_run w (e # es) w2"

inductive_cases race_consE: "race_run w (e # es) w2"
inductive_cases race_stepE: "race_step w e w'"

declare race_run.intros [intro]

definition race_start :: "(gate_key \<Rightarrow> nat list) \<Rightarrow> prop_store \<Rightarrow> race" where
  "race_start hooks db = \<lparr>rw_gate = new_apply_gate\<lparr>ag_hooks := hooks\<rparr>, rw_db = db, rw_open = \<lambda>_. 0, rw_calls = \<lambda>_. None, rw_fired = []\<rparr>"

lemma set_phase_simps [simp]:
  "rw_gate (set_phase i ph w) = rw_gate w" "rw_db (set_phase i ph w) = rw_db w"
  "rw_open (set_phase i ph w) = rw_open w" "rw_fired (set_phase i ph w) = rw_fired w"
  "rw_calls (set_phase i ph w) j =
     (if j = i then map_option (\<lambda>(k, fresh, _). (k, fresh, ph)) (rw_calls w i) else rw_calls w j)"
  by (simp_all add: set_phase_def)

section \<open>Invariants\<close>

definition race_ok :: "race \<Rightarrow> bool" where
  "race_ok w \<longleftrightarrow> (\<forall>k. ag_counts (rw_gate w) k = int (rw_open w k)) \<and> store_ok (rw_db w)"

lemma race_ok_start: "store_ok db \<Longrightarrow> race_ok (race_start hooks db)"
  by (simp add: race_ok_def race_start_def new_apply_gate_def)

lemma race_step_ok:
  assumes "race_step w e w'" "race_ok w"
  shows "race_ok w'"
  using assms
proof (cases rule: race_step.cases)
  case (commits i k fresh ex fault clock r db)
  then have "store_ok db" using assms(2) replace_tx_ok [of "rw_db w" fault k clock ex fresh] by (simp add: race_ok_def)
  then show ?thesis using commits assms(2) by (simp add: race_ok_def)
next
  case (writes a fault clock)
  then show ?thesis using assms(2) prop_exec_ok by (simp add: race_ok_def)
qed (auto simp: race_ok_def gate_defs split: if_splits)

lemma race_run_ok: "race_run w es w' \<Longrightarrow> race_ok w \<Longrightarrow> race_ok w'"
  by (induction rule: race_run.induct) (auto dest: race_step_ok)

lemma in_flight_open: "race_ok w \<Longrightarrow> apply_in_flight k (rw_gate w) \<longleftrightarrow> 0 < rw_open w k"
  by (cases k) (simp add: race_ok_def apply_in_flight_def)

text \<open>Hooks are registered before and stay.\<close>

lemma race_step_hooks: "race_step w e w' \<Longrightarrow> ag_hooks (rw_gate w') = ag_hooks (rw_gate w)"
  by (cases rule: race_step.cases) (auto simp: gate_defs split: if_splits)

section \<open>A rescan an apply is open for\<close>

fun held_back :: "rescan_phase \<Rightarrow> bool" where
  "held_back (Cleared ex) = False"
| "held_back (Returned r) = (r = Inl Replace_deferred)"
| "held_back _ = True"

definition call_held :: "gate_key \<Rightarrow> nat \<Rightarrow> race \<Rightarrow> bool" where
  "call_held k i w \<longleftrightarrow> (\<exists>fresh ph. rw_calls w i = Some (k, fresh, ph) \<and> held_back ph)"

lemma held_step:
  assumes "race_step w e w'" "race_ok w" "call_held k i w" "0 < rw_open w k" "e \<noteq> Ends k"
  shows "call_held k i w' \<and> 0 < rw_open w' k"
  using assms in_flight_open [OF assms(2), of k]
  by (cases rule: race_step.cases) (auto simp: call_held_def)

lemma held_commit: "call_held k i w \<Longrightarrow> \<not> race_step w (Commits i f c) w'"
  by (auto simp: call_held_def elim!: race_stepE)

lemma held_run:
  "race_run w es w' \<Longrightarrow> race_ok w \<Longrightarrow> call_held k i w \<Longrightarrow> 0 < rw_open w k \<Longrightarrow> Ends k \<notin> set es \<Longrightarrow>
   call_held k i w' \<and> (\<forall>f c. Commits i f c \<notin> set es)"
proof (induction rule: race_run.induct)
  case (race_cons w e w1 es w2)
  have "call_held k i w1 \<and> 0 < rw_open w1 k"
    using held_step [OF race_cons.hyps(1) race_cons.prems(1-3)] race_cons.prems(4) by auto
  moreover have "race_ok w1" using race_step_ok race_cons by blast
  moreover have "\<forall>f c. e \<noteq> Commits i f c" using held_commit race_cons.hyps(1) race_cons.prems(2) by blast
  ultimately show ?case using race_cons by auto
qed simp

text \<open>
  C19. While an apply for a queue is open, a rescan of that queue that has not yet looked at the gate for the
  second time never commits: however the steps of applies, rescans and other writers interleave, as long as
  the apply has not ended the rescan is on its way or has returned as deferred, and has written nothing.
\<close>

theorem open_apply_blocks_rescan:
  assumes "store_ok db" and "race_run (race_start hooks db) es w" and "0 < rw_open w k"
    and "rw_calls w i = Some (k, fresh, ph)" and "ph \<in> {Entered, Deferring, Admitted} \<union> range Staged"
    and "race_run w es' w'" and "Ends k \<notin> set es'"
  shows "(\<forall>f c. Commits i f c \<notin> set es') \<and>
    (\<exists>ph'. rw_calls w' i = Some (k, fresh, ph') \<and>
      (ph' \<in> {Entered, Deferring, Admitted} \<union> range Staged \<or> ph' = Returned (Inl Replace_deferred)))"
proof -
  have ok: "race_ok w" using race_run_ok [OF assms(2) race_ok_start [OF assms(1)]] .
  have held: "call_held k i w" using assms(4,5) by (auto simp: call_held_def)
  have run: "call_held k i w'" "\<forall>f c. Commits i f c \<notin> set es'"
    using held_run [OF assms(6) ok held assms(3,7)] by auto
  have keep: "\<exists>ph'. rw_calls w2 i = Some (k, fresh, ph')" if "race_run w1 es1 w2" "\<exists>ph'. rw_calls w1 i = Some (k, fresh, ph')" for w1 es1 w2
    using that
  proof (induction rule: race_run.induct)
    case (race_cons w1 e w1' es1 w2)
    have "\<exists>ph'. rw_calls w1' i = Some (k, fresh, ph')"
      using race_cons.hyps(1) race_cons.prems by (cases rule: race_step.cases) auto
    then show ?case by (rule race_cons.IH)
  qed
  obtain ph' where ph': "rw_calls w' i = Some (k, fresh, ph')" using keep [OF assms(6)] assms(4) by blast
  then have "held_back ph'" using run(1) by (simp add: call_held_def)
  then have "ph' \<in> {Entered, Deferring, Admitted} \<union> range Staged \<or> ph' = Returned (Inl Replace_deferred)"
    by (cases ph') auto
  then show ?thesis using run(2) ph' by blast
qed

text \<open>The steps of one rescan, for the runs below.\<close>

lemma run_one: "race_step w e w1 \<Longrightarrow> race_run w1 es w2 \<Longrightarrow> race_run w (e # es) w2"
  by (rule race_cons)

lemma start_simps [simp]:
  "rw_db (race_start hooks db) = db" "rw_open (race_start hooks db) k = 0" "rw_calls (race_start hooks db) i = None"
  "rw_fired (race_start hooks db) = []" "\<not> apply_in_flight k (rw_gate (race_start hooks db))"
  by (simp_all add: race_start_def new_apply_gate_def apply_in_flight_def)

lemma flight_simps [simp]:
  "apply_in_flight k (begin_apply k' g) \<longleftrightarrow> (if k' = k then 0 \<le> ag_counts g k else apply_in_flight k g)"
  "apply_in_flight k (mark_deferred k' g) \<longleftrightarrow> apply_in_flight k g"
  by (auto simp: gate_defs)

definition after_look :: "(gate_key \<Rightarrow> nat list) \<Rightarrow> prop_store \<Rightarrow> nat \<Rightarrow> gate_key \<Rightarrow> proposal list \<Rightarrow> race" where
  "after_look hooks db i k fresh =
     (let w = race_start hooks db in w\<lparr>rw_calls := (rw_calls w)(i \<mapsto> (k, fresh, Staged (existing_rows k db)))\<rparr>)"

lemma run_to_staged: "race_run (race_start hooks db) [Calls i k fresh, Looks i, Reads i] (after_look hooks db i k fresh)"
proof -
  let ?w = "race_start hooks db"
  let ?at = "\<lambda>ph. ?w\<lparr>rw_calls := (rw_calls ?w)(i \<mapsto> (k, fresh, ph))\<rparr>"
  have 1: "race_step ?w (Calls i k fresh) (?at Entered)" by (rule calls) simp
  have "race_step (?at Entered) (Looks i) (set_phase i Admitted (?at Entered))"
    using looks [of "?at Entered" i k fresh] by (simp add: race_start_def new_apply_gate_def apply_in_flight_def)
  then have 2: "race_step (?at Entered) (Looks i) (?at Admitted)" by (simp add: set_phase_def)
  have "race_step (?at Admitted) (Reads i) (set_phase i (Staged (existing_rows k (rw_db (?at Admitted)))) (?at Admitted))"
    by (rule reads [of _ _ k fresh]) simp
  then have 3: "race_step (?at Admitted) (Reads i) (after_look hooks db i k fresh)"
    by (simp add: set_phase_def after_look_def Let_def)
  show ?thesis using 1 2 3 by blast
qed

lemma race_run_append: "race_run w es w1 \<Longrightarrow> race_run w1 es' w2 \<Longrightarrow> race_run w (es @ es') w2"
  by (induction rule: race_run.induct) auto

text \<open>From there, an uninterrupted commit.\<close>

lemma run_to_commit:
  assumes "rw_calls w i = Some (k, fresh, Staged ex)" and "\<not> apply_in_flight k (rw_gate w)"
    and "replace_tx fault k clock ex fresh (rw_db w) = (r, db')"
  shows "\<exists>w'. race_run w [Looks_again i, Commits i fault clock] w' \<and> rw_db w' = db' \<and> rw_open w' = rw_open w \<and>
    rw_calls w' i = Some (k, fresh, Returned r)"
proof -
  have 1: "race_step w (Looks_again i) (set_phase i (Cleared ex) w)" using looks_again [OF assms(1)] assms(2) by simp
  have 2: "race_step (set_phase i (Cleared ex) w) (Commits i fault clock)
      (set_phase i (Returned r) ((set_phase i (Cleared ex) w)\<lparr>rw_db := db'\<rparr>))"
    by (rule commits [of _ _ k fresh ex]) (use assms in simp_all)
  have "race_run w [Looks_again i, Commits i fault clock]
      (set_phase i (Returned r) ((set_phase i (Cleared ex) w)\<lparr>rw_db := db'\<rparr>))"
    using 1 2 by blast
  moreover have "rw_calls (set_phase i (Returned r) ((set_phase i (Cleared ex) w)\<lparr>rw_db := db'\<rparr>)) i = Some (k, fresh, Returned r)"
    using assms(1) by simp
  ultimately show ?thesis by fastforce
qed

theorem open_apply_blocks_rescan_witness:
  "let k = (''movies'', wf_rename); db = sample_store; w = after_look (\<lambda>_. []) db 1 k [];
       w1 = w\<lparr>rw_gate := begin_apply k (rw_gate w), rw_open := (rw_open w)(k := rw_open w k + 1)\<rparr> in
   race_run (race_start (\<lambda>_. []) db) ([Calls 1 k [], Looks 1, Reads 1] @ [Begins k]) w1 \<and>
   (\<exists>ph. rw_calls (set_phase 1 Deferring w1) 1 = Some (k, [], ph) \<and>
      (ph \<in> {Entered, Deferring, Admitted} \<union> range Staged \<or> ph = Returned (Inl Replace_deferred)))"
proof -
  let ?k = "(''movies'', wf_rename)"
  let ?w = "after_look (\<lambda>_. []) sample_store 1 ?k []"
  let ?w1 = "?w\<lparr>rw_gate := begin_apply ?k (rw_gate ?w), rw_open := (rw_open ?w)(?k := rw_open ?w ?k + 1)\<rparr>"
  have "race_run ?w [Begins ?k] ?w1" by (rule run_one [OF begins race_nil])
  then have run: "race_run (race_start (\<lambda>_. []) sample_store) ([Calls 1 ?k [], Looks 1, Reads 1] @ [Begins ?k]) ?w1"
    by (rule race_run_append [OF run_to_staged])
  have at: "rw_calls ?w1 1 = Some (?k, [], Staged (existing_rows ?k sample_store))"
    by (simp add: after_look_def Let_def)
  have "apply_in_flight ?k (rw_gate ?w1)"
    by (simp add: after_look_def Let_def race_start_def new_apply_gate_def)
  then have "race_step ?w1 (Looks_again 1) (set_phase 1 Deferring ?w1)" using looks_again [OF at] by simp
  then have more: "race_run ?w1 [Looks_again 1] (set_phase 1 Deferring ?w1)" by (rule run_one [OF _ race_nil])
  have "0 < rw_open ?w1 ?k" by simp
  from open_apply_blocks_rescan [OF sample_ok run this at _ more]
  show ?thesis using run by (simp add: Let_def)
qed

section \<open>What the second look does not cover\<close>

lemma set_row_twice:
  "(\<And>p. p_id p = n \<Longrightarrow> p_id (f p) = n) \<Longrightarrow> set_row n g (set_row n f rows) = set_row n (\<lambda>p. g (f p)) rows"
  by (auto simp: set_row_def)

text \<open>
  The second look does not close the window: an apply that begins between it and the commit has its
  proposal deleted under it. The rescan that no longer finds the file commits while the apply is open, and
  the apply can no longer record what it did.
\<close>

theorem rescan_deletes_open_apply:
  assumes "store_ok db" and "p \<in> set (ps_rows db)" and "in_queue k p"
  shows "\<exists>es w. race_run (race_start hooks db) es w \<and> rw_open w k = 1 \<and>
    get_prop (p_id p) (rw_db w) = Inl No_proposal \<and> fst (mark_applied False now (p_id p) t (rw_db w)) = Some No_proposal"
proof -
  let ?w = "after_look hooks db 0 k []"
  let ?ex = "existing_rows k db"
  let ?db = "db\<lparr>ps_rows := drop_orphans k {} (ps_rows db)\<rparr>"
  have at: "rw_calls ?w 0 = Some (k, [], Staged ?ex)" by (simp add: after_look_def Let_def)
  have "\<not> apply_in_flight k (rw_gate ?w)" by (simp add: after_look_def Let_def)
  then have 1: "race_step ?w (Looks_again 0) (set_phase 0 (Cleared ?ex) ?w)" using looks_again [OF at] by simp
  define w2 where "w2 = (set_phase 0 (Cleared ?ex) ?w)\<lparr>rw_gate := begin_apply k (rw_gate ?w), rw_open := (\<lambda>_. 0)(k := 1)\<rparr>"
  have "rw_open ?w = (\<lambda>_. 0)" by (simp add: after_look_def race_start_def Let_def)
  then have 2: "race_step (set_phase 0 (Cleared ?ex) ?w) (Begins k) w2"
    using begins [of "set_phase 0 (Cleared ?ex) ?w" k] by (simp add: w2_def)
  have calls2: "rw_calls w2 0 = Some (k, [], Cleared ?ex)" and db2: "rw_db w2 = db"
    by (simp_all add: w2_def at) (simp add: after_look_def Let_def)
  have tx: "replace_tx False k (\<lambda>_. []) ?ex [] (rw_db w2) = (Inr [], ?db)" by (simp add: replace_tx_def db2)
  have 3: "race_step w2 (Commits 0 False (\<lambda>_. [])) (set_phase 0 (Returned (Inr [])) (w2\<lparr>rw_db := ?db\<rparr>))"
    by (rule commits [OF calls2 tx])
  have run: "race_run (race_start hooks db) ([Calls 0 k [], Looks 0, Reads 0] @ [Looks_again 0, Begins k, Commits 0 False (\<lambda>_. [])])
      (set_phase 0 (Returned (Inr [])) (w2\<lparr>rw_db := ?db\<rparr>))"
    by (rule race_run_append [OF run_to_staged]) (use 1 2 3 in blast)
  have "r = p" if "r \<in> set (ps_rows db)" "p_id r = p_id p" for r
    using store_okD(2) [OF assms(1)] that assms(2) by (auto simp: distinct_map dest: inj_onD)
  then have gone: "\<forall>r\<in>set (ps_rows ?db). p_id r \<noteq> p_id p" using assms(3) by (auto simp: drop_orphans_def)
  then have "get_prop (p_id p) ?db = Inl No_proposal" by (auto simp: get_prop_def first_prop_def filter_empty_conv)
  moreover have "\<not> has_row (p_id p) (ps_rows ?db)" using gone by (auto simp: has_row_def)
  moreover have "set_row (p_id p) f (ps_rows ?db) = ps_rows ?db" for f
    using gone by (auto simp: set_row_def intro: map_idI)
  moreover have "store_ok ?db" by (simp add: drop_orphans_def store_ok_filter assms(1))
  ultimately have "fst (mark_applied False now (p_id p) t ?db) = Some No_proposal"
    using store_okD(4) [of ?db] by (simp add: mark_applied_def update_prop_def Let_def)
  then show ?thesis using run \<open>get_prop (p_id p) ?db = Inl No_proposal\<close>
    by (intro exI conjI) (assumption | simp add: w2_def)+
qed

theorem rescan_deletes_open_apply_witness:
  "\<exists>es w. race_run (race_start (\<lambda>_. []) sample_store) es w \<and> rw_open w (''movies'', wf_rename) = 1 \<and>
    get_prop 2 (rw_db w) = Inl No_proposal \<and> fst (mark_applied False ''t'' 2 9 (rw_db w)) = Some No_proposal"
proof -
  have "sample_row 2 Pending ''/b'' \<in> set (ps_rows sample_store)" by (simp add: sample_store_def)
  moreover have "in_queue (''movies'', wf_rename) (sample_row 2 Pending ''/b'')" by (simp add: in_queue_def live_def sample_defs)
  moreover have "p_id (sample_row 2 Pending ''/b'') = 2" by (simp add: sample_row_def)
  ultimately show ?thesis using rescan_deletes_open_apply [OF sample_ok] by metis
qed

text \<open>
  A decision made while a rescan is under way can be undone by it: a proposal applied between the rescan's
  read and its second look is live again after the commit, with the status the scan gave it, although the
  application was recorded.
\<close>

theorem rescan_reverts_applied:
  assumes "store_ok db" and "p \<in> set (ps_rows db)" and "in_queue k p" and "live q" and "p_path q = p_path p"
    and "p_path p \<noteq> []"
  shows "\<exists>es w r. race_run (race_start hooks db) es w \<and>
    es = [Calls 0 k [q], Looks 0, Reads 0, Begins k, Writes False (\<lambda>_. now) (P_applied (p_id p) t), Ends k,
      Looks_again 0, Commits 0 False (\<lambda>_. now)] \<and>
    get_prop (p_id p) (rw_db w) = Inr r \<and> p_status r = p_status q \<and> p_applied_at r = now"
proof -
  let ?n = "p_id p"
  let ?ex = "existing_rows k db"
  let ?ap = "\<lambda>p. p\<lparr>p_status := Applied, p_tracked := t, p_applied_at := now\<rparr>"
  let ?re = "\<lambda>p. rescan_row (to_queue k q) (?ap p)"
  let ?w = "after_look hooks db 0 k [q]"
  define db1 where "db1 = prop_exec False (\<lambda>_. now) (P_applied ?n t) db"
  have key: "indexed p" "live_key p = (k, p_path p)" using assms(3,6) by (auto simp: indexed_def in_queue_def live_key_def)
  have one: "p_id r \<noteq> ?n \<Longrightarrow> indexed r \<Longrightarrow> live_key r \<noteq> (k, p_path p)" if "r \<in> set (ps_rows db)" for r
    using store_okD(4) [OF assms(1)] that assms(2) key unfolding paths_unique_iff [OF store_okD(2) [OF assms(1)]] by metis
  have "paths_unique (set_row ?n ?ap (ps_rows db))"
    using set_row_unique [OF assms(1,2) refl, of ?ap] by (auto simp: indexed_def live_def)
  then have db1: "db1 = db\<lparr>ps_rows := set_row ?n ?ap (ps_rows db)\<rparr>"
    by (simp add: db1_def mark_applied_def update_prop_def Let_def)
  have rows: "set_row ?n (rescan_row (to_queue k q)) (ps_rows db1) = set_row ?n ?re (ps_rows db)"
    unfolding db1 by (simp add: set_row_twice)
  have "live_key (?re p) = (k, p_path p)" using key(2) by (simp add: live_key_def)
  then have u: "paths_unique (set_row ?n ?re (ps_rows db))"
    using set_row_unique [OF assms(1,2) refl, of ?re] one by auto
  have ex: "?ex (p_path q) = Some (?n, p_created p)"
    using existing_iff [OF store_okD(4) [OF assms(1)]] assms(2,3,5,6) by auto
  let ?db2 = "db1\<lparr>ps_rows := set_row ?n ?re (ps_rows db)\<rparr>"
  have "stage_one k (\<lambda>_. now) ?ex q db1 = (Some ((to_queue k q)\<lparr>p_id := ?n, p_created := p_created p\<rparr>), ?db2)"
    using ex u rows assms(5,6) by (simp add: stage_one_def Let_def to_queue_def)
  then have tx: "replace_tx False k (\<lambda>_. now) ?ex [q] db1 =
      (Inr [(to_queue k q)\<lparr>p_id := ?n, p_created := p_created p\<rparr>],
       ?db2\<lparr>ps_rows := drop_orphans k {?n} (set_row ?n ?re (ps_rows db))\<rparr>)"
    by (simp add: replace_tx_def)
  have "get_prop ?n db = Inr p" using get_prop_Inr [OF assms(1)] assms(2) by simp
  then have g: "get_prop ?n (db\<lparr>ps_rows := set_row ?n ?re (ps_rows db)\<rparr>) = Inr (?re p)"
    using get_prop_set_row [OF assms(1), of ?n p ?re] by simp
  have "filter (\<lambda>p. p_id p = ?n) (drop_orphans k {?n} rows) = filter (\<lambda>p. p_id p = ?n) rows" for rows
    by (auto simp: drop_orphans_def intro!: filter_cong)
  then have g2: "get_prop ?n (?db2\<lparr>ps_rows := drop_orphans k {?n} (set_row ?n ?re (ps_rows db))\<rparr>) = Inr (?re p)"
    using g by (simp add: get_prop_def)
  let ?w1 = "?w\<lparr>rw_gate := begin_apply k (rw_gate ?w), rw_open := (rw_open ?w)(k := rw_open ?w k + 1)\<rparr>"
  have s1: "race_step ?w (Begins k) ?w1" by (rule begins)
  let ?w2 = "?w1\<lparr>rw_db := db1\<rparr>"
  have "rw_db ?w1 = db" by (simp add: after_look_def Let_def)
  then have s2: "race_step ?w1 (Writes False (\<lambda>_. now) (P_applied ?n t)) ?w2"
    using writes [of "P_applied ?n t" ?w1 False "\<lambda>_. now"] by (simp add: db1_def)
  obtain hs g' where e: "end_apply k (rw_gate ?w2) = (hs, g')" by fastforce
  then have g': "\<not> apply_in_flight k g'"
    by (auto simp: gate_defs after_look_def race_start_def new_apply_gate_def split: if_splits)
  let ?w3 = "?w2\<lparr>rw_gate := g', rw_open := (rw_open ?w2)(k := rw_open ?w2 k - 1), rw_fired := rw_fired ?w2 @ map (Pair k) hs\<rparr>"
  have s3: "race_step ?w2 (Ends k) ?w3" by (rule ends [OF _ e]) simp
  have "rw_calls ?w3 0 = Some (k, [q], Staged ?ex)" by (simp add: after_look_def Let_def)
  moreover have "\<not> apply_in_flight k (rw_gate ?w3)" using g' by simp
  moreover have "rw_db ?w3 = db1" by simp
  ultimately obtain w' where w': "race_run ?w3 [Looks_again 0, Commits 0 False (\<lambda>_. now)] w'"
      "rw_db w' = ?db2\<lparr>ps_rows := drop_orphans k {?n} (set_row ?n ?re (ps_rows db))\<rparr>"
    using run_to_commit [of ?w3 0 k "[q]" ?ex] tx by metis
  have run: "race_run (race_start hooks db) ([Calls 0 k [q], Looks 0, Reads 0] @
      [Begins k, Writes False (\<lambda>_. now) (P_applied ?n t), Ends k] @ [Looks_again 0, Commits 0 False (\<lambda>_. now)]) w'"
    by (rule race_run_append [OF run_to_staged], rule race_run_append [OF _ w'(1)]) (use s1 s2 s3 in blast)
  have "p_status (?re p) = p_status q" "p_applied_at (?re p) = now" by (simp_all add: rescan_row_def to_queue_def)
  then show ?thesis using run w'(2) g2 by (intro exI [of _ "?re p"] exI [of _ w'] exI) auto
qed

theorem rescan_reverts_applied_witness:
  "\<exists>es w r. race_run (race_start (\<lambda>_. []) sample_store) es w \<and>
    es = [Calls 0 (''movies'', wf_rename) [sample_row 0 Pending ''/b''], Looks 0, Reads 0, Begins (''movies'', wf_rename),
      Writes False (\<lambda>_. ''t'') (P_applied 2 9), Ends (''movies'', wf_rename), Looks_again 0, Commits 0 False (\<lambda>_. ''t'')] \<and>
    get_prop 2 (rw_db w) = Inr r \<and> p_status r = Pending \<and> p_applied_at r = ''t''"
proof -
  let ?p = "sample_row 2 Pending ''/b''" and ?q = "sample_row 0 Pending ''/b''"
  have 1: "?p \<in> set (ps_rows sample_store)" by (simp add: sample_store_def)
  have 2: "in_queue (''movies'', wf_rename) ?p" "live ?q" "p_path ?q = p_path ?p" "p_path ?p \<noteq> []"
    by (simp_all add: in_queue_def live_def sample_defs)
  have "p_id ?p = 2" "p_status ?q = Pending" by (simp_all add: sample_row_def)
  then show ?thesis using rescan_reverts_applied [OF sample_ok 1 2, of "\<lambda>_. []" "''t''" 9] by metis
qed

section \<open>Catching up\<close>

lemma caught_up_step:
  assumes "race_step w e w'" "race_ok w" "ag_deferred (rw_gate w) k" "0 < rw_open w k"
  shows "ag_deferred (rw_gate w') k \<and> 0 < rw_open w' k \<or> Pair k ` set (ag_hooks (rw_gate w) k) \<subseteq> set (rw_fired w')"
proof -
  have c: "ag_counts (rw_gate w) k = int (rw_open w k)" using assms(2) unfolding race_ok_def by (cases k) simp
  show ?thesis using assms(1,3,4) c
    by (cases rule: race_step.cases) (auto simp: gate_defs split: if_splits)
qed

lemma fired_mono: "race_step w e w' \<Longrightarrow> set (rw_fired w) \<subseteq> set (rw_fired w')"
  by (cases rule: race_step.cases) auto

lemma fired_mono_run: "race_run w es w' \<Longrightarrow> set (rw_fired w) \<subseteq> set (rw_fired w')"
  by (induction rule: race_run.induct) (use fired_mono in blast)+

lemma caught_up_run:
  "race_run w es w' \<Longrightarrow> race_ok w \<Longrightarrow> ag_deferred (rw_gate w) k \<Longrightarrow> 0 < rw_open w k \<Longrightarrow> rw_open w' k = 0 \<Longrightarrow>
   Pair k ` set (ag_hooks (rw_gate w) k) \<subseteq> set (rw_fired w')"
proof (induction rule: race_run.induct)
  case (race_cons w e w1 es w2)
  consider "ag_deferred (rw_gate w1) k" "0 < rw_open w1 k" | "Pair k ` set (ag_hooks (rw_gate w) k) \<subseteq> set (rw_fired w1)"
    using caught_up_step [OF race_cons.hyps(1) race_cons.prems(1-3)] by argo
  then show ?case
  proof cases
    case 1
    have "race_ok w1" by (rule race_step_ok [OF race_cons.hyps(1) race_cons.prems(1)])
    from race_cons.IH [OF this 1 race_cons.prems(4)] show ?thesis
      by (simp only: race_step_hooks [OF race_cons.hyps(1)])
  next
    case 2
    then show ?thesis using fired_mono_run [OF race_cons.hyps(2)] by blast
  qed
qed simp

text \<open>
  C39. A rescan that is deferred in time is made up for: when it records the deferral while an apply for its
  queue is still open, every registered hook of the queue has been started by the time no apply for it is
  open any more, whatever else happens in between.
\<close>

theorem deferred_rescan_caught_up:
  assumes "store_ok db" and "race_run (race_start hooks db) es w" and "rw_calls w i = Some (k, fresh, Deferring)"
    and "0 < rw_open w k" and "race_step w (Defers i) w1" and "race_run w1 es' w'" and "rw_open w' k = 0"
  shows "Pair k ` set (hooks k) \<subseteq> set (rw_fired w')"
proof -
  have ok: "race_ok w" using race_run_ok [OF assms(2) race_ok_start [OF assms(1)]] .
  have w1: "w1 = set_phase i (Returned (Inl Replace_deferred)) (w\<lparr>rw_gate := mark_deferred k (rw_gate w)\<rparr>)"
    using assms(5,3) by (auto elim: race_stepE)
  have "race_run wa es1 wb \<Longrightarrow> ag_hooks (rw_gate wb) = ag_hooks (rw_gate wa)" for wa es1 wb
    by (induction rule: race_run.induct) (auto dest: race_step_hooks)
  from this [OF assms(2)] have "ag_hooks (rw_gate w1) k = hooks k"
    by (simp add: w1 mark_deferred_def race_start_def)
  moreover have "ag_deferred (rw_gate w1) k" "0 < rw_open w1 k" using assms(4) by (simp_all add: w1 mark_deferred_def)
  ultimately show ?thesis using caught_up_run [OF assms(6) race_step_ok [OF assms(5) ok]] assms(7) by metis
qed

theorem deferred_rescan_caught_up_witness:
  "\<exists>es w. race_run (race_start (\<lambda>_. [5]) sample_store) es w \<and> rw_open w (''movies'', wf_rename) = 0 \<and>
    ((''movies'', wf_rename), 5) \<in> set (rw_fired w)"
proof -
  let ?k = "(''movies'', wf_rename)"
  let ?s = "race_start (\<lambda>_. [5]) sample_store"
  let ?w1 = "?s\<lparr>rw_gate := begin_apply ?k (rw_gate ?s), rw_open := (rw_open ?s)(?k := rw_open ?s ?k + 1)\<rparr>"
  let ?w2 = "?w1\<lparr>rw_calls := (rw_calls ?w1)(0 \<mapsto> (?k, [], Entered))\<rparr>"
  let ?w3 = "set_phase 0 Deferring ?w2"
  let ?w4 = "set_phase 0 (Returned (Inl Replace_deferred)) (?w3\<lparr>rw_gate := mark_deferred ?k (rw_gate ?w3)\<rparr>)"
  obtain hs g where e: "end_apply ?k (rw_gate ?w4) = (hs, g)" by fastforce
  let ?w5 = "?w4\<lparr>rw_gate := g, rw_open := (rw_open ?w4)(?k := rw_open ?w4 ?k - 1), rw_fired := rw_fired ?w4 @ map (Pair ?k) hs\<rparr>"
  have f: "apply_in_flight ?k (rw_gate ?w2)" by (simp add: race_start_def new_apply_gate_def)
  have s3: "race_step ?w2 (Looks 0) ?w3" using looks [of ?w2 0 ?k "[]"] f by simp
  have run: "race_run ?s [Begins ?k, Calls 0 ?k [], Looks 0] ?w3"
    by (rule run_one [OF begins], rule run_one [OF calls], simp, rule run_one [OF s3], rule race_nil)
  have at: "rw_calls ?w3 0 = Some (?k, [], Deferring)" by simp
  have s4: "race_step ?w3 (Defers 0) ?w4" by (rule defers [OF at])
  have s5: "race_step ?w4 (Ends ?k) ?w5" by (rule ends [OF _ e]) simp
  have run5: "race_run ?w4 [Ends ?k] ?w5" by (rule run_one [OF s5 race_nil])
  have "Pair ?k ` set [5] \<subseteq> set (rw_fired ?w5)"
    using deferred_rescan_caught_up [OF sample_ok run at _ s4 run5] by simp
  moreover have "race_run ?s ([Begins ?k, Calls 0 ?k [], Looks 0] @ [Defers 0, Ends ?k]) ?w5"
    by (rule race_run_append [OF run], rule run_one [OF s4 run5])
  ultimately show ?thesis by (intro exI [of _ ?w5] exI conjI) (assumption | simp)+
qed

text \<open>
  A rescan deferred too late is not made up for: when the last apply ends between the rescan's look at
  the gate and its record of the deferral, it returns as deferred although no apply is open, no hook has been
  started for it, and none of its queue is started until another apply for the queue ends.
\<close>

theorem late_deferral_lost:
  shows "\<exists>w. race_run (race_start hooks db) [Begins k, Calls 0 k fresh, Looks 0, Ends k, Defers 0] w \<and>
    rw_calls w 0 = Some (k, fresh, Returned (Inl Replace_deferred)) \<and> rw_open w k = 0 \<and> rw_db w = db \<and>
    (\<forall>es w'. race_run w es w' \<and> Ends k \<notin> set es \<longrightarrow> (\<forall>h. (k, h) \<notin> set (rw_fired w')))"
proof -
  let ?s = "race_start hooks db"
  let ?w1 = "?s\<lparr>rw_gate := begin_apply k (rw_gate ?s), rw_open := (rw_open ?s)(k := rw_open ?s k + 1)\<rparr>"
  let ?w2 = "?w1\<lparr>rw_calls := (rw_calls ?w1)(0 \<mapsto> (k, fresh, Entered))\<rparr>"
  let ?w3 = "set_phase 0 Deferring ?w2"
  have f: "apply_in_flight k (rw_gate ?w2)" by (simp add: race_start_def new_apply_gate_def)
  have s3: "race_step ?w2 (Looks 0) ?w3" using looks [of ?w2 0 k fresh] f by simp
  obtain hs g where e: "end_apply k (rw_gate ?w3) = (hs, g)" by fastforce
  have hs: "hs = []" using e by (simp add: gate_defs race_start_def new_apply_gate_def)
  let ?w4 = "?w3\<lparr>rw_gate := g, rw_open := (rw_open ?w3)(k := rw_open ?w3 k - 1), rw_fired := rw_fired ?w3 @ map (Pair k) hs\<rparr>"
  have s4: "race_step ?w3 (Ends k) ?w4" by (rule ends [OF _ e]) simp
  let ?w5 = "set_phase 0 (Returned (Inl Replace_deferred)) (?w4\<lparr>rw_gate := mark_deferred k (rw_gate ?w4)\<rparr>)"
  have s5: "race_step ?w4 (Defers 0) ?w5" by (rule defers [of _ _ k fresh]) simp
  have run: "race_run ?s [Begins k, Calls 0 k fresh, Looks 0, Ends k, Defers 0] ?w5"
    by (rule run_one [OF begins], rule run_one [OF calls], simp, rule run_one [OF s3], rule run_one [OF s4],
        rule run_one [OF s5], rule race_nil)
  have quiet: "race_run w es w' \<Longrightarrow> Ends k \<notin> set es \<Longrightarrow> \<forall>h. (k, h) \<notin> set (rw_fired w) \<Longrightarrow>
      \<forall>h. (k, h) \<notin> set (rw_fired w')" for w es w'
  proof (induction rule: race_run.induct)
    case (race_cons w e w1 es w2)
    have "\<forall>h. (k, h) \<notin> set (rw_fired w1)"
      using race_cons.hyps(1) race_cons.prems by (cases rule: race_step.cases) auto
    then show ?case using race_cons by simp
  qed simp
  have "\<forall>h. (k, h) \<notin> set (rw_fired ?w5)" by (simp add: hs)
  then have "\<forall>es w'. race_run ?w5 es w' \<and> Ends k \<notin> set es \<longrightarrow> (\<forall>h. (k, h) \<notin> set (rw_fired w'))"
    using quiet by blast
  then show ?thesis using run by (intro exI [of _ ?w5]) simp
qed

theorem late_deferral_lost_witness:
  "\<exists>w. race_run (race_start (\<lambda>_. [5]) sample_store) [Begins (''movies'', wf_rename), Calls 0 (''movies'', wf_rename) [],
      Looks 0, Ends (''movies'', wf_rename), Defers 0] w \<and>
    rw_open w (''movies'', wf_rename) = 0 \<and> (\<forall>h. ((''movies'', wf_rename), h) \<notin> set (rw_fired w))"
  using late_deferral_lost [of "\<lambda>_. [5]" sample_store "(''movies'', wf_rename)" "[]"] race_nil by fastforce

end
