(* ===== verification/Apply_Api.thy ===== *)
theory Apply_Api
  imports Prop_Claims Gate
begin

text \<open>
  \<open>internal/api/proposals.go\<close>, \<open>proposals_delete.go\<close> and \<open>proposals_movemode.go\<close>, with
  \<open>DeleteSource\<close> of \<open>internal/rename/delete.go\<close>: the handlers that act on the review queue. The
  request bodies are decoded, the work of an apply on files and library is a parameter, as are the
  failures of database calls; notifications, webhooks and the activity log are left out.
\<close>

section \<open>The resolver interface\<close>

text \<open>
  The two lookups of the interface \<open>proposalResolver\<close>. \<open>active\<close> are the queues whose gate the
  batch holds, in the order a Go map happens to yield them.
\<close>

definition resolve_batch_proposal ::
  "(int \<Rightarrow> prop_error + proposal) \<Rightarrow> (gate_key \<Rightarrow> gostring \<Rightarrow> prop_error + proposal) \<Rightarrow>
   int \<Rightarrow> gostring \<Rightarrow> gate_key list \<Rightarrow> prop_error + proposal" where
  "resolve_batch_proposal get live_at n path active =
     (case get n of
        Inr p \<Rightarrow> Inr p
      | Inl e \<Rightarrow>
          if e \<noteq> No_proposal \<or> path = [] then Inl e
          else (case filter (\<lambda>r. \<exists>p. r = Inr p) (map (\<lambda>k. live_at k path) active) of
                  [] \<Rightarrow> Inl e
                | r # rs \<Rightarrow> r))"

locale resolver =
  fixes get :: "int \<Rightarrow> prop_error + proposal"
    and live_at :: "gate_key \<Rightarrow> gostring \<Rightarrow> prop_error + proposal"
  assumes get_id: "get n = Inr p \<Longrightarrow> p_id p = n"
    and live_at_path: "live_at k s = Inr p \<Longrightarrow> in_queue k p \<and> p_path p = s \<and> s \<noteq> []"
begin

text \<open>What is acted on is what was asked for: the row of that id, or a live row of that file.\<close>

lemma resolved:
  assumes "resolve_batch_proposal get live_at n path active = Inr p"
  shows "p_id p = n \<or> get n = Inl No_proposal \<and> path \<noteq> [] \<and> p_path p = path \<and> (\<exists>k\<in>set active. in_queue k p)"
proof (cases "get n")
  case (Inl e)
  then obtain rs where e: "e = No_proposal" "path \<noteq> []"
      and f: "filter (\<lambda>r. \<exists>p. r = Inr p) (map (\<lambda>k. live_at k path) active) = Inr p # rs"
    using assms by (auto simp: resolve_batch_proposal_def split: if_splits list.splits)
  then have "Inr p \<in> set (filter (\<lambda>r. \<exists>p. r = Inr p) (map (\<lambda>k. live_at k path) active))" by simp
  then obtain k where "k \<in> set active" "live_at k path = Inr p" by auto
  then show ?thesis using Inl e live_at_path by blast
qed (use assms get_id in \<open>auto simp: resolve_batch_proposal_def\<close>)

lemma unresolved_without_gate: "get n = Inl e \<Longrightarrow> resolve_batch_proposal get live_at n path [] = Inl e"
  by (simp add: resolve_batch_proposal_def)

end

text \<open>The store's lookups, with their failures.\<close>

definition get_at :: "bool \<Rightarrow> prop_store \<Rightarrow> int \<Rightarrow> prop_error + proposal" where
  "get_at fault db n = (if fault then Inl Prop_db_error else get_prop n db)"

definition live_at :: "bool \<Rightarrow> prop_store \<Rightarrow> gate_key \<Rightarrow> gostring \<Rightarrow> prop_error + proposal" where
  "live_at fault db k s = (if fault then Inl Prop_db_error else get_live_by_source_path k s db)"

lemma first_prop_in: "first_prop rows = Inr p \<Longrightarrow> p \<in> set rows"
  by (auto simp: first_prop_def split: list.splits)

interpretation store: resolver "get_at f1 db" "live_at f2 db" for f1 f2 db
  by unfold_locales
    (auto simp: get_at_def live_at_def get_prop_def get_live_by_source_path_def dest!: first_prop_in split: if_splits)

lemma get_at_row: "get_at f db n = Inr p \<Longrightarrow> p \<in> set (ps_rows db)"
  by (auto simp: get_at_def get_prop_def dest!: first_prop_in split: if_splits)

lemma live_at_row: "live_at f db k s = Inr p \<Longrightarrow> p \<in> set (ps_rows db)"
  by (auto simp: live_at_def get_live_by_source_path_def dest!: first_prop_in split: if_splits)

lemma resolved_row:
  assumes "resolve_batch_proposal (get_at f1 db) (live_at f2 db) n path active = Inr p"
  shows "p \<in> set (ps_rows db)"
proof (cases "get_at f1 db n")
  case (Inl e)
  then obtain rs where "filter (\<lambda>r. \<exists>p. r = Inr p) (map (\<lambda>k. live_at f2 db k path) active) = Inr p # rs"
    using assms by (auto simp: resolve_batch_proposal_def split: if_splits list.splits)
  then have "Inr p \<in> set (filter (\<lambda>r. \<exists>p. r = Inr p) (map (\<lambda>k. live_at f2 db k path) active))" by simp
  then show ?thesis by (auto dest: live_at_row [OF sym])
qed (use assms in \<open>auto simp: resolve_batch_proposal_def dest: get_at_row\<close>)

section \<open>Requests\<close>

record apply_request =
  ar_keep :: "int option"
  ar_keep_all :: bool
  ar_additional :: "int list"

fun first_occurrences :: "int list \<Rightarrow> int list \<Rightarrow> int list" where
  "first_occurrences seen [] = []"
| "first_occurrences seen (i # is) =
     (if i \<in> set seen then first_occurrences seen is else i # first_occurrences (i # seen) is)"

definition validate_apply_request :: "apply_request \<Rightarrow> proposal \<Rightarrow> apply_request option" where
  "validate_apply_request req p =
     (let n = int (length (p_candidates p)); more = ar_additional req; in_range = (\<lambda>i. 0 \<le> i \<and> i < n) in
      if p_workflow p \<noteq> wf_dedup then Some req
      else if ar_keep_all req \<and> more \<noteq> [] then None
      else if more \<noteq> [] \<and> ar_keep req = None then None
      else if (case ar_keep req of None \<Rightarrow> False | Some i \<Rightarrow> \<not> in_range i) then None
      else if more = [] then Some req
      else if \<exists>i\<in>set more. \<not> in_range i \<or> Some i = ar_keep req then None
      else Some (req\<lparr>ar_additional := first_occurrences [] more\<rparr>))"

lemma first_occurrences_props:
  "distinct (first_occurrences seen xs) \<and> set (first_occurrences seen xs) = set xs - set seen"
  by (induction seen xs rule: first_occurrences.induct) auto

text \<open>
  Of a dedup apply only a consistent choice gets through: the candidate to keep exists, the further ones
  exist, are listed once, do not name it again, and come neither without it nor with keep-all; and what the
  operator asked to keep is kept, no more and no less.
\<close>

theorem keep_set_sound:
  assumes "validate_apply_request req p = Some req'" and "p_workflow p = wf_dedup"
  shows "(\<forall>i. ar_keep req' = Some i \<longrightarrow> 0 \<le> i \<and> i < int (length (p_candidates p)) \<and> i \<notin> set (ar_additional req')) \<and>
    (\<forall>i\<in>set (ar_additional req'). 0 \<le> i \<and> i < int (length (p_candidates p))) \<and>
    (ar_additional req' \<noteq> [] \<longrightarrow> ar_keep req' \<noteq> None \<and> \<not> ar_keep_all req') \<and> distinct (ar_additional req') \<and>
    ar_keep req' = ar_keep req \<and> ar_keep_all req' = ar_keep_all req \<and> set (ar_additional req') = set (ar_additional req)"
proof (cases "ar_additional req = []")
  case True
  then show ?thesis using assms by (auto simp: validate_apply_request_def Let_def split: if_splits option.splits)
next
  case False
  let ?n = "int (length (p_candidates p))"
  have v: "\<not> ar_keep_all req" "ar_keep req \<noteq> None" "\<forall>i. ar_keep req = Some i \<longrightarrow> 0 \<le> i \<and> i < ?n"
    "\<forall>i\<in>set (ar_additional req). 0 \<le> i \<and> i < ?n \<and> Some i \<noteq> ar_keep req"
    "req' = req\<lparr>ar_additional := first_occurrences [] (ar_additional req)\<rparr>"
    using assms False by (auto simp: validate_apply_request_def Let_def split: if_splits option.splits)
  show ?thesis using v first_occurrences_props [of "[]" "ar_additional req"] by auto
qed

theorem keep_set_sound_witness:
  "let c = \<lparr>dc_label = [], dc_path = [], dc_tracked = 0, dc_resolution = 0, dc_codec = [], dc_bitrate = 0,
       dc_size = 0, dc_phash = [], dc_winner = False\<rparr>;
     p = zero_proposal\<lparr>p_workflow := wf_dedup, p_candidates := [c, c, c]\<rparr>;
     req = \<lparr>ar_keep = Some 0, ar_keep_all = False, ar_additional = [2, 1, 2]\<rparr> in
   validate_apply_request req p = Some (req\<lparr>ar_additional := [2, 1]\<rparr>) \<and> distinct [2, 1 :: int]"
proof -
  let ?c = "\<lparr>dc_label = [], dc_path = [], dc_tracked = 0, dc_resolution = 0, dc_codec = [], dc_bitrate = 0,
       dc_size = 0, dc_phash = [], dc_winner = False\<rparr>"
  let ?p = "zero_proposal\<lparr>p_workflow := wf_dedup, p_candidates := [?c, ?c, ?c]\<rparr>"
  let ?req = "\<lparr>ar_keep = Some 0, ar_keep_all = False, ar_additional = [2, 1, 2]\<rparr>"
  have v: "validate_apply_request ?req ?p = Some (?req\<lparr>ar_additional := [2, 1]\<rparr>)"
    by (simp add: validate_apply_request_def)
  then show ?thesis using keep_set_sound [OF v] by simp
qed

section \<open>Applying one proposal\<close>

text \<open>\<open>markAppliedResilient\<close>; its calls fail by their number.\<close>

definition mark_applied_resilient ::
  "(nat \<Rightarrow> bool) \<Rightarrow> gostring \<Rightarrow> proposal \<Rightarrow> int \<Rightarrow> prop_store \<Rightarrow> prop_error option \<times> prop_store" where
  "mark_applied_resilient fl now p tracked db =
     (case mark_applied (fl 0) now (p_id p) tracked db of
        (Some No_proposal, db') \<Rightarrow>
          if p_path p = [] then (None, db')
          else (case live_at (fl 1) db' (p_mode p, p_workflow p) (p_path p) of
                  Inl e \<Rightarrow> (None, db')
                | Inr alt \<Rightarrow> mark_applied (fl 2) now (p_id alt) tracked db')
      | r \<Rightarrow> r)"

text \<open>
  The work on files and library: its changes, and the tracked id with the note whether a fingerprint was
  given back, or nothing when it failed. The packages' \<open>Apply\<close> functions are behind it.
\<close>

datatype change_kind = Created | Moved | Deleted

type_synonym path_change = "gostring \<times> change_kind"

type_synonym 'l apply_work =
  "proposal \<Rightarrow> apply_request \<Rightarrow> 'l \<Rightarrow> path_change list \<times> (int \<times> bool) option \<times> 'l"

datatype apply_error = Unknown_workflow | Unknown_mode | Work_failed | Store_failed prop_error

definition known_mode :: "gostring \<Rightarrow> bool" where
  "known_mode m \<longleftrightarrow> m \<in> {''movies'', ''series'', ''adult''}"

definition apply_by_workflow ::
  "(nat \<Rightarrow> bool) \<Rightarrow> gostring \<Rightarrow> 'l apply_work \<Rightarrow> proposal \<Rightarrow> apply_request \<Rightarrow> 'l \<times> prop_store \<Rightarrow>
   path_change list \<times> apply_error option \<times> 'l \<times> prop_store" where
  "apply_by_workflow fl now work p req s =
     (if p_workflow p \<notin> {wf_rename, wf_purge, wf_dedup} then ([], Some Unknown_workflow, s)
      else if \<not> known_mode (p_mode p) then ([], Some Unknown_mode, s)
      else (case work p req (fst s) of
          (changes, None, lib) \<Rightarrow> (changes, Some Work_failed, lib, snd s)
        | (changes, Some (tracked, given), lib) \<Rightarrow>
            (case mark_applied_resilient fl now p (if p_workflow p = wf_purge then p_tracked p else tracked) (snd s) of
               (Some e, db) \<Rightarrow> (changes, Some (Store_failed e), lib, db)
             | (None, db) \<Rightarrow>
                 if p_workflow p = wf_rename \<and> p_mode p = ''adult'' \<and> given
                 then (case mark_fingerprint_submitted (fl 3) now (p_id p) db of
                         (e, db') \<Rightarrow> (changes, map_option Store_failed e, lib, db'))
                 else (changes, None, lib, db))))"

text \<open>\<open>mode.Build\<close>: the section lock, then whatever else may fail.\<close>

datatype build_result = Built | Build_locked | Build_failed

definition mode_build :: "ctx \<Rightarrow> (gostring \<Rightarrow> bool) \<Rightarrow> gostring \<Rightarrow> build_result" where
  "mode_build c builds m = (if \<not> require_mode c m then Build_locked else if builds m then Built else Build_failed)"

record ('h, 'l) organize =
  or_gate :: "'h apply_gate"
  or_db :: prop_store
  or_lib :: 'l
  or_fired :: "'h list"

definition open_gate :: "gate_key \<Rightarrow> ('h, 'l) organize \<Rightarrow> ('h, 'l) organize" where
  "open_gate k s = s\<lparr>or_gate := begin_apply k (or_gate s)\<rparr>"

definition close_gate :: "gate_key \<Rightarrow> ('h, 'l) organize \<Rightarrow> ('h, 'l) organize" where
  "close_gate k s = (case end_apply k (or_gate s) of (hs, g) \<Rightarrow> s\<lparr>or_gate := g, or_fired := or_fired s @ hs\<rparr>)"

definition queue_of :: "proposal \<Rightarrow> gate_key" where
  "queue_of p = (p_mode p, p_workflow p)"

datatype organize_response =
    Bad_request | Row_missing | Server_error | Section_locked | Bad_gateway | Conflict | No_content
  | Row_found proposal

definition not_found_or_500 :: "prop_error \<Rightarrow> organize_response" where
  "not_found_or_500 e = (if e = No_proposal then Row_missing else Server_error)"

text \<open>The body is decoded; \<open>None\<close> is one that does not decode. Calls 0 to 3 are those of the work.\<close>

definition apply_proposal_handler ::
  "(nat \<Rightarrow> bool) \<Rightarrow> gostring \<Rightarrow> ctx \<Rightarrow> (gostring \<Rightarrow> bool) \<Rightarrow> 'l apply_work \<Rightarrow> int \<Rightarrow> apply_request option \<Rightarrow>
   ('h, 'l) organize \<Rightarrow> organize_response \<times> path_change list \<times> ('h, 'l) organize" where
  "apply_proposal_handler fl now c builds work n body s =
     (case body of
        None \<Rightarrow> (Bad_request, [], s)
      | Some req \<Rightarrow>
          (case get_at (fl 4) (or_db s) n of
             Inl e \<Rightarrow> (not_found_or_500 e, [], s)
           | Inr p \<Rightarrow>
               (let s1 = open_gate (queue_of p) s in
                case validate_apply_request req p of
                  None \<Rightarrow> (Bad_request, [], close_gate (queue_of p) s1)
                | Some req' \<Rightarrow>
                    (case mode_build c builds (p_mode p) of
                       Build_locked \<Rightarrow> (Section_locked, [], close_gate (queue_of p) s1)
                     | Build_failed \<Rightarrow> (Bad_request, [], close_gate (queue_of p) s1)
                     | Built \<Rightarrow>
                         (case apply_by_workflow fl now work p req' (or_lib s1, or_db s1) of
                            (changes, e, lib, db) \<Rightarrow>
                              (let s2 = close_gate (queue_of p) (s1\<lparr>or_lib := lib, or_db := db\<rparr>) in
                               case e of
                                 Some Unknown_workflow \<Rightarrow> (Server_error, changes, s2)
                               | Some _ \<Rightarrow> (Bad_gateway, changes, s2)
                               | None \<Rightarrow>
                                   (case get_at (fl 5) db n of
                                      Inl e \<Rightarrow> (not_found_or_500 e, changes, s2)
                                    | Inr q \<Rightarrow> (Row_found q, changes, s2))))))))"

section \<open>Batches\<close>

text \<open>
  A batch: the state it works on, the queues whose gate it holds, the modes with a session, one result per
  item (its id and whether it succeeded; the refreshed row that goes with it is left out) and the changes
  by mode.
\<close>

record ('h, 'l) batch =
  ba_org :: "('h, 'l) organize"
  ba_active :: "gate_key list"
  ba_sessions :: "gostring list"
  ba_results :: "(int \<times> bool) list"
  ba_changes :: "(gostring \<times> path_change list) list"

definition start_batch :: "('h, 'l) organize \<Rightarrow> ('h, 'l) batch" where
  "start_batch s = \<lparr>ba_org = s, ba_active = [], ba_sessions = [], ba_results = [], ba_changes = []\<rparr>"

definition acquire :: "gate_key \<Rightarrow> ('h, 'l) batch \<Rightarrow> ('h, 'l) batch" where
  "acquire k b =
     (if k \<in> set (ba_active b) then b else b\<lparr>ba_org := open_gate k (ba_org b), ba_active := ba_active b @ [k]\<rparr>)"

definition release_all :: "('h, 'l) batch \<Rightarrow> ('h, 'l) organize" where
  "release_all b = fold close_gate (ba_active b) (ba_org b)"

definition put_result :: "int \<Rightarrow> bool \<Rightarrow> ('h, 'l) batch \<Rightarrow> ('h, 'l) batch" where
  "put_result n ok b = b\<lparr>ba_results := ba_results b @ [(n, ok)]\<rparr>"

text \<open>The session of a mode, built once.\<close>

definition session_for :: "ctx \<Rightarrow> (gostring \<Rightarrow> bool) \<Rightarrow> gostring \<Rightarrow> ('h, 'l) batch \<Rightarrow> ('h, 'l) batch option" where
  "session_for c builds m b =
     (if m \<in> set (ba_sessions b) then Some b
      else if mode_build c builds m = Built then Some (b\<lparr>ba_sessions := ba_sessions b @ [m]\<rparr>) else None)"

record batch_item =
  bi_id :: int
  bi_path :: gostring
  bi_req :: apply_request

definition apply_item ::
  "(nat \<Rightarrow> bool) \<Rightarrow> gostring \<Rightarrow> ctx \<Rightarrow> (gostring \<Rightarrow> bool) \<Rightarrow> 'l apply_work \<Rightarrow> batch_item \<Rightarrow> ('h, 'l) batch \<Rightarrow> ('h, 'l) batch" where
  "apply_item fl now c builds work item b =
     (let db = or_db (ba_org b) in
      case resolve_batch_proposal (get_at (fl 4) db) (live_at (fl 5) db) (bi_id item) (bi_path item) (ba_active b) of
        Inl e \<Rightarrow> put_result (bi_id item) False b
      | Inr p \<Rightarrow>
          (let b1 = acquire (queue_of p) b in
           case session_for c builds (p_mode p) b1 of
             None \<Rightarrow> put_result (bi_id item) False b1
           | Some b2 \<Rightarrow>
               (case validate_apply_request (bi_req item) p of
                  None \<Rightarrow> put_result (bi_id item) False b2
                | Some req \<Rightarrow>
                    (case apply_by_workflow fl now work p req (or_lib (ba_org b2), or_db (ba_org b2)) of
                       (changes, e, lib, db') \<Rightarrow>
                         put_result (bi_id item) (e = None)
                           (b2\<lparr>ba_org := (ba_org b2)\<lparr>or_lib := lib, or_db := db'\<rparr>,
                               ba_changes := ba_changes b2 @ [(p_mode p, changes)]\<rparr>)))))"

datatype batch_response = Batch_bad_request | Batch_results "(int \<times> bool) list"

text \<open>The loop over the items; \<open>fls\<close> numbers the calls of each item.\<close>

fun each_item :: "(nat \<Rightarrow> bool) list \<Rightarrow> ((nat \<Rightarrow> bool) \<Rightarrow> 'i \<Rightarrow> 'b \<Rightarrow> 'b) \<Rightarrow> 'i list \<Rightarrow> 'b \<Rightarrow> 'b" where
  "each_item fls step [] b = b"
| "each_item fls step (i # is) b =
     each_item (drop 1 fls) step is (step (case fls of [] \<Rightarrow> (\<lambda>_. False) | fl # _ \<Rightarrow> fl) i b)"

definition max_batch_items :: int where "max_batch_items = max_proposal_page_size"

text \<open>A request that does not decode is \<open>None\<close>; \<open>f0\<close> is the failure of the first lookup.\<close>

definition apply_batch_handler ::
  "bool \<Rightarrow> (nat \<Rightarrow> bool) list \<Rightarrow> gostring \<Rightarrow> ctx \<Rightarrow> (gostring \<Rightarrow> bool) \<Rightarrow> 'l apply_work \<Rightarrow> batch_item list option \<Rightarrow>
   ('h, 'l) organize \<Rightarrow> batch_response \<times> (gostring \<times> path_change list) list \<times> ('h, 'l) organize" where
  "apply_batch_handler f0 fls now c builds work body s =
     (case body of
        None \<Rightarrow> (Batch_bad_request, [], s)
      | Some [] \<Rightarrow> (Batch_bad_request, [], s)
      | Some (item # items) \<Rightarrow>
          (let b = (case get_at f0 (or_db s) (bi_id item) of
                      Inl e \<Rightarrow> start_batch s | Inr p \<Rightarrow> acquire (queue_of p) (start_batch s)) in
           if (case get_at f0 (or_db s) (bi_id item) of
                 Inl e \<Rightarrow> False
               | Inr p \<Rightarrow> p_workflow p \<noteq> wf_rename \<and> max_batch_items < int (length (item # items)))
           then (Batch_bad_request, [], release_all b)
           else (let b' = each_item fls (\<lambda>fl. apply_item fl now c builds work) (item # items) b in
                 (Batch_results (ba_results b'), ba_changes b', release_all b'))))"

section \<open>Deleting files\<close>

text \<open>
  The files on disk are the state \<open>'l\<close> here; \<open>rm_fails\<close> says which removals fail for another
  reason than a missing file. The result is the changes and whether it went well.
\<close>

definition delete_source ::
  "bool \<Rightarrow> (gostring \<Rightarrow> bool) \<Rightarrow> proposal \<Rightarrow> gostring set \<times> prop_store \<Rightarrow> path_change list \<times> bool \<times> gostring set \<times> prop_store" where
  "delete_source f rm_fails p s =
     (if p_workflow p \<noteq> wf_rename \<or> \<not> live p \<or> p_path p = [] \<or> p_tracked p \<noteq> 0 then ([], False, s)
      else if rm_fails (p_path p) then ([], False, s)
      else (case delete_prop f (p_id p) (snd s) of
              (e, db) \<Rightarrow> ([(p_path p, Deleted)], e = None, fst s - {p_path p}, db)))"

definition delete_item ::
  "(nat \<Rightarrow> bool) \<Rightarrow> ctx \<Rightarrow> (gostring \<Rightarrow> bool) \<Rightarrow> (gostring \<Rightarrow> bool) \<Rightarrow> int \<times> gostring \<Rightarrow>
   ('h, gostring set) batch \<Rightarrow> ('h, gostring set) batch" where
  "delete_item fl c builds rm_fails item b =
     (let db = or_db (ba_org b) in
      case resolve_batch_proposal (get_at (fl 0) db) (live_at (fl 1) db) (fst item) (snd item) (ba_active b) of
        Inl e \<Rightarrow> put_result (fst item) False b
      | Inr p \<Rightarrow>
          (let b1 = acquire (queue_of p) b in
           if p_workflow p \<noteq> wf_rename \<or> \<not> live p then put_result (fst item) False b1
           else (case session_for c builds (p_mode p) b1 of
                   None \<Rightarrow> put_result (fst item) False b1
                 | Some b2 \<Rightarrow>
                     (case delete_source (fl 2) rm_fails p (or_lib (ba_org b2), or_db (ba_org b2)) of
                        (changes, ok, files, db') \<Rightarrow>
                          put_result (fst item) ok
                            (b2\<lparr>ba_org := (ba_org b2)\<lparr>or_lib := files, or_db := db'\<rparr>,
                                ba_changes := ba_changes b2 @ [(p_mode p, changes)]\<rparr>)))))"

definition delete_batch_handler ::
  "bool \<Rightarrow> (nat \<Rightarrow> bool) list \<Rightarrow> ctx \<Rightarrow> (gostring \<Rightarrow> bool) \<Rightarrow> (gostring \<Rightarrow> bool) \<Rightarrow> (int \<times> gostring) list option \<Rightarrow>
   ('h, gostring set) organize \<Rightarrow> batch_response \<times> (gostring \<times> path_change list) list \<times> ('h, gostring set) organize" where
  "delete_batch_handler f0 fls c builds rm_fails body s =
     (case body of
        None \<Rightarrow> (Batch_bad_request, [], s)
      | Some [] \<Rightarrow> (Batch_bad_request, [], s)
      | Some (item # items) \<Rightarrow>
          (if max_proposal_page_size < int (length (item # items)) then (Batch_bad_request, [], s)
           else
             (let b = (case get_at f0 (or_db s) (fst item) of
                         Inl e \<Rightarrow> start_batch s | Inr p \<Rightarrow> acquire (queue_of p) (start_batch s));
                  b' = each_item fls (\<lambda>fl. delete_item fl c builds rm_fails) (item # items) b in
              (Batch_results (ba_results b'), ba_changes b', release_all b'))))"

end
