(* ===== verification/Apply_Facts.thy ===== *)
theory Apply_Facts
  imports Apply_Api
begin

text \<open>
  What the batch handlers guarantee: the gate is given back on every way out, every item has its result,
  a locked section is not touched, and only the files that were asked for are deleted.
\<close>

section \<open>The gate of a batch\<close>

declare split_paired_All [simp del] split_paired_Ex [simp del]

definition counts :: "('h, 'l) organize \<Rightarrow> gate_key \<Rightarrow> int" where
  "counts s = ag_counts (or_gate s)"

lemma counts_open [simp]: "counts (open_gate k s) = (counts s)(k := counts s k + 1)"
  by (simp add: counts_def open_gate_def begin_apply_def)

lemma counts_close: "0 < counts s k \<Longrightarrow> counts (close_gate k s) = (counts s)(k := counts s k - 1)"
  by (auto simp: counts_def close_gate_def end_apply_def Let_def split: prod.splits)

lemma counts_upd [simp]: "counts (s\<lparr>or_lib := l, or_db := d\<rparr>) = counts s"
  by (simp add: counts_def)

lemma close_open:
  assumes "\<And>k. 0 \<le> counts s k" and "counts s' = counts (open_gate k s)"
  shows "counts (close_gate k s') = counts s"
proof -
  have "0 < counts s' k" using assms(1) [of k] by (simp add: assms(2))
  then show ?thesis by (simp add: counts_close assms(2))
qed

text \<open>A batch holds each of its queues once more than the state \<open>c0\<close> it started from.\<close>

definition holds_gate :: "(gate_key \<Rightarrow> int) \<Rightarrow> ('h, 'l) batch \<Rightarrow> bool" where
  "holds_gate c0 b \<longleftrightarrow> distinct (ba_active b) \<and>
     (\<forall>k. counts (ba_org b) k = c0 k + (if k \<in> set (ba_active b) then 1 else 0))"

lemma holds_start: "holds_gate (counts s) (start_batch s)"
  by (simp add: holds_gate_def start_batch_def)

lemma holds_acquire: "holds_gate c0 b \<Longrightarrow> holds_gate c0 (acquire k b)"
  by (auto simp: holds_gate_def acquire_def)

lemma holds_upd [simp]:
  "holds_gate c0 (put_result n ok b) = holds_gate c0 b"
  "holds_gate c0 (b\<lparr>ba_org := (ba_org b)\<lparr>or_lib := l, or_db := d\<rparr>, ba_changes := ch\<rparr>) = holds_gate c0 b"
  by (simp_all add: holds_gate_def put_result_def)

lemma holds_session: "session_for c builds m b = Some b' \<Longrightarrow> holds_gate c0 b \<Longrightarrow> holds_gate c0 b'"
  by (auto simp: session_for_def holds_gate_def split: if_splits)

lemma release_counts:
  assumes "distinct ks" "\<And>k. 0 \<le> c0 k" "\<And>k. counts s k = c0 k + (if k \<in> set ks then 1 else 0)"
  shows "counts (fold close_gate ks s) = c0"
  using assms
proof (induction ks arbitrary: s)
  case (Cons k ks)
  have "0 < counts s k" using Cons.prems(2,3) [of k] by simp
  then have "counts (close_gate k s) j = c0 j + (if j \<in> set ks then 1 else 0)" for j
    using Cons.prems(1,3) by (auto simp: counts_close)
  then show ?case using Cons by simp
qed auto

lemma holds_release: "holds_gate c0 b \<Longrightarrow> (\<And>k. 0 \<le> c0 k) \<Longrightarrow> counts (release_all b) = c0"
  by (simp add: holds_gate_def release_all_def release_counts)

lemma each_item_inv:
  assumes "\<And>fl i b. P b \<Longrightarrow> P (step fl i b)" "P b"
  shows "P (each_item fls step is b)"
  using assms(2) by (induction "is" arbitrary: fls b) (auto intro: assms(1))

lemma holds_apply_item: "holds_gate c0 b \<Longrightarrow> holds_gate c0 (apply_item fl now c builds work item b)"
  by (auto simp: apply_item_def Let_def intro: holds_session holds_acquire split: sum.splits option.splits prod.splits)

lemma holds_delete_item: "holds_gate c0 b \<Longrightarrow> holds_gate c0 (delete_item fl c builds rm item b)"
  by (auto simp: delete_item_def Let_def intro: holds_session holds_acquire split: sum.splits option.splits prod.splits)

text \<open>
  C15. An apply, a batch of applies and a batch of deletions give the gate back: on every way out of the
  handlers, refused requests, locked sections and failing work included, each queue has as many applies in
  flight as before, so no handler leaves a queue deferring rescans for ever.
\<close>

theorem handlers_release_gate:
  assumes "\<forall>k. 0 \<le> ag_counts (or_gate s) k" and "\<forall>k. 0 \<le> ag_counts (or_gate s') k"
  shows "ag_counts (or_gate (snd (snd (apply_proposal_handler fl now c builds work n req s)))) = ag_counts (or_gate s) \<and>
    ag_counts (or_gate (snd (snd (apply_batch_handler f0 fls now c builds work items s)))) = ag_counts (or_gate s) \<and>
    ag_counts (or_gate (snd (snd (delete_batch_handler f0 fls c builds rm ditems s')))) = ag_counts (or_gate s')"
proof (intro conjI)
  have nn: "\<And>k. 0 \<le> counts s k" "\<And>k. 0 \<le> counts s' k" using assms by (simp_all add: counts_def)
  have "counts (snd (snd (apply_proposal_handler fl now c builds work n req s))) = counts s"
    by (auto simp: apply_proposal_handler_def Let_def close_open [OF nn(1)]
      split: option.splits sum.splits build_result.splits prod.splits apply_error.splits)
  then show "ag_counts (or_gate (snd (snd (apply_proposal_handler fl now c builds work n req s)))) = ag_counts (or_gate s)"
    by (simp add: counts_def)
  have h: "holds_gate (counts s) (each_item fls (\<lambda>fl. apply_item fl now c builds work) is b)"
    if "holds_gate (counts s) b" for "is" b
    by (rule each_item_inv [where P = "holds_gate (counts s)"]) (use that holds_apply_item in auto)
  have "counts (snd (snd (apply_batch_handler f0 fls now c builds work items s))) = counts s"
    by (auto simp: apply_batch_handler_def Let_def holds_release [OF h nn(1)] holds_release [OF _ nn(1)] holds_start
      holds_acquire simp del: each_item.simps split: option.splits list.splits sum.splits)
  then show "ag_counts (or_gate (snd (snd (apply_batch_handler f0 fls now c builds work items s)))) = ag_counts (or_gate s)"
    by (simp add: counts_def)
  have h': "holds_gate (counts s') (each_item fls (\<lambda>fl. delete_item fl c builds rm) is b)"
    if "holds_gate (counts s') b" for "is" b
    by (rule each_item_inv [where P = "holds_gate (counts s')"]) (use that holds_delete_item in auto)
  have "counts (snd (snd (delete_batch_handler f0 fls c builds rm ditems s'))) = counts s'"
    by (auto simp: delete_batch_handler_def Let_def holds_release [OF h' nn(2)] holds_start holds_acquire simp del: each_item.simps split: option.splits list.splits sum.splits)
  then show "ag_counts (or_gate (snd (snd (delete_batch_handler f0 fls c builds rm ditems s')))) = ag_counts (or_gate s')"
    by (simp add: counts_def)
qed

text \<open>A state of the handlers over the sample store: no apply in flight, two files of the queue on disk.\<close>

definition sample_organize :: "(unit, gostring set) organize" where
  "sample_organize = \<lparr>or_gate = new_apply_gate, or_db = sample_store, or_lib = {''/b'', ''/c''}, or_fired = []\<rparr>"

definition sample_ctx :: ctx where
  "sample_ctx = \<lparr>cx_decision = None, cx_identity = []\<rparr>"

definition no_request :: apply_request where
  "no_request = \<lparr>ar_keep = None, ar_keep_all = False, ar_additional = []\<rparr>"

theorem handlers_release_gate_witness:
  "let s = sample_organize; work = (\<lambda>p req lib. ([(p_path p, Moved)], Some (9, False), lib - {p_path p})) in
   ag_counts (or_gate (snd (snd (apply_proposal_handler (\<lambda>_. False) ''t'' sample_ctx (\<lambda>_. True) work 2
     (Some no_request) s)))) = ag_counts (or_gate s)"
proof -
  have 1: "\<forall>k. 0 \<le> ag_counts (or_gate sample_organize) k" by (simp add: sample_organize_def new_apply_gate_def)
  show ?thesis unfolding Let_def by (rule handlers_release_gate [OF 1 1, THEN conjunct1])
qed

section \<open>One result per item\<close>

lemma results_upd [simp]:
  "map fst (ba_results (put_result n ok b)) = map fst (ba_results b) @ [n]"
  "ba_results (acquire k b) = ba_results b"
  by (simp_all add: put_result_def acquire_def)

lemma results_session: "session_for c builds m b = Some b' \<Longrightarrow> ba_results b' = ba_results b"
  by (auto simp: session_for_def split: if_splits)

lemma results_apply_item: "map fst (ba_results (apply_item fl now c builds work item b)) = map fst (ba_results b) @ [bi_id item]"
  by (auto simp: apply_item_def Let_def dest!: results_session split: sum.splits option.splits prod.splits)

lemma results_delete_item: "map fst (ba_results (delete_item fl c builds rm item b)) = map fst (ba_results b) @ [fst item]"
  by (auto simp: delete_item_def Let_def dest!: results_session split: sum.splits option.splits prod.splits)

lemma results_each:
  "(\<And>fl i b. map fst (ba_results (step fl i b)) = map fst (ba_results b) @ [ident i]) \<Longrightarrow>
   map fst (ba_results (each_item fls step is b)) = map fst (ba_results b) @ map ident is"
  by (induction "is" arbitrary: fls b) simp_all

text \<open>
  A batch never stops early and never answers for the wrong item: when it answers with results, they
  are one per requested id, in the order of the request, whatever failed in between.
\<close>

theorem one_result_per_item:
  assumes "fst (apply_batch_handler f0 fls now c builds work (Some items) s) = Batch_results rs"
    and "fst (delete_batch_handler f0' fls' c' builds' rm (Some ditems) s') = Batch_results rs'"
  shows "map fst rs = map bi_id items \<and> map fst rs' = map fst ditems \<and> int (length ditems) \<le> max_proposal_page_size"
proof -
  have 1: "ba_results (start_batch s0) = []" for s0 :: "('x, 'y) organize" by (simp add: start_batch_def)
  note each = results_each [of "\<lambda>fl. apply_item fl now c builds work" bi_id, OF results_apply_item]
  note each' = results_each [of "\<lambda>fl. delete_item fl c' builds' rm" fst, OF results_delete_item]
  have "map fst rs = map bi_id items"
    using assms(1)
    by (auto simp: apply_batch_handler_def Let_def each 1 simp del: each_item.simps split: list.splits sum.splits if_splits)
  moreover have "map fst rs' = map fst ditems \<and> int (length ditems) \<le> max_proposal_page_size"
    using assms(2)
    by (auto simp: delete_batch_handler_def Let_def each' 1 simp del: each_item.simps split: list.splits sum.splits if_splits)
  ultimately show ?thesis by simp
qed

theorem one_result_per_item_witness:
  "\<exists>rs rs'. map fst rs = [2, 77] \<and> map fst rs' = [3, 3] \<and>
    fst (apply_batch_handler False [] ''t'' sample_ctx (\<lambda>_. True) (\<lambda>p req lib. ([], None, lib))
      (Some [\<lparr>bi_id = 2, bi_path = [], bi_req = no_request\<rparr>, \<lparr>bi_id = 77, bi_path = [], bi_req = no_request\<rparr>])
      sample_organize) = Batch_results rs \<and>
    fst (delete_batch_handler False [] sample_ctx (\<lambda>_. True) (\<lambda>_. False) (Some [(3, []), (3, [])]) sample_organize) =
      Batch_results rs'"
proof -
  let ?items = "[\<lparr>bi_id = 2, bi_path = [], bi_req = no_request\<rparr>, \<lparr>bi_id = 77, bi_path = [], bi_req = no_request\<rparr>]"
  let ?work = "\<lambda>p req lib :: gostring set. ([], None, lib)"
  obtain rs where rs: "fst (apply_batch_handler False [] ''t'' sample_ctx (\<lambda>_. True) ?work (Some ?items) sample_organize) =
      Batch_results rs"
    by (cases "get_at False (or_db sample_organize) 2")
      (simp_all add: apply_batch_handler_def Let_def max_batch_items_def max_proposal_page_size_def del: each_item.simps)
  obtain rs' where rs': "fst (delete_batch_handler False [] sample_ctx (\<lambda>_. True) (\<lambda>_. False) (Some [(3, []), (3, [])])
      sample_organize) = Batch_results rs'"
    by (simp add: delete_batch_handler_def Let_def max_proposal_page_size_def)
  show ?thesis using one_result_per_item [OF rs rs'] rs rs' by simp
qed

section \<open>Locked sections\<close>

definition only_unlocked :: "ctx \<Rightarrow> ('h, 'l) batch \<Rightarrow> bool" where
  "only_unlocked c b \<longleftrightarrow> (\<forall>m\<in>set (ba_sessions b). require_mode c m)"

lemma unlocked_session:
  "session_for c builds m b = Some b' \<Longrightarrow> only_unlocked c b \<Longrightarrow>
   only_unlocked c b' \<and> require_mode c m \<and> ba_org b' = ba_org b \<and> ba_changes b' = ba_changes b"
  by (auto simp: session_for_def only_unlocked_def mode_build_def split: if_splits)

lemma unlocked_upd [simp]:
  "only_unlocked c (put_result n ok b) = only_unlocked c b" "only_unlocked c (acquire k b) = only_unlocked c b"
  "only_unlocked c (b\<lparr>ba_org := s, ba_changes := ch\<rparr>) = only_unlocked c b"
  by (simp_all add: only_unlocked_def put_result_def acquire_def)

lemma unlocked_apply_item:
  "only_unlocked c b \<Longrightarrow> only_unlocked c (apply_item fl now c builds work item b)"
  by (auto simp: apply_item_def Let_def dest: unlocked_session split: sum.splits option.splits prod.splits)

lemma work_cong:
  assumes "require_mode c (p_mode p)" "\<forall>p req lib. require_mode c (p_mode p) \<longrightarrow> work p req lib = work' p req lib"
  shows "apply_by_workflow fl now work p req s = apply_by_workflow fl now work' p req s"
  using assms by (simp add: apply_by_workflow_def)

lemma apply_item_cong:
  assumes "only_unlocked c b" "\<forall>p req lib. require_mode c (p_mode p) \<longrightarrow> work p req lib = work' p req lib"
  shows "apply_item fl now c builds work item b = apply_item fl now c builds work' item b"
  using assms(1) work_cong [OF _ assms(2)]
  by (auto simp: apply_item_def Let_def dest!: unlocked_session split: sum.splits option.splits intro!: arg_cong2 [where f = case_prod])

lemma each_apply_cong:
  "only_unlocked c b \<Longrightarrow> \<forall>p req lib. require_mode c (p_mode p) \<longrightarrow> work p req lib = work' p req lib \<Longrightarrow>
   each_item fls (\<lambda>fl. apply_item fl now c builds work) is b = each_item fls (\<lambda>fl. apply_item fl now c builds work') is b"
  by (induction "is" arbitrary: fls b) (simp_all add: apply_item_cong [of c _ work work'] unlocked_apply_item)

text \<open>
  C12. No apply touches a locked section, although the path of the request does not name it: what a single
  apply and a batch do, answer and leave behind is the same whatever the work on proposals of locked modes
  would be, so that work is never run.
\<close>

theorem locked_mode_untouched:
  assumes "\<forall>p req lib. require_mode c (p_mode p) \<longrightarrow> work p req lib = work' p req lib"
  shows "apply_proposal_handler fl now c builds work n body s = apply_proposal_handler fl now c builds work' n body s \<and>
    apply_batch_handler f0 fls now c builds work items s = apply_batch_handler f0 fls now c builds work' items s"
proof
  show "apply_proposal_handler fl now c builds work n body s = apply_proposal_handler fl now c builds work' n body s"
    using work_cong [OF _ assms]
    by (auto simp: apply_proposal_handler_def Let_def mode_build_def split: option.splits sum.splits)
  have u: "only_unlocked c (start_batch s)" by (simp add: only_unlocked_def start_batch_def)
  have "each_item fls (\<lambda>fl. apply_item fl now c builds work) is b = each_item fls (\<lambda>fl. apply_item fl now c builds work') is b"
    if "only_unlocked c b" for "is" and b :: "('b, 'a) batch"
    by (rule each_apply_cong [OF that assms])
  then show "apply_batch_handler f0 fls now c builds work items s = apply_batch_handler f0 fls now c builds work' items s"
    using u by (auto simp: apply_batch_handler_def Let_def simp del: each_item.simps split: option.splits list.splits sum.splits)
qed

theorem locked_mode_untouched_witness:
  "let c = sample_ctx\<lparr>cx_decision := Some (zero_decision\<lparr>d_enforcing := True, d_locked := new_set [section_adult_content]\<rparr>)\<rparr>;
     work = (\<lambda>p req lib. if p_mode p = ''adult'' then ([], None, {}) else ([], Some (1, False), lib));
     work' = (\<lambda>p req lib :: gostring set. ([], Some (1, False), lib)) in
   apply_proposal_handler (\<lambda>_. False) ''t'' c (\<lambda>_. True) work 2 (Some no_request) sample_organize =
   apply_proposal_handler (\<lambda>_. False) ''t'' c (\<lambda>_. True) work' 2 (Some no_request) sample_organize"
proof -
  let ?c = "sample_ctx\<lparr>cx_decision := Some (zero_decision\<lparr>d_enforcing := True, d_locked := new_set [section_adult_content]\<rparr>)\<rparr>"
  let ?work = "\<lambda>p req lib. if p_mode p = ''adult'' then ([], None, {}) else ([], Some (1, False), lib)"
  let ?work' = "\<lambda>p req lib :: gostring set. ([], Some (1, False), lib)"
  have "\<forall>p req lib. require_mode ?c (p_mode p) \<longrightarrow> ?work p req lib = ?work' p req lib"
    by (auto simp: require_mode_def require_adult_def require_section_def allows_def zero_decision_def new_set_def
      set_add_def set_len_def set_intersects_def set_has_def)
  then show ?thesis unfolding Let_def by (rule locked_mode_untouched [THEN conjunct1])
qed

section \<open>Deleted files\<close>

definition deleted :: "('h, 'l) batch \<Rightarrow> gostring set" where
  "deleted b = {f. \<exists>m ch. (m, ch) \<in> set (ba_changes b) \<and> (f, Deleted) \<in> set ch}"

definition may_delete :: "ctx \<Rightarrow> (int \<times> gostring) set \<Rightarrow> prop_store \<Rightarrow> gostring \<Rightarrow> bool" where
  "may_delete c items db f \<longleftrightarrow> (\<exists>p\<in>set (ps_rows db). p_path p = f \<and> p_workflow p = wf_rename \<and> live p \<and>
     p_tracked p = 0 \<and> require_mode c (p_mode p) \<and> (p_id p \<in> fst ` items \<or> f \<in> snd ` items))"

definition delete_ok :: "ctx \<Rightarrow> (int \<times> gostring) set \<Rightarrow> ('h, gostring set) organize \<Rightarrow> ('h, gostring set) batch \<Rightarrow> bool" where
  "delete_ok c items s b \<longleftrightarrow> only_unlocked c b \<and> set (ps_rows (or_db (ba_org b))) \<subseteq> set (ps_rows (or_db s)) \<and>
     or_lib (ba_org b) = or_lib s - deleted b \<and> (\<forall>f\<in>deleted b. may_delete c items (or_db s) f)"

lemma delete_ok_upd [simp]:
  "delete_ok c items s (put_result n ok b) = delete_ok c items s b"
  "delete_ok c items s (acquire k b) = delete_ok c items s b"
  by (simp_all add: delete_ok_def deleted_def put_result_def acquire_def only_unlocked_def open_gate_def)

lemma delete_prop_rows: "set (ps_rows (snd (delete_prop f n db))) \<subseteq> set (ps_rows db)"
  by (auto simp: delete_prop_def)

lemma delete_source_step:
  assumes ok: "delete_ok c items s b" and p: "p \<in> set (ps_rows (or_db (ba_org b)))" and "require_mode c (p_mode p)"
    and asked: "p_id p \<in> fst ` items \<or> p_path p \<in> snd ` items"
    and d: "delete_source f rm p (or_lib (ba_org b), or_db (ba_org b)) = (ch, good, files, db)"
  shows "delete_ok c items s (b\<lparr>ba_org := (ba_org b)\<lparr>or_lib := files, or_db := db\<rparr>, ba_changes := ba_changes b @ [(m, ch)]\<rparr>)"
proof (cases "ch = []")
  case True
  then have "files = or_lib (ba_org b)" "db = or_db (ba_org b)"
    using d by (auto simp: delete_source_def split: if_splits prod.splits)
  moreover have "deleted (b\<lparr>ba_org := o', ba_changes := ba_changes b @ [(m, [])]\<rparr>) = deleted b" for o'
    by (auto simp: deleted_def)
  ultimately show ?thesis using ok True by (simp add: delete_ok_def only_unlocked_def)
next
  case False
  then have e: "ch = [(p_path p, Deleted)]" "files = or_lib (ba_org b) - {p_path p}"
      "db = snd (delete_prop f (p_id p) (or_db (ba_org b)))"
      "p_workflow p = wf_rename" "live p" "p_tracked p = 0"
    using d by (auto simp: delete_source_def split: if_splits prod.splits)
  let ?b = "b\<lparr>ba_org := (ba_org b)\<lparr>or_lib := files, or_db := db\<rparr>, ba_changes := ba_changes b @ [(m, ch)]\<rparr>"
  have "deleted ?b = {f. (f, Deleted) \<in> set ch} \<union> deleted b" by (auto simp: deleted_def)
  then have del: "deleted ?b = insert (p_path p) (deleted b)" by (auto simp: e(1))
  have "may_delete c items (or_db s) (p_path p)"
    using ok p assms(3) asked e(4-6) unfolding may_delete_def delete_ok_def by blast
  moreover have "set (ps_rows db) \<subseteq> set (ps_rows (or_db s))"
    using ok delete_prop_rows [of f "p_id p" "or_db (ba_org b)"] e(3) by (auto simp: delete_ok_def)
  ultimately show ?thesis using ok del e(2) by (auto simp: delete_ok_def only_unlocked_def)
qed

lemma delete_item_step:
  assumes ok: "delete_ok c items s b" and i: "item \<in> items"
  shows "delete_ok c items s (delete_item fl c builds rm item b)"
proof (cases "resolve_batch_proposal (get_at (fl 0) (or_db (ba_org b))) (live_at (fl 1) (or_db (ba_org b)))
    (fst item) (snd item) (ba_active b)")
  case (Inr p)
  have row: "p \<in> set (ps_rows (or_db (ba_org b)))" by (rule resolved_row [OF Inr])
  have asked: "p_id p \<in> fst ` items \<or> p_path p \<in> snd ` items" using store.resolved [OF Inr] i by force
  let ?b1 = "acquire (queue_of p) b"
  show ?thesis
  proof (cases "p_workflow p \<noteq> wf_rename \<or> \<not> live p")
    case False
    show ?thesis
    proof (cases "session_for c builds (p_mode p) ?b1")
      case None
      then show ?thesis using Inr False ok by (simp add: delete_item_def Let_def)
    next
      case (Some b2)
      have u: "only_unlocked c ?b1" using ok by (simp add: delete_ok_def)
      note b2 = unlocked_session [OF Some u]
      have org: "or_db (ba_org b2) = or_db (ba_org b)" "or_lib (ba_org b2) = or_lib (ba_org b)"
        using b2 by (simp_all add: acquire_def open_gate_def)
      have ok2: "delete_ok c items s b2"
        using ok b2 unfolding delete_ok_def deleted_def org by (simp add: acquire_def)
      obtain ch good files db where d: "delete_source (fl 2) rm p (or_lib (ba_org b2), or_db (ba_org b2)) = (ch, good, files, db)"
        by (metis surjective_pairing)
      have "delete_ok c items s (b2\<lparr>ba_org := (ba_org b2)\<lparr>or_lib := files, or_db := db\<rparr>, ba_changes := ba_changes b2 @ [(p_mode p, ch)]\<rparr>)"
        by (rule delete_source_step [OF ok2 _ _ asked d]) (use row org b2 in auto)
      then show ?thesis using Inr False Some d by (simp add: delete_item_def Let_def)
    qed
  qed (use Inr ok in \<open>simp add: delete_item_def Let_def\<close>)
qed (use ok in \<open>simp add: delete_item_def Let_def\<close>)

text \<open>
  C13. A delete request removes only what it names and may: every file it removes is the untracked file of a
  live rename proposal that was in the queue, in a mode that is not locked for the caller, named in the
  request by its id or by that very path; every other file stays, also when ids have gone stale, lookups
  fail, or a row cannot be deleted after its file.
\<close>

theorem delete_only_named:
  assumes "delete_batch_handler f0 fls c builds rm (Some items) s = (resp, changes, s')"
  shows "let gone = {f. \<exists>m ch. (m, ch) \<in> set changes \<and> (f, Deleted) \<in> set ch} in
    or_lib s' = or_lib s - gone \<and> (\<forall>f\<in>gone. may_delete c (set items) (or_db s) f)"
proof (cases "resp = Batch_bad_request")
  case True
  then have "changes = [] \<and> s' = s"
    using assms by (auto simp: delete_batch_handler_def Let_def simp del: each_item.simps split: list.splits if_splits)
  then show ?thesis by simp
next
  case False
  have rel: "or_lib (release_all b) = or_lib (ba_org b)" for b :: "('h, gostring set) batch"
  proof -
    have "or_lib (fold close_gate ks s0) = or_lib s0" for ks and s0 :: "('h, gostring set) organize"
      by (induction ks arbitrary: s0) (auto simp: close_gate_def split: prod.splits)
    then show ?thesis by (simp add: release_all_def)
  qed
  have start: "delete_ok c (set items) s (start_batch s)"
    by (simp add: delete_ok_def start_batch_def only_unlocked_def deleted_def)
  have each: "set is \<subseteq> set items \<Longrightarrow> delete_ok c (set items) s b \<Longrightarrow>
      delete_ok c (set items) s (each_item fls (\<lambda>fl. delete_item fl c builds rm) is b)" for fls "is" b
    by (induction "is" arbitrary: fls b) (simp_all add: delete_item_step)
  obtain b where b: "delete_ok c (set items) s b" "s' = release_all b" "changes = ba_changes b"
    using assms False each [OF order.refl start] each [OF order.refl, of "acquire k (start_batch s)" for k] start
    by (fastforce simp: delete_batch_handler_def Let_def simp del: each_item.simps split: list.splits sum.splits if_splits)
  show ?thesis unfolding Let_def b(2,3) rel using b(1) unfolding delete_ok_def deleted_def by simp
qed

theorem delete_only_named_witness:
  "\<exists>resp changes s'. delete_batch_handler False [] sample_ctx (\<lambda>_. True) (\<lambda>_. False) (Some [(3, [])]) sample_organize =
     (resp, changes, s') \<and> changes = [(''movies'', [(''/c'', Deleted)])] \<and> or_lib s' = {''/b'', ''/c''} - {''/c''}"
proof -
  obtain resp changes s' where d: "delete_batch_handler False [] sample_ctx (\<lambda>_. True) (\<lambda>_. False) (Some [(3, [])])
      sample_organize = (resp, changes, s')" by (metis surjective_pairing)
  have "fst (snd (delete_batch_handler False [] sample_ctx (\<lambda>_. True) (\<lambda>_. False) (Some [(3, [])]) sample_organize)) =
      [(''movies'', [(''/c'', Deleted)])]"
    by (simp add: delete_batch_handler_def start_batch_def max_proposal_page_size_def get_at_def get_prop_def
      first_prop_def acquire_def delete_item_def resolve_batch_proposal_def session_for_def mode_build_def
      require_mode_def sample_ctx_def delete_source_def delete_prop_def has_row_def put_result_def open_gate_def
      sample_organize_def sample_defs live_def)
  then have "changes = [(''movies'', [(''/c'', Deleted)])]" by (simp add: d)
  moreover have "or_lib sample_organize = {''/b'', ''/c''}" by (simp add: sample_organize_def)
  ultimately show ?thesis using delete_only_named [OF d] d by (auto simp: Let_def)
qed

end
