(* ===== verification/Prop_Api.thy ===== *)
theory Prop_Api
  imports Apply_Facts Routes
begin

text \<open>
  The handlers that decide about single proposals: dismissing, correcting and moving one to another mode
  (\<open>internal/api/proposals.go\<close>, \<open>proposals_movemode.go\<close>), with the deletions and the
  lookup of the library (\<open>internal/library\<close>) the move needs and the list of a queue.
\<close>

section \<open>Listing and dismissing\<close>

definition list_proposals_handler ::
  "gate_key \<Rightarrow> int \<Rightarrow> int \<Rightarrow> gostring \<Rightarrow> bool \<Rightarrow> prop_store \<Rightarrow> (proposal list \<times> int \<times> int \<times> int) option" where
  "list_proposals_handler k limit offset view fault db =
     (if fault then None
      else (case list_page k limit offset (parse_list_view view) db of
              (items, n) \<Rightarrow> Some (items, n, page_limit limit, max 0 offset)))"

definition dismiss_proposal_handler ::
  "(nat \<Rightarrow> bool) \<Rightarrow> ctx \<Rightarrow> int \<Rightarrow> prop_store \<Rightarrow> organize_response \<times> prop_store" where
  "dismiss_proposal_handler fl c n db =
     (case get_at (fl 0) db n of
        Inl e \<Rightarrow> (not_found_or_500 e, db)
      | Inr p \<Rightarrow>
          if p_mode p = ''adult'' \<and> \<not> require_adult c then (Section_locked, db)
          else (case dismiss_prop (fl 1) n db of
                  (Some e, db') \<Rightarrow> (not_found_or_500 e, db')
                | (None, db') \<Rightarrow> (No_content, db')))"

section \<open>Correcting an identification\<close>

text \<open>A pointer of the request is an option.\<close>

record repick_request =
  rr_tmdb :: int
  rr_tvdb :: int
  rr_title :: gostring
  rr_year :: int
  rr_season :: "int option"
  rr_episode :: "int option"
  rr_etitle :: gostring
  rr_box :: gostring
  rr_scene :: gostring
  rr_studio :: gostring
  rr_date :: gostring

text \<open>The checks on the row that was read, in their order; \<open>True\<close> is a request that may be written.\<close>

definition repick_allowed :: "repick_request \<Rightarrow> proposal \<Rightarrow> bool" where
  "repick_allowed req p =
     (if p_workflow p \<noteq> wf_rename then False
      else if \<not> live p then False
      else if p_mode p = ''adult'' then
        (if rr_box req = [] \<or> rr_scene req = [] then False
         else if 0 < rr_tmdb req \<or> rr_season req \<noteq> None \<or> rr_episode req \<noteq> None then False
         else True)
      else if p_mode p \<noteq> ''movies'' \<and> p_mode p \<noteq> ''series'' then False
      else if p_mode p = ''movies'' \<and> rr_tmdb req \<le> 0 then False
      else if p_mode p = ''series'' \<and> rr_tmdb req = 0 then False
      else if p_mode p = ''series'' \<and> rr_tmdb req < 0 \<and> rr_tvdb req \<le> 0 then False
      else if rr_box req \<noteq> [] \<or> rr_scene req \<noteq> [] then False
      else (case (rr_season req, rr_episode req) of
              (None, None) \<Rightarrow> True
            | (Some s, Some e) \<Rightarrow> p_mode p = ''series'' \<and> \<not> (s < 0 \<or> e < 1)
            | _ \<Rightarrow> False))"

definition repick_write ::
  "bool \<Rightarrow> int \<Rightarrow> repick_request \<Rightarrow> proposal \<Rightarrow> prop_store \<Rightarrow> prop_error option \<times> prop_store" where
  "repick_write fault n req p =
     (if p_mode p = ''adult''
      then repick_adult_scene fault n (rr_title req) (rr_studio req) (rr_date req) (rr_box req) (rr_scene req)
      else (case (rr_season req, rr_episode req) of
              (Some s, Some e) \<Rightarrow>
                repick_episode fault n (rr_title req) (rr_tmdb req) (rr_tvdb req) (rr_year req) s e (rr_etitle req)
            | _ \<Rightarrow> repick fault n (rr_title req) (rr_tmdb req) (rr_tvdb req) (rr_year req)))"

text \<open>The handler up to its write, which takes the row that was read, and from its write on.\<close>

definition repick_begin ::
  "(nat \<Rightarrow> bool) \<Rightarrow> int \<Rightarrow> repick_request option \<Rightarrow> prop_store \<Rightarrow> organize_response + repick_request \<times> proposal" where
  "repick_begin fl n body db =
     (case body of
        None \<Rightarrow> Inl Bad_request
      | Some req \<Rightarrow>
          if rr_title req = [] then Inl Bad_request
          else (case get_at (fl 0) db n of
                  Inl e \<Rightarrow> Inl (not_found_or_500 e)
                | Inr p \<Rightarrow> if repick_allowed req p then Inr (req, p) else Inl Bad_request))"

definition repick_end ::
  "(nat \<Rightarrow> bool) \<Rightarrow> int \<Rightarrow> repick_request \<times> proposal \<Rightarrow> prop_store \<Rightarrow> organize_response \<times> prop_store" where
  "repick_end fl n job db =
     (case repick_write (fl 1) n (fst job) (snd job) db of
        (Some e, db') \<Rightarrow> (not_found_or_500 e, db')
      | (None, db') \<Rightarrow>
          (case get_at (fl 2) db' n of
             Inl e \<Rightarrow> (not_found_or_500 e, db')
           | Inr q \<Rightarrow> (Row_found q, db')))"

definition repick_proposal_handler ::
  "(nat \<Rightarrow> bool) \<Rightarrow> int \<Rightarrow> repick_request option \<Rightarrow> prop_store \<Rightarrow> organize_response \<times> prop_store" where
  "repick_proposal_handler fl n body db =
     (case repick_begin fl n body db of Inl r \<Rightarrow> (r, db) | Inr job \<Rightarrow> repick_end fl n job db)"

section \<open>Moving to another mode\<close>

text \<open>\<open>WhisparrForeignID\<close> and the settings key of a mode's root folder.\<close>

definition whisparr_foreign_id :: "gostring \<Rightarrow> gostring \<Rightarrow> gostring option" where
  "whisparr_foreign_id box scene =
     (if scene = [] \<or> box = [] then None
      else if box = ''tpdb'' then Some (''tpdbId:'' @ scene)
      else Some scene)"

definition library_root_folder_key :: "gostring \<Rightarrow> gostring option" where
  "library_root_folder_key m =
     (if m = ''movies'' then Some ''movies_library_root_folder''
      else if m = ''series'' then Some ''series_library_root_folder''
      else if m = ''adult'' then Some ''adult_library_root_folder''
      else None)"

text \<open>The rows of the library the move looks at: ids, and the box and scene id of a scene; its tags by id.\<close>

record tracking =
  lb_items :: "int set"
  lb_episodes :: "int set"
  lb_scenes :: "(int \<times> gostring \<times> gostring) set"
  lb_tags :: "(int \<times> gostring) set"

definition delete_item_tx :: "bool \<Rightarrow> int \<Rightarrow> tracking \<Rightarrow> tracking option" where
  "delete_item_tx fault n l = (if fault then None else Some (l\<lparr>lb_items := lb_items l - {n}\<rparr>))"

definition delete_episode_tx :: "bool \<Rightarrow> int \<Rightarrow> tracking \<Rightarrow> tracking option" where
  "delete_episode_tx fault n l = (if fault then None else Some (l\<lparr>lb_episodes := lb_episodes l - {n}\<rparr>))"

text \<open>Two statements of one transaction: it fails as a whole.\<close>

definition delete_scene_tx :: "bool \<Rightarrow> int \<Rightarrow> tracking \<Rightarrow> tracking option" where
  "delete_scene_tx fault n l =
     (if fault then None
      else Some (l\<lparr>lb_tags := {t \<in> lb_tags l. fst t \<noteq> n}, lb_scenes := {s \<in> lb_scenes l. fst s \<noteq> n}\<rparr>))"

datatype scene_lookup = Scene_found | Scene_missing | Scene_failed

definition get_scene :: "bool \<Rightarrow> gostring \<Rightarrow> gostring \<Rightarrow> tracking \<Rightarrow> scene_lookup" where
  "get_scene fault box scene l =
     (if fault then Scene_failed
      else if (box, scene) \<in> snd ` lb_scenes l then Scene_found else Scene_missing)"

record move_request =
  mv_mode :: gostring
  mv_tmdb :: int
  mv_title :: gostring
  mv_year :: int
  mv_season :: "int option"
  mv_episode :: "int option"
  mv_box :: gostring
  mv_scene :: gostring
  mv_studio :: gostring
  mv_date :: gostring

definition empty_target :: "gostring \<Rightarrow> move_target" where
  "empty_target m =
     \<lparr>mt_mode = m, mt_root = [], mt_title = [], mt_tmdb = 0, mt_year = 0, mt_season = 0, mt_episode = 0,
      mt_studio = [], mt_date = [], mt_gb_box = [], mt_gb_scene = [], mt_foreign = [], mt_item_type = [],
      mt_candidates = []\<rparr>"

text \<open>Step 9: the target, by mode.\<close>

definition target_movies :: "move_request \<Rightarrow> organize_response + move_target" where
  "target_movies req =
     (if mv_tmdb req \<le> 0 \<or> mv_title req = [] then Inl Bad_request
      else if mv_season req \<noteq> None \<or> mv_episode req \<noteq> None then Inl Bad_request
      else Inr ((empty_target ''movies'')\<lparr>mt_title := mv_title req, mt_tmdb := mv_tmdb req, mt_year := mv_year req\<rparr>))"

definition target_series :: "move_request \<Rightarrow> organize_response + move_target" where
  "target_series req =
     (if mv_tmdb req \<le> 0 \<or> mv_title req = [] then Inl Bad_request
      else
        (let t = (empty_target ''series'')\<lparr>mt_title := mv_title req, mt_tmdb := mv_tmdb req, mt_year := mv_year req\<rparr> in
         case (mv_season req, mv_episode req) of
           (None, None) \<Rightarrow> Inr t
         | (Some s, Some e) \<Rightarrow>
             if s < 0 \<or> e < 1 then Inl Bad_request else Inr (t\<lparr>mt_season := s, mt_episode := e\<rparr>)
         | _ \<Rightarrow> Inl Bad_request))"

definition target_adult :: "bool \<Rightarrow> tracking \<Rightarrow> move_request \<Rightarrow> organize_response + move_target" where
  "target_adult fault lib req =
     (if mv_box req = [] \<or> mv_scene req = [] \<or> mv_title req = [] then Inl Bad_request
      else if mv_box req \<notin> {''stashdb'', ''fansdb'', ''tpdb''} then Inl Bad_request
      else (case whisparr_foreign_id (mv_box req) (mv_scene req) of
              None \<Rightarrow> Inl Bad_request
            | Some foreign \<Rightarrow>
                (case get_scene fault (mv_box req) (mv_scene req) lib of
                   Scene_found \<Rightarrow> Inl Conflict
                 | Scene_failed \<Rightarrow> Inl Server_error
                 | Scene_missing \<Rightarrow>
                     Inr ((empty_target ''adult'')\<lparr>mt_title := mv_title req, mt_studio := mv_studio req,
                       mt_date := mv_date req, mt_gb_box := mv_box req, mt_gb_scene := mv_scene req,
                       mt_foreign := foreign, mt_item_type := ''scene''\<rparr>))))"

definition target_of :: "bool \<Rightarrow> tracking \<Rightarrow> move_request \<Rightarrow> organize_response + move_target" where
  "target_of fault lib req =
     (if mv_mode req = ''movies'' then target_movies req
      else if mv_mode req = ''series'' then target_series req
      else target_adult fault lib req)"

text \<open>Step 10: the root folder of the target, for a rename.\<close>

definition target_root ::
  "bool \<Rightarrow> settings_db \<Rightarrow> proposal \<Rightarrow> move_target \<Rightarrow> organize_response + move_target" where
  "target_root fault sdb p t =
     (if p_workflow p = wf_dedup then Inr (t\<lparr>mt_root := p_root p\<rparr>)
      else (case library_root_folder_key (mt_mode t) of
              None \<Rightarrow> Inl Bad_request
            | Some key \<Rightarrow>
                (case settings_get fault sdb key of
                   Get_error \<Rightarrow> Inl Server_error
                 | Not_found \<Rightarrow> Inl Bad_request
                 | Got path \<Rightarrow> if path = [] then Inl Bad_request else Inr (t\<lparr>mt_root := path\<rparr>))))"

text \<open>Step 10.6: the ids to retire, the candidates without them, and the deletions of the transaction.\<close>

definition retired_ids :: "proposal \<Rightarrow> int list" where
  "retired_ids p =
     filter (\<lambda>i. i \<noteq> 0) (map dc_tracked (p_candidates p)) @ (if p_tracked p \<noteq> 0 then [p_tracked p] else [])"

definition delete_tracked :: "gostring \<Rightarrow> bool \<Rightarrow> int \<Rightarrow> tracking \<Rightarrow> tracking option" where
  "delete_tracked m fault n l =
     (if m = ''movies'' then delete_item_tx fault n l
      else if m = ''series'' then delete_episode_tx fault n l
      else if m = ''adult'' then delete_scene_tx fault n l
      else Some l)"

fun retire_all :: "gostring \<Rightarrow> bool list \<Rightarrow> int list \<Rightarrow> tracking \<Rightarrow> tracking option" where
  "retire_all m fs [] l = Some l"
| "retire_all m fs (i # is) l =
     (case delete_tracked m (fs \<noteq> [] \<and> hd fs) i l of
        None \<Rightarrow> None
      | Some l' \<Rightarrow> retire_all m (drop 1 fs) is l')"

definition move_proposal_mode_handler ::
  "(nat \<Rightarrow> bool) \<Rightarrow> bool list \<Rightarrow> ctx \<Rightarrow> settings_db \<Rightarrow> int \<Rightarrow> move_request option \<Rightarrow> tracking \<times> prop_store \<Rightarrow>
   organize_response \<times> tracking \<times> prop_store" where
  "move_proposal_mode_handler fl fs c sdb n body s =
     (case body of
        None \<Rightarrow> (Bad_request, s)
      | Some req \<Rightarrow>
          if mv_mode req \<notin> {''movies'', ''series'', ''adult''} then (Bad_request, s)
          else (case get_at (fl 0) (snd s) n of
             Inl e \<Rightarrow> (not_found_or_500 e, s)
           | Inr p \<Rightarrow>
               if p_workflow p = wf_purge then (Bad_request, s)
               else if \<not> live p then (Bad_request, s)
               else if p_mode p = mv_mode req then (Bad_request, s)
               else if (p_mode p = ''adult'' \<or> mv_mode req = ''adult'') \<and> \<not> require_adult c then (Section_locked, s)
               else (case target_of (fl 1) (fst s) req of
                  Inl r \<Rightarrow> (r, s)
                | Inr t0 \<Rightarrow>
                    (case target_root (fl 2) sdb p t0 of
                       Inl r \<Rightarrow> (r, s)
                     | Inr t \<Rightarrow>
                         if p_workflow p = wf_rename \<and> p_path p \<noteq> [] \<and>
                           (case live_at (fl 3) (snd s) (mv_mode req, p_workflow p) (p_path p) of
                              Inr q \<Rightarrow> True | Inl e \<Rightarrow> False) then (Conflict, s)
                         else if p_workflow p = wf_rename \<and> p_path p \<noteq> [] \<and>
                           (case live_at (fl 3) (snd s) (mv_mode req, p_workflow p) (p_path p) of
                              Inr q \<Rightarrow> False | Inl e \<Rightarrow> e \<noteq> No_proposal) then (Server_error, s)
                         else
                           (let t' = t\<lparr>mt_candidates := map (dc_tracked_update (\<lambda>_. 0)) (p_candidates p)\<rparr> in
                            case move_mode (fl 4) n t' (retire_all (p_mode p) fs (retired_ids p)) s of
                              (None, s') \<Rightarrow> (No_content, s')
                            | (Some Move_conflict, s') \<Rightarrow> (Conflict, s')
                            | (Some No_proposal, s') \<Rightarrow> (Row_missing, s')
                            | (Some _, s') \<Rightarrow> (Server_error, s'))))))"

section \<open>What a move does\<close>

text \<open>The library without the tracking rows of some ids of one mode.\<close>

definition forget :: "gostring \<Rightarrow> int set \<Rightarrow> tracking \<Rightarrow> tracking" where
  "forget m ids l =
     (if m = ''movies'' then l\<lparr>lb_items := lb_items l - ids\<rparr>
      else if m = ''series'' then l\<lparr>lb_episodes := lb_episodes l - ids\<rparr>
      else if m = ''adult'' then
        l\<lparr>lb_tags := {t \<in> lb_tags l. fst t \<notin> ids}, lb_scenes := {s \<in> lb_scenes l. fst s \<notin> ids}\<rparr>
      else l)"

lemma forget_none: "forget m {} l = l"
  by (simp add: forget_def)

lemma delete_tracked_forgets: "delete_tracked m f i l = Some l' \<Longrightarrow> l' = forget m {i} l"
  by (auto simp: delete_tracked_def delete_item_tx_def delete_episode_tx_def delete_scene_tx_def forget_def split: if_splits)

lemma forget_forget: "forget m A (forget m B l) = forget m (B \<union> A) l"
  by (simp add: forget_def Diff_eq Int_assoc conj_assoc Compl_Un)

lemma retire_all_forgets: "retire_all m fs is l = Some l' \<Longrightarrow> l' = forget m (set is) l"
proof (induction m fs "is" l rule: retire_all.induct)
  case (2 m fs i "is" l)
  then show ?case
    using delete_tracked_forgets [of m "fs \<noteq> [] \<and> hd fs" i l] by (fastforce simp: forget_forget split: option.splits)
qed (simp add: forget_none)

lemma retired_ids_set: "set (retired_ids p) = ({p_tracked p} \<union> dc_tracked ` set (p_candidates p)) - {0}"
  by (auto simp: retired_ids_def)

lemma target_of_mode:
  "target_of f lib req = Inr t \<Longrightarrow> mv_mode req \<in> {''movies'', ''series'', ''adult''} \<Longrightarrow> mt_mode t = mv_mode req"
  by (auto simp: target_of_def target_movies_def target_series_def target_adult_def empty_target_def Let_def
    split: if_splits option.splits scene_lookup.splits)

lemma target_root_mode: "target_root f sdb p t = Inr t' \<Longrightarrow> mt_mode t' = mt_mode t"
  by (auto simp: target_root_def split: if_splits option.splits get_result.splits)

lemma target_no_content: "target_of f lib req \<noteq> Inl No_content" "target_root f sdb p t \<noteq> Inl No_content"
  by (auto simp: target_of_def target_movies_def target_series_def target_adult_def target_root_def Let_def
    split: if_splits option.splits scene_lookup.splits get_result.splits)

lemma move_mode_result:
  "move_mode f n t retire (lib, db) = (e, s') \<Longrightarrow>
   (e \<noteq> None \<longrightarrow> s' = (lib, db)) \<and> (e = None \<longrightarrow> (\<exists>lib'. retire lib = Some lib' \<and> s' = (lib', db\<lparr>ps_rows := set_row n (move_row t) (ps_rows db)\<rparr>)))"
  by (auto simp: move_mode_def Let_def split: option.splits if_splits)

text \<open>A move that answers 204 went through every check and committed.\<close>

lemma moved_checks:
  assumes "move_proposal_mode_handler fl fs c sdb n (Some req) (lib, db) = (r, s')"
  shows "r \<noteq> No_content \<and> s' = (lib, db) \<or>
    (\<exists>p t lib'. r = No_content \<and> get_at (fl 0) db n = Inr p \<and> live p \<and> p_workflow p \<noteq> wf_purge \<and> p_mode p \<noteq> mv_mode req \<and>
      (p_mode p = ''adult'' \<or> mv_mode req = ''adult'' \<longrightarrow> require_adult c) \<and> mt_mode t = mv_mode req \<and>
      mt_candidates t = map (dc_tracked_update (\<lambda>_. 0)) (p_candidates p) \<and>
      retire_all (p_mode p) fs (retired_ids p) lib = Some lib' \<and>
      s' = (lib', db\<lparr>ps_rows := set_row n (move_row t) (ps_rows db)\<rparr>))"
proof (cases "mv_mode req \<in> {''movies'', ''series'', ''adult''}")
  case known: True
  show ?thesis
  proof (cases "get_at (fl 0) db n")
    case (Inr p)
    show ?thesis
    proof (cases "p_workflow p = wf_purge \<or> \<not> live p \<or> p_mode p = mv_mode req \<or>
        (p_mode p = ''adult'' \<or> mv_mode req = ''adult'') \<and> \<not> require_adult c")
      case True
      then show ?thesis using assms known Inr
        by (auto simp: move_proposal_mode_handler_def split: if_splits)
    next
      case ok: False
      show ?thesis
      proof (cases "\<exists>t0 t. target_of (fl 1) lib req = Inr t0 \<and> target_root (fl 2) sdb p t0 = Inr t")
        case False
        then show ?thesis using assms known Inr ok target_no_content
          by (auto simp: move_proposal_mode_handler_def split: sum.splits if_splits)
      next
        case True
        then obtain t0 t where t: "target_of (fl 1) lib req = Inr t0" "target_root (fl 2) sdb p t0 = Inr t" by auto
        let ?t = "t\<lparr>mt_candidates := map (dc_tracked_update (\<lambda>_. 0)) (p_candidates p)\<rparr>"
        have m: "mt_mode ?t = mv_mode req" using target_of_mode [OF t(1) known] target_root_mode [OF t(2)] by simp
        obtain e s1 where mm: "move_mode (fl 4) n ?t (retire_all (p_mode p) fs (retired_ids p)) (lib, db) = (e, s1)"
          by (metis prod.exhaust)
        have "r \<noteq> No_content \<and> s' = (lib, db) \<or> r = No_content \<and> e = None \<and> s' = s1"
          using assms known Inr ok t mm move_mode_result [OF mm]
          by (auto simp: move_proposal_mode_handler_def Let_def split: if_splits option.splits prop_error.splits sum.splits)
        then show ?thesis using move_mode_result [OF mm] Inr ok m by fastforce
      qed
    qed
  qed (use assms known in \<open>auto simp: move_proposal_mode_handler_def not_found_or_500_def split: if_splits\<close>)
qed (use assms in \<open>auto simp: move_proposal_mode_handler_def\<close>)

lemma get_prop_rewritten:
  assumes "get_prop n db = Inr p" and "\<And>p. p_id (f p) = p_id p"
  shows "get_prop n (db\<lparr>ps_rows := set_row n f (ps_rows db)\<rparr>) = Inr (f p)"
proof -
  have "filter (\<lambda>p. p_id p = n) (set_row n f rows) = map f (filter (\<lambda>p. p_id p = n) rows)" for rows
    by (induction rows) (auto simp: set_row_def assms(2))
  then show ?thesis using assms(1) by (auto simp: get_prop_def first_prop_def split: list.splits)
qed

lemma get_prop_has_row: "get_prop n db = Inr p \<Longrightarrow> has_row n (ps_rows db)"
  by (force simp: get_prop_def first_prop_def has_row_def filter_eq_Cons_iff split: list.splits)

lemma others_set_row:
  "(\<And>p. p_id (f p) = p_id p) \<Longrightarrow> filter (\<lambda>p. p_id p \<noteq> n) (set_row n f rows) = filter (\<lambda>p. p_id p \<noteq> n) rows"
  by (induction rows) (auto simp: set_row_def)

text \<open>
  C10. A proposal is moved to another mode only past every guard, and completely: nothing in or out of the
  adult mode while its lock holds; the moved row keeps its file, goes back to pending, and names no library
  row of the mode it left, neither itself nor through a duplicate, so a later apply cannot delete an
  unrelated file under such an id; in the library exactly the rows it named in the old mode are forgotten;
  no other proposal changes, and a move that is not acknowledged changes nothing at all.
\<close>

theorem move_guarded_and_complete:
  assumes "move_proposal_mode_handler fl fs c sdb n (Some req) (lib, db) = (r, lib', db')"
  shows "(r \<noteq> No_content \<longrightarrow> lib' = lib \<and> db' = db) \<and>
    (r = No_content \<longrightarrow> (\<exists>p q. get_prop n db = Inr p \<and> get_prop n db' = Inr q \<and>
       live p \<and> p_workflow p \<noteq> wf_purge \<and> p_mode p \<noteq> p_mode q \<and> p_mode q = mv_mode req \<and>
       (p_mode p = ''adult'' \<or> p_mode q = ''adult'' \<longrightarrow> require_adult c) \<and>
       p_status q = Pending \<and> p_path q = p_path p \<and> p_tracked q = 0 \<and>
       p_candidates q = map (dc_tracked_update (\<lambda>_. 0)) (p_candidates p) \<and>
       lib' = forget (p_mode p) (({p_tracked p} \<union> dc_tracked ` set (p_candidates p)) - {0}) lib \<and>
       filter (\<lambda>p. p_id p \<noteq> n) (ps_rows db') = filter (\<lambda>p. p_id p \<noteq> n) (ps_rows db)))"
  using moved_checks [OF assms]
proof (elim disjE exE conjE)
  fix p t lib1
  assume a: "r = No_content" "get_at (fl 0) db n = Inr p" "live p" "p_workflow p \<noteq> wf_purge" "p_mode p \<noteq> mv_mode req"
    "p_mode p = ''adult'' \<or> mv_mode req = ''adult'' \<longrightarrow> require_adult c" "mt_mode t = mv_mode req"
    "mt_candidates t = map (dc_tracked_update (\<lambda>_. 0)) (p_candidates p)"
    "retire_all (p_mode p) fs (retired_ids p) lib = Some lib1"
    "(lib', db') = (lib1, db\<lparr>ps_rows := set_row n (move_row t) (ps_rows db)\<rparr>)"
  have g: "get_prop n db = Inr p" using a(2) by (simp add: get_at_def split: if_splits)
  have q: "get_prop n db' = Inr (move_row t p)" using get_prop_rewritten [OF g, of "move_row t"] a(10) by simp
  have o: "filter (\<lambda>p. p_id p \<noteq> n) (ps_rows db') = filter (\<lambda>p. p_id p \<noteq> n) (ps_rows db)"
    using others_set_row [of "move_row t" n "ps_rows db"] a(10) by simp
  have l: "lib' = forget (p_mode p) (({p_tracked p} \<union> dc_tracked ` set (p_candidates p)) - {0}) lib"
    using retire_all_forgets [OF a(9)] a(10) by (simp only: retired_ids_set prod.inject)
  have fields: "p_mode (move_row t p) = mv_mode req" "p_status (move_row t p) = Pending" "p_path (move_row t p) = p_path p"
      "p_tracked (move_row t p) = 0" "p_candidates (move_row t p) = map (dc_tracked_update (\<lambda>_. 0)) (p_candidates p)"
    using a(7,8) by (simp_all add: move_row_def)
  show ?thesis
    by (intro conjI impI, use a(1) in simp, use a(1) in simp, rule exI [of _ p], rule exI [of _ "move_row t p"])
      (use fields g q o l a(3-6) in simp)
qed auto

section \<open>What a correction does\<close>

text \<open>Rewriting a live row without touching its queue and its path never meets the index.\<close>

lemma rewrite_unique:
  assumes ok: "store_ok db" and g: "get_prop n db = Inr p" and "live p" and f: "live_key (f p) = live_key p" "p_id (f p) = n"
  shows "paths_unique (set_row n f (ps_rows db)) \<and> has_row n (ps_rows db)"
proof -
  have p: "p \<in> set (ps_rows db)" "p_id p = n" using get_prop_Inr [OF ok] g by auto
  have "r = p" if r: "r \<in> set (ps_rows db)" "indexed r" "indexed (f p)" "live_key r = live_key (f p)" for r
  proof -
    have "indexed p" using r(3) f(1) assms(3) by (simp add: indexed_def live_key_def)
    then show ?thesis using store_okD(4) [OF ok] p(1) r(1,2,4) f(1)
      unfolding paths_unique_def distinct_map by (auto dest: inj_onD)
  qed
  then show ?thesis unfolding set_row_unique [OF ok p, of f, OF f(2)] using p by (auto simp: has_row_def)
qed

text \<open>
  The adult lock does not cover corrections: with the adult section locked for the caller, dismissing an
  adult rename proposal and moving it are refused, while a correction of the same proposal is written and
  answered with the row, its file path included. The path of the request is classified as Organize only, so
  the outer gate does not ask for the adult section either.
\<close>

theorem repick_ignores_adult_lock:
  assumes "store_ok db" and "get_prop n db = Inr p" and "p_mode p = ''adult''" and "p_workflow p = wf_rename" and "live p"
    and "\<not> require_adult c" and "rr_title req \<noteq> []" and "rr_box req \<noteq> []" and "rr_scene req \<noteq> []"
    and "rr_tmdb req \<le> 0" and "rr_season req = None" and "rr_episode req = None"
    and "mv_mode mreq \<in> {''movies'', ''series''}"
  shows "dismiss_proposal_handler (\<lambda>_. False) c n db = (Section_locked, db) \<and>
    move_proposal_mode_handler (\<lambda>_. False) [] c sdb n (Some mreq) (lib, db) = (Section_locked, lib, db) \<and>
    (\<exists>q db'. repick_proposal_handler (\<lambda>_. False) n (Some req) db = (Row_found q, db') \<and>
       p_title q = rr_title req \<and> p_gb_scene q = rr_scene req \<and> p_path q = p_path p \<and> p_name q = p_name p \<and>
       p_status q = Pending \<and> get_prop n db' = Inr q) \<and>
    (\<forall>path rest. segments path = ''api'' # ''proposals'' # rest \<longrightarrow> classify path = [section_organize])"
proof -
  have g: "get_at False db n = Inr p" using assms(2) by (simp add: get_at_def)
  have 1: "dismiss_proposal_handler (\<lambda>_. False) c n db = (Section_locked, db)"
    using g assms(3,6) by (simp add: dismiss_proposal_handler_def)
  have 2: "move_proposal_mode_handler (\<lambda>_. False) [] c sdb n (Some mreq) (lib, db) = (Section_locked, lib, db)"
    using g assms(3-6,13) by (auto simp: move_proposal_mode_handler_def wf_rename_def wf_purge_def)
  let ?f = "\<lambda>p. p\<lparr>p_title := rr_title req, p_studio := rr_studio req, p_date := rr_date req, p_gb_box := rr_box req,
       p_gb_scene := rr_scene req, p_status := Pending, p_reason := []\<rparr>"
  let ?db = "db\<lparr>ps_rows := set_row n ?f (ps_rows db)\<rparr>"
  have "p_id p = n" using get_prop_Inr [OF assms(1)] assms(2) by auto
  then have "paths_unique (set_row n ?f (ps_rows db)) \<and> has_row n (ps_rows db)"
    by (intro rewrite_unique [OF assms(1,2,5)]) (simp_all add: live_key_def)
  then have w: "update_prop False n ?f db = (None, ?db)" by (simp add: update_prop_def)
  have q: "get_prop n ?db = Inr (?f p)" by (rule get_prop_rewritten [OF assms(2)]) simp
  have "repick_begin (\<lambda>_. False) n (Some req) db = Inr (req, p)"
    using g assms(3-5,7-12) by (simp add: repick_begin_def repick_allowed_def)
  then have "repick_proposal_handler (\<lambda>_. False) n (Some req) db = (Row_found (?f p), ?db)"
    using w q assms(3) by (simp add: repick_proposal_handler_def repick_end_def repick_write_def repick_adult_scene_def get_at_def)
  then have 3: "\<exists>q db'. repick_proposal_handler (\<lambda>_. False) n (Some req) db = (Row_found q, db') \<and>
       p_title q = rr_title req \<and> p_gb_scene q = rr_scene req \<and> p_path q = p_path p \<and> p_name q = p_name p \<and>
       p_status q = Pending \<and> get_prop n db' = Inr q"
    using q by auto
  have 4: "\<forall>path rest. segments path = ''api'' # ''proposals'' # rest \<longrightarrow> classify path = [section_organize]"
    by (simp add: classify_def classify_segments_def classify_api_def set_add_def set_has_def)
  show ?thesis using 1 2 3 4 by blast
qed

text \<open>
  A correction that has passed its checks overtakes an apply: the row it read may be applied before it
  writes, and the write then puts it back into the queue as pending, under the new identification, although
  its file has been moved; the handler's own refusal to correct an applied proposal does not prevent it.
\<close>

theorem repick_reopens_applied:
  assumes "store_ok db" and "get_prop n db = Inr p" and "p_mode p = ''movies''" and "p_workflow p = wf_rename" and "live p"
    and "rr_title req \<noteq> []" and "0 < rr_tmdb req" and "rr_box req = []" and "rr_scene req = []"
    and "rr_season req = None" and "rr_episode req = None" and "mark_applied False now n tracked db = (e, db1)"
  shows "e = None \<and> repick_begin (\<lambda>_. False) n (Some req) db = Inr (req, p) \<and>
    fst (repick_proposal_handler (\<lambda>_. False) n (Some req) db1) = Bad_request \<and>
    (paths_unique (set_row n (\<lambda>p. p\<lparr>p_status := Pending\<rparr>) (ps_rows db1)) \<longrightarrow>
      (\<exists>q db2. repick_end (\<lambda>_. False) n (req, p) db1 = (Row_found q, db2) \<and> p_status q = Pending \<and>
         p_applied_at q = now \<and> p_tracked q = tracked \<and> p_title q = rr_title req \<and> get_prop n db2 = Inr q))"
proof -
  let ?a = "\<lambda>p. p\<lparr>p_status := Applied, p_tracked := tracked, p_applied_at := now\<rparr>"
  let ?f = "\<lambda>p. p\<lparr>p_title := rr_title req, p_tmdb := rr_tmdb req, p_tvdb := rr_tvdb req, p_year := rr_year req,
       p_status := Pending, p_reason := []\<rparr>"
  have id: "p_id p = n" and p: "p \<in> set (ps_rows db)" using get_prop_Inr [OF assms(1)] assms(2) by auto
  have u: "paths_unique (set_row n ?a (ps_rows db))"
    using set_row_unique [OF assms(1) p id, of ?a] id by (simp add: indexed_def live_def)
  have h: "has_row n (ps_rows db)" using p id by (auto simp: has_row_def)
  have e: "e = None" "db1 = db\<lparr>ps_rows := set_row n ?a (ps_rows db)\<rparr>"
    using assms(12) u h by (simp_all add: mark_applied_def update_prop_def)
  have g1: "get_prop n db1 = Inr (?a p)" unfolding e(2) by (rule get_prop_rewritten [OF assms(2)]) simp
  have b: "repick_begin (\<lambda>_. False) n (Some req) db = Inr (req, p)"
    using assms(2-11) by (simp add: repick_begin_def repick_allowed_def get_at_def)
  have r: "fst (repick_proposal_handler (\<lambda>_. False) n (Some req) db1) = Bad_request"
    using g1 assms(6) by (simp add: repick_proposal_handler_def repick_begin_def repick_allowed_def get_at_def live_def)
  have key: "map live_key (filter indexed (set_row n ?f rows)) =
      map live_key (filter indexed (set_row n (\<lambda>p. p\<lparr>p_status := Pending\<rparr>) rows))" for rows
    by (induction rows) (auto simp: set_row_def indexed_def live_def live_key_def)
  have "\<exists>q db2. repick_end (\<lambda>_. False) n (req, p) db1 = (Row_found q, db2) \<and> p_status q = Pending \<and>
         p_applied_at q = now \<and> p_tracked q = tracked \<and> p_title q = rr_title req \<and> get_prop n db2 = Inr q"
    if "paths_unique (set_row n (\<lambda>p. p\<lparr>p_status := Pending\<rparr>) (ps_rows db1))"
  proof -
    have "paths_unique (set_row n ?f (ps_rows db1))" using that unfolding paths_unique_def key .
    moreover have "has_row n (ps_rows db1)" by (rule get_prop_has_row [OF g1])
    ultimately have "update_prop False n ?f db1 = (None, db1\<lparr>ps_rows := set_row n ?f (ps_rows db1)\<rparr>)"
      by (simp add: update_prop_def)
    moreover have "get_prop n (db1\<lparr>ps_rows := set_row n ?f (ps_rows db1)\<rparr>) = Inr (?f (?a p))"
      by (rule get_prop_rewritten [OF g1]) simp
    ultimately show ?thesis
      using assms(3,10,11) by (simp add: repick_end_def repick_write_def repick_def get_at_def)
  qed
  then show ?thesis using e(1) b r by blast
qed

section \<open>Witnesses\<close>

text \<open>An adult proposal in the queue, a decision that locks the adult section, and a scene picked for it.\<close>

definition sample_adult :: prop_store where
  "sample_adult = \<lparr>ps_rows = [(sample_row 1 Pending ''/x'')\<lparr>p_mode := ''adult''\<rparr>], ps_next = 2\<rparr>"

definition adult_locked :: ctx where
  "adult_locked =
     sample_ctx\<lparr>cx_decision := Some (zero_decision\<lparr>d_enforcing := True, d_locked := new_set [section_adult_content]\<rparr>)\<rparr>"

definition sample_repick :: repick_request where
  "sample_repick = \<lparr>rr_tmdb = 0, rr_tvdb = 0, rr_title = ''T'', rr_year = 0, rr_season = None, rr_episode = None,
     rr_etitle = [], rr_box = ''tpdb'', rr_scene = ''9'', rr_studio = [], rr_date = []\<rparr>"

definition sample_move :: move_request where
  "sample_move = \<lparr>mv_mode = ''movies'', mv_tmdb = 5, mv_title = ''M'', mv_year = 1999, mv_season = None,
     mv_episode = None, mv_box = [], mv_scene = [], mv_studio = [], mv_date = []\<rparr>"

lemma adult_is_locked: "\<not> require_adult adult_locked"
  by (simp add: adult_locked_def require_adult_def require_section_def allows_def zero_decision_def new_set_def
    set_add_def set_len_def set_intersects_def set_has_def sample_ctx_def)

theorem repick_ignores_adult_lock_witness:
  "\<exists>q db'. dismiss_proposal_handler (\<lambda>_. False) adult_locked 1 sample_adult = (Section_locked, sample_adult) \<and>
     repick_proposal_handler (\<lambda>_. False) 1 (Some sample_repick) sample_adult = (Row_found q, db') \<and> p_path q = ''/x''"
proof -
  let ?p = "(sample_row 1 Pending ''/x'')\<lparr>p_mode := ''adult''\<rparr>"
  have 1: "store_ok sample_adult"
    by (simp add: store_ok_def paths_unique_def sample_adult_def sample_defs indexed_def live_def live_key_def)
  have 2: "get_prop 1 sample_adult = Inr ?p" "p_mode ?p = ''adult''" "p_workflow ?p = wf_rename" "live ?p"
    by (simp_all add: get_prop_def first_prop_def sample_adult_def live_def sample_defs)
  have 3: "rr_title sample_repick \<noteq> []" "rr_box sample_repick \<noteq> []" "rr_scene sample_repick \<noteq> []"
    "rr_tmdb sample_repick \<le> 0" "rr_season sample_repick = None" "rr_episode sample_repick = None"
    "mv_mode sample_move \<in> {''movies'', ''series''}"
    by (simp_all add: sample_repick_def sample_move_def)
  have "p_path ?p = ''/x''" by (simp add: sample_defs)
  then show ?thesis using repick_ignores_adult_lock [OF 1 2 adult_is_locked 3] by metis
qed

theorem repick_reopens_applied_witness:
  "\<exists>q db1 db2. mark_applied False ''t'' 2 9 sample_store = (None, db1) \<and>
     repick_end (\<lambda>_. False) 2 (sample_repick\<lparr>rr_tmdb := 4, rr_box := [], rr_scene := []\<rparr>, sample_row 2 Pending ''/b'') db1 =
       (Row_found q, db2) \<and> p_status q = Pending \<and> p_applied_at q = ''t''"
proof -
  let ?req = "sample_repick\<lparr>rr_tmdb := 4, rr_box := [], rr_scene := []\<rparr>"
  let ?p = "sample_row 2 Pending ''/b''"
  have 1: "get_prop 2 sample_store = Inr ?p" "p_mode ?p = ''movies''" "p_workflow ?p = wf_rename" "live ?p"
    by (simp_all add: get_prop_def first_prop_def live_def sample_defs)
  have 2: "rr_title ?req \<noteq> []" "0 < rr_tmdb ?req" "rr_box ?req = []" "rr_scene ?req = []" "rr_season ?req = None"
    "rr_episode ?req = None"
    by (simp_all add: sample_repick_def)
  obtain e db1 where m: "mark_applied False ''t'' 2 9 sample_store = (e, db1)" by (metis prod.exhaust)
  have u: "paths_unique (set_row 2 (\<lambda>p. p\<lparr>p_status := Pending\<rparr>) (ps_rows db1))"
    using m by (auto simp: mark_applied_def update_prop_def Let_def set_row_def paths_unique_def sample_defs indexed_def
      live_def live_key_def has_row_def split: if_splits)
  show ?thesis using repick_reopens_applied [OF sample_ok 1 2 m] u m by blast
qed

theorem move_guarded_and_complete_witness:
  "\<exists>lib' db'. move_proposal_mode_handler (\<lambda>_. False) [] sample_ctx [''movies_library_root_folder'' \<mapsto> ''/m''] 1 (Some sample_move)
       (\<lparr>lb_items = {7}, lb_episodes = {}, lb_scenes = {(7, ''tpdb'', ''1'')}, lb_tags = {}\<rparr>,
        sample_adult\<lparr>ps_rows := [((sample_row 1 Pending ''/x'')\<lparr>p_mode := ''adult'', p_tracked := 7\<rparr>)]\<rparr>) = (No_content, lib', db') \<and>
     lb_items lib' = {7} \<and> lb_scenes lib' = {}"
proof -
  let ?lib = "\<lparr>lb_items = {7}, lb_episodes = {}, lb_scenes = {(7, ''tpdb'', ''1'')}, lb_tags = {}\<rparr>"
  let ?p = "(sample_row 1 Pending ''/x'')\<lparr>p_mode := ''adult'', p_tracked := 7\<rparr>"
  let ?db = "sample_adult\<lparr>ps_rows := [?p]\<rparr>"
  obtain r lib' db' where h: "move_proposal_mode_handler (\<lambda>_. False) [] sample_ctx [''movies_library_root_folder'' \<mapsto> ''/m''] 1
      (Some sample_move) (?lib, ?db) = (r, lib', db')" by (metis surjective_pairing)
  have r: "r = No_content"
    using h by (simp add: move_proposal_mode_handler_def get_at_def get_prop_def first_prop_def sample_defs sample_adult_def
      sample_move_def live_def wf_purge_def wf_dedup_def require_adult_def require_section_def sample_ctx_def target_of_def
      target_movies_def target_root_def library_root_folder_key_def settings_get_def empty_target_def live_at_def
      get_live_by_source_path_def in_queue_def retired_ids_def move_mode_def delete_tracked_def delete_scene_tx_def
      paths_unique_def set_row_def has_row_def move_row_def indexed_def Let_def)
  have g: "get_prop 1 ?db = Inr ?p" by (simp add: get_prop_def first_prop_def sample_defs)
  have f: "p_mode ?p = ''adult''" "p_tracked ?p = 7" "p_candidates ?p = []" by (simp_all add: sample_defs)
  obtain p where p: "get_prop 1 ?db = Inr p" "lib' = forget (p_mode p) (({p_tracked p} \<union> dc_tracked ` set (p_candidates p)) - {0}) ?lib"
    using move_guarded_and_complete [OF h] r by blast
  then have "lib' = forget ''adult'' {7} ?lib" using g f by simp
  then have "lb_items lib' = {7} \<and> lb_scenes lib' = {}" by (simp add: forget_def)
  then show ?thesis using h r by blast
qed

end
