(* ===== verification/Media_Files.thy ===== *)
theory Media_Files
  imports Prelude
begin

text \<open>
  What a scan of a library folder reports: \<open>ScanRootFolder\<close>, \<open>dirIsLeafEntry\<close>, \<open>ResolveVideoFile\<close> and
  \<open>ResolveEpisodeVideoFiles\<close> (\<open>internal/library\<close>), over the extensions and directory names of
  \<open>internal/config\<close>. A file system maps clean absolute paths to nodes; a directory lists its entries in
  the order \<open>os.ReadDir\<close> returns them. It does not change while it is walked, and has no links.
\<close>

section \<open>Extensions\<close>

definition sidecar_exts :: "gostring list" where
  "sidecar_exts = [''.nfo'', ''.jpg'', ''.jpeg'', ''.png'', ''.txt'', ''.srt'', ''.sub'', ''.vtt'', ''.edl'', ''.bif'', ''.log'', ''.trickplay'']"

definition excluded_dir_names :: "gostring list" where
  "excluded_dir_names =
     [''sample'', ''samples'', ''extras'', ''featurettes'', ''behind the scenes'', ''deleted scenes'', ''trailers'',
      ''interviews'', ''shorts'', ''subs'', ''subtitles'']"

definition video_exts :: "gostring list" where
  "video_exts =
     [''.3gp'', ''.asf'', ''.avi'', ''.divx'', ''.dvr-ms'', ''.f4v'', ''.flv'', ''.img'', ''.iso'', ''.m2t'', ''.m2ts'', ''.m2v'',
      ''.m4v'', ''.mk3d'', ''.mkv'', ''.mov'', ''.mp4'', ''.mpg'', ''.mpeg'', ''.mts'', ''.ogg'', ''.ogm'', ''.ogv'', ''.rec'',
      ''.ts'', ''.rmvb'', ''.vob'', ''.webm'', ''.wmv'', ''.wtv'']"

text \<open>\<open>filepath.Ext\<close>, \<open>filepath.Base\<close> and \<open>filepath.Dir\<close>, the last two on a clean absolute path.\<close>

definition file_ext :: "gostring \<Rightarrow> gostring" where
  "file_ext s =
     (let e = takeWhile (\<lambda>c. c \<noteq> CHR ''.'' \<and> c \<noteq> CHR ''/'') (rev s)
      in case drop (length e) (rev s) of c # _ \<Rightarrow> if c = CHR ''.'' then CHR ''.'' # rev e else [] | [] \<Rightarrow> [])"

definition path_base :: "gostring \<Rightarrow> gostring" where
  "path_base s = rev (takeWhile (\<lambda>c. c \<noteq> CHR ''/'') (rev s))"

definition path_dir :: "gostring \<Rightarrow> gostring" where
  "path_dir s = (case dropWhile (\<lambda>c. c \<noteq> CHR ''/'') (rev s) of [] \<Rightarrow> ''.'' | [_] \<Rightarrow> ''/'' | _ # d \<Rightarrow> rev d)"

definition is_sidecar :: "gostring \<Rightarrow> bool" where
  "is_sidecar name = (to_lower (file_ext name) \<in> set sidecar_exts)"

definition is_excluded_dir :: "gostring \<Rightarrow> bool" where
  "is_excluded_dir name = (to_lower name \<in> set excluded_dir_names)"

definition is_video_ext :: "gostring \<Rightarrow> bool" where
  "is_video_ext ext =
     (let e = to_lower (trim_space ext) in
      case e of [] \<Rightarrow> False | c # _ \<Rightarrow> (if c = CHR ''.'' then e else CHR ''.'' # e) \<in> set video_exts)"

definition is_video_file :: "gostring \<Rightarrow> bool" where
  "is_video_file path = is_video_ext (file_ext path)"

definition is_disc_image :: "gostring \<Rightarrow> bool" where
  "is_disc_image path = (let e = to_lower (file_ext path) in e = ''.iso'' \<or> e = ''.img'')"

definition is_library_video_file :: "gostring \<Rightarrow> bool" where
  "is_library_video_file path \<longleftrightarrow> is_video_file path \<and> \<not> is_disc_image path"

section \<open>The file system\<close>

datatype fs_node =
  Fs_file (fs_name: gostring) int gostring
| Fs_dir (fs_name: gostring) bool "fs_node list"

type_synonym file_system = "gostring \<Rightarrow> fs_node option"

definition join_path :: "gostring \<Rightarrow> gostring \<Rightarrow> gostring" where
  "join_path dir name = dir @ CHR ''/'' # name"

definition file_bytes :: "file_system \<Rightarrow> gostring \<Rightarrow> int" where
  "file_bytes fs path = (case fs path of Some (Fs_file _ b _) \<Rightarrow> b | _ \<Rightarrow> 0)"

section \<open>The scan\<close>

record unmapped_entry =
  ue_name :: gostring
  ue_path :: gostring

definition dir_is_leaf_entry :: "(gostring \<Rightarrow> bool) \<Rightarrow> gostring \<Rightarrow> fs_node list \<Rightarrow> bool" where
  "dir_is_leaf_entry known path children =
     list_all (\<lambda>e. case e of Fs_dir n _ _ \<Rightarrow> is_excluded_dir n | Fs_file n _ _ \<Rightarrow> \<not> known (join_path path n)) children"

text \<open>
  \<open>WalkDir\<close> below the root; \<open>None\<close> is an error. A directory that cannot be read is visited twice: the callback
  first passes over it, and then returns the error \<open>WalkDir\<close> itself met.
\<close>

fun scan_node :: "(gostring \<Rightarrow> bool) \<Rightarrow> gostring \<Rightarrow> fs_node \<Rightarrow> unmapped_entry list option"
  and scan_nodes :: "(gostring \<Rightarrow> bool) \<Rightarrow> gostring \<Rightarrow> fs_node list \<Rightarrow> unmapped_entry list option" where
  "scan_node known dir (Fs_file n b t) =
     (if is_sidecar n \<or> known (join_path dir n) then Some []
      else Some [\<lparr>ue_name = n, ue_path = join_path dir n\<rparr>])"
| "scan_node known dir (Fs_dir n readable children) =
     (if is_excluded_dir n \<or> known (join_path dir n) then Some []
      else if \<not> readable then None
      else if dir_is_leaf_entry known (join_path dir n) children then Some [\<lparr>ue_name = n, ue_path = join_path dir n\<rparr>]
      else scan_nodes known (join_path dir n) children)"
| "scan_nodes known dir [] = Some []"
| "scan_nodes known dir (e # es) =
     (case scan_node known dir e of
        None \<Rightarrow> None
      | Some us \<Rightarrow> (case scan_nodes known dir es of None \<Rightarrow> None | Some vs \<Rightarrow> Some (us @ vs)))"

definition scan_root_folder :: "(gostring \<Rightarrow> bool) \<Rightarrow> file_system \<Rightarrow> gostring \<Rightarrow> unmapped_entry list option" where
  "scan_root_folder known fs root =
     (case fs root of
        None \<Rightarrow> None
      | Some (Fs_file _ _ _) \<Rightarrow> Some []
      | Some (Fs_dir _ readable children) \<Rightarrow> if readable then scan_nodes known root children else None)"

section \<open>The files of an entry\<close>

text \<open>The largest file, the first among equals.\<close>

fun largest_file :: "(gostring \<times> int) option \<Rightarrow> fs_node list \<Rightarrow> (gostring \<times> int) option" where
  "largest_file best [] = best"
| "largest_file best (Fs_dir _ _ _ # es) = largest_file best es"
| "largest_file best (Fs_file n b _ # es) =
     largest_file (if is_library_video_file n \<and> (case best of None \<Rightarrow> True | Some (_, c) \<Rightarrow> c < b) then Some (n, b) else best) es"

definition resolve_video_file :: "file_system \<Rightarrow> gostring \<Rightarrow> gostring option" where
  "resolve_video_file fs path =
     (case fs path of
        None \<Rightarrow> None
      | Some (Fs_file _ _ _) \<Rightarrow> if is_library_video_file path then Some path else None
      | Some (Fs_dir _ readable children) \<Rightarrow>
          if readable then map_option (\<lambda>(n, _). join_path path n) (largest_file None children) else None)"

definition resolve_episode_video_files :: "file_system \<Rightarrow> gostring \<Rightarrow> gostring list option" where
  "resolve_episode_video_files fs path =
     (case fs path of
        None \<Rightarrow> None
      | Some (Fs_file _ _ _) \<Rightarrow> if is_library_video_file path then Some [path] else None
      | Some (Fs_dir _ readable children) \<Rightarrow>
          (let out = concat (map (\<lambda>e. case e of Fs_dir _ _ _ \<Rightarrow> []
                         | Fs_file n _ _ \<Rightarrow> if is_library_video_file n then [join_path path n] else []) children)
           in if \<not> readable \<or> out = [] then None else Some out))"

section \<open>What a scan reports\<close>

text \<open>The files below a directory that no excluded and no known directory holds, in the order of the walk.\<close>

fun walked_files :: "(gostring \<Rightarrow> bool) \<Rightarrow> gostring \<Rightarrow> fs_node \<Rightarrow> (gostring \<times> gostring) list" where
  "walked_files known dir (Fs_file n b t) = [(dir, n)]"
| "walked_files known dir (Fs_dir n readable children) =
     (if is_excluded_dir n \<or> known (join_path dir n) then []
      else concat (map (walked_files known (join_path dir n)) children))"

fun walked_dirs :: "(gostring \<Rightarrow> bool) \<Rightarrow> gostring \<Rightarrow> fs_node \<Rightarrow> (gostring \<times> bool) list" where
  "walked_dirs known dir (Fs_file n b t) = []"
| "walked_dirs known dir (Fs_dir n readable children) =
     (if is_excluded_dir n \<or> known (join_path dir n) then []
      else (join_path dir n, readable) # concat (map (walked_dirs known (join_path dir n)) children))"

definition new_media :: "(gostring \<Rightarrow> bool) \<Rightarrow> (gostring \<times> gostring) list \<Rightarrow> gostring list" where
  "new_media known fs = map (\<lambda>(d, n). join_path d n) (filter (\<lambda>(d, n). \<not> is_sidecar n \<and> \<not> known (join_path d n)) fs)"

fun child_media :: "gostring \<Rightarrow> fs_node \<Rightarrow> gostring list" where
  "child_media p (Fs_file n b t) = (if is_sidecar n then [] else [join_path p n])"
| "child_media p (Fs_dir n r ch) = []"

definition entry_media :: "file_system \<Rightarrow> unmapped_entry \<Rightarrow> gostring list" where
  "entry_media fs u =
     (case fs (ue_path u) of
        None \<Rightarrow> []
      | Some (Fs_file _ _ _) \<Rightarrow> [ue_path u]
      | Some (Fs_dir _ _ children) \<Rightarrow> concat (map (child_media (ue_path u)) children))"

definition fs_ok :: "file_system \<Rightarrow> bool" where
  "fs_ok fs \<longleftrightarrow> (\<forall>p n r ch. fs p = Some (Fs_dir n r ch) \<longrightarrow>
     distinct (map fs_name ch) \<and> (\<forall>c\<in>set ch. fs (join_path p (fs_name c)) = Some c \<and> CHR ''/'' \<notin> set (fs_name c)))"

lemma fs_okD:
  assumes "fs_ok fs" "fs p = Some (Fs_dir n r ch)"
  shows "distinct (map fs_name ch)" "c \<in> set ch \<Longrightarrow> fs (join_path p (fs_name c)) = Some c"
    "c \<in> set ch \<Longrightarrow> CHR ''/'' \<notin> set (fs_name c)"
  using assms unfolding fs_ok_def by blast+

lemma new_media_simps [simp]:
  "new_media known [] = []" "new_media known (fs @ gs) = new_media known fs @ new_media known gs"
  "new_media known ((d, n) # fs) =
     (if is_sidecar n \<or> known (join_path d n) then new_media known fs else join_path d n # new_media known fs)"
  by (simp_all add: new_media_def)

lemma new_media_concat: "new_media known (concat xss) = concat (map (new_media known) xss)"
  by (induction xss) simp_all

lemma leaf_media:
  assumes "dir_is_leaf_entry known p ch" "\<forall>c\<in>set ch. fs (join_path p (fs_name c)) = Some c"
  shows "new_media known (concat (map (walked_files known p) ch)) =
concat (map (child_media p) ch)"
  using assms unfolding dir_is_leaf_entry_def
  by (induction ch) (auto split: fs_node.splits)

lemma scan_media:
  "fs_ok fs \<Longrightarrow> fs (join_path dir (fs_name e)) = Some e \<Longrightarrow> scan_node known dir e = Some us \<Longrightarrow>
     concat (map (entry_media fs) us) = new_media known (walked_files known dir e)"
  "fs_ok fs \<Longrightarrow> \<forall>e\<in>set es. fs (join_path dir (fs_name e)) = Some e \<Longrightarrow> scan_nodes known dir es = Some vs \<Longrightarrow>
     concat (map (entry_media fs) vs) = new_media known (concat (map (walked_files known dir) es))"
proof (induction known dir e and known dir es arbitrary: us and vs rule: scan_node_scan_nodes.induct)
  case (1 known dir n b t)
  then show ?case by (auto simp: entry_media_def split: if_splits)
next
  case (2 known dir n readable children)
  show ?case
  proof (cases "is_excluded_dir n \<or> known (join_path dir n)")
    case False
    have ch: "\<forall>e\<in>set children. fs (join_path (join_path dir n) (fs_name e)) = Some e"
      using fs_okD(2) [OF 2(2)] 2(3) by simp
    show ?thesis
    proof (cases "dir_is_leaf_entry known (join_path dir n) children")
      case True
      then show ?thesis using False 2(3,4) leaf_media [OF True ch] by (auto simp: entry_media_def split: if_splits)
    next
      case leaf: False
      then show ?thesis using False 2(1) [OF False _ leaf 2(2) ch] 2(4) by (auto split: if_splits)
    qed
  qed (use 2 in auto)
next
  case (3 known dir)
  then show ?case by simp
next
  case (4 known dir e es)
  then show ?case by (auto split: option.splits)
qed

lemma scan_node_none:
  "scan_node known dir e = None \<longleftrightarrow> (\<exists>p. (p, False) \<in> set (walked_dirs known dir e))"
  "scan_nodes known dir es = None \<longleftrightarrow> (\<exists>p. (p, False) \<in> set (concat (map (walked_dirs known dir) es)))"
proof (induction known dir e and known dir es rule: scan_node_scan_nodes.induct)
  case (2 known dir n readable children)
  show ?case
  proof (cases "readable \<and> dir_is_leaf_entry known (join_path dir n) children")
    case True
    then have "walked_dirs known (join_path dir n) c = []" if "c \<in> set children" for c
      using that by (cases c) (auto simp: dir_is_leaf_entry_def list_all_iff)
    then show ?thesis using True by auto
  qed (use 2 in auto)
qed (auto split: option.splits)

lemma scan_entries:
  "fs_ok fs \<Longrightarrow> fs (join_path dir (fs_name e)) = Some e \<Longrightarrow> scan_node known dir e = Some us \<Longrightarrow> u \<in> set us \<Longrightarrow>
     \<not> known (ue_path u) \<and> (\<exists>e'. fs (ue_path u) = Some e' \<and> fs_name e' = ue_name u \<and>
       (\<forall>n r ch. e' = Fs_dir n r ch \<longrightarrow> r \<and> dir_is_leaf_entry known (ue_path u) ch))"
  "fs_ok fs \<Longrightarrow> \<forall>e\<in>set es. fs (join_path dir (fs_name e)) = Some e \<Longrightarrow> scan_nodes known dir es = Some us \<Longrightarrow> u \<in> set us \<Longrightarrow>
     \<not> known (ue_path u) \<and> (\<exists>e'. fs (ue_path u) = Some e' \<and> fs_name e' = ue_name u \<and>
       (\<forall>n r ch. e' = Fs_dir n r ch \<longrightarrow> r \<and> dir_is_leaf_entry known (ue_path u) ch))"
proof (induction known dir e and known dir es arbitrary: us and us rule: scan_node_scan_nodes.induct)
  case (1 known dir n b t)
  then show ?case by (auto split: if_splits)
next
  case (2 known dir n readable children)
  have ch: "\<forall>e\<in>set children. fs (join_path (join_path dir n) (fs_name e)) = Some e"
    using fs_okD(2) [OF 2(2)] 2(3) by simp
  show ?case
  proof (cases "is_excluded_dir n \<or> known (join_path dir n) \<or> \<not> readable \<or> dir_is_leaf_entry known (join_path dir n) children")
    case True
    then show ?thesis using 2(3-5) by (auto split: if_splits)
  next
    case False
    then have "scan_nodes known (join_path dir n) children = Some us" using 2(4) by simp
    then show ?thesis using 2(1) [OF _ _ _ 2(2) ch _ 2(5)] False by blast
  qed
next
  case (3 known dir)
  then show ?case by simp
next
  case (4 known dir e es)
  then show ?case by (force split: option.splits)
qed

lemma largest_file_in:
  "largest_file best es = Some (n, b) \<Longrightarrow> best = Some (n, b) \<or> (\<exists>t. Fs_file n b t \<in> set es \<and> is_library_video_file n)"
  by (induction best es rule: largest_file.induct) (auto split: if_splits)

text \<open>What an entry is resolved to is a file that was not known.\<close>

lemma resolved_not_known:
  assumes "fs_ok fs" "fs root = Some (Fs_dir n r ch)" "scan_root_folder known fs root = Some us" "u \<in> set us"
    "resolve_video_file fs (ue_path u) = Some v"
  shows "\<not> known v \<and> (\<exists>m b t. fs v = Some (Fs_file m b t))"
proof -
  have ch: "\<forall>e\<in>set ch. fs (join_path root (fs_name e)) = Some e" using fs_okD(2) [OF assms(1,2)] by simp
  have "scan_nodes known root ch = Some us" using assms(2,3) by (simp add: scan_root_folder_def split: if_splits)
  then obtain e where e: "\<not> known (ue_path u)" "fs (ue_path u) = Some e"
      "\<forall>m q dh. e = Fs_dir m q dh \<longrightarrow> q \<and> dir_is_leaf_entry known (ue_path u) dh"
    using scan_entries(2) [OF assms(1) ch _ assms(4)] by blast
  show ?thesis
  proof (cases e)
    case Fs_file
    then show ?thesis using e(1,2) assms(5) by (auto simp: resolve_video_file_def split: if_splits)
  next
    case (Fs_dir m q dh)
    then obtain w b where w: "largest_file None dh = Some (w, b)" "v = join_path (ue_path u) w"
      using e(2) assms(5) by (auto simp: resolve_video_file_def split: if_splits)
    then obtain t where t: "Fs_file w b t \<in> set dh" using largest_file_in [of None dh w b] by auto
    have "\<not> known v" using e(3) Fs_dir t w(2) by (fastforce simp: dir_is_leaf_entry_def list_all_iff)
    moreover have "fs v = Some (Fs_file w b t)" using fs_okD(2) [OF assms(1) e(2) [unfolded Fs_dir] t] w(2) by simp
    ultimately show ?thesis by blast
  qed
qed

lemma slash_split:
  assumes "a @ r = b @ q" "CHR ''/'' \<notin> set a" "CHR ''/'' \<notin> set b" "r = [] \<or> hd r = CHR ''/''" "q = [] \<or> hd q = CHR ''/''"
  shows "a = b"
proof -
  have "takeWhile (\<lambda>c. c \<noteq> CHR ''/'') (x @ y) = x" if "CHR ''/'' \<notin> set x" "y = [] \<or> hd y = CHR ''/''" for x y :: gostring
    using that by (cases y) (auto simp: takeWhile_append takeWhile_eq_all_conv)
  then show ?thesis using assms by metis
qed

lemma walked_prefix:
  "(d, n) \<in> set (walked_files known dir e) \<Longrightarrow>
   \<exists>r. join_path d n = dir @ CHR ''/'' # fs_name e @ r \<and> (r = [] \<or> hd r = CHR ''/'')"
proof (induction known dir e rule: walked_files.induct)
  case (2 known dir m readable children)
  then obtain c where c: "c \<in> set children" "(d, n) \<in> set (walked_files known (join_path dir m) c)"
    "\<not> (is_excluded_dir m \<or> known (join_path dir m))" by (auto split: if_splits)
  from 2(1) [OF c(3,1,2)] show ?case by (auto simp: join_path_def)
qed (auto simp: join_path_def)

lemma join_path_inj:
  "join_path d n = join_path d' n' \<Longrightarrow> CHR ''/'' \<notin> set n \<Longrightarrow> CHR ''/'' \<notin> set n' \<Longrightarrow> d = d' \<and> n = n'"
proof -
  assume j: "join_path d n = join_path d' n'" and s: "CHR ''/'' \<notin> set n" "CHR ''/'' \<notin> set n'"
  have "rev n = rev n'"
    by (rule slash_split [of _ "CHR ''/'' # rev d" _ "CHR ''/'' # rev d'"]) (use s arg_cong [OF j, of rev] in \<open>simp_all add: join_path_def\<close>)
  then show ?thesis using j by (simp add: join_path_def)
qed

lemma walked_siblings:
  assumes "\<forall>e\<in>set es. distinct (map (\<lambda>(d, n). join_path d n) (walked_files known dir e))"
    "\<forall>e\<in>set es. CHR ''/'' \<notin> set (fs_name e)" "distinct (map fs_name es)"
  shows "distinct (map (\<lambda>(d, n). join_path d n) (concat (map (walked_files known dir) es)))"
  using assms
proof (induction es)
  case (Cons e es)
  have "join_path d n \<noteq> join_path d' n'"
    if "(d, n) \<in> set (walked_files known dir e)" "e' \<in> set es" "(d', n') \<in> set (walked_files known dir e')" for d n d' n' e'
  proof
    assume eq: "join_path d n = join_path d' n'"
    from walked_prefix [OF that(1)] obtain r where
      r: "join_path d n = dir @ CHR ''/'' # fs_name e @ r" "r = [] \<or> hd r = CHR ''/''" by (elim exE conjE)
    from walked_prefix [OF that(3)] obtain q where
      q: "join_path d' n' = dir @ CHR ''/'' # fs_name e' @ q" "q = [] \<or> hd q = CHR ''/''" by (elim exE conjE)
    have "fs_name e @ r = fs_name e' @ q" using eq r(1) q(1) by simp
    then have "fs_name e = fs_name e'" by (rule slash_split) (use r(2) q(2) Cons.prems that(2) in auto)
    then show False using Cons.prems that(2) by auto
  qed
  then show ?case using Cons by (fastforce simp: distinct_append)
qed simp

lemma walked_distinct:
  "fs_ok fs \<Longrightarrow> fs (join_path dir (fs_name e)) = Some e \<Longrightarrow> distinct (map (\<lambda>(d, n). join_path d n) (walked_files known dir e))"
proof (induction known dir e rule: walked_files.induct)
  case (2 known dir n readable children)
  show ?case
  proof (cases "is_excluded_dir n \<or> known (join_path dir n)")
    case False
    note f = fs_okD [OF 2(2), of "join_path dir n" n readable children]
    have "distinct (map (\<lambda>(d, n). join_path d n) (concat (map (walked_files known (join_path dir n)) children)))"
      by (rule walked_siblings) (use f 2(3) 2(1) [OF False _ 2(2)] in auto)
    then show ?thesis using False by simp
  qed auto
qed auto

section \<open>The scan as a whole\<close>

text \<open>
  C24. A scan that succeeds reports every file of the library that is not known exactly once: the media files of its
  entries, in order, are the files of the walk - outside of bonus-content directories and of known ones - less
  sidecars and known files, and none occurs twice. It fails exactly when the walk meets a directory that it
  cannot read, although the code means to pass over such a directory.
\<close>

theorem scan_reports_new_media:
  assumes "fs_ok fs" "fs root = Some (Fs_dir name True children)"
  shows "case scan_root_folder known fs root of
      Some us \<Rightarrow> concat (map (entry_media fs) us) = new_media known (concat (map (walked_files known root) children)) \<and>
        distinct (concat (map (entry_media fs) us)) \<and> (p, False) \<notin> set (concat (map (walked_dirs known root) children))
    | None \<Rightarrow> (\<exists>p. (p, False) \<in> set (concat (map (walked_dirs known root) children)))"
proof -
  note f = fs_okD [OF assms]
  have r: "scan_root_folder known fs root = scan_nodes known root children" using assms(2) by (simp add: scan_root_folder_def)
  have "distinct (map (\<lambda>(d, n). join_path d n) (concat (map (walked_files known root) children)))"
    by (rule walked_siblings) (use f walked_distinct [OF assms(1)] in auto)
  then have "distinct (new_media known (concat (map (walked_files known root) children)))"
    unfolding new_media_def by (rule distinct_map_filter)
  then show ?thesis
    using scan_media(2) [OF assms(1), of children root known] f(2) scan_node_none(2) [of known root children]
    by (auto simp: r split: option.split)
qed

definition sample_tree :: fs_node where
  "sample_tree =
     Fs_dir ''m'' True
       [Fs_dir ''A'' True [Fs_file ''a.mkv'' 5 [], Fs_file ''a.nfo'' 1 []],
        Fs_dir ''B'' True [Fs_file ''b.mkv'' 5 [], Fs_file ''c.mkv'' 7 [], Fs_dir ''Extras'' False []],
        Fs_file ''d.mp4'' 3 []]"

fun list_nodes :: "gostring \<Rightarrow> fs_node \<Rightarrow> (gostring \<times> fs_node) list" where
  "list_nodes p (Fs_file n b t) = [(p, Fs_file n b t)]"
| "list_nodes p (Fs_dir n r ch) = (p, Fs_dir n r ch) # concat (map (\<lambda>c. list_nodes (join_path p (fs_name c)) c) ch)"

definition sample_fs :: file_system where
  "sample_fs = map_of (list_nodes ''/m'' sample_tree)"

lemma sample_fs_ok: "fs_ok sample_fs"
  by (auto simp: fs_ok_def sample_fs_def sample_tree_def join_path_def split: if_splits)

theorem scan_reports_new_media_witness:
  "scan_root_folder (\<lambda>p. p = ''/m/B/b.mkv'') sample_fs ''/m'' =
     Some [\<lparr>ue_name = ''A'', ue_path = ''/m/A''\<rparr>, \<lparr>ue_name = ''c.mkv'', ue_path = ''/m/B/c.mkv''\<rparr>, \<lparr>ue_name = ''d.mp4'', ue_path = ''/m/d.mp4''\<rparr>] \<and>
   new_media (\<lambda>p. p = ''/m/B/b.mkv'') (concat (map (walked_files (\<lambda>p. p = ''/m/B/b.mkv'') ''/m'')
     (case sample_tree of Fs_dir _ _ ch \<Rightarrow> ch | _ \<Rightarrow> []))) = [''/m/A/a.mkv'', ''/m/B/c.mkv'', ''/m/d.mp4'']"
proof -
  let ?known = "\<lambda>p. p = ''/m/B/b.mkv''"
  let ?ch = "case sample_tree of Fs_dir _ _ ch \<Rightarrow> ch | _ \<Rightarrow> []"
  have m: "sample_fs ''/m'' = Some (Fs_dir ''m'' True ?ch)" by (simp add: sample_fs_def sample_tree_def join_path_def)
  have scan: "scan_root_folder ?known sample_fs ''/m'' =
     Some [\<lparr>ue_name = ''A'', ue_path = ''/m/A''\<rparr>, \<lparr>ue_name = ''c.mkv'', ue_path = ''/m/B/c.mkv''\<rparr>, \<lparr>ue_name = ''d.mp4'', ue_path = ''/m/d.mp4''\<rparr>]"
    by code_simp
  have "concat (map (entry_media sample_fs) [\<lparr>ue_name = ''A'', ue_path = ''/m/A''\<rparr>, \<lparr>ue_name = ''c.mkv'', ue_path = ''/m/B/c.mkv''\<rparr>,
      \<lparr>ue_name = ''d.mp4'', ue_path = ''/m/d.mp4''\<rparr>]) = [''/m/A/a.mkv'', ''/m/B/c.mkv'', ''/m/d.mp4'']" by code_simp
  with scan_reports_new_media [OF sample_fs_ok m, of ?known] scan show ?thesis by simp
qed

end
