(* ===== verification/Library_Items.thy ===== *)
theory Library_Items
  imports Go_Float Prelude
begin

text \<open>
  The movie catalogue (\<open>internal/library/library.go\<close>, \<open>library_files.go\<close>): titles, their files and
  their tags, with the constraints of the schema: one title per mode and TMDB id, one row per file path, one
  primary file per title, no file of a missing title. Each statement may fail, without effect; several
  statements of one function that are not a transaction fail one by one. Collections, posters and
  \<open>updated_at\<close> are left out.
\<close>

section \<open>Tables\<close>

record item =
  it_id :: int
  it_mode :: gostring
  it_tmdb :: int
  it_title :: gostring
  it_year :: int
  it_path :: gostring
  it_root :: gostring
  it_size :: int
  it_tier :: gostring
  it_rating :: int
  it_watch :: bool
  it_phash :: gostring
  it_phash_size :: int
  it_phash_mtime :: gostring
  it_created :: gostring
  it_genres :: "gostring list"
  it_cast :: "gostring list"

record item_file =
  if_id :: int
  if_item :: int
  if_path :: gostring
  if_primary :: bool
  if_tier :: gostring
  if_size :: int
  if_width :: int
  if_height :: int
  if_codec :: gostring
  if_bitrate :: int
  if_duration :: f64
  if_phash :: gostring

record catalogue =
  ct_items :: "item list"
  ct_files :: "item_file list"
  ct_tags :: "(int \<times> gostring) list"
  ct_next_item :: int
  ct_next_file :: int

datatype item_error = Item_missing | Item_db_error

section \<open>Reads\<close>

definition get_item :: "bool \<Rightarrow> int \<Rightarrow> catalogue \<Rightarrow> item_error + item" where
  "get_item fault n cat =
     (if fault then Inl Item_db_error
      else case filter (\<lambda>i. it_id i = n) (ct_items cat) of [] \<Rightarrow> Inl Item_missing | i # _ \<Rightarrow> Inr i)"

text \<open>The primary first, then by id; rows are kept in the order of their ids.\<close>

definition files_of :: "int \<Rightarrow> catalogue \<Rightarrow> item_file list" where
  "files_of n cat =
     (let fs = filter (\<lambda>f. if_item f = n) (ct_files cat) in filter if_primary fs @ filter (\<lambda>f. \<not> if_primary f) fs)"

definition list_files :: "bool \<Rightarrow> int \<Rightarrow> catalogue \<Rightarrow> item_file list option" where
  "list_files fault n cat = (if fault then None else Some (files_of n cat))"

definition item_tags :: "bool \<Rightarrow> int \<Rightarrow> catalogue \<Rightarrow> gostring list option" where
  "item_tags fault n cat = (if fault then None else Some (map snd (filter (\<lambda>t. fst t = n) (ct_tags cat))))"

section \<open>Writes\<close>

definition file_paths_unique :: "item_file list \<Rightarrow> bool" where
  "file_paths_unique fs \<longleftrightarrow> distinct (map if_path fs)"

definition one_primary :: "item_file list \<Rightarrow> bool" where
  "one_primary fs \<longleftrightarrow> distinct (map if_item (filter if_primary fs))"

text \<open>Statements on the table of files: refused when a constraint is broken.\<close>

definition put_files :: "bool \<Rightarrow> item_file list \<Rightarrow> catalogue \<Rightarrow> catalogue option" where
  "put_files fault fs cat =
     (if fault \<or> \<not> file_paths_unique fs \<or> \<not> one_primary fs \<or> \<not> if_item ` set fs \<subseteq> it_id ` set (ct_items cat)
      then None else Some (cat\<lparr>ct_files := fs\<rparr>))"

definition new_file :: "int \<Rightarrow> int \<Rightarrow> gostring \<Rightarrow> bool \<Rightarrow> gostring \<Rightarrow> int \<Rightarrow> gostring \<Rightarrow> item_file" where
  "new_file fid n path primary tier bytes hash =
     \<lparr>if_id = fid, if_item = n, if_path = path, if_primary = primary, if_tier = tier, if_size = bytes, if_width = 0,
      if_height = 0, if_codec = [], if_bitrate = 0, if_duration = 0, if_phash = hash\<rparr>"

text \<open>The insert takes the next id also when it fails.\<close>

definition insert_file :: "bool \<Rightarrow> item_file \<Rightarrow> catalogue \<Rightarrow> bool \<times> catalogue" where
  "insert_file fault f cat =
     (let cat' = cat\<lparr>ct_next_file := ct_next_file cat + 1\<rparr> in
      case put_files fault (ct_files cat @ [f\<lparr>if_id := ct_next_file cat\<rparr>]) cat' of
        None \<Rightarrow> (False, cat') | Some c \<Rightarrow> (True, c))"

definition sync_primary_file :: "(nat \<Rightarrow> bool) \<Rightarrow> item \<Rightarrow> catalogue \<Rightarrow> bool \<times> catalogue" where
  "sync_primary_file fl it cat =
     (if it_id it = 0 \<or> it_path it = [] then (True, cat)
      else (case list_files (fl 0) (it_id it) cat of
              None \<Rightarrow> (False, cat)
            | Some fs \<Rightarrow>
                (case filter if_primary fs of
                   f # _ \<Rightarrow>
                     (case put_files (fl 1) (map (\<lambda>g. if if_id g = if_id f
                          then g\<lparr>if_path := it_path it, if_tier := it_tier it, if_size := it_size it, if_phash := it_phash it\<rparr>
                          else g) (ct_files cat)) cat of
                        None \<Rightarrow> (False, cat) | Some c \<Rightarrow> (True, c))
                 | [] \<Rightarrow>
                     insert_file (fl 1) (new_file 0 (it_id it) (it_path it) True (it_tier it) (it_size it) (it_phash it)) cat)))"

text \<open>The columns an upsert writes over those of the title that is there.\<close>

definition upsert_row :: "item \<Rightarrow> item \<Rightarrow> item" where
  "upsert_row new old =
     old\<lparr>it_title := it_title new, it_year := it_year new, it_path := it_path new, it_root := it_root new,
       it_phash := it_phash new, it_phash_size := it_phash_size new, it_phash_mtime := it_phash_mtime new,
       it_genres := it_genres new, it_cast := it_cast new, it_size := it_size new, it_tier := it_tier new\<rparr>"

text \<open>\<open>Upsert\<close>: the title it ends up as, or \<open>None\<close>. A new title is not rated and not watched.\<close>

definition upsert_item ::
  "(nat \<Rightarrow> bool) \<Rightarrow> (int \<Rightarrow> gostring) \<Rightarrow> item \<Rightarrow> catalogue \<Rightarrow> item option \<times> catalogue" where
  "upsert_item fl clock new cat =
     (if fl 0 then (None, cat)
      else
        (let n = ct_next_item cat; cat1 = cat\<lparr>ct_next_item := n + 1\<rparr>;
             same = (\<lambda>i. it_mode i = it_mode new \<and> it_tmdb i = it_tmdb new);
             (it, items) =
               (case filter same (ct_items cat) of
                  [] \<Rightarrow> (let r = new\<lparr>it_id := n, it_created := clock n, it_rating := 0, it_watch := False\<rparr> in (r, ct_items cat @ [r]))
                | old # _ \<Rightarrow> (upsert_row new old, map (\<lambda>i. if same i then upsert_row new i else i) (ct_items cat)));
             stored = new\<lparr>it_id := it_id it, it_created := it_created it\<rparr> in
         case sync_primary_file (\<lambda>k. fl (k + 1)) stored (cat1\<lparr>ct_items := items\<rparr>) of
           (False, cat2) \<Rightarrow> (None, cat2)
         | (True, cat2) \<Rightarrow> (Some stored, cat2)))"

definition demote_primary :: "int \<Rightarrow> catalogue \<Rightarrow> catalogue" where
  "demote_primary n cat =
     cat\<lparr>ct_files := map (\<lambda>g. if if_item g = n then g\<lparr>if_primary := False\<rparr> else g) (ct_files cat)\<rparr>"

text \<open>\<open>INSERT ... ON CONFLICT (file_path) DO UPDATE\<close>.\<close>

definition write_file :: "bool \<Rightarrow> item_file \<Rightarrow> catalogue \<Rightarrow> bool \<times> catalogue" where
  "write_file fault f cat =
     (if if_path f \<in> if_path ` set (ct_files cat)
      then (let cat' = cat\<lparr>ct_next_file := ct_next_file cat + 1\<rparr> in
            case put_files fault (map (\<lambda>g. if if_path g = if_path f then f\<lparr>if_id := if_id g\<rparr> else g) (ct_files cat')) cat' of
              None \<Rightarrow> (False, cat') | Some c \<Rightarrow> (True, c))
      else insert_file fault f cat)"

definition upsert_file :: "(nat \<Rightarrow> bool) \<Rightarrow> item_file \<Rightarrow> catalogue \<Rightarrow> bool \<times> catalogue" where
  "upsert_file fl f cat =
     (if if_item f = 0 \<or> if_path f = [] then (False, cat)
      else if if_primary f \<and> fl 0 then (False, cat)
      else write_file (fl 1) f (if if_primary f then demote_primary (if_item f) cat else cat))"

definition delete_item_file_by_path :: "bool \<Rightarrow> gostring \<Rightarrow> catalogue \<Rightarrow> bool \<times> catalogue" where
  "delete_item_file_by_path fault path cat =
     (if path = [] then (True, cat)
      else if fault then (False, cat)
      else (True, cat\<lparr>ct_files := filter (\<lambda>f. if_path f \<noteq> path) (ct_files cat)\<rparr>))"

definition update_item_primary_path ::
  "bool \<Rightarrow> int \<Rightarrow> gostring \<Rightarrow> gostring \<Rightarrow> int \<Rightarrow> catalogue \<Rightarrow> bool \<times> catalogue" where
  "update_item_primary_path fault n path tier bytes cat =
     (if fault then (False, cat)
      else (True, cat\<lparr>ct_items :=
        map (\<lambda>i. if it_id i = n then i\<lparr>it_path := path, it_tier := tier, it_size := bytes\<rparr> else i) (ct_items cat)\<rparr>))"

text \<open>One transaction; the files of the title go with it (\<open>ON DELETE CASCADE\<close>).\<close>

definition delete_library_item :: "bool \<Rightarrow> int \<Rightarrow> catalogue \<Rightarrow> bool \<times> catalogue" where
  "delete_library_item fault n cat =
     (if fault then (False, cat)
      else (True, cat\<lparr>ct_tags := filter (\<lambda>t. fst t \<noteq> n) (ct_tags cat),
        ct_items := filter (\<lambda>i. it_id i \<noteq> n) (ct_items cat), ct_files := filter (\<lambda>f. if_item f \<noteq> n) (ct_files cat)\<rparr>))"

section \<open>The invariant\<close>

definition cat_ok :: "catalogue \<Rightarrow> bool" where
  "cat_ok cat \<longleftrightarrow> distinct (map it_id (ct_items cat)) \<and> distinct (map (\<lambda>i. (it_mode i, it_tmdb i)) (ct_items cat)) \<and>
     (\<forall>n\<in>it_id ` set (ct_items cat). 0 < n \<and> n < ct_next_item cat) \<and> 0 < ct_next_item cat \<and>
     distinct (map if_id (ct_files cat)) \<and> (\<forall>f\<in>set (ct_files cat). if_id f < ct_next_file cat) \<and>
     file_paths_unique (ct_files cat) \<and> one_primary (ct_files cat) \<and> if_item ` set (ct_files cat) \<subseteq> it_id ` set (ct_items cat)"

lemma cat_ok_files:
  "cat_ok cat \<Longrightarrow> distinct (map if_id fs) \<Longrightarrow> \<forall>f\<in>set fs. if_id f < ct_next_file cat \<Longrightarrow> distinct (map if_path fs) \<Longrightarrow>
   distinct (map if_item (filter if_primary fs)) \<Longrightarrow> if_item ` set fs \<subseteq> it_id ` set (ct_items cat) \<Longrightarrow> cat_ok (cat\<lparr>ct_files := fs\<rparr>)"
  by (simp add: cat_ok_def file_paths_unique_def one_primary_def)

lemma put_files_ok:
  "cat_ok cat \<Longrightarrow> put_files fault fs cat = Some c \<Longrightarrow> distinct (map if_id fs) \<Longrightarrow> \<forall>f\<in>set fs. if_id f < ct_next_file cat \<Longrightarrow>
   cat_ok c \<and> c = cat\<lparr>ct_files := fs\<rparr>"
  by (auto simp: put_files_def file_paths_unique_def one_primary_def split: if_splits intro: cat_ok_files)

lemma cat_ok_next: "cat_ok cat \<Longrightarrow> cat_ok (cat\<lparr>ct_next_file := ct_next_file cat + 1\<rparr>)"
  by (fastforce simp: cat_ok_def)

lemma insert_file_ok:
  assumes "cat_ok cat" shows "cat_ok (snd (insert_file fault f cat))"
proof -
  let ?c = "cat\<lparr>ct_next_file := ct_next_file cat + 1\<rparr>"
  let ?fs = "ct_files cat @ [f\<lparr>if_id := ct_next_file cat\<rparr>]"
  have ids: "distinct (map if_id ?fs)" "\<forall>g\<in>set ?fs. if_id g < ct_next_file ?c" using assms by (fastforce simp: cat_ok_def)+
  show ?thesis using cat_ok_next [OF assms] put_files_ok [OF cat_ok_next [OF assms] _ ids, of fault]
    by (auto simp: insert_file_def Let_def split: option.splits)
qed

lemma map_files_ids:
  assumes "\<And>g. if_id (h g) = if_id g"
  shows "map if_id (map h fs) = map if_id fs" "if_id ` h ` A = if_id ` A"
  using assms by (simp_all add: image_image)

lemma put_mapped_ok:
  assumes "cat_ok cat" "\<And>g. if_id (h g) = if_id g" "put_files fault (map h (ct_files cat)) cat = Some c"
  shows "cat_ok c \<and> c = cat\<lparr>ct_files := map h (ct_files cat)\<rparr>"
  by (rule put_files_ok [OF assms(1,3)]) (use assms(1,2) in \<open>auto simp: cat_ok_def o_def\<close>)

lemma sync_primary_file_ok: "cat_ok cat \<Longrightarrow> cat_ok (snd (sync_primary_file fl it cat))"
  using insert_file_ok
  by (auto simp: sync_primary_file_def split: option.splits list.splits dest!: put_mapped_ok [rotated 2])

lemma cat_ok_items:
  assumes "cat_ok cat" "map it_id items = map it_id (ct_items cat)"
    "map (\<lambda>i. (it_mode i, it_tmdb i)) items = map (\<lambda>i. (it_mode i, it_tmdb i)) (ct_items cat)" "ct_next_item cat \<le> n"
  shows "cat_ok (cat\<lparr>ct_next_item := n, ct_items := items\<rparr>)"
proof -
  have "it_id ` set items = it_id ` set (ct_items cat)" using assms(2) by (metis set_map)
  then show ?thesis using assms by (auto simp: cat_ok_def)
qed

lemma cat_ok_new_item:
  assumes "cat_ok cat" "it_id r = ct_next_item cat" "\<forall>i\<in>set (ct_items cat). (it_mode i, it_tmdb i) \<noteq> (it_mode r, it_tmdb r)"
  shows "cat_ok (cat\<lparr>ct_next_item := ct_next_item cat + 1, ct_items := ct_items cat @ [r]\<rparr>)"
  using assms by (auto simp: cat_ok_def)

lemma upsert_item_ok:
  assumes "cat_ok cat" shows "cat_ok (snd (upsert_item fl clock new cat))"
proof (cases "fl 0")
  case False
  let ?same = "\<lambda>i. it_mode i = it_mode new \<and> it_tmdb i = it_tmdb new"
  let ?cat1 = "cat\<lparr>ct_next_item := ct_next_item cat + 1\<rparr>"
  obtain it items where r: "(case filter ?same (ct_items cat) of
      [] \<Rightarrow> (let r = new\<lparr>it_id := ct_next_item cat, it_created := clock (ct_next_item cat), it_rating := 0, it_watch := False\<rparr> in (r, ct_items cat @ [r]))
    | old # _ \<Rightarrow> (upsert_row new old, map (\<lambda>i. if ?same i then upsert_row new i else i) (ct_items cat))) = (it, items)"
    by (rule prod.exhaust)
  have "cat_ok (?cat1\<lparr>ct_items := items\<rparr>)"
  proof (cases "filter ?same (ct_items cat)")
    case Nil
    then have "\<forall>i\<in>set (ct_items cat). (it_mode i, it_tmdb i) \<noteq> (it_mode new, it_tmdb new)" by (auto simp: filter_empty_conv)
    then show ?thesis using r cat_ok_new_item [OF assms] Nil by (auto simp: Let_def)
  next
    case (Cons old olds)
    then have i: "items = map (\<lambda>i. if ?same i then upsert_row new i else i) (ct_items cat)" using r by simp
    show ?thesis unfolding i by (rule cat_ok_items [OF assms]) (auto simp: upsert_row_def)
  qed
  then have "cat_ok (snd (sync_primary_file (\<lambda>k. fl (k + 1)) (new\<lparr>it_id := it_id it, it_created := it_created it\<rparr>) (?cat1\<lparr>ct_items := items\<rparr>)))"
    by (rule sync_primary_file_ok)
  then show ?thesis using False r by (auto simp: upsert_item_def Let_def split: prod.splits bool.splits)
qed (use assms in \<open>simp add: upsert_item_def\<close>)

lemma distinct_filter_filter: "distinct (map f (filter P xs)) \<Longrightarrow> distinct (map f (filter P (filter Q xs)))"
  by (induction xs) auto

lemma demote_facts:
  fixes fs n defines "h \<equiv> \<lambda>g. if if_item g = n then g\<lparr>if_primary := False\<rparr> else g"
  shows "map if_id (map h fs) = map if_id fs" "map if_path (map h fs) = map if_path fs"
    "if_item ` set (map h fs) = if_item ` set fs" "if_id ` set (map h fs) = if_id ` set fs"
    "map if_item (filter if_primary (map h fs)) = map if_item (filter (\<lambda>g. if_item g \<noteq> n) (filter if_primary fs))"
  by (induction fs) (auto simp: h_def)

lemma ids_below: "(\<forall>f\<in>set fs. if_id f < k) \<longleftrightarrow> (\<forall>m\<in>if_id ` set fs. m < k)"
  by simp

lemma demote_primary_ok:
  assumes "cat_ok cat" shows "cat_ok (demote_primary n cat)"
  unfolding demote_primary_def
  by (rule cat_ok_files [OF assms])
    (use assms distinct_map_filter in \<open>auto simp only: demote_facts ids_below cat_ok_def file_paths_unique_def one_primary_def\<close>)

lemma write_file_ok:
  assumes "cat_ok cat" shows "cat_ok (snd (write_file fault f cat))"
proof -
  let ?h = "\<lambda>g. if if_path g = if_path f then f\<lparr>if_id := if_id g\<rparr> else g"
  have "cat_ok c" if "put_files fault (map ?h (ct_files cat)) (cat\<lparr>ct_next_file := ct_next_file cat + 1\<rparr>) = Some c" for c
    by (rule conjunct1 [OF put_mapped_ok [OF cat_ok_next [OF assms], of ?h fault c]]) (use that in simp_all)
  then show ?thesis using insert_file_ok [OF assms] cat_ok_next [OF assms]
    by (simp add: write_file_def Let_def split: option.split)
qed

lemma upsert_file_ok: "cat_ok cat \<Longrightarrow> cat_ok (snd (upsert_file fl f cat))"
  using write_file_ok demote_primary_ok by (simp add: upsert_file_def)

lemma cat_ok_filter_files:
  "cat_ok cat \<Longrightarrow> cat_ok (cat\<lparr>ct_files := filter P (ct_files cat)\<rparr>)"
  by (rule cat_ok_files)
    (auto simp: cat_ok_def file_paths_unique_def one_primary_def intro: distinct_map_filter simp del: filter_filter intro!: distinct_filter_filter)

lemma delete_item_file_ok: "cat_ok cat \<Longrightarrow> cat_ok (snd (delete_item_file_by_path fault path cat))"
  using cat_ok_filter_files by (simp add: delete_item_file_by_path_def)

lemma update_primary_ok:
  assumes "cat_ok cat" shows "cat_ok (snd (update_item_primary_path fault n path tier bytes cat))"
proof -
  let ?h = "\<lambda>i. if it_id i = n then i\<lparr>it_path := path, it_tier := tier, it_size := bytes\<rparr> else i"
  have "map it_id (map ?h xs) = map it_id xs" "map (\<lambda>i. (it_mode i, it_tmdb i)) (map ?h xs) = map (\<lambda>i. (it_mode i, it_tmdb i)) xs" for xs
    by (induction xs) auto
  from cat_ok_items [OF assms this order_refl] assms show ?thesis by (simp add: update_item_primary_path_def)
qed

lemma delete_library_item_ok: "cat_ok cat \<Longrightarrow> cat_ok (snd (delete_library_item fault n cat))"
  unfolding delete_library_item_def cat_ok_def file_paths_unique_def one_primary_def
  by (cases fault) (auto intro: distinct_map_filter simp del: filter_filter intro!: distinct_filter_filter)

lemmas catalogue_ok = upsert_item_ok upsert_file_ok delete_item_file_ok update_primary_ok delete_library_item_ok

end
