(* ===== verification/Phash.thy ===== *)
theory Phash
  imports Hex Go_Float "HOL-Library.Word"
begin

text \<open>
  \<open>internal/phash\<close> (\<open>algo.go\<close>, \<open>distance.go\<close>): stored perceptual hashes and their comparison. A
  hash is a scheme tag and the bytes of the frames' hashes; the hashing of pictures is not modelled.
\<close>

unbundle bit_operations_syntax

section \<open>Operations\<close>

definition phash_scheme :: gostring where "phash_scheme = ''pdq256/5f''"
definition phash_frames :: int where "phash_frames = 5"
definition per_frame_bits :: int where "per_frame_bits = 256"
definition default_threshold :: int where "default_threshold = 40"
definition default_movies_threshold :: int where "default_movies_threshold = 64"

lemma drop_bit_smaller: "x \<noteq> 0 \<Longrightarrow> unat (drop_bit 1 x) < unat x" for x :: "8 word"
  unfolding unat_drop_bit_eq by (simp add: drop_bit_eq_div unat_gt_0)

text \<open>The inner loop of \<open>hammingBits\<close>.\<close>

function bit_count :: "8 word \<Rightarrow> nat" where
  "bit_count x = (if x = 0 then 0 else unat (x AND 1) + bit_count (drop_bit 1 x))"
  by auto

termination by (relation "measure unat") (simp_all add: drop_bit_smaller del: One_nat_def)

declare bit_count.simps [simp del]

definition byte_of :: "char \<Rightarrow> 8 word" where "byte_of c = of_char c"

text \<open>\<open>None\<close> is the index panic of a second hash that is too short.\<close>

fun hamming_bits :: "gostring \<Rightarrow> gostring \<Rightarrow> nat option" where
  "hamming_bits [] b = Some 0"
| "hamming_bits (x # xs) [] = None"
| "hamming_bits (x # xs) (y # ys) =
     (case hamming_bits xs ys of None \<Rightarrow> None | Some d \<Rightarrow> Some (bit_count (byte_of x XOR byte_of y) + d))"

definition encode_hash :: "gostring \<Rightarrow> gostring \<Rightarrow> gostring" where
  "encode_hash scheme composite = scheme @ CHR '':'' # hex_encode composite"

definition decode_hash :: "gostring \<Rightarrow> (gostring \<times> gostring) option" where
  "decode_hash s =
     (case dropWhile (\<lambda>c. c \<noteq> CHR '':'') s of
        [] \<Rightarrow> None
      | _ # payload \<Rightarrow>
          (case hex_decode payload of
             None \<Rightarrow> None
           | Some composite \<Rightarrow> Some (takeWhile (\<lambda>c. c \<noteq> CHR '':'') s, composite)))"

text \<open>The outer \<open>None\<close> is an error of \<open>decode\<close>, the inner one the panic.\<close>

definition similarity_within :: "gostring \<Rightarrow> gostring \<Rightarrow> int \<Rightarrow> int \<Rightarrow> bool option option" where
  "similarity_within a b frames threshold =
     (case decode_hash a of
        None \<Rightarrow> None
      | Some (sa, ca) \<Rightarrow>
          (case decode_hash b of
             None \<Rightarrow> None
           | Some (sb, cb) \<Rightarrow>
               if sa \<noteq> sb \<or> length ca \<noteq> length cb then Some (Some False)
               else Some (map_option (\<lambda>d. int d \<le> threshold * frames) (hamming_bits ca cb))))"

section \<open>The distance\<close>

lemma bit_count_card: "bit_count x = card {n. bit x n}"
proof (induction x rule: bit_count.induct)
  case (1 x)
  show ?case
  proof (cases "x = 0")
    case True
    then show ?thesis by (simp add: bit_count.simps)
  next
    case False
    have fin: "finite {n. bit (drop_bit 1 x) n}"
      by (rule finite_subset [of _ "{..<8}"]) (auto dest: bit_imp_le_length)
    have "{n. bit x n} = (if bit x 0 then {0} else {}) \<union> Suc ` {n. bit (drop_bit 1 x) n}"
    proof (intro set_eqI iffI)
      fix n
      assume "n \<in> {n. bit x n}"
      then show "n \<in> (if bit x 0 then {0} else {}) \<union> Suc ` {n. bit (drop_bit 1 x) n}"
        by (cases n) (auto simp: bit_drop_bit_eq)
    qed (auto simp: bit_drop_bit_eq split: if_splits)
    then have "card {n. bit x n} = (if bit x 0 then 1 else 0) + card {n. bit (drop_bit 1 x) n}"
      using fin by (simp add: card_image card_insert_if)
    moreover have "unat (x AND 1) = (if bit x 0 then 1 else 0)"
      by (simp add: and_one_eq bit_0 odd_iff_mod_2_eq_one)
    ultimately show ?thesis using 1 False by (subst bit_count.simps) simp
  qed
qed

lemma finite_bits: "finite {n. bit (x :: 8 word) n}"
  by (rule finite_subset [of _ "{..<8}"]) (auto dest: bit_imp_le_length)

lemma bit_count_xor: "bit_count (x XOR z) \<le> bit_count (x XOR y) + bit_count (y XOR z)"
proof -
  have "{n. bit (x XOR z) n} \<subseteq> {n. bit (x XOR y) n} \<union> {n. bit (y XOR z) n}" by (auto simp: bit_xor_iff)
  then have "card {n. bit (x XOR z) n} \<le> card ({n. bit (x XOR y) n} \<union> {n. bit (y XOR z) n})"
    by (rule card_mono [rotated]) (simp add: finite_bits)
  also have "\<dots> \<le> card {n. bit (x XOR y) n} + card {n. bit (y XOR z) n}" by (rule card_Un_le)
  finally show ?thesis by (simp add: bit_count_card)
qed

lemma bit_count_zero: "bit_count x = 0 \<longleftrightarrow> x = 0"
proof
  assume "bit_count x = 0"
  then have "{n. bit x n} = {}" by (simp add: bit_count_card finite_bits)
  then show "x = 0" by (intro bit_eqI) auto
qed (simp add: bit_count.simps)

lemma unat_byte_of: "unat (byte_of c) = of_char c"
proof -
  have "(of_char c :: nat) mod 256 = of_char c" by simp
  moreover have "byte_of c = of_nat (of_char c)" by (cases c) (simp add: byte_of_def)
  ultimately show ?thesis by (simp only: unat_of_nat) simp
qed

lemma byte_of_eq: "byte_of a = byte_of b \<longleftrightarrow> a = b"
  by (metis unat_byte_of of_char_eq_iff)

lemma bit_count_same: "bit_count (byte_of a XOR byte_of b) = 0 \<longleftrightarrow> a = b"
proof -
  have "byte_of a XOR byte_of b = 0 \<longleftrightarrow> byte_of a = byte_of b" by (auto simp: bit_eq_iff bit_xor_iff)
  then show ?thesis by (simp add: bit_count_zero byte_of_eq)
qed

lemma bit_count_commute: "bit_count (x XOR y) = bit_count (y XOR x)"
  by (simp only: xor.commute [of x y])

lemma hamming_total: "length a \<le> length b \<Longrightarrow> \<exists>d. hamming_bits a b = Some d"
  by (induction a b rule: hamming_bits.induct) auto

lemma hamming_same: "hamming_bits a b = Some 0 \<Longrightarrow> length a = length b \<Longrightarrow> a = b"
  by (induction a b rule: hamming_bits.induct) (auto simp: bit_count_same split: option.splits)

lemma hamming_refl: "hamming_bits a a = Some 0"
  by (induction a) (simp_all add: bit_count.simps)

lemma hamming_sym: "length a = length b \<Longrightarrow> hamming_bits a b = hamming_bits b a"
  by (induction a b rule: list_induct2) (simp_all add: bit_count_commute split: option.splits)

lemma hamming_triangle:
  assumes "length a = length b" "length b = length c"
  shows "\<exists>x y z. hamming_bits a c = Some x \<and> hamming_bits a b = Some y \<and> hamming_bits b c = Some z \<and> x \<le> y + z"
  using assms
proof (induction a b c rule: list_induct3)
  case (Cons p a q b r c)
  then obtain x y z where "hamming_bits a c = Some x" "hamming_bits a b = Some y" "hamming_bits b c = Some z" "x \<le> y + z"
    by auto
  then show ?case using bit_count_xor [of "byte_of p" "byte_of r" "byte_of q"] by simp
qed simp

lemma hex_decode_length: "hex_decode s = Some b \<Longrightarrow> length s = 2 * length b"
  by (induction s arbitrary: b rule: hex_decode.induct) (auto split: option.splits)



end
