(* ===== verification/Phash_Groups.thy ===== *)
theory Phash_Groups
  imports Phash
begin

text \<open>
  Grouping files by perceptual hash (\<open>internal/dedup/dedup_phash_primary.go\<close>): the union-find with path
  compression, the pass over all pairs, and the connected components it leaves.
\<close>

section \<open>Union-find\<close>

text \<open>
  The parent slice. \<open>find\<close> writes the root it found into every node it passed. \<open>None\<close> is an index out
  of range or a chain of parents without a root.
\<close>

partial_function (option) uf_find :: "nat list \<Rightarrow> nat \<Rightarrow> (nat \<times> nat list) option" where
  "uf_find l x =
     (if length l \<le> x then None
      else if l ! x = x then Some (x, l)
      else Option.bind (uf_find l (l ! x)) (\<lambda>(r, l'). Some (r, l'[x := r])))"

declare uf_find.simps [code]

definition new_phash_union_find :: "nat \<Rightarrow> nat list" where
  "new_phash_union_find n = [0..<n]"

definition uf_union :: "nat list \<Rightarrow> nat \<Rightarrow> nat \<Rightarrow> nat list option" where
  "uf_union l x y =
     (case uf_find l x of
        None \<Rightarrow> None
      | Some (rx, l1) \<Rightarrow>
          (case uf_find l1 y of None \<Rightarrow> None | Some (ry, l2) \<Rightarrow> Some (l2[rx := ry])))"

section \<open>Items and groups\<close>

record phash_item =
  pi_path :: gostring
  pi_label :: gostring
  pi_tracked :: int
  pi_tmdb :: int
  pi_title :: gostring
  pi_season :: int
  pi_episode :: int
  pi_extra :: "int list"
  pi_hash :: gostring

definition phash_within :: "int \<Rightarrow> phash_item \<Rightarrow> phash_item \<Rightarrow> bool" where
  "phash_within threshold a b =
     (if pi_hash a = [] \<or> pi_hash b = [] then False
      else similarity_within (pi_hash a) (pi_hash b) phash_frames threshold = Some (Some True))"

definition phash_same_tracked_row :: "phash_item \<Rightarrow> phash_item \<Rightarrow> bool" where
  "phash_same_tracked_row a b \<longleftrightarrow> pi_tracked a \<noteq> 0 \<and> pi_tracked a = pi_tracked b"

definition linked :: "int \<Rightarrow> phash_item \<Rightarrow> phash_item \<Rightarrow> bool" where
  "linked threshold a b \<longleftrightarrow> phash_same_tracked_row a b \<or> phash_within threshold a b"

text \<open>The pairs of the two loops that are linked, in their order, and the unions.\<close>

definition linked_pairs :: "(nat \<Rightarrow> nat \<Rightarrow> bool) \<Rightarrow> nat \<Rightarrow> (nat \<times> nat) list" where
  "linked_pairs match n = concat (map (\<lambda>i. map (Pair i) (filter (match i) [Suc i..<n])) [0..<n])"

fun union_pairs :: "(nat \<times> nat) list \<Rightarrow> nat list \<Rightarrow> nat list option" where
  "union_pairs [] l = Some l"
| "union_pairs ((i, j) # ps) l = (case uf_union l i j of None \<Rightarrow> None | Some l' \<Rightarrow> union_pairs ps l')"

definition union_by_phash_and_identity :: "int \<Rightarrow> phash_item list \<Rightarrow> nat list option" where
  "union_by_phash_and_identity threshold items =
     union_pairs (linked_pairs (\<lambda>i j. linked threshold (items ! i) (items ! j)) (length items))
       (new_phash_union_find (length items))"

text \<open>The map from roots to members. A Go map yields them in any order; here it is that of the first members.\<close>

fun add_to_group :: "nat \<Rightarrow> 'a \<Rightarrow> (nat \<times> 'a list) list \<Rightarrow> (nat \<times> 'a list) list" where
  "add_to_group r a [] = [(r, [a])]"
| "add_to_group r a ((k, g) # m) = (if k = r then (k, g @ [a]) # m else (k, g) # add_to_group r a m)"

fun by_root :: "phash_item list \<Rightarrow> nat list \<Rightarrow> nat list \<Rightarrow> (nat \<times> phash_item list) list \<Rightarrow> (nat \<times> phash_item list) list option" where
  "by_root items [] l m = Some m"
| "by_root items (i # is) l m =
     (case uf_find l i of None \<Rightarrow> None | Some (r, l') \<Rightarrow> by_root items is l' (add_to_group r (items ! i) m))"

definition phash_group_components :: "phash_item list \<Rightarrow> nat list \<Rightarrow> phash_item list list option" where
  "phash_group_components items l =
     map_option (\<lambda>m. filter (\<lambda>g. 2 \<le> length g) (map snd m)) (by_root items [0..<length items] l [])"

definition phash_groups :: "int \<Rightarrow> phash_item list \<Rightarrow> phash_item list list option" where
  "phash_groups threshold items =
     (case union_by_phash_and_identity threshold items of
        None \<Rightarrow> None | Some l \<Rightarrow> phash_group_components items l)"

section \<open>Roots\<close>

inductive leads :: "nat list \<Rightarrow> nat \<Rightarrow> nat \<Rightarrow> bool" for l where
  root: "i < length l \<Longrightarrow> l ! i = i \<Longrightarrow> leads l i i"
| parent: "i < length l \<Longrightarrow> l ! i \<noteq> i \<Longrightarrow> leads l (l ! i) r \<Longrightarrow> leads l i r"

lemma leads_det: "leads l i r \<Longrightarrow> leads l i s \<Longrightarrow> r = s"
proof (induction rule: leads.induct)
  case (root i)
  from root.prems show ?case using root.hyps by (cases rule: leads.cases) auto
next
  case (parent i r)
  from parent.prems show ?case using parent.hyps parent.IH by (cases rule: leads.cases) auto
qed

lemma leads_bounds: "leads l i r \<Longrightarrow> i < length l \<and> r < length l \<and> l ! r = r"
  by (induction rule: leads.induct) auto

definition rep :: "nat list \<Rightarrow> nat \<Rightarrow> nat" where
  "rep l i = (THE r. leads l i r)"

definition uf_ok :: "nat list \<Rightarrow> bool" where
  "uf_ok l \<longleftrightarrow> (\<forall>i<length l. \<exists>r. leads l i r)"

lemma leads_rep: "uf_ok l \<Longrightarrow> i < length l \<Longrightarrow> leads l i (rep l i)"
  unfolding rep_def uf_ok_def by (metis leads_det theI)

lemma rep_leads: "leads l i r \<Longrightarrow> rep l i = r"
  unfolding rep_def by (blast intro: leads_det)

text \<open>Writing a root into a node changes no root.\<close>

lemma leads_compress:
  assumes "leads l x r" shows "leads l i s \<Longrightarrow> leads (l[x := r]) i s"
proof (induction rule: leads.induct)
  case (root i)
  have "r = x" if "i = x" using leads_det [OF assms, of x] leads.root [of x l] root that by auto
  then have "l[x := r] ! i = i" using root by (cases "i = x") auto
  then show ?case using root by (auto intro: leads.root)
next
  case (parent i s)
  show ?case
  proof (cases "i = x")
    case True
    have s: "s = r" using leads_det [OF leads.parent [OF parent.hyps] assms [folded True]] .
    have r: "r < length l" "l ! r = r" "r \<noteq> x" using leads_bounds [OF assms] parent(2) True by auto
    have "leads (l[x := r]) r r" using r by (auto intro: leads.root)
    then show ?thesis using leads.parent [of x "l[x := r]" r] True parent(1) r s by simp
  next
    case False
    then show ?thesis using leads.parent [of i "l[x := r]" s] parent by simp
  qed
qed

lemma leads_union:
  assumes "leads l y ry" "rx < length l" "l ! rx = rx"
  shows "leads l i s \<Longrightarrow> leads (l[rx := ry]) i (if s = rx then ry else s)"
proof (induction rule: leads.induct)
  case (root i)
  have ry: "ry < length l" "l ! ry = ry" using leads_bounds [OF assms(1)] by auto
  show ?case
  proof (cases "i = rx")
    case True
    have r: "leads (l[rx := ry]) ry ry" using ry by (cases "ry = rx") (auto intro: leads.root)
    have "leads (l[rx := ry]) rx ry"
    proof (cases "ry = rx")
      case False
      then show ?thesis using r assms(2) leads.parent [of rx "l[rx := ry]" ry] by simp
    qed (use r in simp)
    then show ?thesis using True by simp
  next
    case False
    then show ?thesis using root leads.root [of i "l[rx := ry]"] by simp
  qed
next
  case (parent i s)
  have "i \<noteq> rx" using parent(2) assms(3) by auto
  then show ?case using leads.parent [of i "l[rx := ry]"] parent by simp
qed

lemma uf_find_leads:
  "leads l x r \<Longrightarrow> \<exists>l'. uf_find l x = Some (r, l') \<and> length l' = length l \<and> (\<forall>i s. leads l i s \<longrightarrow> leads l' i s)"
proof (induction rule: leads.induct)
  case (root i)
  then show ?case by (subst uf_find.simps) simp
next
  case (parent i r)
  then obtain l' where l': "uf_find l (l ! i) = Some (r, l')" "length l' = length l" "\<forall>i s. leads l i s \<longrightarrow> leads l' i s"
    by blast
  have "leads l' i r" using l'(3) leads.parent [OF parent.hyps] by blast
  then have "\<forall>j s. leads l j s \<longrightarrow> leads (l'[i := r]) j s" using l'(3) leads_compress by blast
  then show ?case using parent(1,2) l' by (subst uf_find.simps) simp
qed

section \<open>The pass over the pairs\<close>

text \<open>The connections of the links, read in both directions.\<close>

definition joined :: "(nat \<times> nat) set \<Rightarrow> (nat \<times> nat) set" where
  "joined E = (E \<union> E\<inverse>)\<^sup>*"

lemma joined_refl: "(i, i) \<in> joined E"
  by (simp add: joined_def)

lemma joined_sym: "(i, j) \<in> joined E \<Longrightarrow> (j, i) \<in> joined E"
  unfolding joined_def by (metis converse_Un converse_converse converseI rtrancl_converseI sup_commute)

lemma joined_trans: "(i, j) \<in> joined E \<Longrightarrow> (j, k) \<in> joined E \<Longrightarrow> (i, k) \<in> joined E"
  unfolding joined_def by (rule rtrancl_trans)

lemma joined_mono: "E \<subseteq> F \<Longrightarrow> joined E \<subseteq> joined F"
  unfolding joined_def by (intro rtrancl_mono) auto

lemma joined_link: "(i, j) \<in> E \<Longrightarrow> (i, j) \<in> joined E"
  unfolding joined_def by auto

text \<open>A slice stands for links when its roots tell apart exactly what they do not connect.\<close>

definition stands_for :: "nat list \<Rightarrow> nat \<Rightarrow> (nat \<times> nat) set \<Rightarrow> bool" where
  "stands_for l n E \<longleftrightarrow> length l = n \<and> uf_ok l \<and>
     (\<forall>i<n. \<forall>j<n. rep l i = rep l j \<longrightarrow> (i, j) \<in> joined E) \<and> (\<forall>(i, j)\<in>E. i < n \<and> j < n \<and> rep l i = rep l j)"

lemma stands_for_new: "stands_for (new_phash_union_find n) n {}"
proof -
  have "leads [0..<n] i i" if "i < n" for i using that by (auto intro: leads.root)
  then have "uf_ok [0..<n]" "\<forall>i<n. rep [0..<n] i = i" using rep_leads by (auto simp: uf_ok_def)
  then show ?thesis by (auto simp: stands_for_def new_phash_union_find_def joined_refl)
qed

definition same_roots :: "nat list \<Rightarrow> nat list \<Rightarrow> bool" where
  "same_roots l l' \<longleftrightarrow> length l' = length l \<and> (\<forall>i s. leads l i s \<longrightarrow> leads l' i s)"

lemma same_roots_rep: "same_roots l l' \<Longrightarrow> uf_ok l \<Longrightarrow> i < length l \<Longrightarrow> rep l' i = rep l i"
  using leads_rep rep_leads by (auto simp: same_roots_def)

lemma same_roots_ok: "same_roots l l' \<Longrightarrow> uf_ok l \<Longrightarrow> uf_ok l'"
  unfolding same_roots_def uf_ok_def by metis

lemma uf_find_ok: "uf_ok l \<Longrightarrow> x < length l \<Longrightarrow> \<exists>l'. uf_find l x = Some (rep l x, l') \<and> same_roots l l'"
  using uf_find_leads [OF leads_rep] by (simp add: same_roots_def)

text \<open>A union joins the two classes and no others.\<close>

lemma uf_union_ok:
  assumes "uf_ok l" "x < length l" "y < length l"
  shows "\<exists>l'. uf_union l x y = Some l' \<and> length l' = length l \<and> uf_ok l' \<and>
    (\<forall>i<length l. rep l' i = (if rep l i = rep l x then rep l y else rep l i))"
proof -
  obtain l1 where 1: "uf_find l x = Some (rep l x, l1)" "same_roots l l1" using uf_find_ok [OF assms(1,2)] by blast
  have ok1: "uf_ok l1" "length l1 = length l" using same_roots_ok [OF 1(2) assms(1)] 1(2) by (auto simp: same_roots_def)
  obtain l2 where 2: "uf_find l1 y = Some (rep l1 y, l2)" "same_roots l1 l2" using uf_find_ok [of l1 y] ok1 assms(3) by auto
  have ry: "rep l1 y = rep l y" using same_roots_rep [OF 1(2) assms(1,3)] .
  have s: "same_roots l l2" using 1(2) 2(2) by (auto simp: same_roots_def)
  have ly: "leads l2 y (rep l y)" and lx: "leads l2 x (rep l x)" using leads_rep [OF assms(1)] assms(2,3) s by (auto simp: same_roots_def)
  have "leads (l2[rep l x := rep l y]) i (if rep l i = rep l x then rep l y else rep l i)" if "i < length l" for i
    using leads_union [OF ly, of "rep l x" i "rep l i"] leads_bounds [OF lx] leads_rep [OF assms(1) that] s
    by (auto simp: same_roots_def)
  then show ?thesis
    using 1(1) 2(1) ry s rep_leads by (auto simp: uf_union_def same_roots_def uf_ok_def)
qed

lemma stands_for_union:
  assumes l: "stands_for l n E" and "x < n" "y < n"
  shows "\<exists>l'. uf_union l x y = Some l' \<and> stands_for l' n (insert (x, y) E)"
proof -
  have ok: "uf_ok l" "x < length l" "y < length l" and n: "length l = n" using assms by (auto simp: stands_for_def)
  obtain l' where l': "uf_union l x y = Some l'" "length l' = length l" "uf_ok l'"
      "\<forall>i<length l. rep l' i = (if rep l i = rep l x then rep l y else rep l i)"
    using uf_union_ok [OF ok] by blast
  let ?E = "insert (x, y) E"
  have old: "(i, j) \<in> joined ?E" if "i < n" "j < n" "rep l i = rep l j" for i j
    using l that joined_mono [of E ?E] by (auto simp: stands_for_def)
  have new: "(x, y) \<in> joined ?E" by (simp add: joined_link)
  have "(i, j) \<in> joined ?E" if ij: "i < n" "j < n" and e: "rep l' i = rep l' j" for i j
  proof -
    have *: "(k, y) \<in> joined ?E" if "k < n" "rep l' k = rep l y" for k
    proof (cases "rep l k = rep l x")
      case True
      then have "(k, x) \<in> joined ?E" using old [of k x] that assms(2) by auto
      then show ?thesis using new joined_trans by blast
    next
      case False
      then show ?thesis using old [of k y] that assms(3) l'(4) n by auto
    qed
    show ?thesis
    proof (cases "rep l' i = rep l y")
      case True
      then show ?thesis using * [of i] * [of j] ij e joined_sym joined_trans by metis
    next
      case False
      then have "rep l i = rep l j" using e l'(4) ij n by (auto split: if_splits)
      then show ?thesis using old ij by blast
    qed
  qed
  moreover have "\<forall>(i, j)\<in>?E. i < n \<and> j < n \<and> rep l' i = rep l' j"
    using l l'(4) assms(2,3) n by (auto simp: stands_for_def)
  ultimately show ?thesis using l'(1-3) n by (auto simp: stands_for_def)
qed

lemma union_pairs_ok:
  "stands_for l n E \<Longrightarrow> \<forall>(i, j)\<in>set ps. i < n \<and> j < n \<Longrightarrow>
   \<exists>l'. union_pairs ps l = Some l' \<and> stands_for l' n (E \<union> set ps)"
proof (induction ps arbitrary: l E)
  case (Cons p ps)
  obtain i j where p: "p = (i, j)" by fastforce
  obtain l1 where 1: "uf_union l i j = Some l1" "stands_for l1 n (insert (i, j) E)"
    using stands_for_union [OF Cons.prems(1), of i j] Cons.prems(2) p by auto
  obtain l' where "union_pairs ps l1 = Some l'" "stands_for l' n (insert (i, j) E \<union> set ps)"
    using Cons.IH [OF 1(2)] Cons.prems(2) by auto
  then show ?case using 1(1) p by simp
qed simp

text \<open>Then the roots are the same exactly for what the links connect.\<close>

lemma stands_for_iff:
  assumes "stands_for l n E" "i < n" "j < n"
  shows "rep l i = rep l j \<longleftrightarrow> (i, j) \<in> joined E"
proof
  assume "(i, j) \<in> joined E"
  then have "j < n \<and> rep l i = rep l j"
    unfolding joined_def using assms by induction (auto simp: stands_for_def)
  then show "rep l i = rep l j" by simp
qed (use assms in \<open>auto simp: stands_for_def\<close>)

section \<open>The groups\<close>

lemma add_to_group_keys: "distinct (map fst m) \<Longrightarrow> distinct (map fst (add_to_group r a m)) \<and>
    fst ` set (add_to_group r a m) = insert r (fst ` set m)"
  by (induction r a m rule: add_to_group.induct) auto

lemma add_to_group_lookup:
  "map_of (add_to_group r a m) k =
     (if k = r then Some ((case map_of m r of None \<Rightarrow> [] | Some g \<Rightarrow> g) @ [a]) else map_of m k)"
  by (induction r a m rule: add_to_group.induct) auto

text \<open>The groups after the members \<open>js\<close>, with \<open>f\<close> their roots.\<close>

definition groups_of :: "(nat \<Rightarrow> nat) \<Rightarrow> (nat \<Rightarrow> 'a) \<Rightarrow> nat list \<Rightarrow> (nat \<times> 'a list) list \<Rightarrow> bool" where
  "groups_of f item js m \<longleftrightarrow> distinct (map fst m) \<and>
     (\<forall>k. map_of m k = (if k \<in> f ` set js then Some (map item (filter (\<lambda>j. f j = k) js)) else None))"

lemma groups_of_add:
  assumes "groups_of f item js m"
  shows "groups_of f item (js @ [i]) (add_to_group (f i) (item i) m)"
proof -
  have none: "filter (\<lambda>j. f j = k) js = []" if "k \<notin> f ` set js" for k using that by (auto simp: filter_empty_conv)
  have m: "map_of m k = (if k \<in> f ` set js then Some (map item (filter (\<lambda>j. f j = k) js)) else None)" for k
    using assms by (simp add: groups_of_def)
  have "map_of (add_to_group (f i) (item i) m) k =
      (if k \<in> f ` set (js @ [i]) then Some (map item (filter (\<lambda>j. f j = k) (js @ [i]))) else None)" for k
    by (cases "k = f i") (simp_all add: add_to_group_lookup m none)
  then show ?thesis using add_to_group_keys [of m "f i" "item i"] assms by (simp add: groups_of_def)
qed

lemma by_root_ok:
  "uf_ok l \<Longrightarrow> \<forall>i<length l. rep l i = f i \<Longrightarrow> \<forall>i\<in>set is. i < length l \<Longrightarrow> groups_of f ((!) items) js m \<Longrightarrow>
   \<exists>m'. by_root items is l m = Some m' \<and> groups_of f ((!) items) (js @ is) m'"
proof (induction "is" arbitrary: l js m)
  case (Cons i "is")
  have i: "i < length l" "rep l i = f i" using Cons.prems(2,3) by auto
  obtain l1 where 1: "uf_find l i = Some (f i, l1)" "same_roots l l1"
    using uf_find_ok [OF Cons.prems(1) i(1)] i(2) by auto
  have ok: "uf_ok l1" "length l1 = length l" using same_roots_ok [OF 1(2) Cons.prems(1)] 1(2) by (auto simp: same_roots_def)
  have "\<forall>i<length l1. rep l1 i = f i" using same_roots_rep [OF 1(2) Cons.prems(1)] Cons.prems(2) ok(2) by simp
  then have "\<exists>m'. by_root items is l1 (add_to_group (f i) (items ! i) m) = Some m' \<and> groups_of f ((!) items) ((js @ [i]) @ is) m'"
    by (intro Cons.IH ok(1)) (use Cons.prems(3) ok(2) groups_of_add [OF Cons.prems(4)] in auto)
  then show ?case using 1(1) by simp
qed simp

lemma linked_pairs_set: "set (linked_pairs match n) = {(i, j). i < j \<and> j < n \<and> match i j}"
  by (force simp: linked_pairs_def image_iff)

text \<open>What has no link is joined to nothing else.\<close>

lemma joined_two:
  assumes "\<And>k. (k, j) \<notin> E \<and> (j, k) \<notin> E" and "(i, j) \<in> joined E"
  shows "length (filter (\<lambda>k. (i, k) \<in> joined E) [0..<n]) < 2"
proof -
  have alone: "k = j" if "(j, k) \<in> joined E" for k
    using that assms(1) unfolding joined_def by (auto elim: converse_rtranclE)
  have "i = j" using alone joined_sym [OF assms(2)] by simp
  then have "set (filter (\<lambda>k. (i, k) \<in> joined E) [0..<n]) \<subseteq> {j}" using alone by auto
  then have "card (set (filter (\<lambda>k. (i, k) \<in> joined E) [0..<n])) \<le> 1"
    using card_mono [of "{j}"] by fastforce
  moreover have "distinct (filter (\<lambda>k. (i, k) \<in> joined E) [0..<n])" by simp
  ultimately show ?thesis using distinct_card by fastforce
qed

lemma phash_groups_spec:
  "\<exists>gs. phash_groups threshold items = Some gs \<and>
    (let n = length items;
         E = {(i, j). i < j \<and> j < n \<and> linked threshold (items ! i) (items ! j)};
         component = (\<lambda>i. map ((!) items) (filter (\<lambda>j. (i, j) \<in> joined E) [0..<n])) in
     set gs = {g. \<exists>i<n. g = component i \<and> 2 \<le> length g}) \<and>
    (\<forall>g\<in>set gs. \<forall>p\<in>set g. pi_hash p \<noteq> [] \<or> pi_tracked p \<noteq> 0)"
proof -
  let ?n = "length items"
  let ?E = "{(i, j). i < j \<and> j < ?n \<and> linked threshold (items ! i) (items ! j)}"
  let ?comp = "\<lambda>i. map ((!) items) (filter (\<lambda>j. (i, j) \<in> joined ?E) [0..<?n])"
  let ?ps = "linked_pairs (\<lambda>i j. linked threshold (items ! i) (items ! j)) ?n"
  have ps: "set ?ps = ?E" by (rule linked_pairs_set)
  have "\<forall>(i, j)\<in>set ?ps. i < ?n \<and> j < ?n" by (auto simp: ps)
  from union_pairs_ok [OF stands_for_new this] obtain l where
      l: "union_by_phash_and_identity threshold items = Some l" "stands_for l ?n ?E"
    by (auto simp: union_by_phash_and_identity_def ps)
  have ok: "uf_ok l" "length l = ?n" using l(2) by (auto simp: stands_for_def)
  have "groups_of (rep l) ((!) items) [] []" by (simp add: groups_of_def)
  from by_root_ok [OF ok(1) _ _ this, of "[0..<?n]"] obtain m where
      m: "by_root items [0..<?n] l [] = Some m" "groups_of (rep l) ((!) items) [0..<?n] m"
    using ok(2) by auto
  have comp: "?comp i = map ((!) items) (filter (\<lambda>j. rep l j = rep l i) [0..<?n])" if "i < ?n" for i
  proof -
    have "filter (\<lambda>j. (i, j) \<in> joined ?E) [0..<?n] = filter (\<lambda>j. rep l j = rep l i) [0..<?n]"
      by (rule filter_cong) (simp_all add: stands_for_iff [OF l(2) that, symmetric] eq_commute [of "rep l i"])
    then show ?thesis by simp
  qed
  have "set (map snd m) = {g. \<exists>k. map_of m k = Some g}"
  proof -
    have "distinct (map fst m)" using m(2) by (simp add: groups_of_def)
    then show ?thesis by (force simp: image_iff)
  qed
  also have "\<dots> = {g. \<exists>i<?n. g = map ((!) items) (filter (\<lambda>j. rep l j = rep l i) [0..<?n])}"
    using m(2) by (auto simp: groups_of_def split: if_splits)
  also have "\<dots> = {g. \<exists>i<?n. g = ?comp i}" using comp by (intro Collect_cong ex_cong1) auto
  finally have g: "set (map snd m) = {g. \<exists>i<?n. g = ?comp i}" .
  let ?gs = "filter (\<lambda>g. 2 \<le> length g) (map snd m)"
  have r: "phash_groups threshold items = Some ?gs"
    using l(1) m(1) by (simp add: phash_groups_def phash_group_components_def)
  have s: "set ?gs = {g. \<exists>i<?n. g = ?comp i \<and> 2 \<le> length g}" using g by auto
  have "pi_hash (items ! j) \<noteq> [] \<or> pi_tracked (items ! j) \<noteq> 0"
    if "2 \<le> length (?comp i)" "(i, j) \<in> joined ?E" for i j
  proof (rule ccontr)
    assume "\<not> (pi_hash (items ! j) \<noteq> [] \<or> pi_tracked (items ! j) \<noteq> 0)"
    then have "(k, j) \<notin> ?E \<and> (j, k) \<notin> ?E" for k by (auto simp: linked_def phash_within_def phash_same_tracked_row_def)
    from joined_two [OF this that(2), of ?n] that(1) show False by simp
  qed
  then have "\<forall>g\<in>set ?gs. \<forall>p\<in>set g. pi_hash p \<noteq> [] \<or> pi_tracked p \<noteq> 0"
    unfolding s by auto
  then show ?thesis using r s unfolding Let_def by blast
qed

text \<open>
  C23. The grouping always returns, and its groups are the connected components, of two files or more, of the
  relation that links two files when they are recorded on one library row or their hashes are close: a file
  is with every file that a chain of such links reaches and with no other, listed once, in the order of the
  scan; so a file without hash and library row is never offered for deletion.
\<close>

theorem groups_are_components:
  "\<exists>gs. phash_groups threshold items = Some gs \<and>
    (let n = length items;
         E = {(i, j). i < j \<and> j < n \<and> linked threshold (items ! i) (items ! j)};
         component = (\<lambda>i. map ((!) items) (filter (\<lambda>j. (i, j) \<in> joined E) [0..<n])) in
     set gs = {g. \<exists>i<n. g = component i \<and> 2 \<le> length g}) \<and>
    (\<forall>g\<in>set gs. \<forall>p\<in>set g. pi_hash p \<noteq> [] \<or> pi_tracked p \<noteq> 0)"
  by (rule phash_groups_spec)

text \<open>Two copies of one library row without hashes.\<close>

definition sample_copy :: "gostring \<Rightarrow> phash_item" where
  "sample_copy path = \<lparr>pi_path = path, pi_label = path, pi_tracked = 5, pi_tmdb = 1, pi_title = ''T'', pi_season = 0,
     pi_episode = 0, pi_extra = [], pi_hash = []\<rparr>"

theorem groups_are_components_witness:
  "\<exists>gs. phash_groups 40 [sample_copy ''/a'', sample_copy ''/b''] = Some gs \<and>
     [sample_copy ''/a'', sample_copy ''/b''] \<in> set gs"
proof -
  let ?items = "[sample_copy ''/a'', sample_copy ''/b'']"
  let ?E = "{(i, j). i < j \<and> j < length ?items \<and> linked 40 (?items ! i) (?items ! j)}"
  obtain gs where gs: "phash_groups 40 ?items = Some gs"
    "set gs = {g. \<exists>i<length ?items. g = map ((!) ?items) (filter (\<lambda>j. (i, j) \<in> joined ?E) [0..<length ?items]) \<and> 2 \<le> length g}"
    using groups_are_components [of 40 ?items] unfolding Let_def by blast
  have "(0, 1) \<in> ?E" by (simp add: linked_def phash_same_tracked_row_def sample_copy_def)
  then have "(0, 1) \<in> joined ?E" by (rule joined_link)
  then have "filter (\<lambda>j. (0, j) \<in> joined ?E) [0..<length ?items] = [0, 1]"
    using joined_refl [of 0 ?E] by (simp add: upt_rec)
  then have "map ((!) ?items) (filter (\<lambda>j. (0, j) \<in> joined ?E) [0..<length ?items]) = ?items" by simp
  then have "?items \<in> set gs" unfolding gs(2) by (intro CollectI exI [of _ 0]) simp
  then show ?thesis using gs(1) by blast
qed

end
