(* ===== verification/Dedup_Scan.thy ===== *)
theory Dedup_Scan
  imports Media_Files Library_Items Phash_Groups Proposals Stable_Sort
begin

text \<open>
  The duplicate scan of the movie library (\<open>internal/dedup/dedup_phash_primary.go\<close>, \<open>dedup.go\<close>,
  \<open>internal/place/place.go\<close>, \<open>internal/library/library_orphan_phash.go\<close>): the files of the catalogue and the
  files that no title has, their hashes and the two caches of them, the groups, the candidates and the choice of
  the winner. \<open>ffprobe\<close> and the hashing of pictures are parameters. Progress reports and the reason text of a
  proposal are left out.
\<close>

section \<open>Quality\<close>

record quality_key =
  qk_resolution :: int
  qk_source_rank :: int
  qk_av1 :: bool
  qk_bitrate :: int

definition quality_greater :: "quality_key \<Rightarrow> quality_key \<Rightarrow> bool" where
  "quality_greater k other =
     (if qk_resolution k \<noteq> qk_resolution other then qk_resolution other < qk_resolution k
      else if qk_source_rank k \<noteq> qk_source_rank other then qk_source_rank other < qk_source_rank k
      else if qk_av1 k \<noteq> qk_av1 other then qk_av1 k
      else qk_bitrate other < qk_bitrate k)"

definition new_quality_key :: "int \<Rightarrow> int \<Rightarrow> gostring \<Rightarrow> int \<Rightarrow> quality_key" where
  "new_quality_key resolution rank codec bitrate =
     \<lparr>qk_resolution = resolution, qk_source_rank = rank, qk_av1 = equal_fold codec ''av1'', qk_bitrate = bitrate\<rparr>"

definition candidate_key :: "dup_candidate \<Rightarrow> quality_key" where
  "candidate_key c = new_quality_key (dc_resolution c) 0 (dc_codec c) (dc_bitrate c)"

definition better :: "dup_candidate \<Rightarrow> dup_candidate \<Rightarrow> bool" where
  "better c d = quality_greater (candidate_key c) (candidate_key d)"

text \<open>The loop of \<open>markWinner\<close> over the candidates after the first; it is called with two candidates or more.\<close>

fun best_from :: "nat \<Rightarrow> quality_key \<Rightarrow> nat \<Rightarrow> dup_candidate list \<Rightarrow> nat" where
  "best_from best key i [] = best"
| "best_from best key i (c # cs) =
     (if quality_greater (candidate_key c) key then best_from i (candidate_key c) (Suc i) cs
      else best_from best key (Suc i) cs)"

definition mark_winner :: "dup_candidate list \<Rightarrow> dup_candidate list" where
  "mark_winner cs =
     (case cs of
        [] \<Rightarrow> []
      | c # rest \<Rightarrow> (let b = best_from 0 (candidate_key c) 1 rest in cs[b := (cs ! b)\<lparr>dc_winner := True\<rparr>]))"

fun first_winner :: "nat \<Rightarrow> dup_candidate list \<Rightarrow> nat option" where
  "first_winner i [] = None"
| "first_winner i (c # cs) = (if dc_winner c then Some i else first_winner (Suc i) cs)"

definition winner_index :: "dup_candidate list \<Rightarrow> nat" where
  "winner_index cs = (case first_winner 0 cs of None \<Rightarrow> 0 | Some i \<Rightarrow> i)"

section \<open>Hashes and their caches\<close>

text \<open>
  What a scan reads from outside: the files, the picture hasher and \<open>ffprobe\<close> (height, codec and bit rate), and
  which statements fail. The two stores of hashes are the title's own columns, for its primary file, and the
  table \<open>orphan_phashes\<close>.
\<close>

record scan_env =
  se_fs :: file_system
  se_hash :: "gostring \<Rightarrow> gostring option"
  se_probe :: "gostring \<Rightarrow> (int \<times> gostring \<times> int) option"
  se_list_fault :: bool
  se_files_fault :: "int \<Rightarrow> bool"
  se_read_fault :: "gostring \<Rightarrow> bool"
  se_store_fault :: "gostring \<Rightarrow> bool"
  se_prune_fault :: bool

record orphan_phash =
  oh_hash :: gostring
  oh_size :: int
  oh_mtime :: gostring

type_synonym hash_cache = "(gostring \<times> orphan_phash) list"
type_synonym scan_state = "catalogue \<times> hash_cache"

text \<open>The size and time of a directory are never those of a cached file; they are taken as zero.\<close>

definition file_identity :: "file_system \<Rightarrow> gostring \<Rightarrow> (int \<times> gostring) option" where
  "file_identity fs path =
     (case fs path of None \<Rightarrow> None | Some (Fs_file _ b t) \<Rightarrow> Some (b, t) | Some (Fs_dir _ _ _) \<Rightarrow> Some (0, []))"

definition current_scheme :: "gostring \<Rightarrow> bool" where
  "current_scheme h \<longleftrightarrow> h \<noteq> [] \<and> has_prefix (phash_scheme @ '':'') h"

definition load_or_compute_orphan_phash :: "scan_env \<Rightarrow> gostring \<Rightarrow> hash_cache \<Rightarrow> gostring \<times> hash_cache" where
  "load_or_compute_orphan_phash env path cache =
     (case file_identity (se_fs env) path of
        None \<Rightarrow> ([], cache)
      | Some (bytes, mtime) \<Rightarrow>
          (let compute = (case se_hash env path of
               None \<Rightarrow> ([], cache)
             | Some h \<Rightarrow> (h, if se_store_fault env path then cache
                 else AList.update path \<lparr>oh_hash = h, oh_size = bytes, oh_mtime = mtime\<rparr> cache))
           in case map_of cache path of
                None \<Rightarrow> compute
              | Some r \<Rightarrow>
                  if \<not> se_read_fault env path \<and> current_scheme (oh_hash r) \<and> oh_size r = bytes \<and> oh_mtime r = mtime
                  then (oh_hash r, cache) else compute))"

definition update_phash :: "int \<Rightarrow> gostring \<Rightarrow> int \<Rightarrow> gostring \<Rightarrow> catalogue \<Rightarrow> catalogue" where
  "update_phash n h bytes mtime cat =
     cat\<lparr>ct_items := map (\<lambda>i. if it_id i = n then i\<lparr>it_phash := h, it_phash_size := bytes, it_phash_mtime := mtime\<rparr> else i)
       (ct_items cat)\<rparr>"

definition load_or_compute_tracked_item_phash :: "scan_env \<Rightarrow> item \<Rightarrow> catalogue \<Rightarrow> gostring \<times> catalogue" where
  "load_or_compute_tracked_item_phash env t cat =
     (if current_scheme (it_phash t) \<and> file_identity (se_fs env) (it_path t) = Some (it_phash_size t, it_phash_mtime t)
      then (it_phash t, cat)
      else (case se_hash env (it_path t) of
              None \<Rightarrow> ([], cat)
            | Some h \<Rightarrow>
                (h, case file_identity (se_fs env) (it_path t) of
                      None \<Rightarrow> cat
                    | Some (bytes, mtime) \<Rightarrow> if se_store_fault env (it_path t) then cat else update_phash (it_id t) h bytes mtime cat)))"

definition hash_tracked_movie_path :: "scan_env \<Rightarrow> item \<Rightarrow> gostring \<Rightarrow> scan_state \<Rightarrow> gostring \<times> scan_state" where
  "hash_tracked_movie_path env t path st =
     (if path = it_path t
      then (let (h, cat) = load_or_compute_tracked_item_phash env t (fst st) in (h, cat, snd st))
      else (let (h, cache) = load_or_compute_orphan_phash env path (snd st) in (h, fst st, cache)))"

definition delete_orphan_phashes_not_in :: "bool \<Rightarrow> gostring list \<Rightarrow> hash_cache \<Rightarrow> hash_cache" where
  "delete_orphan_phashes_not_in fault keep cache = (if fault then cache else filter (\<lambda>(p, _). p \<in> set keep) cache)"

section \<open>The files of a scan\<close>

text \<open>Blanks and repeats are dropped.\<close>

fun unseen_paths :: "gostring list \<Rightarrow> gostring list \<Rightarrow> gostring list" where
  "unseen_paths seen [] = []"
| "unseen_paths seen (p # ps) =
     (if p = [] \<or> p \<in> set seen then unseen_paths seen ps else p # unseen_paths (p # seen) ps)"

definition paths_with_extras :: "gostring \<Rightarrow> gostring list \<Rightarrow> gostring list" where
  "paths_with_extras primary extras = unseen_paths [] (primary # extras)"

definition movie_tracked_paths :: "scan_env \<Rightarrow> catalogue \<Rightarrow> item \<Rightarrow> gostring list" where
  "movie_tracked_paths env cat t =
     paths_with_extras (it_path t)
       (case list_files (se_files_fault env (it_id t)) (it_id t) cat of None \<Rightarrow> [] | Some fs \<Rightarrow> map if_path fs)"

fun tracked_paths_items ::
  "scan_env \<Rightarrow> item \<Rightarrow> gostring list \<Rightarrow> gostring list \<Rightarrow> scan_state \<Rightarrow> phash_item list \<times> gostring list \<times> scan_state" where
  "tracked_paths_items env t [] known st = ([], known, st)"
| "tracked_paths_items env t (p # ps) known st =
     (if p \<in> set known then tracked_paths_items env t ps known st
      else
        (let (h, st1) = hash_tracked_movie_path env t p st;
             (items, known', st2) = tracked_paths_items env t ps (p # known) st1
         in (\<lparr>pi_path = p, pi_label = path_base p, pi_tracked = it_id t, pi_tmdb = it_tmdb t, pi_title = it_title t,
               pi_season = 0, pi_episode = 0, pi_extra = [], pi_hash = h\<rparr> # items, known', st2)))"

fun tracked_items :: "scan_env \<Rightarrow> item list \<Rightarrow> gostring list \<Rightarrow> scan_state \<Rightarrow> phash_item list \<times> gostring list \<times> scan_state" where
  "tracked_items env [] known st = ([], known, st)"
| "tracked_items env (t # ts) known st =
     (let (items, known1, st1) = tracked_paths_items env t (movie_tracked_paths env (fst st) t) known st;
          (rest, known2, st2) = tracked_items env ts known1 st1
      in (items @ rest, known2, st2))"

definition library_scan_roots :: "gostring \<Rightarrow> gostring \<Rightarrow> gostring list" where
  "library_scan_roots kids base = base # (if kids \<noteq> [] \<and> kids \<noteq> base then [kids] else [])"

fun scan_unmapped_entries :: "(gostring \<Rightarrow> bool) \<Rightarrow> file_system \<Rightarrow> gostring list \<Rightarrow> unmapped_entry list option" where
  "scan_unmapped_entries known fs [] = Some []"
| "scan_unmapped_entries known fs (r # roots) =
     (case scan_root_folder known fs r of
        None \<Rightarrow> None
      | Some us \<Rightarrow> map_option ((@) us) (scan_unmapped_entries known fs roots))"

fun movie_orphans :: "file_system \<Rightarrow> unmapped_entry list \<Rightarrow> (gostring \<times> gostring) list" where
  "movie_orphans fs [] = []"
| "movie_orphans fs (u # us) =
     (if is_sidecar (ue_name u) then movie_orphans fs us
      else (case resolve_video_file fs (ue_path u) of
              None \<Rightarrow> movie_orphans fs us | Some v \<Rightarrow> (ue_name u, v) # movie_orphans fs us))"

fun orphan_items :: "scan_env \<Rightarrow> (gostring \<times> gostring) list \<Rightarrow> hash_cache \<Rightarrow> phash_item list \<times> hash_cache" where
  "orphan_items env [] cache = ([], cache)"
| "orphan_items env ((name, path) # os) cache =
     (let (h, cache1) = load_or_compute_orphan_phash env path cache; (items, cache2) = orphan_items env os cache1
      in (\<lparr>pi_path = path, pi_label = name, pi_tracked = 0, pi_tmdb = 0, pi_title = [], pi_season = 0, pi_episode = 0,
            pi_extra = [], pi_hash = h\<rparr> # items, cache2))"

section \<open>Candidates and proposals\<close>

definition probe_candidate :: "scan_env \<Rightarrow> gostring \<Rightarrow> gostring \<Rightarrow> int \<Rightarrow> dup_candidate option" where
  "probe_candidate env label path tracked =
     (case resolve_video_file (se_fs env) path of
        None \<Rightarrow> None
      | Some v \<Rightarrow>
          (case se_probe env v of
             None \<Rightarrow> None
           | Some (height, codec, bitrate) \<Rightarrow>
               Some \<lparr>dc_label = label, dc_path = v, dc_tracked = tracked, dc_resolution = height, dc_codec = codec,
                 dc_bitrate = bitrate, dc_size = file_bytes (se_fs env) v, dc_phash = [], dc_winner = False\<rparr>))"

fun build_candidates :: "scan_env \<Rightarrow> gostring list \<Rightarrow> phash_item list \<Rightarrow> dup_candidate list" where
  "build_candidates env seen [] = []"
| "build_candidates env seen (p # ps) =
     (if pi_path p \<in> set seen then build_candidates env seen ps
      else (case probe_candidate env (if pi_title p = [] then pi_label p else pi_title p) (pi_path p) (pi_tracked p) of
              None \<Rightarrow> build_candidates env (pi_path p # seen) ps
            | Some c \<Rightarrow> c\<lparr>dc_phash := pi_hash p\<rparr> # build_candidates env (pi_path p # seen) ps))"

definition group_label :: "phash_item list \<Rightarrow> gostring \<times> int \<times> gostring" where
  "group_label g =
     (case filter (\<lambda>p. pi_tracked p \<noteq> 0 \<and> pi_title p \<noteq> []) g of
        p # _ \<Rightarrow> (pi_title p, pi_tmdb p, path_dir (pi_path p))
      | [] \<Rightarrow>
          (case filter (\<lambda>p. pi_tmdb p \<noteq> 0) g of
             p # _ \<Rightarrow> (if pi_title p = [] then pi_label p else pi_title p, pi_tmdb p, path_dir (pi_path p))
           | [] \<Rightarrow>
               (case filter (\<lambda>p. pi_title p \<noteq> []) g of
                  p # _ \<Rightarrow> (pi_title p, pi_tmdb p, path_dir (pi_path p))
                | [] \<Rightarrow> (pi_label (hd g), 0, path_dir (pi_path (hd g))))))"

text \<open>\<open>SimilarityScore\<close>: \<open>None\<close> is an error. The hashes have the same length where they are compared.\<close>

definition similarity_score :: "gostring \<Rightarrow> gostring \<Rightarrow> f64 option" where
  "similarity_score a b =
     (case decode_hash a of
        None \<Rightarrow> None
      | Some (sa, ca) \<Rightarrow>
          (case decode_hash b of
             None \<Rightarrow> None
           | Some (sb, cb) \<Rightarrow>
               if sa \<noteq> sb \<or> length ca \<noteq> length cb \<or> ca = [] then Some 0
               else map_option (\<lambda>d. rnd (1 - f_div (f_of_int (int d)) (f_of_int (int (length ca) * 8)))) (hamming_bits ca cb)))"

definition similarity_pairs :: "phash_item list \<Rightarrow> f64 list" where
  "similarity_pairs g =
     concat (map (\<lambda>i. concat (map (\<lambda>j.
       if pi_hash (g ! i) = [] \<or> pi_hash (g ! j) = [] then []
       else (case similarity_score (pi_hash (g ! i)) (pi_hash (g ! j)) of None \<Rightarrow> [] | Some x \<Rightarrow> [x]))
       [Suc i..<length g])) [0..<length g])"

definition min_pairwise_similarity :: "phash_item list \<Rightarrow> f64" where
  "min_pairwise_similarity g = (case similarity_pairs g of [] \<Rightarrow> 0 | x # xs \<Rightarrow> foldl (\<lambda>m y. if y < m then y else m) x xs)"

text \<open>The root folder of the last title of the catalogue that has one and a file in the group.\<close>

definition group_root :: "item list \<Rightarrow> phash_item list \<Rightarrow> gostring \<Rightarrow> gostring" where
  "group_root tracked g dir =
     foldl (\<lambda>r t. if it_root t \<noteq> [] \<and> it_id t \<in> pi_tracked ` set g then it_root t else r) dir tracked"

definition group_proposal :: "scan_env \<Rightarrow> item list \<Rightarrow> phash_item list \<Rightarrow> proposal option" where
  "group_proposal env tracked g =
     (let (title, tmdb, dir) = group_label g; cs = build_candidates env [] g in
      if length cs < 2 then None
      else Some (zero_proposal\<lparr>p_mode := ''movies'', p_workflow := wf_dedup, p_status := Pending, p_name := title,
        p_title := title, p_tmdb := tmdb, p_root := group_root tracked g dir, p_candidates := mark_winner cs,
        p_similarity := min_pairwise_similarity g\<rparr>))"

fun staged_proposals :: "scan_env \<Rightarrow> item list \<Rightarrow> phash_item list list \<Rightarrow> proposal list" where
  "staged_proposals env tracked [] = []"
| "staged_proposals env tracked (g # gs) =
     (case group_proposal env tracked g of
        None \<Rightarrow> staged_proposals env tracked gs | Some p \<Rightarrow> p # staged_proposals env tracked gs)"

section \<open>The scan\<close>

definition movie_scan_items ::
  "scan_env \<Rightarrow> gostring \<Rightarrow> gostring \<Rightarrow> scan_state \<Rightarrow> phash_item list option \<times> scan_state" where
  "movie_scan_items env kids base st =
     (let tracked = sort_key it_title (filter (\<lambda>i. it_mode i = ''movies'') (ct_items (fst st)));
          (items, known, st1) = tracked_items env tracked [] st in
      case scan_unmapped_entries (\<lambda>p. p \<in> set known) (se_fs env) (library_scan_roots kids base) of
        None \<Rightarrow> (None, st1)
      | Some us \<Rightarrow>
          (let os = movie_orphans (se_fs env) us; (more, cache) = orphan_items env os (snd st1)
           in (Some (items @ more), fst st1, delete_orphan_phashes_not_in (se_prune_fault env) (map snd os @ known) cache)))"

definition scan_library_phash ::
  "scan_env \<Rightarrow> gostring \<Rightarrow> gostring \<Rightarrow> int \<Rightarrow> scan_state \<Rightarrow> proposal list option \<times> scan_state" where
  "scan_library_phash env kids base threshold st =
     (if base = [] \<or> se_list_fault env then (None, st)
      else
        (case movie_scan_items env kids base st of
           (None, st1) \<Rightarrow> (None, st1)
         | (Some items, st1) \<Rightarrow>
             (case phash_groups threshold items of
                None \<Rightarrow> (None, st1)
              | Some gs \<Rightarrow>
                  (Some (staged_proposals env (sort_key it_title (filter (\<lambda>i. it_mode i = ''movies'') (ct_items (fst st)))) gs), st1))))"

section \<open>The winner\<close>

interpretation quality: weak_order better
  by unfold_locales (auto simp: better_def quality_greater_def)

lemma best_from_pick:
  "k \<le> length cs \<Longrightarrow> b < length cs \<Longrightarrow>
   foldl (pick_step better (\<lambda>_. True) cs) (Some b) [k..<length cs] = Some (best_from b (candidate_key (cs ! b)) k (drop k cs))"
proof (induction "length cs - k" arbitrary: k b)
  case 0
  then show ?case by simp
next
  case (Suc n)
  then have k: "k < length cs" by simp
  have d: "drop k cs = cs ! k # drop (Suc k) cs" using k by (rule Cons_nth_drop_Suc [symmetric])
  have r: "[k..<length cs] = k # [Suc k..<length cs]" using k by (rule upt_conv_Cons)
  show ?case unfolding d r using Suc(1) [of "Suc k"] Suc(2-4) k by (simp add: pick_step_def better_def)
qed

definition best_index :: "dup_candidate list \<Rightarrow> nat" where
  "best_index cs = (case cs of [] \<Rightarrow> 0 | c # rest \<Rightarrow> best_from 0 (candidate_key c) 1 rest)"

lemma mark_winner_index: "mark_winner cs = cs[best_index cs := (cs ! best_index cs)\<lparr>dc_winner := True\<rparr>]"
  by (cases cs) (simp_all add: mark_winner_def best_index_def Let_def)

lemma best_index_picked:
  assumes "cs \<noteq> []"
  shows "best_index cs < length cs" "j < length cs \<Longrightarrow> \<not> better (cs ! j) (cs ! best_index cs)"
    "j < best_index cs \<Longrightarrow> better (cs ! best_index cs) (cs ! j)"
proof -
  obtain c rest where cs: "cs = c # rest" using assms by (cases cs) auto
  have "foldl (pick_step better (\<lambda>_. True) cs) None [0..<length cs] =
      foldl (pick_step better (\<lambda>_. True) cs) (Some 0) [1..<length cs]"
    by (simp add: cs upt_rec [of 0] pick_step_def del: upt_Suc)
  also have "\<dots> = Some (best_index cs)"
    using best_from_pick [of 1 cs 0] by (simp add: cs best_index_def)
  finally show "best_index cs < length cs" "j < length cs \<Longrightarrow> \<not> better (cs ! j) (cs ! best_index cs)"
    "j < best_index cs \<Longrightarrow> better (cs ! best_index cs) (cs ! j)"
    using quality.picked_upto [of "\<lambda>_. True" cs "length cs"] by (auto simp: quality.picked_def)
qed

lemma first_winner_some: "i < length cs \<Longrightarrow> (\<And>j. j < length cs \<Longrightarrow> dc_winner (cs ! j) \<longleftrightarrow> j = i) \<Longrightarrow> first_winner k cs = Some (k + i)"
proof (induction cs arbitrary: i k)
  case (Cons c cs)
  show ?case
  proof (cases i)
    case 0
    then show ?thesis using Cons.prems(2) [of 0] by simp
  next
    case (Suc m)
    then have "first_winner (Suc k) cs = Some (Suc k + m)"
      using Cons.prems(1) Cons.prems(2) [of "Suc _"] by (intro Cons.IH) auto
    then show ?thesis using Suc Cons.prems(2) [of 0] by simp
  qed
qed simp

lemma better_flags [simp]: "better (c\<lparr>dc_winner := b\<rparr>) d = better c d" "better c (d\<lparr>dc_winner := b\<rparr>) = better c d"
  by (simp_all add: better_def candidate_key_def)

lemma map_update_same: "f y = f (xs ! i) \<Longrightarrow> map f (xs[i := y]) = map f xs"
  by (cases "i < length xs") (simp_all add: list_eq_iff_nth_eq nth_list_update list_update_beyond)

lemma mark_winner_fields:
  "length (mark_winner cs) = length cs" "map dc_path (mark_winner cs) = map dc_path cs" "map dc_tracked (mark_winner cs) = map dc_tracked cs"
  by (simp_all add: mark_winner_index map_update_same)

lemma mark_winner_best:
  assumes "cs \<noteq> []" "\<forall>c\<in>set cs. \<not> dc_winner c"
  shows "let ds = mark_winner cs; w = winner_index ds in
    w < length ds \<and> length ds = length cs \<and> (\<forall>j<length ds. dc_winner (ds ! j) \<longleftrightarrow> j = w) \<and>
    (\<forall>j<length ds. \<not> better (ds ! j) (ds ! w)) \<and> (\<forall>j<w. better (ds ! w) (ds ! j)) \<and>
    (\<forall>j<length ds. (ds ! j)\<lparr>dc_winner := False\<rparr> = cs ! j)"
proof -
  let ?b = "best_index cs" and ?ds = "mark_winner cs"
  note b = best_index_picked [OF assms(1)]
  have nth: "?ds ! j = (if j = ?b then (cs ! j)\<lparr>dc_winner := True\<rparr> else cs ! j)" if "j < length cs" for j
    using that b(1) by (simp add: mark_winner_index nth_list_update)
  have flags: "dc_winner (?ds ! j) \<longleftrightarrow> j = ?b" if "j < length ?ds" for j
    using that assms(2) nth by (simp add: mark_winner_fields)
  have w: "winner_index ?ds = ?b"
    using first_winner_some [of ?b ?ds 0] flags b(1) by (simp add: winner_index_def mark_winner_fields)
  have "(cs ! j)\<lparr>dc_winner := False\<rparr> = cs ! j" if "j < length cs" for j
    using assms(2) that nth_mem [OF that] by (cases "cs ! j") fastforce
  then show ?thesis using b nth flags by (simp add: Let_def w mark_winner_fields)
qed

text \<open>
  The winner of a group is a best copy - the tallest picture, AV1 before other codecs, then the highest bit
  rate - and the first of the best ones; it is the only candidate marked, and it is the one an apply without an
  explicit choice keeps.
\<close>

theorem marked_winner_is_best:
  assumes "cs \<noteq> []" "\<forall>c\<in>set cs. \<not> dc_winner c"
  shows "let ds = mark_winner cs; w = winner_index ds in
    w < length ds \<and> length ds = length cs \<and> (\<forall>j<length ds. dc_winner (ds ! j) \<longleftrightarrow> j = w) \<and>
    (\<forall>j<length ds. \<not> better (ds ! j) (ds ! w)) \<and> (\<forall>j<w. better (ds ! w) (ds ! j)) \<and>
    (\<forall>j<length ds. (ds ! j)\<lparr>dc_winner := False\<rparr> = cs ! j)"
  using assms by (rule mark_winner_best)

definition sample_candidate :: "gostring \<Rightarrow> int \<Rightarrow> int \<Rightarrow> gostring \<Rightarrow> int \<Rightarrow> dup_candidate" where
  "sample_candidate path tracked height codec bitrate =
     \<lparr>dc_label = [], dc_path = path, dc_tracked = tracked, dc_resolution = height, dc_codec = codec, dc_bitrate = bitrate,
      dc_size = 0, dc_phash = [], dc_winner = False\<rparr>"

theorem marked_winner_is_best_witness:
  "let cs = [sample_candidate ''/a'' 1 1080 ''h264'' 9000, sample_candidate ''/b'' 0 1080 ''AV1'' 3000, sample_candidate ''/c'' 0 720 ''av1'' 9000] in
   winner_index (mark_winner cs) = 1 \<and> \<not> better (cs ! 0) (cs ! 1)"
proof -
  let ?cs = "[sample_candidate ''/a'' 1 1080 ''h264'' 9000, sample_candidate ''/b'' 0 1080 ''AV1'' 3000, sample_candidate ''/c'' 0 720 ''av1'' 9000]"
  have n: "\<forall>c\<in>set ?cs. \<not> dc_winner c" by (simp add: sample_candidate_def)
  have w: "winner_index (mark_winner ?cs) = 1" by code_simp
  have "?cs \<noteq> []" by simp
  note t = marked_winner_is_best [OF this n, unfolded Let_def w]
  then have "\<not> better (mark_winner ?cs ! 0) (mark_winner ?cs ! 1)" by simp
  moreover have "mark_winner ?cs = [?cs ! 0, (?cs ! 1)\<lparr>dc_winner := True\<rparr>, ?cs ! 2]" by code_simp
  ultimately show ?thesis using w by (simp add: Let_def)
qed

end
