(* ===== verification/Dedup_Facts.thy ===== *)
theory Dedup_Facts
  imports Dedup_Scan
begin

text \<open>
  What the proposals of the movie scan promise to the apply (their candidates are distinct files, and a candidate of
  the catalogue is the title's file or an extra copy of it), and that the two hash caches do not show.
\<close>

section \<open>The catalogue under a scan\<close>

text \<open>What a scan does not write.\<close>

definition item_core :: "item \<Rightarrow> item" where
  "item_core i = i\<lparr>it_phash := [], it_phash_size := 0, it_phash_mtime := []\<rparr>"

definition same_but_hashes :: "catalogue \<Rightarrow> catalogue \<Rightarrow> bool" where
  "same_but_hashes c d \<longleftrightarrow> map item_core (ct_items c) = map item_core (ct_items d) \<and> ct_files c = ct_files d \<and>
     ct_tags c = ct_tags d \<and> ct_next_item c = ct_next_item d \<and> ct_next_file c = ct_next_file d"

lemma same_but_hashes_refl [simp]: "same_but_hashes c c"
  by (simp add: same_but_hashes_def)

lemma same_but_hashes_trans: "same_but_hashes c d \<Longrightarrow> same_but_hashes d e \<Longrightarrow> same_but_hashes c e"
  by (simp add: same_but_hashes_def)

lemma item_core_fields:
  assumes "item_core i = item_core j"
  shows "it_id i = it_id j" "it_mode i = it_mode j" "it_tmdb i = it_tmdb j" "it_path i = it_path j"
proof -
  have "it_id (item_core x) = it_id x" "it_mode (item_core x) = it_mode x" "it_tmdb (item_core x) = it_tmdb x"
    "it_path (item_core x) = it_path x" for x by (simp_all add: item_core_def)
  then show "it_id i = it_id j" "it_mode i = it_mode j" "it_tmdb i = it_tmdb j" "it_path i = it_path j"
    using assms by metis+
qed

lemma map_core:
  assumes "same_but_hashes c d" "\<And>i. f (item_core i) = f i" shows "map f (ct_items c) = map f (ct_items d)"
proof -
  have "map f xs = map f (map item_core xs)" for xs using assms(2) by simp
  then show ?thesis using assms(1) by (metis same_but_hashes_def)
qed

lemma same_but_hashes_ok:
  assumes "same_but_hashes c d" "cat_ok c" shows "cat_ok d"
proof -
  have "map it_id (ct_items d) = map it_id (ct_items c)"
    "map (\<lambda>i. (it_mode i, it_tmdb i)) (ct_items d) = map (\<lambda>i. (it_mode i, it_tmdb i)) (ct_items c)"
    by (rule map_core [OF assms(1), symmetric], simp add: item_core_def)+
  moreover from this(1) have "it_id ` set (ct_items d) = it_id ` set (ct_items c)" by (metis set_map)
  ultimately show ?thesis using assms by (simp add: cat_ok_def same_but_hashes_def)
qed

lemma update_phash_same: "same_but_hashes cat (update_phash n h b t cat)"
  by (simp add: same_but_hashes_def update_phash_def item_core_def)

text \<open>The files a title has, and the primary row in step with the title.\<close>

definition primary_in_step :: "catalogue \<Rightarrow> bool" where
  "primary_in_step cat \<longleftrightarrow>
     (\<forall>f\<in>set (ct_files cat). if_primary f \<longrightarrow> (\<forall>i\<in>set (ct_items cat). it_id i = if_item f \<longrightarrow> it_path i = if_path f))"

definition row_candidate :: "catalogue \<Rightarrow> int \<Rightarrow> gostring \<Rightarrow> bool" where
  "row_candidate cat n path \<longleftrightarrow>
     (\<exists>i\<in>set (ct_items cat). it_id i = n \<and>
       (it_path i = path \<or> (\<exists>f\<in>set (ct_files cat). if_item f = n \<and> if_path f = path \<and> \<not> if_primary f)))"

definition candidates_ok :: "catalogue \<Rightarrow> dup_candidate list \<Rightarrow> bool" where
  "candidates_ok cat cs \<longleftrightarrow> distinct (map dc_path cs) \<and> [] \<notin> set (map dc_path cs) \<and>
     (\<forall>c\<in>set cs. dc_tracked c \<noteq> 0 \<longrightarrow> row_candidate cat (dc_tracked c) (dc_path c))"

lemma row_candidate_same:
  assumes "same_but_hashes c d" "row_candidate c n path" shows "row_candidate d n path"
proof -
  obtain i where i: "i \<in> set (ct_items c)" "it_id i = n"
    "it_path i = path \<or> (\<exists>f\<in>set (ct_files c). if_item f = n \<and> if_path f = path \<and> \<not> if_primary f)"
    using assms(2) by (auto simp: row_candidate_def)
  have "item_core ` set (ct_items c) = item_core ` set (ct_items d)"
    using assms(1) unfolding same_but_hashes_def by (metis (no_types) set_map)
  then have "item_core i \<in> item_core ` set (ct_items d)" using i(1) by blast
  then obtain j where j: "j \<in> set (ct_items d)" "item_core i = item_core j" by blast
  show ?thesis using i j(1) item_core_fields [OF j(2)] assms(1) unfolding row_candidate_def same_but_hashes_def by metis
qed

lemma unseen_paths_in: "p \<in> set (unseen_paths seen ps) \<Longrightarrow> p \<in> set ps \<and> p \<noteq> [] \<and> p \<notin> set seen"
  by (induction seen ps rule: unseen_paths.induct) (auto split: if_splits)

lemma movie_tracked_paths_row:
  assumes "primary_in_step cat" "t \<in> set (ct_items cat)" "p \<in> set (movie_tracked_paths env cat t)"
  shows "row_candidate cat (it_id t) p \<and> p \<noteq> []"
proof -
  have "p \<in> set (unseen_paths [] (it_path t # (if se_files_fault env (it_id t) then [] else map if_path (files_of (it_id t) cat))))"
    using assms(3) by (simp add: movie_tracked_paths_def paths_with_extras_def list_files_def del: unseen_paths.simps split: if_splits)
  from unseen_paths_in [OF this] have "p \<noteq> []" and p: "p = it_path t \<or> p \<in> if_path ` set (files_of (it_id t) cat)"
    by (auto split: if_splits)
  have "set (files_of (it_id t) cat) \<subseteq> {f \<in> set (ct_files cat). if_item f = it_id t}"
    by (auto simp: files_of_def Let_def)
  with p have "p = it_path t \<or> (\<exists>f\<in>set (ct_files cat). if_item f = it_id t \<and> if_path f = p)" by blast
  with \<open>p \<noteq> []\<close> show ?thesis using assms(1,2) unfolding primary_in_step_def row_candidate_def by metis
qed

section \<open>The files of a scan\<close>

lemma hash_tracked_same: "hash_tracked_movie_path env t p st = (h, st') \<Longrightarrow> same_but_hashes (fst st) (fst st')"
  by (auto simp: hash_tracked_movie_path_def load_or_compute_tracked_item_phash_def update_phash_same
    split: prod.splits if_splits option.splits)

lemma tracked_paths_items_ok:
  "tracked_paths_items env t ps known st = (items, known', st') \<Longrightarrow>
   same_but_hashes (fst st) (fst st') \<and> set known' = set known \<union> set ps \<and>
   (\<forall>p\<in>set items. pi_path p \<in> set ps \<and> pi_tracked p = it_id t)"
proof (induction env t ps known st arbitrary: items known' st' rule: tracked_paths_items.induct)
  case (2 env t q ps known st)
  show ?case
  proof (cases "q \<in> set known")
    case True
    then have "tracked_paths_items env t ps known st = (items, known', st')" using 2(3) by simp
    then show ?thesis using 2(1) [OF True] True by auto
  next
    case False
    obtain h st1 where h: "hash_tracked_movie_path env t q st = (h, st1)" by (rule prod.exhaust)
    obtain rest k2 st2 where r: "tracked_paths_items env t ps (q # known) st1 = (rest, k2, st2)" by (rule prod_cases3)
    note ih = 2(2) [OF False h [symmetric] refl r]
    have "known' = k2" "st' = st2"
      "items = \<lparr>pi_path = q, pi_label = path_base q, pi_tracked = it_id t, pi_tmdb = it_tmdb t, pi_title = it_title t,
         pi_season = 0, pi_episode = 0, pi_extra = [], pi_hash = h\<rparr> # rest"
      using 2(3) False h r by simp_all
    then show ?thesis using ih same_but_hashes_trans [OF hash_tracked_same [OF h], of "fst st2"] by simp
  qed
qed auto

lemma movie_tracked_paths_same: "same_but_hashes c d \<Longrightarrow> movie_tracked_paths env d t = movie_tracked_paths env c t"
  by (simp add: movie_tracked_paths_def list_files_def files_of_def same_but_hashes_def)

lemma tracked_items_ok:
  "tracked_items env ts known st = (items, known', st') \<Longrightarrow>
   same_but_hashes (fst st) (fst st') \<and> set known' = set known \<union> (\<Union>t\<in>set ts. set (movie_tracked_paths env (fst st) t)) \<and>
   (\<forall>p\<in>set items. \<exists>t\<in>set ts. pi_tracked p = it_id t \<and> pi_path p \<in> set (movie_tracked_paths env (fst st) t))"
proof (induction env ts known st arbitrary: items known' st' rule: tracked_items.induct)
  case (2 env t ts known st)
  obtain is1 k1 st1 where a: "tracked_paths_items env t (movie_tracked_paths env (fst st) t) known st = (is1, k1, st1)"
    by (rule prod_cases3)
  obtain is2 k2 st2 where b: "tracked_items env ts k1 st1 = (is2, k2, st2)" by (rule prod_cases3)
  note A = tracked_paths_items_ok [OF a]
  note ih = 2(1) [OF a [symmetric] refl refl b]
  have eq: "items = is1 @ is2" "known' = k2" "st' = st2" using 2(2) a b by simp_all
  have m: "movie_tracked_paths env (fst st1) u = movie_tracked_paths env (fst st) u" for u
    using A movie_tracked_paths_same by blast
  show ?case unfolding eq using A ih same_but_hashes_trans [of "fst st" "fst st1" "fst st2"] by (auto simp: m)
qed auto

lemma scan_paths_nonempty:
  "scan_node known dir e = Some us \<Longrightarrow> u \<in> set us \<Longrightarrow> ue_path u \<noteq> []"
  "scan_nodes known dir es = Some us \<Longrightarrow> u \<in> set us \<Longrightarrow> ue_path u \<noteq> []"
  by (induction known dir e and known dir es arbitrary: us and us rule: scan_node_scan_nodes.induct)
    (auto simp: join_path_def split: if_splits option.splits, blast)

lemma unmapped_entries_in:
  "scan_unmapped_entries known fs roots = Some us \<Longrightarrow> u \<in> set us \<Longrightarrow>
   \<exists>r\<in>set roots. \<exists>vs. scan_root_folder known fs r = Some vs \<and> u \<in> set vs"
  by (induction known fs roots arbitrary: us rule: scan_unmapped_entries.induct) (auto split: option.splits, blast)

lemma movie_orphans_in: "(n, v) \<in> set (movie_orphans fs us) \<Longrightarrow> \<exists>u\<in>set us. resolve_video_file fs (ue_path u) = Some v"
  by (induction fs us rule: movie_orphans.induct) (auto split: if_splits option.splits)

lemma orphan_file:
  assumes "fs_ok fs" "scan_unmapped_entries known fs roots = Some us" "(n, v) \<in> set (movie_orphans fs us)"
  shows "\<not> known v \<and> v \<noteq> [] \<and> (\<exists>m b t. fs v = Some (Fs_file m b t))"
proof -
  obtain u where u: "u \<in> set us" "resolve_video_file fs (ue_path u) = Some v" using movie_orphans_in [OF assms(3)] by blast
  obtain r vs where r: "scan_root_folder known fs r = Some vs" "u \<in> set vs" using unmapped_entries_in [OF assms(2) u(1)] by blast
  then obtain m q ch where d: "fs r = Some (Fs_dir m q ch)" "scan_nodes known r ch = Some vs"
    by (auto simp: scan_root_folder_def split: option.splits fs_node.splits if_splits)
  have "v \<noteq> []" using u(2) scan_paths_nonempty(2) [OF d(2) r(2)]
    by (auto simp: resolve_video_file_def join_path_def split: option.splits fs_node.splits if_splits)
  then show ?thesis using resolved_not_known [OF assms(1) d(1) r u(2)] by blast
qed

lemma orphan_items_in: "p \<in> set (fst (orphan_items env os cache)) \<Longrightarrow> pi_tracked p = 0 \<and> pi_path p \<in> snd ` set os"
  by (induction env os cache rule: orphan_items.induct) (auto simp: Let_def split: prod.splits)

abbreviation tracked_movies :: "catalogue \<Rightarrow> item list" where
  "tracked_movies cat \<equiv> sort_key it_title (filter (\<lambda>i. it_mode i = ''movies'') (ct_items cat))"

definition movie_path :: "scan_env \<Rightarrow> catalogue \<Rightarrow> int \<Rightarrow> gostring \<Rightarrow> bool" where
  "movie_path env cat n path \<longleftrightarrow>
     (\<exists>t\<in>set (ct_items cat). it_mode t = ''movies'' \<and> it_id t = n \<and> path \<in> set (movie_tracked_paths env cat t))"

lemma movie_scan_items_ok:
  assumes "fs_ok (se_fs env)" "movie_scan_items env kids base st = (Some items, st')"
  shows "same_but_hashes (fst st) (fst st')"
    "p \<in> set items \<Longrightarrow> movie_path env (fst st) (pi_tracked p) (pi_path p) \<or>
       pi_tracked p = 0 \<and> pi_path p \<noteq> [] \<and> (\<forall>n. \<not> movie_path env (fst st) n (pi_path p)) \<and>
       (\<exists>m b t. se_fs env (pi_path p) = Some (Fs_file m b t))"
proof -
  obtain is1 k1 st1 where a: "tracked_items env (tracked_movies (fst st)) [] st = (is1, k1, st1)" by (rule prod_cases3)
  note A = tracked_items_ok [OF a]
  obtain us where us: "scan_unmapped_entries (\<lambda>p. p \<in> set k1) (se_fs env) (library_scan_roots kids base) = Some us"
    using assms(2) a by (auto simp: movie_scan_items_def Let_def split: option.splits)
  let ?os = "movie_orphans (se_fs env) us"
  obtain is2 c2 where b: "orphan_items env ?os (snd st1) = (is2, c2)" by (rule prod.exhaust)
  have eq: "items = is1 @ is2" "fst st' = fst st1"
    using assms(2) a us b by (auto simp: movie_scan_items_def Let_def)
  show "same_but_hashes (fst st) (fst st')" using A eq by simp
  assume p: "p \<in> set items"
  show "movie_path env (fst st) (pi_tracked p) (pi_path p) \<or>
       pi_tracked p = 0 \<and> pi_path p \<noteq> [] \<and> (\<forall>n. \<not> movie_path env (fst st) n (pi_path p)) \<and>
       (\<exists>m b t. se_fs env (pi_path p) = Some (Fs_file m b t))"
  proof (cases "p \<in> set is1")
    case True
    then show ?thesis using A by (auto simp: movie_path_def)
  next
    case False
    then have "p \<in> set (fst (orphan_items env ?os (snd st1)))" using p eq b by simp
    from orphan_items_in [OF this] obtain n where o: "pi_tracked p = 0" "(n, pi_path p) \<in> set ?os" by auto
    from orphan_file [OF assms(1) us this(2)] have f: "pi_path p \<notin> set k1" "pi_path p \<noteq> []"
      "\<exists>m b t. se_fs env (pi_path p) = Some (Fs_file m b t)" by blast+
    have "\<not> movie_path env (fst st) m (pi_path p)" for m using f(1) A by (auto simp: movie_path_def)
    then show ?thesis using o(1) f by blast
  qed
qed

section \<open>What the scan promises to the apply\<close>

lemma probe_candidate_file:
  assumes "probe_candidate env l p n = Some c" "\<forall>m r ch. se_fs env p \<noteq> Some (Fs_dir m r ch)"
  shows "dc_path c = p \<and> dc_tracked c = n \<and> \<not> dc_winner c"
  using assms by (auto simp: probe_candidate_def resolve_video_file_def split: option.splits fs_node.splits if_splits)

lemma build_candidates_ok:
  "\<forall>p\<in>set g. \<forall>m r ch. se_fs env (pi_path p) \<noteq> Some (Fs_dir m r ch) \<Longrightarrow>
   distinct (map dc_path (build_candidates env seen g)) \<and> set (map dc_path (build_candidates env seen g)) \<inter> set seen = {} \<and>
   (\<forall>c\<in>set (build_candidates env seen g). \<not> dc_winner c \<and> (\<exists>p\<in>set g. dc_path c = pi_path p \<and> dc_tracked c = pi_tracked p))"
proof (induction env seen g rule: build_candidates.induct)
  case (2 env seen p ps)
  let ?l = "if pi_title p = [] then pi_label p else pi_title p"
  show ?case
  proof (cases "pi_path p \<in> set seen")
    case True
    then show ?thesis using 2(1) [OF True] 2(4) by auto
  next
    case False
    show ?thesis
    proof (cases "probe_candidate env ?l (pi_path p) (pi_tracked p)")
      case None
      then show ?thesis using 2(2) [OF False None] 2(4) False by auto
    next
      case (Some c)
      have "dc_path c = pi_path p \<and> dc_tracked c = pi_tracked p \<and> \<not> dc_winner c"
        using probe_candidate_file [OF Some] 2(4) by simp
      then show ?thesis using 2(3) [OF False Some] 2(4) False Some by auto
    qed
  qed
qed simp

lemma mark_winner_member: "c \<in> set (mark_winner cs) \<Longrightarrow> \<exists>d\<in>set cs. dc_path c = dc_path d \<and> dc_tracked c = dc_tracked d"
proof -
  assume "c \<in> set (mark_winner cs)"
  then obtain j where j: "j < length (mark_winner cs)" "c = mark_winner cs ! j" by (metis in_set_conv_nth)
  moreover have "map dc_path (mark_winner cs) ! j = map dc_path cs ! j" "map dc_tracked (mark_winner cs) ! j = map dc_tracked cs ! j"
    by (simp_all only: mark_winner_fields)
  ultimately have "dc_path c = dc_path (cs ! j)" "dc_tracked c = dc_tracked (cs ! j)" "j < length cs"
    by (simp_all add: mark_winner_fields(1))
  then show ?thesis by (metis nth_mem)
qed

text \<open>No file of a title is a directory, and the primary rows are in step.\<close>

definition scan_ready :: "scan_env \<Rightarrow> catalogue \<Rightarrow> bool" where
  "scan_ready env cat \<longleftrightarrow> fs_ok (se_fs env) \<and> cat_ok cat \<and> primary_in_step cat \<and>
     (\<forall>n p m r ch. movie_path env cat n p \<longrightarrow> se_fs env p \<noteq> Some (Fs_dir m r ch))"

lemma movie_path_id: "cat_ok cat \<Longrightarrow> movie_path env cat n p \<Longrightarrow> n \<noteq> 0"
  by (fastforce simp: movie_path_def cat_ok_def)

lemma group_candidates_ok:
  assumes "scan_ready env (fst st)" "movie_scan_items env kids base st = (Some items, st')" "set g \<subseteq> set items"
  shows "candidates_ok (fst st') (build_candidates env [] g)"
    "c \<in> set (build_candidates env [] g) \<Longrightarrow> \<not> dc_winner c \<and> (dc_tracked c = 0 \<longleftrightarrow> (\<forall>n. \<not> movie_path env (fst st) n (dc_path c)))"
proof -
  have fs: "fs_ok (se_fs env)" "cat_ok (fst st)" "primary_in_step (fst st)"
    and dir: "\<And>n p m r ch. movie_path env (fst st) n p \<Longrightarrow> se_fs env p \<noteq> Some (Fs_dir m r ch)"
    using assms(1) by (simp_all add: scan_ready_def)
  note same = movie_scan_items_ok(1) [OF fs(1) assms(2)]
  have item: "movie_path env (fst st) (pi_tracked p) (pi_path p) \<and> pi_tracked p \<noteq> 0 \<or>
      pi_tracked p = 0 \<and> pi_path p \<noteq> [] \<and> (\<forall>n. \<not> movie_path env (fst st) n (pi_path p)) \<and>
      (\<exists>m b t. se_fs env (pi_path p) = Some (Fs_file m b t))" if "p \<in> set g" for p
    using movie_scan_items_ok(2) [OF fs(1) assms(2), of p] assms(3) movie_path_id [OF fs(2)] that by blast
  have nodir: "\<forall>p\<in>set g. \<forall>m r ch. se_fs env (pi_path p) \<noteq> Some (Fs_dir m r ch)"
    using item dir by force
  note b = build_candidates_ok [OF nodir, of "[]"]
  have row: "row_candidate (fst st') n p \<and> p \<noteq> []" if mp: "movie_path env (fst st) n p" for n p
  proof -
    obtain t where "t \<in> set (ct_items (fst st))" "it_id t = n" "p \<in> set (movie_tracked_paths env (fst st) t)"
      using mp by (auto simp: movie_path_def)
    then show ?thesis using movie_tracked_paths_row [OF fs(3)] row_candidate_same [OF same] by blast
  qed
  have c: "dc_path c \<noteq> [] \<and> (dc_tracked c \<noteq> 0 \<longrightarrow> row_candidate (fst st') (dc_tracked c) (dc_path c)) \<and> \<not> dc_winner c \<and>
      (dc_tracked c = 0 \<longleftrightarrow> (\<forall>n. \<not> movie_path env (fst st) n (dc_path c)))"
    if "c \<in> set (build_candidates env [] g)" for c
  proof -
    obtain p where p: "p \<in> set g" "dc_path c = pi_path p" "dc_tracked c = pi_tracked p" "\<not> dc_winner c" using b \<open>c \<in> _\<close> by blast
    then show ?thesis using item [OF p(1)] row [of "pi_tracked p" "pi_path p"] by (elim disjE) auto
  qed
  show "candidates_ok (fst st') (build_candidates env [] g)" using b c by (auto simp: candidates_ok_def)
  show "c \<in> set (build_candidates env [] g) \<Longrightarrow> \<not> dc_winner c \<and> (dc_tracked c = 0 \<longleftrightarrow> (\<forall>n. \<not> movie_path env (fst st) n (dc_path c)))"
    using c by blast
qed

lemma phash_groups_subset:
  assumes "phash_groups threshold items = Some gs" "g \<in> set gs"
  shows "set g \<subseteq> set items" "2 \<le> length g"
proof -
  obtain i where "i < length items" "2 \<le> length g"
    "g = map ((!) items) (filter (\<lambda>j. (i, j) \<in> joined {(i, j). i < j \<and> j < length items \<and> linked threshold (items ! i) (items ! j)}) [0..<length items])"
    using phash_groups_spec [of threshold items] assms by (auto simp: Let_def)
  then show "set g \<subseteq> set items" "2 \<le> length g" by auto
qed

lemma staged_member: "q \<in> set (staged_proposals env tracked gs) \<Longrightarrow> \<exists>g\<in>set gs. group_proposal env tracked g = Some q"
  by (induction gs) (auto split: option.splits)

lemma candidates_ok_mark:
  assumes "candidates_ok cat cs" shows "candidates_ok cat (mark_winner cs)"
  using assms mark_winner_member [of _ cs] unfolding candidates_ok_def mark_winner_fields by metis

lemma scan_proposals_fit:
  assumes "scan_ready env (fst st)" "scan_library_phash env kids base threshold st = (Some ps, st')" "q \<in> set ps"
  shows "let cs = p_candidates q; w = winner_index cs in
    p_status q = Pending \<and> 2 \<le> length cs \<and> candidates_ok (fst st') cs \<and> same_but_hashes (fst st) (fst st') \<and>
    w < length cs \<and> (\<forall>j<length cs. \<not> better (cs ! j) (cs ! w)) \<and>
    (\<forall>c\<in>set cs. dc_tracked c = 0 \<longleftrightarrow> (\<forall>n. \<not> movie_path env (fst st) n (dc_path c)))"
proof -
  obtain items gs g where i: "movie_scan_items env kids base st = (Some items, st')" "phash_groups threshold items = Some gs"
    "g \<in> set gs" "group_proposal env (tracked_movies (fst st)) g = Some q"
    using assms(2,3) by (auto simp: scan_library_phash_def dest!: staged_member split: if_splits prod.splits option.splits)
  let ?cs = "build_candidates env [] g"
  have q: "p_status q = Pending" "p_candidates q = mark_winner ?cs" "2 \<le> length ?cs"
    using i(4) by (auto simp: group_proposal_def Let_def split: prod.splits if_splits)
  have ne: "?cs \<noteq> []" using q(3) by auto
  note g = group_candidates_ok [OF assms(1) i(1) phash_groups_subset(1) [OF i(2,3)]]
  have "fs_ok (se_fs env)" using assms(1) by (simp add: scan_ready_def)
  note same = movie_scan_items_ok(1) [OF this i(1)]
  have "\<forall>c\<in>set ?cs. \<not> dc_winner c" using g(2) by blast
  note best = mark_winner_best [OF ne this, unfolded Let_def]
  have "dc_tracked c = 0 \<longleftrightarrow> (\<forall>n. \<not> movie_path env (fst st) n (dc_path c))" if "c \<in> set (mark_winner ?cs)" for c
    using mark_winner_member [OF that] g(2) by auto
  then show ?thesis using q best same candidates_ok_mark [OF g(1)] by (simp add: Let_def)
qed


definition demo_fs :: file_system where
  "demo_fs = map_of (list_nodes ''/m'' (Fs_dir ''m'' True [Fs_file ''a.mkv'' 5 ''t'', Fs_file ''b.mkv'' 7 ''u'']))"

definition demo_env :: scan_env where
  "demo_env = \<lparr>se_fs = demo_fs, se_hash = (\<lambda>p. if demo_fs p = None then None else Some ''pdq256/5f:61''),
     se_probe = (\<lambda>p. Some (if p = ''/m/a.mkv'' then 720 else 1080, ''h264'', 4000)), se_list_fault = False,
     se_files_fault = (\<lambda>_. False), se_read_fault = (\<lambda>_. False), se_store_fault = (\<lambda>_. False), se_prune_fault = False\<rparr>"

definition demo_item :: item where
  "demo_item = \<lparr>it_id = 1, it_mode = ''movies'', it_tmdb = 7, it_title = ''A'', it_year = 0, it_path = ''/m/a.mkv'', it_root = ''/m'',
     it_size = 5, it_tier = [], it_rating = 0, it_watch = False, it_phash = [], it_phash_size = 0, it_phash_mtime = [],
     it_created = [], it_genres = [], it_cast = []\<rparr>"

definition demo_catalogue :: catalogue where
  "demo_catalogue = \<lparr>ct_items = [demo_item], ct_files = [new_file 1 1 ''/m/a.mkv'' True [] 5 []], ct_tags = [], ct_next_item = 2,
     ct_next_file = 2\<rparr>"

lemma demo_scan:
  "case scan_library_phash demo_env [] ''/m'' 64 (demo_catalogue, []) of
     (Some ps, st) \<Rightarrow> map (\<lambda>q. (map dc_path (p_candidates q), winner_index (p_candidates q), p_tmdb q, p_root q)) ps =
         [([''/m/a.mkv'', ''/m/b.mkv''], 1, 7, ''/m'')] \<and> map fst (snd st) = [''/m/b.mkv'']
   | (None, _) \<Rightarrow> False"
  by code_simp

lemma demo_fs_ok: "fs_ok demo_fs"
  by (auto simp: fs_ok_def demo_fs_def join_path_def split: if_splits)

lemma demo_ready: "scan_ready demo_env demo_catalogue"
proof -
  have p: "movie_tracked_paths demo_env demo_catalogue demo_item = [''/m/a.mkv'']" by code_simp
  have f: "se_fs demo_env ''/m/a.mkv'' = Some (Fs_file ''a.mkv'' 5 ''t'')" by code_simp
  have i: "ct_items demo_catalogue = [demo_item]" by (simp add: demo_catalogue_def)
  have q: "q = ''/m/a.mkv''" if mp: "movie_path demo_env demo_catalogue n q" for n q
  proof -
    obtain t where "t \<in> set (ct_items demo_catalogue)" "q \<in> set (movie_tracked_paths demo_env demo_catalogue t)"
      using mp unfolding movie_path_def by blast
    then show ?thesis using p unfolding i by simp
  qed
  have "\<forall>n p m r ch. movie_path demo_env demo_catalogue n p \<longrightarrow> se_fs demo_env p \<noteq> Some (Fs_dir m r ch)"
  proof (intro allI impI)
    fix n p m r ch assume "movie_path demo_env demo_catalogue n p"
    from q [OF this] f show "se_fs demo_env p \<noteq> Some (Fs_dir m r ch)" by simp
  qed
  moreover have "fs_ok (se_fs demo_env)" using demo_fs_ok by (simp add: demo_env_def)
  moreover have "cat_ok demo_catalogue" "primary_in_step demo_catalogue"
    by (simp_all add: cat_ok_def primary_in_step_def demo_catalogue_def demo_item_def new_file_def file_paths_unique_def one_primary_def)
  ultimately show ?thesis unfolding scan_ready_def by blast
qed


section \<open>The caches do not show\<close>

definition fresh_hash :: "scan_env \<Rightarrow> gostring \<Rightarrow> gostring" where
  "fresh_hash env path = (case se_hash env path of None \<Rightarrow> [] | Some h \<Rightarrow> h)"

text \<open>
  A stored hash that would be used - of the current scheme, with the size and time of the file that is there - is
  that file's hash. A file that is not there has none.
\<close>

definition hash_stored :: "scan_env \<Rightarrow> gostring \<Rightarrow> gostring \<Rightarrow> int \<Rightarrow> gostring \<Rightarrow> bool" where
  "hash_stored env path h bytes mtime \<longleftrightarrow>
     (current_scheme h \<and> file_identity (se_fs env) path = Some (bytes, mtime) \<longrightarrow> se_hash env path = Some h)"

definition cache_sound :: "scan_env \<Rightarrow> hash_cache \<Rightarrow> bool" where
  "cache_sound env cache \<longleftrightarrow> (\<forall>p r. map_of cache p = Some r \<longrightarrow> hash_stored env p (oh_hash r) (oh_size r) (oh_mtime r))"

definition items_sound :: "scan_env \<Rightarrow> item list \<Rightarrow> bool" where
  "items_sound env is \<longleftrightarrow> (\<forall>i\<in>set is. hash_stored env (it_path i) (it_phash i) (it_phash_size i) (it_phash_mtime i))"

definition hashes_sound :: "scan_env \<Rightarrow> scan_state \<Rightarrow> bool" where
  "hashes_sound env st \<longleftrightarrow> items_sound env (ct_items (fst st)) \<and> cache_sound env (snd st)"

definition missing_unhashed :: "scan_env \<Rightarrow> bool" where
  "missing_unhashed env \<longleftrightarrow> (\<forall>p. se_fs env p = None \<longrightarrow> se_hash env p = None)"

lemma orphan_hash_fresh:
  assumes "cache_sound env cache" "missing_unhashed env"
  shows "fst (load_or_compute_orphan_phash env path cache) = fresh_hash env path \<and>
    cache_sound env (snd (load_or_compute_orphan_phash env path cache))"
proof (cases "file_identity (se_fs env) path")
  case None
  then have "se_fs env path = None" by (simp add: file_identity_def split: option.splits fs_node.splits)
  then show ?thesis using None assms by (simp add: load_or_compute_orphan_phash_def missing_unhashed_def fresh_hash_def)
next
  case (Some id)
  obtain b t where id: "id = (b, t)" by (rule prod.exhaust)
  have put: "cache_sound env (AList.update path \<lparr>oh_hash = h, oh_size = b, oh_mtime = t\<rparr> cache)" if "se_hash env path = Some h" for h
    using assms(1) that by (auto simp: cache_sound_def hash_stored_def update_conv')
  have hit: "se_hash env path = Some (oh_hash r)"
    if "map_of cache path = Some r" "current_scheme (oh_hash r)" "oh_size r = b" "oh_mtime r = t" for r
    using assms(1) that Some id by (auto simp: cache_sound_def hash_stored_def)
  show ?thesis using Some id assms(1) put hit
    by (auto simp: load_or_compute_orphan_phash_def Let_def fresh_hash_def split: option.splits)
qed

lemma update_phash_sound:
  assumes "items_sound env (ct_items cat)" "\<forall>i\<in>set (ct_items cat). it_id i = n \<longrightarrow> it_path i = path" "se_hash env path = Some h"
  shows "items_sound env (ct_items (update_phash n h b t cat))"
  using assms by (auto simp: items_sound_def update_phash_def hash_stored_def)

lemma tracked_hash_fresh:
  assumes "items_sound env (ct_items cat)" "\<forall>i\<in>set (ct_items cat). it_id i = it_id t \<longrightarrow> it_path i = it_path t"
    "hash_stored env (it_path t) (it_phash t) (it_phash_size t) (it_phash_mtime t)"
  shows "fst (load_or_compute_tracked_item_phash env t cat) = fresh_hash env (it_path t) \<and>
    items_sound env (ct_items (snd (load_or_compute_tracked_item_phash env t cat)))"
  using assms update_phash_sound [OF assms(1,2)]
  by (auto simp: load_or_compute_tracked_item_phash_def fresh_hash_def hash_stored_def split: option.splits)

definition title_known :: "scan_env \<Rightarrow> catalogue \<Rightarrow> item \<Rightarrow> bool" where
  "title_known env cat t \<longleftrightarrow> (\<forall>i\<in>set (ct_items cat). it_id i = it_id t \<longrightarrow> it_path i = it_path t) \<and>
     hash_stored env (it_path t) (it_phash t) (it_phash_size t) (it_phash_mtime t)"

lemma title_known_same: "same_but_hashes c d \<Longrightarrow> title_known env c t \<Longrightarrow> title_known env d t"
proof -
  assume s: "same_but_hashes c d" and k: "title_known env c t"
  have "it_path i = it_path t" if i: "i \<in> set (ct_items d)" "it_id i = it_id t" for i
  proof -
    have "item_core ` set (ct_items c) = item_core ` set (ct_items d)"
      using s unfolding same_but_hashes_def by (metis (no_types) set_map)
    then obtain j where "j \<in> set (ct_items c)" "item_core j = item_core i" using i(1) by (metis imageE imageI)
    then show ?thesis using k i(2) item_core_fields [of j i] unfolding title_known_def by metis
  qed
  then show ?thesis using k by (simp add: title_known_def)
qed

lemma tracked_path_fresh:
  assumes "hashes_sound env st" "title_known env (fst st) t" "missing_unhashed env" "hash_tracked_movie_path env t p st = (h, st')"
  shows "h = fresh_hash env p \<and> hashes_sound env st'"
proof (cases "p = it_path t")
  case True
  note f = tracked_hash_fresh [of env "fst st" t]
  show ?thesis using f assms(1,2,4) True
    by (auto simp: hash_tracked_movie_path_def hashes_sound_def title_known_def split: prod.splits)
next
  case False
  note f = orphan_hash_fresh [of env "snd st" p]
  show ?thesis using f assms(1,3,4) False
    by (auto simp: hash_tracked_movie_path_def hashes_sound_def split: prod.splits)
qed

lemma tracked_paths_fresh:
  "tracked_paths_items env t ps known st = (items, known', st') \<Longrightarrow> hashes_sound env st \<Longrightarrow> title_known env (fst st) t \<Longrightarrow>
   missing_unhashed env \<Longrightarrow> (\<forall>p\<in>set items. pi_hash p = fresh_hash env (pi_path p)) \<and> hashes_sound env st'"
proof (induction env t ps known st arbitrary: items known' st' rule: tracked_paths_items.induct)
  case (2 env t q ps known st)
  show ?case
  proof (cases "q \<in> set known")
    case True
    then have "tracked_paths_items env t ps known st = (items, known', st')" using 2(3) by simp
    then show ?thesis using 2(1) [OF True _ 2(4-6)] by blast
  next
    case False
    obtain h st1 where h: "hash_tracked_movie_path env t q st = (h, st1)" by (rule prod.exhaust)
    obtain rest k2 st2 where r: "tracked_paths_items env t ps (q # known) st1 = (rest, k2, st2)" by (rule prod_cases3)
    note a = tracked_path_fresh [OF 2(4,5,6) h]
    have "title_known env (fst st1) t" by (rule title_known_same [OF hash_tracked_same [OF h] 2(5)])
    note ih = 2(2) [OF False h [symmetric] refl r conjunct2 [OF a] this 2(6)]
    have eq: "st' = st2" "items = \<lparr>pi_path = q, pi_label = path_base q, pi_tracked = it_id t, pi_tmdb = it_tmdb t, pi_title = it_title t,
         pi_season = 0, pi_episode = 0, pi_extra = [], pi_hash = h\<rparr> # rest"
      using 2(3) False h r by simp_all
    show ?thesis unfolding eq using a ih by simp
  qed
qed auto

lemma tracked_items_fresh:
  "tracked_items env ts known st = (items, known', st') \<Longrightarrow> hashes_sound env st \<Longrightarrow> \<forall>t\<in>set ts. title_known env (fst st) t \<Longrightarrow>
   missing_unhashed env \<Longrightarrow> (\<forall>p\<in>set items. pi_hash p = fresh_hash env (pi_path p)) \<and> hashes_sound env st'"
proof (induction env ts known st arbitrary: items known' st' rule: tracked_items.induct)
  case (2 env t ts known st)
  obtain is1 k1 st1 where a: "tracked_paths_items env t (movie_tracked_paths env (fst st) t) known st = (is1, k1, st1)"
    by (rule prod_cases3)
  obtain is2 k2 st2 where b: "tracked_items env ts k1 st1 = (is2, k2, st2)" by (rule prod_cases3)
  have t: "title_known env (fst st) t" using 2(4) by simp
  note A = tracked_paths_fresh [OF a 2(3) t 2(5)]
  have "\<forall>u\<in>set ts. title_known env (fst st1) u"
    using 2(4) title_known_same [OF conjunct1 [OF tracked_paths_items_ok [OF a]]] by simp
  note ih = 2(1) [OF a [symmetric] refl refl b conjunct2 [OF A] this 2(5)]
  have eq: "items = is1 @ is2" "st' = st2" using 2(2) a b by simp_all
  show ?case unfolding eq using A ih by auto
qed auto

lemma orphan_items_fresh:
  "orphan_items env os cache = (items, cache') \<Longrightarrow> cache_sound env cache \<Longrightarrow> missing_unhashed env \<Longrightarrow>
   (\<forall>p\<in>set items. pi_hash p = fresh_hash env (pi_path p)) \<and> cache_sound env cache'"
proof (induction env os cache arbitrary: items cache' rule: orphan_items.induct)
  case (2 env name path os cache)
  obtain h c1 where h: "load_or_compute_orphan_phash env path cache = (h, c1)" by (rule prod.exhaust)
  obtain rest c2 where r: "orphan_items env os c1 = (rest, c2)" by (rule prod.exhaust)
  have a: "h = fresh_hash env path" "cache_sound env c1" using orphan_hash_fresh [OF 2(3,4), of path] h by simp_all
  note ih = 2(1) [OF h [symmetric] refl r a(2) 2(4)]
  show ?case using 2(2) h r a ih by auto
qed auto

lemma pruned_sound: "cache_sound env cache \<Longrightarrow> cache_sound env (delete_orphan_phashes_not_in fault keep cache)"
proof -
  have "map_of (filter (\<lambda>(p, _). p \<in> set keep) cache) q = (if q \<in> set keep then map_of cache q else None)" for q
    by (induction cache) auto
  then show "cache_sound env cache \<Longrightarrow> ?thesis" by (auto simp: delete_orphan_phashes_not_in_def cache_sound_def split: if_splits)
qed

text \<open>
  C22. Caching is transparent: if what the title's columns and the table of hashes hold for the files that are there is
  their hashes, every file of the scan - main file, extra copy or orphan - enters the comparison with the hash that the
  hasher gives for it now, whichever reads and writes of the caches fail, and what is stored afterwards is as
  sound as before.
\<close>

theorem hash_caches_transparent:
  assumes "cat_ok (fst st)" "hashes_sound env st" "missing_unhashed env" "movie_scan_items env kids base st = (Some items, st')"
  shows "(\<forall>p\<in>set items. pi_hash p = fresh_hash env (pi_path p)) \<and> hashes_sound env st'"
proof -
  obtain is1 k1 st1 where a: "tracked_items env (tracked_movies (fst st)) [] st = (is1, k1, st1)" by (rule prod_cases3)
  have inj: "i = t" if "i \<in> set (ct_items (fst st))" "t \<in> set (ct_items (fst st))" "it_id i = it_id t" for i t
    using assms(1) that by (auto simp: cat_ok_def distinct_map inj_on_def)
  have "\<forall>t\<in>set (tracked_movies (fst st)). title_known env (fst st) t"
    using inj assms(2) by (auto simp: title_known_def hashes_sound_def items_sound_def)
  note A = tracked_items_fresh [OF a assms(2) this assms(3)]
  obtain us where us: "scan_unmapped_entries (\<lambda>p. p \<in> set k1) (se_fs env) (library_scan_roots kids base) = Some us"
    using assms(4) a by (auto simp: movie_scan_items_def Let_def split: option.splits)
  obtain is2 c2 where b: "orphan_items env (movie_orphans (se_fs env) us) (snd st1) = (is2, c2)" by (rule prod.exhaust)
  have "cache_sound env (snd st1)" using A by (simp add: hashes_sound_def)
  note B = orphan_items_fresh [OF b this assms(3)]
  have "items = is1 @ is2" "fst st' = fst st1"
    "snd st' = delete_orphan_phashes_not_in (se_prune_fault env) (map snd (movie_orphans (se_fs env) us) @ k1) c2"
    using assms(4) a us b by (auto simp: movie_scan_items_def Let_def)
  then show ?thesis using A B pruned_sound by (auto simp: hashes_sound_def)
qed

definition stale_state :: scan_state where
  "stale_state = (demo_catalogue, [(''/m/b.mkv'', \<lparr>oh_hash = ''pdq256/5f:00'', oh_size = 9, oh_mtime = ''u''\<rparr>)])"

lemma stale_scan:
  "map_option (map (\<lambda>p. (pi_path p, pi_hash p))) (fst (movie_scan_items demo_env [] ''/m'' stale_state)) =
     Some [(''/m/a.mkv'', ''pdq256/5f:61''), (''/m/b.mkv'', ''pdq256/5f:61'')]"
  by code_simp

theorem hash_caches_transparent_witness:
  "\<exists>items st'. movie_scan_items demo_env [] ''/m'' stale_state = (Some items, st') \<and> hashes_sound demo_env st' \<and>
     (\<forall>p\<in>set items. pi_hash p = fresh_hash demo_env (pi_path p)) \<and> length items = 2"
proof -
  have 1: "cat_ok (fst stale_state)" using demo_ready by (simp add: stale_state_def scan_ready_def)
  have "file_identity demo_fs ''/m/b.mkv'' = Some (7, ''u'')" by code_simp
  then have 2: "hashes_sound demo_env stale_state"
    by (simp add: hashes_sound_def stale_state_def items_sound_def cache_sound_def hash_stored_def demo_catalogue_def demo_item_def
      current_scheme_def demo_env_def)
  have 3: "missing_unhashed demo_env" by (simp add: missing_unhashed_def demo_env_def)
  obtain items st' where s: "movie_scan_items demo_env [] ''/m'' stale_state = (Some items, st')"
    and m: "map (\<lambda>p. (pi_path p, pi_hash p)) items = [(''/m/a.mkv'', ''pdq256/5f:61''), (''/m/b.mkv'', ''pdq256/5f:61'')]"
    using stale_scan by (cases "movie_scan_items demo_env [] ''/m'' stale_state") auto
  have "length items = 2" using arg_cong [OF m, of length] by simp
  then show ?thesis using hash_caches_transparent [OF 1 2 3 s] s by blast
qed

end
