(* ===== verification/Dedup_Apply.thy ===== *)
theory Dedup_Apply
  imports Dedup_Facts
begin

text \<open>
  Applying a duplicate proposal of the movie library (\<open>ApplyLibrary\<close>, \<open>internal/dedup/dedup.go\<close>): the losers'
  files and rows go, the winner becomes the main file of its title. The cleanup of cached comparison scores
  (\<open>PruneVMAFScoresForPath\<close>, best effort) is left out.
\<close>

section \<open>State\<close>

text \<open>
  The paths of the files that are there, and the catalogue. \<open>de_fault i k\<close> is the failure of statement \<open>k\<close> for
  candidate \<open>i\<close>, \<open>de_end_fault k\<close> that of statement \<open>k\<close> after the candidates.
\<close>

record dedup_state =
  ds_disk :: "gostring list"
  ds_cat :: catalogue

record dedup_env =
  de_rm_fails :: "gostring \<Rightarrow> bool"
  de_stat :: "gostring \<Rightarrow> int \<times> gostring"
  de_clock :: "int \<Rightarrow> gostring"
  de_fault :: "nat \<Rightarrow> nat \<Rightarrow> bool"
  de_end_fault :: "nat \<Rightarrow> bool"

datatype dedup_error = Not_pending | Too_few_candidates | Keep_out_of_range | Removing gostring | Promote_failed | Register_failed

text \<open>\<open>os.Remove\<close>, where a file that is not there counts as removed.\<close>

definition remove_file :: "dedup_env \<Rightarrow> gostring \<Rightarrow> dedup_state \<Rightarrow> dedup_state option" where
  "remove_file env p st = (if de_rm_fails env p then None else Some (st\<lparr>ds_disk := filter (\<lambda>q. q \<noteq> p) (ds_disk st)\<rparr>))"

definition stat_file :: "dedup_env \<Rightarrow> dedup_state \<Rightarrow> gostring \<Rightarrow> int \<times> gostring" where
  "stat_file env st p = (if p \<in> set (ds_disk st) then de_stat env p else (0, []))"

abbreviation set_cat :: "catalogue \<Rightarrow> dedup_state \<Rightarrow> dedup_state" where
  "set_cat c st \<equiv> st\<lparr>ds_cat := c\<rparr>"

section \<open>Removing a loser\<close>

definition movie_candidate_is_extra :: "bool \<Rightarrow> catalogue \<Rightarrow> dup_candidate \<Rightarrow> bool" where
  "movie_candidate_is_extra fault cat c =
     (if dc_tracked c = 0 \<or> dc_path c = [] then False
      else (case list_files fault (dc_tracked c) cat of
              None \<Rightarrow> False
            | Some fs \<Rightarrow> list_ex (\<lambda>f. if_path f = dc_path c \<and> \<not> if_primary f) fs))"

text \<open>The path that was removed, whether all went well, and the state.\<close>

definition remove_library_candidate ::
  "dedup_env \<Rightarrow> (nat \<Rightarrow> bool) \<Rightarrow> dup_candidate \<Rightarrow> dedup_state \<Rightarrow> gostring \<times> bool \<times> dedup_state" where
  "remove_library_candidate env fl c st =
     (if dc_tracked c = 0
      then (case remove_file env (dc_path c) st of None \<Rightarrow> ([], False, st) | Some st1 \<Rightarrow> (dc_path c, True, st1))
      else
        (case get_item (fl 0) (dc_tracked c) (ds_cat st) of
           Inl _ \<Rightarrow> ([], False, st)
         | Inr it \<Rightarrow>
             if movie_candidate_is_extra (fl 1) (ds_cat st) c
             then (case remove_file env (dc_path c) st of
                     None \<Rightarrow> ([], False, st)
                   | Some st1 \<Rightarrow>
                       (let (ok, cat) = delete_item_file_by_path (fl 2) (dc_path c) (ds_cat st1) in (dc_path c, ok, set_cat cat st1)))
             else
               (case (if it_path it = [] then Some st else remove_file env (it_path it) st) of
                  None \<Rightarrow> ([], False, st)
                | Some st1 \<Rightarrow>
                    (let cat1 = (if it_path it = [] then ds_cat st1 else snd (delete_item_file_by_path (fl 3) (it_path it) (ds_cat st1)));
                         st2 = set_cat cat1 st1 in
                     case list_files (fl 4) (it_id it) cat1 of
                       Some (_ # _) \<Rightarrow> (it_path it, True, st2)
                     | _ \<Rightarrow>
                         (let (ok, cat2) = delete_library_item (fl 5) (dc_tracked c) cat1 in (it_path it, ok, set_cat cat2 st2))))))"

text \<open>The loop over the candidates: an error, the paths reported as deleted, and the state.\<close>

fun remove_losers ::
  "dedup_env \<Rightarrow> (nat \<Rightarrow> bool) \<Rightarrow> nat \<Rightarrow> dup_candidate list \<Rightarrow> dedup_state \<Rightarrow> dedup_error option \<times> gostring list \<times> dedup_state" where
  "remove_losers env kept i [] st = (None, [], st)"
| "remove_losers env kept i (c # cs) st =
     (if kept i then remove_losers env kept (Suc i) cs st
      else
        (case remove_library_candidate env (de_fault env i) c st of
           (p, False, st1) \<Rightarrow> (Some (Removing (dc_path c)), if p = [] then [] else [p], st1)
         | (p, True, st1) \<Rightarrow>
             (let (e, changes, st2) = remove_losers env kept (Suc i) cs st1 in (e, (if p = [] then [] else [p]) @ changes, st2))))"

section \<open>Keeping the winner\<close>

definition promote_movie_winner ::
  "dedup_env \<Rightarrow> (nat \<Rightarrow> bool) \<Rightarrow> dup_candidate \<Rightarrow> dedup_state \<Rightarrow> bool \<times> catalogue" where
  "promote_movie_winner env fl w st =
     (case get_item (fl 0) (dc_tracked w) (ds_cat st) of
        Inl _ \<Rightarrow> (True, ds_cat st)
      | Inr it \<Rightarrow>
          if it_path it = dc_path w \<or> dc_path w = [] then (True, ds_cat st)
          else
            (let bytes = fst (stat_file env st (dc_path w)) in
             case update_item_primary_path (fl 1) (it_id it) (dc_path w) (it_tier it) bytes (ds_cat st) of
               (False, cat) \<Rightarrow> (False, cat)
             | (True, cat) \<Rightarrow>
                 upsert_file (\<lambda>k. fl (k + 2)) (new_file 0 (it_id it) (dc_path w) True (it_tier it) bytes (dc_phash w)) cat))"

definition winner_item :: "dedup_env \<Rightarrow> proposal \<Rightarrow> dup_candidate \<Rightarrow> gostring \<Rightarrow> dedup_state \<Rightarrow> item" where
  "winner_item env p w tier st =
     (let (bytes, mtime) = stat_file env st (dc_path w) in
      \<lparr>it_id = 0, it_mode = ''movies'', it_tmdb = p_tmdb p, it_title = p_title p, it_year = 0, it_path = dc_path w,
       it_root = p_root p, it_size = bytes, it_tier = tier, it_rating = 0, it_watch = False, it_phash = dc_phash w,
       it_phash_size = bytes, it_phash_mtime = mtime, it_created = [], it_genres = [], it_cast = []\<rparr>)"

definition register_winner ::
  "dedup_env \<Rightarrow> proposal \<Rightarrow> dup_candidate \<Rightarrow> gostring \<Rightarrow> dedup_state \<Rightarrow> (dedup_error + int) \<times> dedup_state" where
  "register_winner env p w tier st =
     (case upsert_item (\<lambda>k. de_end_fault env (k + 5)) (de_clock env) (winner_item env p w tier st) (ds_cat st) of
        (None, cat) \<Rightarrow> (Inl Register_failed, set_cat cat st)
      | (Some it, cat) \<Rightarrow> (Inr (it_id it), set_cat cat st))"

definition keep_winner ::
  "dedup_env \<Rightarrow> proposal \<Rightarrow> dup_candidate \<Rightarrow> gostring \<Rightarrow> dedup_state \<Rightarrow> (dedup_error + int) \<times> dedup_state" where
  "keep_winner env p w tier st =
     (if dc_tracked w = 0 then register_winner env p w tier st
      else
        (case promote_movie_winner env (de_end_fault env) w st of
           (False, cat) \<Rightarrow> (Inl Promote_failed, set_cat cat st)
         | (True, cat) \<Rightarrow>
             (case get_item (de_end_fault env 4) (dc_tracked w) cat of
                Inr _ \<Rightarrow> (Inr (dc_tracked w), set_cat cat st)
              | Inl _ \<Rightarrow> register_winner env p w tier (set_cat cat st))))"

section \<open>Apply\<close>

fun first_tracked :: "dup_candidate list \<Rightarrow> int" where
  "first_tracked [] = 0"
| "first_tracked (c # cs) = (if dc_tracked c \<noteq> 0 then dc_tracked c else first_tracked cs)"

definition kept_index :: "nat \<Rightarrow> int list \<Rightarrow> nat \<Rightarrow> bool" where
  "kept_index w additional i \<longleftrightarrow> i = w \<or> int i \<in> set additional"

definition apply_library ::
  "dedup_env \<Rightarrow> proposal \<Rightarrow> int option \<Rightarrow> int list \<Rightarrow> bool \<Rightarrow> gostring \<Rightarrow> dedup_state \<Rightarrow>
     (dedup_error + int) \<times> gostring list \<times> dedup_state" where
  "apply_library env p keep additional keep_all tier st =
     (let cs = p_candidates p in
      if p_status p \<noteq> Pending then (Inl Not_pending, [], st)
      else if length cs < 2 then (Inl Too_few_candidates, [], st)
      else if keep_all then (Inr (first_tracked cs), [], st)
      else if (case keep of None \<Rightarrow> False | Some k \<Rightarrow> k < 0 \<or> int (length cs) \<le> k) then (Inl Keep_out_of_range, [], st)
      else
        (let w = (case keep of None \<Rightarrow> winner_index cs | Some k \<Rightarrow> nat k) in
         case remove_losers env (kept_index w additional) 0 cs st of
           (Some e, changes, st1) \<Rightarrow> (Inl e, changes, st1)
         | (None, changes, st1) \<Rightarrow> (let (r, st2) = keep_winner env p (cs ! w) tier st1 in (r, changes, st2))))"

section \<open>One loser\<close>

text \<open>
  A candidate is current if its row, as long as it is there, has it as the main file or as an extra copy.
\<close>

definition current :: "catalogue \<Rightarrow> dup_candidate \<Rightarrow> bool" where
  "current cat c \<longleftrightarrow> dc_path c \<noteq> [] \<and> (dc_tracked c \<noteq> 0 \<longrightarrow>
     (\<forall>i\<in>set (ct_items cat). it_id i = dc_tracked c \<longrightarrow> it_path i = dc_path c \<or>
       (\<exists>f\<in>set (ct_files cat). if_item f = dc_tracked c \<and> if_path f = dc_path c \<and> \<not> if_primary f)))"

lemma candidates_current:
  assumes "cat_ok cat" "candidates_ok cat cs" "c \<in> set cs"
  shows "current cat c"
proof -
  have inj: "i = j" if "i \<in> set (ct_items cat)" "j \<in> set (ct_items cat)" "it_id i = it_id j" for i j
    using assms(1) that by (auto simp: cat_ok_def distinct_map inj_on_def)
  have ne: "dc_path c \<noteq> []" and r: "dc_tracked c \<noteq> 0 \<Longrightarrow> row_candidate cat (dc_tracked c) (dc_path c)"
    using assms(2,3) by (force simp: candidates_ok_def)+
  show ?thesis unfolding current_def
  proof (intro conjI impI ballI ne)
    fix i assume t: "dc_tracked c \<noteq> 0" and i: "i \<in> set (ct_items cat)" "it_id i = dc_tracked c"
    obtain j where j: "j \<in> set (ct_items cat)" "it_id j = dc_tracked c"
      "it_path j = dc_path c \<or> (\<exists>f\<in>set (ct_files cat). if_item f = dc_tracked c \<and> if_path f = dc_path c \<and> \<not> if_primary f)"
      using r [OF t] by (auto simp: row_candidate_def)
    have "j = i" by (rule inj) (use i j in simp_all)
    then show "it_path i = dc_path c \<or> (\<exists>f\<in>set (ct_files cat). if_item f = dc_tracked c \<and> if_path f = dc_path c \<and> \<not> if_primary f)"
      using j(3) by simp
  qed
qed

text \<open>What a removal leaves of the catalogue: rows only go, and a file row goes only with its title or for its path.\<close>

definition only_forgets :: "gostring \<Rightarrow> catalogue \<Rightarrow> catalogue \<Rightarrow> bool" where
  "only_forgets p c d \<longleftrightarrow> set (ct_items d) \<subseteq> set (ct_items c) \<and> (cat_ok c \<longrightarrow> cat_ok d) \<and>
     (\<forall>f\<in>set (ct_files c). if_path f \<noteq> p \<longrightarrow> if_item f \<in> it_id ` set (ct_items d) \<longrightarrow> f \<in> set (ct_files d))"

lemma only_forgets_refl [simp]: "only_forgets p c c"
  by (simp add: only_forgets_def)

lemma only_forgets_trans: "only_forgets p c d \<Longrightarrow> only_forgets p d e \<Longrightarrow> only_forgets p c e"
  unfolding only_forgets_def by blast

lemma only_forgets_file: "only_forgets p c (snd (delete_item_file_by_path fault p c))"
  using delete_item_file_ok [of c fault p] by (auto simp: only_forgets_def delete_item_file_by_path_def)

lemma only_forgets_item: "only_forgets p c (snd (delete_library_item fault n c))"
  using delete_library_item_ok [of c fault n] by (auto simp: only_forgets_def delete_library_item_def)

lemma current_forgets: "current c d \<Longrightarrow> only_forgets p c c' \<Longrightarrow> dc_path d \<noteq> p \<Longrightarrow> current c' d"
  unfolding current_def only_forgets_def by (metis image_eqI subsetD)

lemma get_item_row: "get_item fault n cat = Inr i \<Longrightarrow> i \<in> set (ct_items cat) \<and> it_id i = n"
  unfolding get_item_def by (auto split: if_splits list.splits dest!: filter_eq_ConsD)

lemma set_files_of: "set (files_of n cat) = {f \<in> set (ct_files cat). if_item f = n}"
  by (auto simp: files_of_def Let_def)

lemma extra_iff:
  "movie_candidate_is_extra False cat c \<longleftrightarrow> dc_tracked c \<noteq> 0 \<and> dc_path c \<noteq> [] \<and>
     (\<exists>f\<in>set (ct_files cat). if_item f = dc_tracked c \<and> if_path f = dc_path c \<and> \<not> if_primary f)"
  by (auto simp: movie_candidate_is_extra_def list_files_def list_ex_iff set_files_of)

lemma remove_file_some: "remove_file env p st = Some st1 \<Longrightarrow> st1 = st\<lparr>ds_disk := filter (\<lambda>q. q \<noteq> p) (ds_disk st)\<rparr>"
  by (simp add: remove_file_def split: if_splits)

lemma remove_candidate_step:
  assumes "current (ds_cat st) c" "\<not> fl 1" "remove_library_candidate env fl c st = (p, ok, st')"
  shows "only_forgets (dc_path c) (ds_cat st) (ds_cat st') \<and> (ok \<longrightarrow> p = dc_path c) \<and>
    (p = dc_path c \<and> ds_disk st' = filter (\<lambda>q. q \<noteq> p) (ds_disk st) \<or> p = [] \<and> st' = st)"
proof (cases "dc_tracked c = 0")
  case True
  then show ?thesis using assms(1,3)
    by (auto simp: remove_library_candidate_def current_def split: option.splits dest!: remove_file_some)
next
  case tracked: False
  show ?thesis
  proof (cases "get_item (fl 0) (dc_tracked c) (ds_cat st)")
    case Inl
    then show ?thesis using tracked assms(3) by (simp add: remove_library_candidate_def)
  next
    case (Inr it)
    note row = get_item_row [OF Inr]
    show ?thesis
    proof (cases "movie_candidate_is_extra (fl 1) (ds_cat st) c")
      case True
      then show ?thesis using tracked Inr assms(1,3) only_forgets_file [of "dc_path c" "ds_cat st" "fl 2"]
        by (auto simp: remove_library_candidate_def split: option.splits prod.splits dest!: remove_file_some)
    next
      case False
      then have path: "it_path it = dc_path c" "dc_path c \<noteq> []"
        using assms(1,2) row tracked extra_iff [of "ds_cat st" c] by (auto simp: current_def)
      show ?thesis
      proof (cases "remove_file env (dc_path c) st")
        case None
        then show ?thesis using tracked Inr False path assms(3) by (simp add: remove_library_candidate_def)
      next
        case (Some st1)
        let ?c1 = "snd (delete_item_file_by_path (fl 3) (dc_path c) (ds_cat st))"
        have f: "only_forgets (dc_path c) (ds_cat st) ?c1" by (rule only_forgets_file)
        have g: "only_forgets (dc_path c) (ds_cat st) (snd (delete_library_item (fl 5) (dc_tracked c) ?c1))"
          by (rule only_forgets_trans [OF f only_forgets_item])
        show ?thesis using Some tracked Inr False path assms(3) f g
          by (auto simp: remove_library_candidate_def Let_def split: option.splits list.splits prod.splits dest!: remove_file_some)
      qed
    qed
  qed
qed

section \<open>All losers\<close>

fun loser_paths :: "(nat \<Rightarrow> bool) \<Rightarrow> nat \<Rightarrow> dup_candidate list \<Rightarrow> gostring list" where
  "loser_paths kept i [] = []"
| "loser_paths kept i (c # cs) = (if kept i then [] else [dc_path c]) @ loser_paths kept (Suc i) cs"

lemma set_loser_paths: "x \<in> set (loser_paths kept i cs) \<longleftrightarrow> (\<exists>j<length cs. \<not> kept (i + j) \<and> dc_path (cs ! j) = x)"
  by (induction cs arbitrary: i) (auto simp: less_Suc_eq_0_disj)

lemma remove_losers_ok:
  "remove_losers env kept i cs st = (e, changes, st') \<Longrightarrow> \<forall>j. \<not> de_fault env j 1 \<Longrightarrow>
   \<forall>c\<in>set cs. current (ds_cat st) c \<Longrightarrow> distinct (map dc_path cs) \<Longrightarrow>
    (\<exists>rest. loser_paths kept i cs = changes @ rest \<and> (e = None \<longrightarrow> rest = [])) \<and>
    ds_disk st' = filter (\<lambda>q. q \<notin> set changes) (ds_disk st) \<and> (cat_ok (ds_cat st) \<longrightarrow> cat_ok (ds_cat st'))"
proof (induction env kept i cs st arbitrary: e changes st' rule: remove_losers.induct)
  case (2 env kept i c cs st)
  show ?case
  proof (cases "kept i")
    case True
    then show ?thesis using 2(1) [OF True] 2(3-6) by simp
  next
    case False
    obtain p ok st1 where r: "remove_library_candidate env (de_fault env i) c st = (p, ok, st1)" by (rule prod_cases3)
    have f: "\<not> de_fault env i 1" using 2(4) by simp
    have cur: "current (ds_cat st) c" using 2(5) by simp
    note step = remove_candidate_step [OF cur f r]
    have ne: "dc_path c \<noteq> []" using cur by (simp add: current_def)
    show ?thesis
    proof (cases ok)
      case bad: False
      then have eq: "changes = (if p = [] then [] else [p])" "st' = st1" "e = Some (Removing (dc_path c))" using 2(3) False r by auto
      show ?thesis using step ne False unfolding eq only_forgets_def by (cases "p = []") auto
    next
      case ok: True
      obtain e2 ch2 st2 where t: "remove_losers env kept (Suc i) cs st1 = (e2, ch2, st2)" by (rule prod_cases3)
      have p: "p = dc_path c" using step ok by blast
      have eq: "changes = p # ch2" "st' = st2" "e = e2" using 2(3) False r ok t p ne by simp_all
      have "\<forall>d\<in>set cs. current (ds_cat st1) d"
      proof
        fix d assume d: "d \<in> set cs"
        then have "dc_path d \<noteq> dc_path c" "current (ds_cat st) d" using 2(5,6) by (auto simp: image_iff)
        with current_forgets step show "current (ds_cat st1) d" by blast
      qed
      then have ih: "(\<exists>rest. loser_paths kept (Suc i) cs = ch2 @ rest \<and> (e2 = None \<longrightarrow> rest = [])) \<and>
          ds_disk st2 = filter (\<lambda>q. q \<notin> set ch2) (ds_disk st1) \<and> (cat_ok (ds_cat st1) \<longrightarrow> cat_ok (ds_cat st2))"
        using 2(2) [OF False r [symmetric] refl] ok t 2(4,6) by simp
      have d: "ds_disk st1 = filter (\<lambda>q. q \<noteq> p) (ds_disk st)" using step ne p by auto
      have "cat_ok (ds_cat st) \<longrightarrow> cat_ok (ds_cat st1)" using step by (simp add: only_forgets_def)
      then show ?thesis using ih False unfolding eq by (auto simp: d p intro!: filter_cong)
    qed
  qed
qed simp

section \<open>The winner\<close>

lemma sync_primary_items: "ct_items (snd (sync_primary_file fl it cat)) = ct_items cat"
  by (auto simp: sync_primary_file_def insert_file_def put_files_def Let_def split: option.splits list.splits if_splits)

lemma upsert_item_row:
  assumes "upsert_item fl clock new cat = (Some it, cat')"
  shows "it_id it \<in> it_id ` {i \<in> set (ct_items cat'). it_path i = it_path new}"
proof -
  let ?same = "\<lambda>i. it_mode i = it_mode new \<and> it_tmdb i = it_tmdb new"
  obtain row items where r: "(case filter ?same (ct_items cat) of
      [] \<Rightarrow> (let r = new\<lparr>it_id := ct_next_item cat, it_created := clock (ct_next_item cat), it_rating := 0, it_watch := False\<rparr> in (r, ct_items cat @ [r]))
    | old # _ \<Rightarrow> (upsert_row new old, map (\<lambda>i. if ?same i then upsert_row new i else i) (ct_items cat))) = (row, items)"
    by (rule prod.exhaust)
  have up: "upsert_item fl clock new cat =
      (case sync_primary_file (\<lambda>k. fl (k + 1)) (new\<lparr>it_id := it_id row, it_created := it_created row\<rparr>)
          (cat\<lparr>ct_next_item := ct_next_item cat + 1, ct_items := items\<rparr>) of
         (False, c) \<Rightarrow> (None, c) | (True, c) \<Rightarrow> (Some (new\<lparr>it_id := it_id row, it_created := it_created row\<rparr>), c))"
    if "\<not> fl 0" using that r by (simp add: upsert_item_def Let_def)
  have "\<not> fl 0" using assms by (auto simp: upsert_item_def)
  then have it: "it_id it = it_id row" and items: "ct_items cat' = items"
    using assms up sync_primary_items [of "\<lambda>k. fl (k + 1)" "new\<lparr>it_id := it_id row, it_created := it_created row\<rparr>"
        "cat\<lparr>ct_next_item := ct_next_item cat + 1, ct_items := items\<rparr>"]
    by (auto split: prod.splits bool.splits)
  have "row \<in> set items \<and> it_path row = it_path new"
  proof (cases "filter ?same (ct_items cat)")
    case Nil
    then show ?thesis using r by (auto simp: Let_def)
  next
    case (Cons old olds)
    then have "old \<in> set (ct_items cat)" "?same old" by (auto dest: filter_eq_ConsD)
    then show ?thesis using r Cons by (auto simp: upsert_row_def image_iff intro!: bexI [of _ old])
  qed
  then show ?thesis using it items by auto
qed

lemma promote_items:
  assumes "promote_movie_winner env fl w st = (True, cat)" "\<not> fl 0" "dc_path w \<noteq> []" "get_item f (dc_tracked w) cat = Inr i"
    "cat_ok (ds_cat st)"
  shows "\<exists>j\<in>set (ct_items cat). it_id j = dc_tracked w \<and> it_path j = dc_path w"
proof (cases "get_item (fl 0) (dc_tracked w) (ds_cat st)")
  case (Inl e)
  then have "cat = ds_cat st" using assms(1) by (simp add: promote_movie_winner_def)
  then show ?thesis using Inl assms(2) get_item_row [OF assms(4)]
    by (auto simp: get_item_def filter_empty_conv split: list.splits)
next
  case (Inr it)
  note row = get_item_row [OF Inr]
  show ?thesis
  proof (cases "it_path it = dc_path w")
    case True
    then show ?thesis using Inr row assms(1) by (auto simp: promote_movie_winner_def)
  next
    case False
    have files: "ct_items (snd (upsert_file g x c)) = ct_items c" for g x c
      by (auto simp: upsert_file_def write_file_def insert_file_def put_files_def demote_primary_def Let_def split: option.splits if_splits)
    obtain c where c: "update_item_primary_path (fl 1) (it_id it) (dc_path w) (it_tier it) (fst (stat_file env st (dc_path w))) (ds_cat st) = (True, c)"
      "ct_items cat = ct_items c"
      using Inr False assms(1,3) files by (auto simp: promote_movie_winner_def Let_def split: prod.splits bool.splits) (metis snd_conv)
    let ?new = "it\<lparr>it_path := dc_path w, it_tier := it_tier it, it_size := fst (stat_file env st (dc_path w))\<rparr>"
    have "?new \<in> set (ct_items c)" using c(1) row by (auto simp: update_item_primary_path_def split: if_splits intro!: image_eqI [of _ _ it])
    then show ?thesis using row c(2) by (intro bexI [of _ ?new]) simp_all
  qed
qed

lemma promote_ok: "cat_ok (ds_cat st) \<Longrightarrow> cat_ok (snd (promote_movie_winner env fl w st))"
proof -
  assume ok: "cat_ok (ds_cat st)"
  have "cat_ok (snd (upsert_file g x (snd (update_item_primary_path a b c d e (ds_cat st)))))" for g x a b c d e
    by (intro upsert_file_ok update_primary_ok ok)
  then show ?thesis using ok update_primary_ok [OF ok]
    by (auto simp: promote_movie_winner_def Let_def split: sum.splits prod.splits bool.splits) (metis snd_conv)+
qed

lemma register_ok: "cat_ok (ds_cat st) \<Longrightarrow> cat_ok (ds_cat (snd (register_winner env p w tier st)))"
proof -
  assume "cat_ok (ds_cat st)"
  from upsert_item_ok [OF this] show ?thesis by (auto simp: register_winner_def split: prod.splits option.splits) (metis snd_conv)+
qed

lemma register_disk: "ds_disk (snd (register_winner env p w tier st)) = ds_disk st"
  by (auto simp: register_winner_def split: prod.splits option.splits)

lemma register_row:
  assumes "register_winner env p w tier st = (Inr n, st')"
  shows "\<exists>i\<in>set (ct_items (ds_cat st')). it_id i = n \<and> it_path i = dc_path w"
proof -
  have "it_path (winner_item env p w tier st) = dc_path w" by (simp add: winner_item_def split: prod.splits)
  then show ?thesis using assms upsert_item_row
    by (auto simp: register_winner_def split: prod.splits option.splits) (force dest: upsert_item_row)
qed

lemma keep_winner_ok:
  assumes "keep_winner env p w tier st = (r, st')"
  shows "ds_disk st' = ds_disk st" "cat_ok (ds_cat st) \<Longrightarrow> cat_ok (ds_cat st')"
    "r = Inr n \<Longrightarrow> cat_ok (ds_cat st) \<Longrightarrow> \<not> de_end_fault env 0 \<Longrightarrow> dc_path w \<noteq> [] \<Longrightarrow>
       \<exists>i\<in>set (ct_items (ds_cat st')). it_id i = n \<and> it_path i = dc_path w"
proof -
  obtain ok cat where pr: "promote_movie_winner env (de_end_fault env) w st = (ok, cat)" by (rule prod.exhaust)
  have cat: "cat_ok (ds_cat st) \<Longrightarrow> cat_ok cat" using promote_ok [of st env "de_end_fault env" w] pr by simp
  note reg = register_disk register_ok register_row
  show "ds_disk st' = ds_disk st" "cat_ok (ds_cat st) \<Longrightarrow> cat_ok (ds_cat st')"
    using assms pr cat register_disk [of env p w tier st] register_ok [of st env p w tier]
      register_disk [of env p w tier "set_cat cat st"] register_ok [of "set_cat cat st" env p w tier]
    by (auto simp: keep_winner_def split: if_splits prod.splits bool.splits sum.splits)
  assume "r = Inr n" "cat_ok (ds_cat st)" "\<not> de_end_fault env 0" "dc_path w \<noteq> []"
  then show "\<exists>i\<in>set (ct_items (ds_cat st')). it_id i = n \<and> it_path i = dc_path w"
    using assms pr register_row [of env p w tier _ n st'] promote_items [of env "de_end_fault env" w st cat]
    by (auto simp: keep_winner_def split: if_splits prod.splits bool.splits sum.splits)
qed

section \<open>Applying a proposal\<close>

definition apply_winner :: "proposal \<Rightarrow> int option \<Rightarrow> nat" where
  "apply_winner p keep = (case keep of None \<Rightarrow> winner_index (p_candidates p) | Some k \<Rightarrow> nat k)"

lemma apply_cases:
  assumes "apply_library env p keep additional keep_all tier st = (r, changes, st')"
  obtains (none) "changes = []" "st' = st" "\<And>n. r = Inr n \<Longrightarrow> keep_all"
  | (losers) e st1 where "\<not> keep_all" "remove_losers env (kept_index (apply_winner p keep) additional) 0 (p_candidates p) st = (e, changes, st1)"
      "(e \<noteq> None \<and> st' = st1 \<and> (\<forall>n. r \<noteq> Inr n)) \<or> e = None \<and> keep_winner env p (p_candidates p ! apply_winner p keep) tier st1 = (r, st')"
proof -
  show ?thesis
  proof (cases "p_status p \<noteq> Pending \<or> length (p_candidates p) < 2 \<or> keep_all \<or>
      (case keep of None \<Rightarrow> False | Some k \<Rightarrow> k < 0 \<or> int (length (p_candidates p)) \<le> k)")
    case True
    then show ?thesis using assms none by (auto simp: apply_library_def Let_def split: if_splits)
  next
    case False
    obtain e ch st1 where l: "remove_losers env (kept_index (apply_winner p keep) additional) 0 (p_candidates p) st = (e, ch, st1)"
      by (rule prod_cases3)
    have a: "apply_library env p keep additional keep_all tier st =
        (case e of Some x \<Rightarrow> (Inl x, ch, st1)
         | None \<Rightarrow> (let (r, st2) = keep_winner env p (p_candidates p ! apply_winner p keep) tier st1 in (r, ch, st2)))"
      using False l by (simp add: apply_library_def Let_def apply_winner_def split: option.splits)
    show ?thesis
    proof (rule losers [of e st1])
      show "\<not> keep_all" using False by simp
      show "remove_losers env (kept_index (apply_winner p keep) additional) 0 (p_candidates p) st = (e, changes, st1)"
        using assms l unfolding a by (auto split: option.splits prod.splits)
      show "(e \<noteq> None \<and> st' = st1 \<and> (\<forall>n. r \<noteq> Inr n)) \<or> e = None \<and> keep_winner env p (p_candidates p ! apply_winner p keep) tier st1 = (r, st')"
        using assms unfolding a by (auto split: option.splits prod.splits)
    qed
  qed
qed

lemma apply_deletes_losers_core:
  assumes "cat_ok (ds_cat st)" "candidates_ok (ds_cat st) (p_candidates p)" "\<forall>i. \<not> de_fault env i 1"
    "apply_library env p keep additional keep_all tier st = (r, changes, st')"
  shows "let cs = p_candidates p; kept = kept_index (apply_winner p keep) additional in
    ds_disk st' = filter (\<lambda>q. q \<notin> set changes) (ds_disk st) \<and>
    (\<forall>q\<in>set changes. \<exists>j<length cs. \<not> kept j \<and> dc_path (cs ! j) = q) \<and>
    (\<forall>j<length cs. kept j \<and> dc_path (cs ! j) \<in> set (ds_disk st) \<longrightarrow> dc_path (cs ! j) \<in> set (ds_disk st')) \<and>
    (keep_all \<longrightarrow> changes = []) \<and> cat_ok (ds_cat st') \<and>
    (\<forall>n. r = Inr n \<and> \<not> keep_all \<longrightarrow> (\<forall>j<length cs. \<not> kept j \<longrightarrow> dc_path (cs ! j) \<in> set changes) \<and>
       (\<not> de_end_fault env 0 \<and> apply_winner p keep < length cs \<longrightarrow>
          (\<exists>i\<in>set (ct_items (ds_cat st')). it_id i = n \<and> it_path i = dc_path (cs ! apply_winner p keep))))"
  using assms(4)
proof (cases rule: apply_cases)
  case none
  then show ?thesis using assms(1) by (auto simp: Let_def)
next
  case (losers e st1)
  let ?cs = "p_candidates p" and ?kept = "kept_index (apply_winner p keep) additional"
  have cur: "\<forall>c\<in>set ?cs. current (ds_cat st) c" using candidates_current [OF assms(1,2)] by blast
  have dis: "distinct (map dc_path ?cs)" using assms(2) by (simp add: candidates_ok_def)
  note l = remove_losers_ok [OF losers(2) assms(3) cur dis]
  have disk: "ds_disk st' = filter (\<lambda>q. q \<notin> set changes) (ds_disk st)" and ok: "cat_ok (ds_cat st')"
    using losers(3) l assms(1) keep_winner_ok(1,2) [of env p "?cs ! apply_winner p keep" tier st1 r st'] by auto
  have sub: "\<forall>q\<in>set changes. \<exists>j<length ?cs. \<not> ?kept j \<and> dc_path (?cs ! j) = q"
    using l set_loser_paths [of _ ?kept 0 ?cs] by fastforce
  have stay: "dc_path (?cs ! j) \<notin> set changes" if "j < length ?cs" "?kept j" for j
  proof
    assume "dc_path (?cs ! j) \<in> set changes"
    then obtain k where "k < length ?cs" "\<not> ?kept k" "dc_path (?cs ! k) = dc_path (?cs ! j)" using sub by blast
    then show False using dis that by (auto simp: distinct_conv_nth)
  qed
  have all: "\<forall>j<length ?cs. \<not> ?kept j \<longrightarrow> dc_path (?cs ! j) \<in> set changes" if "e = None"
    using l set_loser_paths [of _ ?kept 0 ?cs] that by fastforce
  have row: "\<exists>i\<in>set (ct_items (ds_cat st')). it_id i = n \<and> it_path i = dc_path (?cs ! apply_winner p keep)"
    if "r = Inr n" "\<not> de_end_fault env 0" "apply_winner p keep < length ?cs" for n
  proof -
    have "keep_winner env p (?cs ! apply_winner p keep) tier st1 = (r, st')" using losers(3) that(1) by auto
    moreover have "dc_path (?cs ! apply_winner p keep) \<noteq> []" using cur that(3) by (auto simp: current_def)
    ultimately show ?thesis using keep_winner_ok(3) that l assms(1) by blast
  qed
  have "e = None" if "r = Inr n" for n using losers(3) that by auto
  then show ?thesis using disk ok sub stay all row losers(1) by (auto simp: Let_def)
qed



text \<open>
  C20. When that listing fails for a loser that is an extra copy of the winner's title - a request that was cancelled is
  enough - the apply takes it for the title's main file and deletes that one: the file it was asked to keep is
  gone, the loser stays.
\<close>

theorem failed_listing_deletes_kept_file:
  assumes "cat_ok (ds_cat st)" "i \<in> set (ct_items (ds_cat st))" "it_path i = dc_path w" "dc_path w \<noteq> []"
    "p_status p = Pending" "p_candidates p = [w, c]" "dc_winner w"
    "dc_tracked w = it_id i" "dc_tracked c = it_id i" "dc_path c \<noteq> dc_path w"
    "\<not> de_fault env 1 0" "de_fault env 1 1" "\<not> de_rm_fails env (dc_path w)"
    "apply_library env p None [] False tier st = (r, changes, st')"
  shows "changes = [dc_path w] \<and> dc_path w \<notin> set (ds_disk st') \<and>
    (dc_path c \<in> set (ds_disk st) \<longrightarrow> dc_path c \<in> set (ds_disk st'))"
proof -
  have n: "dc_tracked c \<noteq> 0" using assms(1,2,9) by (fastforce simp: cat_ok_def)
  have uniq: "j = i" if "j \<in> set (ct_items (ds_cat st))" "it_id j = it_id i" for j
    using assms(1,2) that by (auto simp: cat_ok_def distinct_map inj_on_def)
  have g: "get_item False (dc_tracked c) (ds_cat st) = Inr i"
  proof (cases "get_item False (dc_tracked c) (ds_cat st)")
    case (Inl e)
    then show ?thesis using assms(2,9) by (auto simp: get_item_def filter_empty_conv split: list.splits)
  next
    case (Inr j)
    then show ?thesis using uniq get_item_row [OF Inr] assms(9) by simp
  qed
  let ?st1 = "st\<lparr>ds_disk := filter (\<lambda>q. q \<noteq> dc_path w) (ds_disk st)\<rparr>"
  have ex: "\<not> movie_candidate_is_extra True (ds_cat st) c" by (simp add: movie_candidate_is_extra_def list_files_def)
  obtain x ok st2 where rc: "remove_library_candidate env (de_fault env 1) c st = (x, ok, st2)" by (rule prod_cases3)
  then have "x = dc_path w \<and> ds_disk st2 = ds_disk ?st1" using n g ex assms(3,4,11-13)
    by (auto simp: remove_library_candidate_def remove_file_def Let_def split: option.splits list.splits prod.splits)
  with rc have rm: "remove_library_candidate env (de_fault env 1) c st = (dc_path w, ok, st2)" "ds_disk st2 = ds_disk ?st1" by simp_all
  have "winner_index (p_candidates p) = 0" using assms(6,7) by (simp add: winner_index_def)
  then have "changes = [dc_path w] \<and> ds_disk st' = ds_disk st2"
    using assms(4-6,14) rm(1) keep_winner_ok(1) [of env p w tier st2]
    by (auto simp: apply_library_def Let_def kept_index_def split: bool.splits prod.splits)
  then show ?thesis using rm(2) assms(10) by auto
qed

text \<open>
  A title that loses its main file while other files of it are there keeps the path of the file that is gone; only a
  winner of the same title would give it another.
\<close>

theorem removed_main_file_dangles:
  assumes "cat_ok (ds_cat st)" "i \<in> set (ct_items (ds_cat st))" "it_id i = dc_tracked c" "it_path i = dc_path c" "dc_path c \<noteq> []"
    "\<not> movie_candidate_is_extra False (ds_cat st) c" "g \<in> set (ct_files (ds_cat st))" "if_item g = dc_tracked c" "if_path g \<noteq> dc_path c"
    "\<forall>k. \<not> fl k" "\<not> de_rm_fails env (dc_path c)"
  shows "case remove_library_candidate env fl c st of (p, ok, st') \<Rightarrow>
    ok \<and> p = dc_path c \<and> i \<in> set (ct_items (ds_cat st')) \<and> it_path i \<notin> set (ds_disk st')"
proof -
  have n: "dc_tracked c \<noteq> 0" using assms(1-3) by (fastforce simp: cat_ok_def)
  have uniq: "j = i" if "j \<in> set (ct_items (ds_cat st))" "it_id j = it_id i" for j
    using assms(1,2) that by (auto simp: cat_ok_def distinct_map inj_on_def)
  have get: "get_item False (dc_tracked c) (ds_cat st) = Inr i"
  proof (cases "get_item False (dc_tracked c) (ds_cat st)")
    case (Inl e)
    then show ?thesis using assms(2,3) by (auto simp: get_item_def filter_empty_conv split: list.splits)
  next
    case (Inr j)
    then show ?thesis using uniq get_item_row [OF Inr] assms(3) by simp
  qed
  let ?cat = "ds_cat st\<lparr>ct_files := filter (\<lambda>f. if_path f \<noteq> dc_path c) (ct_files (ds_cat st))\<rparr>"
  have "g \<in> set (files_of (it_id i) ?cat)" using assms(3,7-9) by (simp add: set_files_of)
  then obtain h hs where "files_of (it_id i) ?cat = h # hs" by (cases "files_of (it_id i) ?cat") auto
  then show ?thesis using n get assms(2,4-6,10,11)
    by (simp add: remove_library_candidate_def list_files_def remove_file_def delete_item_file_by_path_def Let_def)
qed

section \<open>Examples\<close>

definition sample_env :: "(nat \<Rightarrow> nat \<Rightarrow> bool) \<Rightarrow> dedup_env" where
  "sample_env fault = \<lparr>de_rm_fails = (\<lambda>_. False), de_stat = (\<lambda>_. (7, ''u'')), de_clock = (\<lambda>_. ''now''), de_fault = fault,
     de_end_fault = (\<lambda>_. False)\<rparr>"

definition no_fault :: "nat \<Rightarrow> nat \<Rightarrow> bool" where "no_fault i k = False"

definition demo_disk :: "gostring list" where
  "demo_disk = [''/m/a.mkv'', ''/m/b.mkv'', ''/m/x.nfo'']"

lemma demo_scan_apply:
  "case scan_library_phash demo_env [] ''/m'' 64 (demo_catalogue, []) of
     (Some [p], sst') \<Rightarrow>
       (case apply_library (sample_env no_fault) p None [] False ''best'' \<lparr>ds_disk = demo_disk, ds_cat = fst sst'\<rparr> of
          (r, changes, st') \<Rightarrow> r = Inr 2 \<and> changes = [''/m/a.mkv''] \<and> ds_disk st' = [''/m/b.mkv'', ''/m/x.nfo''] \<and>
            map it_path (ct_items (ds_cat st')) = [''/m/b.mkv''])
   | _ \<Rightarrow> False"
  by code_simp


text \<open>A title with a main file and an extra copy, and a proposal that keeps the main file.\<close>

definition two_copies :: dedup_state where
  "two_copies = \<lparr>ds_disk = demo_disk,
     ds_cat = demo_catalogue\<lparr>ct_files := [new_file 1 1 ''/m/a.mkv'' True [] 5 [], new_file 2 1 ''/m/b.mkv'' False [] 7 []], ct_next_file := 3\<rparr>\<rparr>"

definition main_copy :: dup_candidate where
  "main_copy = (sample_candidate ''/m/a.mkv'' 1 1080 ''av1'' 9000)\<lparr>dc_winner := True\<rparr>"

definition extra_copy :: dup_candidate where
  "extra_copy = sample_candidate ''/m/b.mkv'' 1 720 ''av1'' 9000"

definition two_copies_proposal :: proposal where
  "two_copies_proposal = zero_proposal\<lparr>p_mode := ''movies'', p_workflow := wf_dedup, p_candidates := [main_copy, extra_copy]\<rparr>"

lemmas two_copies_defs = two_copies_def two_copies_proposal_def main_copy_def extra_copy_def sample_candidate_def zero_proposal_def
  demo_catalogue_def demo_item_def new_file_def demo_disk_def

lemma two_copies_ok: "cat_ok (ds_cat two_copies)" "candidates_ok (ds_cat two_copies) (p_candidates two_copies_proposal)"
  by (simp_all add: two_copies_defs cat_ok_def file_paths_unique_def one_primary_def candidates_ok_def row_candidate_def)


definition lost_listing :: "nat \<Rightarrow> nat \<Rightarrow> bool" where "lost_listing i k \<longleftrightarrow> k = 1"

theorem failed_listing_deletes_kept_file_witness:
  "case apply_library (sample_env lost_listing) two_copies_proposal None [] False [] two_copies of (r, changes, st') \<Rightarrow>
     r = Inr 1 \<and> changes = [''/m/a.mkv''] \<and> ''/m/a.mkv'' \<notin> set (ds_disk st') \<and> ''/m/b.mkv'' \<in> set (ds_disk st')"
proof -
  obtain r changes st' where a: "apply_library (sample_env lost_listing) two_copies_proposal None [] False [] two_copies = (r, changes, st')"
    by (rule prod_cases3)
  have "case apply_library (sample_env lost_listing) two_copies_proposal None [] False [] two_copies of (r, changes, st') \<Rightarrow> r = Inr 1"
    by code_simp
  then have r: "r = Inr 1" unfolding a by simp
  have "changes = [dc_path main_copy] \<and> dc_path main_copy \<notin> set (ds_disk st') \<and>
      (dc_path extra_copy \<in> set (ds_disk two_copies) \<longrightarrow> dc_path extra_copy \<in> set (ds_disk st'))"
    by (rule failed_listing_deletes_kept_file [OF two_copies_ok(1), of demo_item main_copy two_copies_proposal extra_copy "sample_env lost_listing" "[]" r])
      (use a in \<open>simp_all add: two_copies_defs sample_env_def lost_listing_def\<close>)
  then show ?thesis using r unfolding a by (simp add: two_copies_defs)
qed

theorem removed_main_file_dangles_witness:
  "case remove_library_candidate (sample_env no_fault) (no_fault 0) main_copy two_copies of (p, ok, st') \<Rightarrow>
    ok \<and> p = ''/m/a.mkv'' \<and> demo_item \<in> set (ct_items (ds_cat st')) \<and> it_path demo_item \<notin> set (ds_disk st')"
proof -
  have "case remove_library_candidate (sample_env no_fault) (no_fault 0) main_copy two_copies of (p, ok, st') \<Rightarrow>
      ok \<and> p = dc_path main_copy \<and> demo_item \<in> set (ct_items (ds_cat st')) \<and> it_path demo_item \<notin> set (ds_disk st')"
    by (rule removed_main_file_dangles [OF two_copies_ok(1), where g = "new_file 2 1 ''/m/b.mkv'' False [] 7 []"])
      (auto simp: two_copies_defs sample_env_def no_fault_def extra_iff)
  then show ?thesis by (simp add: main_copy_def sample_candidate_def)
qed

text \<open>
  Groups of files that no title has carry the TMDB id 0. The second of two such proposals that is applied takes over the
  title of the first, whose winner is a file without a title again.
\<close>

definition orphan_pair :: "gostring \<Rightarrow> gostring \<Rightarrow> proposal" where
  "orphan_pair a b = zero_proposal\<lparr>p_mode := ''movies'', p_workflow := wf_dedup, p_title := a,
     p_candidates := mark_winner [sample_candidate a 0 1080 ''av1'' 9000, sample_candidate b 0 720 ''av1'' 9000]\<rparr>"

theorem orphan_groups_share_title:
  "let st = \<lparr>ds_disk = [''/a'', ''/b'', ''/c'', ''/d''],
       ds_cat = \<lparr>ct_items = [], ct_files = [], ct_tags = [], ct_next_item = 1, ct_next_file = 1\<rparr>\<rparr>;
       (r1, _, st1) = apply_library (sample_env no_fault) (orphan_pair ''/a'' ''/b'') None [] False [] st;
       (r2, _, st2) = apply_library (sample_env no_fault) (orphan_pair ''/c'' ''/d'') None [] False [] st1
   in r1 = Inr 1 \<and> r2 = Inr 1 \<and> ds_disk st2 = [''/a'', ''/c''] \<and> map it_path (ct_items (ds_cat st2)) = [''/c''] \<and>
      map if_path (ct_files (ds_cat st2)) = [''/c'']"
  by code_simp

text \<open>
  Registering a title under the path of its own extra copy fails at the second statement, with the first one done: the
  title names the extra copy, its primary row the former main file.
\<close>

theorem failed_upsert_out_of_step:
  "case upsert_item (\<lambda>_. False) (\<lambda>_. []) (demo_item\<lparr>it_id := 0, it_path := ''/m/b.mkv''\<rparr>) (ds_cat two_copies) of (r, cat) \<Rightarrow>
     r = None \<and> map it_path (ct_items cat) = [''/m/b.mkv''] \<and> map if_path (filter if_primary (ct_files cat)) = [''/m/a.mkv'']"
  by code_simp

end
