(* ===== verification/Purge_Files.thy ===== *)
theory Purge_Files
  imports Routes "HOL-Library.Sublist"
begin

text \<open>
  Removing a title's files (\<open>internal/purge/purge_remove.go\<close>): each path, then the folders the paths were in,
  unless a folder is the library root, lies outside it or holds a file to keep. The disk is the list of the clean
  absolute paths of its files; links are left out. \<open>filepath.Clean\<close> is \<open>path_clean\<close>.
\<close>

section \<open>Paths\<close>

fun unique_from :: "gostring list \<Rightarrow> gostring list \<Rightarrow> gostring list" where
  "unique_from seen [] = []"
| "unique_from seen (p # ps) = (if p = [] \<or> p \<in> set seen then unique_from seen ps else p # unique_from (p # seen) ps)"

definition unique_non_empty_paths :: "gostring list \<Rightarrow> gostring list" where
  "unique_non_empty_paths ps = unique_from [] ps"

text \<open>\<open>filepath.Dir\<close>.\<close>

definition file_dir :: "gostring \<Rightarrow> gostring" where
  "file_dir p = path_clean (rev (dropWhile (\<lambda>c. c \<noteq> CHR ''/'') (rev p)))"

text \<open>\<open>filepath.Rel\<close>: the elements after the common ones, behind as many dot-dots as the base goes on for.\<close>

definition path_rel :: "gostring \<Rightarrow> gostring \<Rightarrow> gostring option" where
  "path_rel base targ =
     (let b = segments base; t = segments targ; n = length (longest_common_prefix b t); bs = drop n b; ts = drop n t in
      if path_clean base = path_clean targ then Some ''.''
      else if is_rooted (path_clean base) \<noteq> is_rooted (path_clean targ) then None
      else if bs = [] then Some (join_on (CHR ''/'') ts)
      else if hd bs = ''..'' then None
      else Some (join_on (CHR ''/'') (replicate (length bs) ''..'' @ ts)))"

definition is_safe_library_subdir :: "gostring \<Rightarrow> gostring \<Rightarrow> bool" where
  "is_safe_library_subdir dir base =
     (if dir = [] \<or> base = [] then False
      else if path_clean dir = path_clean base then False
      else (case path_rel (path_clean base) (path_clean dir) of
              None \<Rightarrow> False
            | Some rel \<Rightarrow> \<not> (rel = ''.'' \<or> rel = ''..'' \<or> has_prefix ''../'' rel)))"

text \<open>A file is the folder itself or in it.\<close>

definition in_folder :: "gostring \<Rightarrow> gostring \<Rightarrow> bool" where
  "in_folder d q \<longleftrightarrow> q = d \<or> has_prefix (d @ ''/'') q"

definition dir_holds_kept_path :: "gostring \<Rightarrow> gostring list \<Rightarrow> bool" where
  "dir_holds_kept_path dir keep \<longleftrightarrow> dir \<noteq> [] \<and> keep \<noteq> [] \<and> list_ex (\<lambda>p. in_folder (path_clean dir) (path_clean p)) keep"

section \<open>Removal\<close>

text \<open>
  What cannot be removed (a file that is not there can), what \<open>os.RemoveAll\<close> leaves behind, and the order in
  which Go goes through the set of folders.
\<close>

record purge_env =
  pe_rm_fails :: "gostring \<Rightarrow> bool"
  pe_stuck :: "gostring \<Rightarrow> bool"
  pe_order :: "gostring list \<Rightarrow> gostring list"

datatype purge_error =
  Purge_not_pending | Purge_no_id | Purge_load | Purge_list | Purge_delete_path gostring | Purge_delete_folder gostring
| Purge_delete_row | Purge_remove_spec

text \<open>An error, the paths reported as deleted, and the disk.\<close>

fun remove_each :: "purge_env \<Rightarrow> gostring list \<Rightarrow> gostring list \<Rightarrow> purge_error option \<times> gostring list \<times> gostring list" where
  "remove_each env [] disk = (None, [], disk)"
| "remove_each env (p # ps) disk =
     (if pe_rm_fails env p then (Some (Purge_delete_path p), [], disk)
      else (let (e, changes, disk1) = remove_each env ps (filter (\<lambda>q. q \<noteq> path_clean p) disk) in (e, p # changes, disk1)))"

text \<open>\<open>os.RemoveAll\<close> goes on past what it cannot remove.\<close>

definition remove_all :: "purge_env \<Rightarrow> gostring \<Rightarrow> gostring list \<Rightarrow> bool \<times> gostring list" where
  "remove_all env d disk =
     (\<not> pe_stuck env d \<and> \<not> list_ex (\<lambda>q. in_folder d q \<and> pe_stuck env q) disk, filter (\<lambda>q. \<not> in_folder d q \<or> pe_stuck env q) disk)"

fun remove_dirs :: "purge_env \<Rightarrow> gostring list \<Rightarrow> gostring list \<Rightarrow> gostring list \<Rightarrow> purge_error option \<times> gostring list" where
  "remove_dirs env keep [] disk = (None, disk)"
| "remove_dirs env keep (d # ds) disk =
     (if dir_holds_kept_path d keep then remove_dirs env keep ds disk
      else (case remove_all env d disk of
              (False, disk1) \<Rightarrow> (Some (Purge_delete_folder d), disk1)
            | (True, disk1) \<Rightarrow> remove_dirs env keep ds disk1))"

definition safe_dirs :: "gostring list \<Rightarrow> gostring \<Rightarrow> gostring list" where
  "safe_dirs ps base = remdups (filter (\<lambda>d. is_safe_library_subdir d base) (map file_dir ps))"

definition remove_tracked_media_keeping ::
  "purge_env \<Rightarrow> gostring list \<Rightarrow> gostring \<Rightarrow> gostring list \<Rightarrow> gostring list \<Rightarrow> purge_error option \<times> gostring list \<times> gostring list" where
  "remove_tracked_media_keeping env paths base keep disk =
     (let ps = unique_non_empty_paths paths; ks = unique_non_empty_paths keep in
      case remove_each env ps disk of
        (Some e, changes, disk1) \<Rightarrow> (Some e, changes, disk1)
      | (None, changes, disk1) \<Rightarrow>
          (let (e, disk2) = remove_dirs env ks (pe_order env (safe_dirs ps base)) disk1 in (e, changes, disk2)))"

definition remove_tracked_media ::
  "purge_env \<Rightarrow> gostring list \<Rightarrow> gostring \<Rightarrow> gostring list \<Rightarrow> purge_error option \<times> gostring list \<times> gostring list" where
  "remove_tracked_media env paths base disk = remove_tracked_media_keeping env paths base [] disk"

section \<open>Folders below the library root\<close>

lemma set_unique_from: "set (unique_from seen ps) = set ps - set seen - {[]}"
  by (induction seen ps rule: unique_from.induct) auto

lemma set_unique [simp]: "set (unique_non_empty_paths ps) = set ps - {[]}"
  by (simp add: unique_non_empty_paths_def set_unique_from)

lemma distinct_unique_from: "distinct (unique_from seen ps)"
  by (induction seen ps rule: unique_from.induct) (auto simp: set_unique_from)

lemma segments_elems: "w \<in> set (segments p) \<Longrightarrow> w \<noteq> [] \<and> w \<noteq> ''.'' \<and> CHR ''/'' \<notin> set w"
  using clean_elems_mem [OF elems_of_clean] elems_of_no_slash unfolding segments_eq by blast

lemma rooted_elems: "is_rooted p \<Longrightarrow> w \<in> set (segments p) \<Longrightarrow> w \<noteq> ''..''"
  using elems_of_clean [of p] unfolding segments_eq by (auto simp: clean_elems_def plain_elem_def)

lemma segments_clean [simp]: "segments (path_clean p) = segments p"
  unfolding segments_eq elems_of_path_clean ..

lemma path_clean_rooted: "is_rooted p \<Longrightarrow> path_clean p = CHR ''/'' # join_on (CHR ''/'') (segments p)"
  by (simp add: path_clean_def segments_eq Let_def)

lemma path_clean_segments:
  "path_clean p = (let out = join_on (CHR ''/'') (segments p) in if is_rooted p then CHR ''/'' # out else if out = [] then ''.'' else out)"
  unfolding path_clean_def segments_eq ..

lemma path_clean_idem [simp]: "path_clean (path_clean p) = path_clean p"
  by (subst path_clean_segments) (simp only: is_rooted_clean segments_clean path_clean_segments [symmetric])

lemma path_rel_clean [simp]: "path_rel (path_clean a) (path_clean b) = path_rel a b"
  by (simp only: path_rel_def segments_clean path_clean_idem)

lemma split_join_segments: "segments p \<noteq> [] \<Longrightarrow> split_on (CHR ''/'') (join_on (CHR ''/'') (segments p)) = segments p"
  by (rule split_join) (use segments_elems in blast)+

lemma rooted_clean_eq:
  assumes "is_rooted p" "is_rooted q"
  shows "path_clean p = path_clean q \<longleftrightarrow> segments p = segments q"
  using segments_clean assms path_clean_rooted by metis

lemma join_append: "ds \<noteq> [] \<Longrightarrow> es \<noteq> [] \<Longrightarrow> join_on c (ds @ es) = join_on c ds @ c # join_on c es"
  by (induction c ds rule: join_on.induct) (auto simp: neq_Nil_conv)

lemma has_prefix_append: "has_prefix p s \<longleftrightarrow> (\<exists>r. s = p @ r)"
  by (auto simp: has_prefix_def) (metis append_take_drop_id)

text \<open>On clean rooted paths, being in a folder is having its elements in front.\<close>

lemma under_segments:
  assumes "is_rooted d" "is_rooted q" "segments d \<noteq> []"
  shows "in_folder (path_clean d) (path_clean q) \<longleftrightarrow> prefix (segments d) (segments q)"
proof
  assume "in_folder (path_clean d) (path_clean q)"
  then consider "path_clean q = path_clean d" | r where "path_clean q = path_clean d @ CHR ''/'' # r"
    by (auto simp: in_folder_def has_prefix_append)
  then show "prefix (segments d) (segments q)"
  proof cases
    case 1
    then show ?thesis using rooted_clean_eq [OF assms(2,1)] by simp
  next
    case 2
    then have j: "join_on (CHR ''/'') (segments q) = join_on (CHR ''/'') (segments d) @ CHR ''/'' # r"
      using assms by (simp add: path_clean_rooted)
    then have "segments q \<noteq> []" by (cases "segments q") auto
    from split_join_segments [OF this] show ?thesis
      unfolding j split_on_append split_join_segments [OF assms(3)] by (metis prefixI)
  qed
next
  assume "prefix (segments d) (segments q)"
  then obtain zs where z: "segments q = segments d @ zs" by (auto simp: prefix_def)
  show "in_folder (path_clean d) (path_clean q)"
  proof (cases "zs = []")
    case True
    then show ?thesis using z rooted_clean_eq [OF assms(2,1)] by (simp add: in_folder_def)
  next
    case False
    then show ?thesis using z assms
      by (auto simp: in_folder_def has_prefix_append path_clean_rooted join_append)
  qed
qed

lemma join_plain:
  assumes "ts \<noteq> []" and ts: "\<And>w. w \<in> set ts \<Longrightarrow> w \<noteq> ''.'' \<and> w \<noteq> ''..'' \<and> CHR ''/'' \<notin> set w"
  shows "\<not> (join_on (CHR ''/'') ts = ''.'' \<or> join_on (CHR ''/'') ts = ''..'' \<or> has_prefix ''../'' (join_on (CHR ''/'') ts))"
proof -
  have s: "split_on (CHR ''/'') (join_on (CHR ''/'') ts) = ts" by (rule split_join) (use assms in blast)+
  have one: "join_on (CHR ''/'') ts \<noteq> w" if "CHR ''/'' \<notin> set w" "w \<notin> set ts" for w
    using s split_on_no_sep [OF that(1)] that(2) by (metis list.set_intros(1))
  have "join_on (CHR ''/'') ts \<noteq> ''..'' @ CHR ''/'' # r" for r
  proof
    have nos: "CHR ''/'' \<notin> set ''..''" by simp
    assume "join_on (CHR ''/'') ts = ''..'' @ CHR ''/'' # r"
    then have "ts = ''..'' # split_on (CHR ''/'') r" using s split_on_append_sep [OF nos, of r] by argo
    then have "''..'' \<in> set ts" by (metis list.set_intros(1))
    then show False using ts by blast
  qed
  then have "\<not> has_prefix ''../'' (join_on (CHR ''/'') ts)" by (simp add: has_prefix_append)
  moreover have "join_on (CHR ''/'') ts \<noteq> ''.''" by (rule one) (use ts in \<open>simp, blast\<close>)
  moreover have "join_on (CHR ''/'') ts \<noteq> ''..''" by (rule one) (use ts in \<open>simp, blast\<close>)
  ultimately show ?thesis by blast
qed

lemma join_dots:
  assumes "n \<noteq> 0"
  shows "join_on (CHR ''/'') (replicate n ''..'' @ ts) = ''..'' \<or> has_prefix ''../'' (join_on (CHR ''/'') (replicate n ''..'' @ ts))"
proof -
  obtain us where u: "replicate n ''..'' @ ts = ''..'' # us" using assms by (cases n) auto
  show ?thesis unfolding u by (cases us) (auto simp: has_prefix_append)
qed

lemma longest_common_prefix_all: "drop (length (longest_common_prefix b t)) b = [] \<longleftrightarrow> prefix b t"
proof
  assume "drop (length (longest_common_prefix b t)) b = []"
  then have "length b \<le> length (longest_common_prefix b t)" by simp
  then have "longest_common_prefix b t = b"
    using longest_common_prefix_prefix1 [of b t] by (metis not_equal_is_parallel prefix_length_le prefix_order.eq_iff prefix_length_prefix)
  then show "prefix b t" using longest_common_prefix_prefix2 [of b t] by simp
next
  assume "prefix b t"
  then have "prefix b (longest_common_prefix b t)" using longest_common_prefix_max_prefix by blast
  then show "drop (length (longest_common_prefix b t)) b = []" by (simp add: prefix_length_le)
qed

lemma safe_subdir_iff:
  assumes "is_rooted base"
  shows "is_safe_library_subdir dir base \<longleftrightarrow> is_rooted dir \<and> strict_prefix (segments base) (segments dir)"
proof (cases "is_rooted dir \<and> path_clean dir \<noteq> path_clean base")
  case True
  let ?b = "segments base" and ?t = "segments dir"
  let ?n = "length (longest_common_prefix ?b ?t)"
  have ne: "dir \<noteq> []" "base \<noteq> []" using True assms by (auto simp: is_rooted_def has_prefix_def)
  have neq: "?b \<noteq> ?t" using True rooted_clean_eq [OF assms] by metis
  have safe: "is_safe_library_subdir dir base \<longleftrightarrow> (case path_rel base dir of None \<Rightarrow> False
      | Some rel \<Rightarrow> \<not> (rel = ''.'' \<or> rel = ''..'' \<or> has_prefix ''../'' rel))"
    using True ne by (simp add: is_safe_library_subdir_def)
  have rel: "path_rel base dir = (if drop ?n ?b = [] then Some (join_on (CHR ''/'') (drop ?n ?t))
      else if hd (drop ?n ?b) = ''..'' then None
      else Some (join_on (CHR ''/'') (replicate (length (drop ?n ?b)) ''..'' @ drop ?n ?t)))"
    using True assms unfolding path_rel_def Let_def is_rooted_clean by (simp add: eq_commute)
  show ?thesis
  proof (cases "prefix ?b ?t")
    case prefix: True
    then have "drop ?n ?b = []" using longest_common_prefix_all by blast
    moreover have "longest_common_prefix ?b ?t = ?b"
      using prefix longest_common_prefix_max_prefix [of ?b ?b ?t] longest_common_prefix_prefix1 [of ?b ?t] by (simp add: prefix_order.antisym)
    moreover have "drop (length ?b) ?t \<noteq> []" using prefix neq by (auto simp: prefix_def)
    moreover have "\<not> (join_on (CHR ''/'') (drop (length ?b) ?t) = ''.'' \<or> join_on (CHR ''/'') (drop (length ?b) ?t) = ''..'' \<or>
        has_prefix ''../'' (join_on (CHR ''/'') (drop (length ?b) ?t)))"
      by (rule join_plain [OF \<open>drop (length ?b) ?t \<noteq> []\<close>]) (metis True in_set_dropD rooted_elems segments_elems)
    ultimately show ?thesis using safe rel True prefix neq by (simp add: strict_prefix_def)
  next
    case False
    then have ne: "drop ?n ?b \<noteq> []" using longest_common_prefix_all by blast
    then have "length (drop ?n ?b) \<noteq> 0" by simp
    from join_dots [OF this, of "drop ?n ?t"] have "\<not> is_safe_library_subdir dir base"
      unfolding safe rel using ne by auto
    then show ?thesis using False by (simp add: strict_prefix_def)
  qed
next
  case False
  then have "\<not> is_safe_library_subdir dir base"
    using assms by (auto simp: is_safe_library_subdir_def path_rel_def Let_def is_rooted_clean)
  moreover have "\<not> (is_rooted dir \<and> strict_prefix (segments base) (segments dir))"
    using False rooted_clean_eq [OF assms, of dir] by (auto simp: strict_prefix_def)
  ultimately show ?thesis by blast
qed

section \<open>What a removal takes\<close>

lemma remove_each_spec:
  "remove_each env ps disk = (e, changes, disk') \<Longrightarrow>
   disk' = filter (\<lambda>q. q \<notin> path_clean ` set changes) disk \<and> (\<exists>rest. ps = changes @ rest) \<and> (e = None \<longrightarrow> changes = ps)"
proof (induction ps arbitrary: e disk changes disk')
  case (Cons p ps)
  show ?case
  proof (cases "pe_rm_fails env p")
    case False
    obtain e1 ch1 d1 where r: "remove_each env ps (filter (\<lambda>q. q \<noteq> path_clean p) disk) = (e1, ch1, d1)" by (rule prod_cases3)
    then have "e = e1" "changes = p # ch1" "disk' = d1" using Cons.prems False by simp_all
    moreover from Cons.IH [OF r] obtain rest where "ps = ch1 @ rest" "e1 = None \<longrightarrow> ch1 = ps"
      "d1 = filter (\<lambda>q. q \<notin> path_clean ` set ch1) (filter (\<lambda>q. q \<noteq> path_clean p) disk)" by blast
    ultimately show ?thesis by (auto intro: filter_cong)
  qed (use Cons.prems in auto)
qed simp

lemma remove_dirs_spec:
  "remove_dirs env keep ds disk = (e, disk') \<Longrightarrow>
   set disk' \<subseteq> set disk \<and> (\<forall>q\<in>set disk. q \<notin> set disk' \<longrightarrow> (\<exists>d\<in>set ds. \<not> dir_holds_kept_path d keep \<and> in_folder d q)) \<and>
   (e = None \<longrightarrow> (\<forall>d\<in>set ds. \<not> dir_holds_kept_path d keep \<longrightarrow> (\<forall>q\<in>set disk'. \<not> in_folder d q)))"
proof (induction ds arbitrary: disk)
  case (Cons d ds)
  show ?case
  proof (cases "dir_holds_kept_path d keep")
    case True
    then show ?thesis using Cons.IH [of disk] Cons.prems by auto
  next
    case held: False
    let ?disk1 = "snd (remove_all env d disk)"
    have sub: "set ?disk1 \<subseteq> set disk" "\<forall>q\<in>set disk. q \<notin> set ?disk1 \<longrightarrow> in_folder d q" by (auto simp: remove_all_def)
    show ?thesis
    proof (cases "fst (remove_all env d disk)")
      case True
      then have r: "remove_dirs env keep ds ?disk1 = (e, disk')" using Cons.prems held by (cases "remove_all env d disk") simp
      have gone: "\<forall>q\<in>set ?disk1. \<not> in_folder d q" using True by (auto simp: remove_all_def list_ex_iff)
      note ih = Cons.IH [OF r]
      have "set disk' \<subseteq> set disk" using ih sub(1) by blast
      moreover have "\<exists>c\<in>set (d # ds). \<not> dir_holds_kept_path c keep \<and> in_folder c q" if "q \<in> set disk" "q \<notin> set disk'" for q
        using that ih sub(2) held by (cases "q \<in> set ?disk1") auto
      moreover have "\<not> in_folder c q" if "e = None" "c \<in> set (d # ds)" "\<not> dir_holds_kept_path c keep" "q \<in> set disk'" for c q
        using that ih gone by auto
      ultimately show ?thesis by blast
    next
      case False
      then have "e = Some (Purge_delete_folder d) \<and> disk' = ?disk1" using Cons.prems held by (cases "remove_all env d disk") auto
      then show ?thesis using sub held by auto
    qed
  qed
qed simp

text \<open>The folders a removal may take: strictly below the root, with nothing to keep.\<close>

definition takes_folder :: "gostring \<Rightarrow> gostring list \<Rightarrow> gostring \<Rightarrow> bool" where
  "takes_folder base keep d \<longleftrightarrow>
     is_rooted d \<and> strict_prefix (segments base) (segments d) \<and> (\<forall>k\<in>set keep. k \<noteq> [] \<longrightarrow> \<not> prefix (segments d) (segments k))"

lemma file_dir_clean [simp]: "path_clean (file_dir p) = file_dir p"
  by (simp add: file_dir_def)

lemma safe_dir_takes:
  assumes "is_rooted base" "\<forall>k\<in>set keep. k \<noteq> [] \<longrightarrow> is_rooted k" "d \<in> set (safe_dirs ps base)"
  shows "\<exists>p\<in>set ps. d = file_dir p \<and> is_rooted d \<and> strict_prefix (segments base) (segments d) \<and>
    (dir_holds_kept_path d (unique_non_empty_paths keep) \<longleftrightarrow> \<not> takes_folder base keep d)"
proof -
  obtain p where p: "p \<in> set ps" "d = file_dir p" "is_safe_library_subdir d base" using assms(3) by (auto simp: safe_dirs_def)
  have d: "is_rooted d" "strict_prefix (segments base) (segments d)" using p(3) safe_subdir_iff [OF assms(1)] by blast+
  have ne: "segments d \<noteq> []" "d \<noteq> []" using d by (auto simp: is_rooted_def has_prefix_def)
  have "dir_holds_kept_path d (unique_non_empty_paths keep) \<longleftrightarrow> (\<exists>k\<in>set keep. k \<noteq> [] \<and> in_folder (path_clean d) (path_clean k))"
    using ne(2) unfolding dir_holds_kept_path_def list_ex_iff set_unique by (metis Diff_iff all_not_in_conv insertCI set_empty set_unique singletonD)
  also have "\<dots> \<longleftrightarrow> (\<exists>k\<in>set keep. k \<noteq> [] \<and> prefix (segments d) (segments k))"
    using under_segments [OF d(1) _ ne(1)] assms(2) by blast
  finally show ?thesis using p d by (auto simp: takes_folder_def)
qed

lemma removal_core:
  assumes "is_rooted base" "\<forall>q\<in>set disk. is_rooted q \<and> path_clean q = q" "\<forall>k\<in>set keep. k \<noteq> [] \<longrightarrow> is_rooted k"
    "\<And>ds. set (pe_order env ds) = set ds" "remove_tracked_media_keeping env paths base keep disk = (e, changes, disk')"
  shows "set disk' \<subseteq> set disk \<and> set changes \<subseteq> set paths - {[]} \<and> set disk' \<inter> path_clean ` set changes = {} \<and>
    (\<forall>q\<in>set disk. q \<notin> set disk' \<longrightarrow> q \<in> path_clean ` set changes \<or>
       (\<exists>p\<in>set paths. takes_folder base keep (file_dir p) \<and> prefix (segments (file_dir p)) (segments q))) \<and>
    (e = None \<longrightarrow> set changes = set paths - {[]} \<and>
       (\<forall>p\<in>set paths. p \<noteq> [] \<longrightarrow> takes_folder base keep (file_dir p) \<longrightarrow> (\<forall>q\<in>set disk'. \<not> prefix (segments (file_dir p)) (segments q))))"
proof -
  let ?ps = "unique_non_empty_paths paths"
  obtain e1 ch d1 where r: "remove_each env ?ps disk = (e1, ch, d1)" by (rule prod_cases3)
  note each = remove_each_spec [OF r]
  have d1: "d1 = filter (\<lambda>q. q \<notin> path_clean ` set ch) disk" using each by blast
  have "set ch \<subseteq> set ?ps" using each by (metis Un_upper1 set_append)
  then have ch: "set ch \<subseteq> set paths - {[]}" by simp
  show ?thesis
  proof (cases e1)
    case (Some x)
    then have "e = Some x" "changes = ch" "disk' = d1" using assms(5) r by (simp_all add: remove_tracked_media_keeping_def Let_def)
    then show ?thesis using d1 ch by auto
  next
    case None
    obtain e2 d2 where r2: "remove_dirs env (unique_non_empty_paths keep) (pe_order env (safe_dirs ?ps base)) d1 = (e2, d2)" by fastforce
    then have eq: "e = e2" "changes = ch" "disk' = d2"
      using assms(5) r None by (simp_all add: remove_tracked_media_keeping_def Let_def)
    have chs: "set ch = set paths - {[]}" using each None by simp
    note dirs = remove_dirs_spec [OF r2, unfolded assms(4)]
    have seg: "in_folder (file_dir p) q \<longleftrightarrow> prefix (segments (file_dir p)) (segments q)"
      if "is_rooted (file_dir p)" "strict_prefix (segments base) (segments (file_dir p))" "q \<in> set disk" for p q
    proof -
      have "segments (file_dir p) \<noteq> []" using that(2) by auto
      then show ?thesis using under_segments [OF that(1), of q] that(3) assms(2) by auto
    qed
    have taken: "\<exists>p\<in>set paths. takes_folder base keep (file_dir p) \<and> prefix (segments (file_dir p)) (segments q)"
      if q: "q \<in> set disk" and d: "d \<in> set (safe_dirs ?ps base)" "\<not> dir_holds_kept_path d (unique_non_empty_paths keep)" "in_folder d q" for q d
    proof -
      obtain p where "p \<in> set ?ps" "d = file_dir p" "is_rooted d" "strict_prefix (segments base) (segments d)" "takes_folder base keep d"
        using safe_dir_takes [OF assms(1,3) d(1)] d(2) by blast
      then show ?thesis using seg [of p q] q d(3) by auto
    qed
    have emptied: "\<not> prefix (segments (file_dir p)) (segments q)"
      if e: "e2 = None" and p: "p \<in> set paths" "p \<noteq> []" "takes_folder base keep (file_dir p)" and q: "q \<in> set d2" for p q
    proof -
      have "is_safe_library_subdir (file_dir p) base"
        using p(3) safe_subdir_iff [OF assms(1)] by (simp add: takes_folder_def)
      then have d: "file_dir p \<in> set (safe_dirs ?ps base)" using p(1,2) by (auto simp: safe_dirs_def)
      then have "\<not> dir_holds_kept_path (file_dir p) (unique_non_empty_paths keep)"
        using safe_dir_takes [OF assms(1,3) d] p(3) by blast
      then have "\<not> in_folder (file_dir p) q" using dirs e d q by blast
      moreover have "q \<in> set disk" using dirs q d1 by auto
      ultimately show ?thesis using seg p(3) by (simp add: takes_folder_def)
    qed
    have sub: "set d2 \<subseteq> set disk" "set d2 \<inter> path_clean ` set ch = {}" using dirs d1 by auto
    have "q \<in> path_clean ` set ch \<or> (\<exists>p\<in>set paths. takes_folder base keep (file_dir p) \<and> prefix (segments (file_dir p)) (segments q))"
      if "q \<in> set disk" "q \<notin> set d2" for q
      using dirs taken [OF that(1)] that d1 by (cases "q \<in> path_clean ` set ch") auto
    then show ?thesis unfolding eq using sub ch chs emptied by blast
  qed
qed

lemma kept_file_stays:
  assumes "is_rooted base" "\<forall>q\<in>set disk. is_rooted q \<and> path_clean q = q" "\<forall>k\<in>set keep. k \<noteq> [] \<longrightarrow> is_rooted k"
    "\<And>ds. set (pe_order env ds) = set ds" "remove_tracked_media_keeping env paths base keep disk = (e, changes, disk')"
    "k \<in> set keep" "k \<noteq> []" "path_clean k \<in> set disk" "path_clean k \<notin> path_clean ` set paths"
  shows "path_clean k \<in> set disk'"
proof (rule ccontr)
  assume "path_clean k \<notin> set disk'"
  note c = removal_core [OF assms(1-5)]
  have "set changes \<subseteq> set paths" using c [THEN conjunct2, THEN conjunct1] by blast
  then have "path_clean k \<notin> path_clean ` set changes" using assms(9) by blast
  then obtain p where "takes_folder base keep (file_dir p)" "prefix (segments (file_dir p)) (segments (path_clean k))"
    using c [THEN conjunct2, THEN conjunct2, THEN conjunct2, THEN conjunct1, rule_format, OF assms(8) \<open>path_clean k \<notin> set disk'\<close>] by blast
  then show False using assms(6,7) by (simp add: takes_folder_def)
qed

text \<open>
  C8. A removal takes only what is listed and folders strictly below the library root that hold nothing to keep;
  what it reports is gone, a file to keep that is not listed stays, and a removal without error has taken every
  listed file and emptied their folders.
\<close>
theorem removal_confined:
  assumes "is_rooted base" "\<forall>q\<in>set disk. is_rooted q \<and> path_clean q = q" "\<forall>k\<in>set keep. k \<noteq> [] \<longrightarrow> is_rooted k"
    "\<And>ds. set (pe_order env ds) = set ds" "remove_tracked_media_keeping env paths base keep disk = (e, changes, disk')"
  shows "set disk' \<subseteq> set disk \<and> set changes \<subseteq> set paths - {[]} \<and> set disk' \<inter> path_clean ` set changes = {} \<and>
    (\<forall>q\<in>set disk. q \<notin> set disk' \<longrightarrow> q \<in> path_clean ` set changes \<or>
       (\<exists>p\<in>set paths. takes_folder base keep (file_dir p) \<and> prefix (segments (file_dir p)) (segments q))) \<and>
    (e = None \<longrightarrow> set changes = set paths - {[]} \<and>
       (\<forall>p\<in>set paths. p \<noteq> [] \<longrightarrow> takes_folder base keep (file_dir p) \<longrightarrow> (\<forall>q\<in>set disk'. \<not> prefix (segments (file_dir p)) (segments q)))) \<and>
    (\<forall>k\<in>set keep. k \<noteq> [] \<longrightarrow> path_clean k \<in> set disk \<longrightarrow> path_clean k \<notin> path_clean ` set paths \<longrightarrow> path_clean k \<in> set disk')"
proof -
  have "\<forall>k\<in>set keep. k \<noteq> [] \<longrightarrow> path_clean k \<in> set disk \<longrightarrow> path_clean k \<notin> path_clean ` set paths \<longrightarrow> path_clean k \<in> set disk'"
    using kept_file_stays [OF assms] by (intro ballI impI)
  then show ?thesis using removal_core [OF assms] by (elim conjE) (intro conjI)
qed

definition easy_env :: purge_env where
  "easy_env = \<lparr>pe_rm_fails = (\<lambda>_. False), pe_stuck = (\<lambda>_. False), pe_order = (\<lambda>ds. ds)\<rparr>"

lemma easy_order [simp]: "set (pe_order easy_env ds) = set ds"
  by (simp add: easy_env_def)

definition demo_tv_disk :: "gostring list" where
  "demo_tv_disk = [''/tv/Show/s1e1.mkv'', ''/tv/Show/s2e1.mkv'', ''/tv/Two/a.mkv'', ''/tv/Two/a.nfo'', ''/tv/b.mkv'']"

lemma demo_tv_disk_clean: "\<forall>q\<in>set demo_tv_disk. is_rooted q \<and> path_clean q = q"
  by code_simp

lemma demo_removal:
  "remove_tracked_media_keeping easy_env [''/tv/Show/s1e1.mkv'', ''/tv/Two/a.mkv'', [], ''/tv/c.mkv''] ''/tv'' [''/tv/Show/s2e1.mkv''] demo_tv_disk =
   (None, [''/tv/Show/s1e1.mkv'', ''/tv/Two/a.mkv'', ''/tv/c.mkv''], [''/tv/Show/s2e1.mkv'', ''/tv/b.mkv''])"
  by code_simp

lemma removal_confined_witness:
  "(\<exists>p\<in>set [''/tv/Show/s1e1.mkv'', ''/tv/Two/a.mkv'', [], ''/tv/c.mkv''].
      takes_folder ''/tv'' [''/tv/Show/s2e1.mkv''] (file_dir p) \<and> prefix (segments (file_dir p)) (segments ''/tv/Two/a.nfo'')) \<and>
   ''/tv/Two/a.nfo'' \<in> set demo_tv_disk"
proof -
  let ?q = "''/tv/Two/a.nfo''"
  have a: "is_rooted ''/tv''" "\<forall>k\<in>set [''/tv/Show/s2e1.mkv'']. k \<noteq> [] \<longrightarrow> is_rooted k" by code_simp+
  have q: "?q \<in> set demo_tv_disk" "?q \<notin> set [''/tv/Show/s2e1.mkv'', ''/tv/b.mkv'']"
    "?q \<notin> path_clean ` set [''/tv/Show/s1e1.mkv'', ''/tv/Two/a.mkv'', ''/tv/c.mkv'']" by code_simp+
  note r = removal_confined [OF a(1) demo_tv_disk_clean a(2) easy_order demo_removal]
  show ?thesis
    using r [THEN conjunct2, THEN conjunct2, THEN conjunct2, THEN conjunct1, rule_format, OF q(1,2)] q(1,3) by blast
qed

end
