(* ===== verification/Prune_Rules.thy ===== *)
theory Prune_Rules
  imports Go_Float Quality Json
begin

text \<open>
  Pruning rules (\<open>internal/pruning\<close>): what a rule is, which rules may be stored, their table, and which titles
  a rule matches. The wording of errors and of the reason of a match is left out, and so is the JSON text in
  which a row keeps tags and criteria. Two readers of text are arguments: \<open>pt\<close> is \<open>time.Parse\<close> with the layout
  RFC 3339, and \<open>pf\<close> is \<open>strconv.ParseFloat\<close> where it gives a finite number.
\<close>

section \<open>Rules and titles\<close>

record criterion =
  cr_field :: gostring
  cr_op :: gostring
  cr_value :: gostring
  cr_unit :: gostring
  cr_values :: "gostring list"
  cr_match :: gostring

record prune_rule =
  pr_id :: int
  pr_name :: gostring
  pr_mode :: gostring
  pr_age :: int
  pr_size :: int
  pr_floor :: gostring
  pr_tags :: "gostring list"
  pr_min_rating :: int
  pr_criteria :: "criterion list"
  pr_enabled :: bool
  pr_created :: gostring
  pr_updated :: gostring

record subject =
  su_created :: gostring
  su_size :: int
  su_tier :: gostring
  su_tags :: "gostring list"
  su_rating :: int

definition valid_prune_mode :: "gostring \<Rightarrow> bool" where
  "valid_prune_mode m \<longleftrightarrow> m \<in> set [''movies'', ''series'', ''adult'']"

definition valid_tier_floor :: "gostring \<Rightarrow> bool" where
  "valid_tier_floor t \<longleftrightarrow> t \<in> set [tier_low, tier_medium, tier_high, tier_lossless]"

definition prune_rank :: "gostring \<Rightarrow> int option" where
  "prune_rank t = map_of [(''low'', 0), (''medium'', 1), (''high'', 2), (''lossless'', 3)] t"

section \<open>Values\<close>

text \<open>\<open>strconv.Atoi\<close>: an optional sign and decimal digits, within 64 bits.\<close>

definition go_atoi :: "gostring \<Rightarrow> int option" where
  "go_atoi s =
     (let (neg, ds) = (case s of [] \<Rightarrow> (False, []) | c # r \<Rightarrow>
          if c = CHR ''-'' then (True, r) else if c = CHR ''+'' then (False, r) else (False, s)) in
      if ds = [] \<or> \<not> list_all is_digit ds then None
      else (let v = (if neg then - digits_val ds else digits_val ds) in if - (2 ^ 63) \<le> v \<and> v < 2 ^ 63 then Some v else None))"

definition parse_nonneg_int :: "gostring \<Rightarrow> int option" where
  "parse_nonneg_int s = (case go_atoi (trim_space s) of None \<Rightarrow> None | Some n \<Rightarrow> if n < 0 then None else Some n)"

definition size_unit :: "gostring \<Rightarrow> int option" where
  "size_unit u = map_of [(''kb'', 1024), (''mb'', 1024 ^ 2), (''gb'', 1024 ^ 3), (''tb'', 1024 ^ 4)] (to_lower (trim_space u))"

text \<open>
  \<open>int64(math.Round(n * mul))\<close>: a product beyond 64 bits becomes the smallest integer, as amd64 converts it.
\<close>

definition round_to_int64 :: "f64 \<Rightarrow> int" where
  "round_to_int64 x = (let r = \<lfloor>x + 1 / 2\<rfloor> in if r < 2 ^ 63 then r else - (2 ^ 63))"

definition criterion_size_bytes :: "(gostring \<Rightarrow> f64 option) \<Rightarrow> gostring \<Rightarrow> gostring \<Rightarrow> int option" where
  "criterion_size_bytes pf val u =
     (case pf (trim_space val) of
        None \<Rightarrow> None
      | Some n \<Rightarrow>
          if n \<le> 0 then None
          else (case size_unit u of None \<Rightarrow> None | Some mul \<Rightarrow> Some (round_to_int64 (f_mul n (of_int mul)))))"

definition is_compare_op :: "gostring \<Rightarrow> bool" where
  "is_compare_op op \<longleftrightarrow> op \<in> set [''gt'', ''lt'', ''eq'']"

definition compare_int :: "int \<Rightarrow> int \<Rightarrow> gostring \<Rightarrow> bool" where
  "compare_int a t op = (if op = ''gt'' then a > t else if op = ''lt'' then a < t else if op = ''eq'' then a = t else False)"

datatype tag_match = Match_any | Match_all

definition validate_tag_match_mode :: "gostring \<Rightarrow> tag_match option" where
  "validate_tag_match_mode m =
     (let k = to_lower (trim_space m) in
      if k = [] \<or> k = ''any'' then Some Match_any else if k = ''all'' then Some Match_all else None)"

text \<open>The chips of a tag row; \<open>None\<close> is \<open>ErrBlankTag\<close>.\<close>

definition tag_criterion_values :: "criterion \<Rightarrow> gostring list option" where
  "tag_criterion_values c =
     (let raw = (if cr_values c = [] \<and> trim_space (cr_value c) \<noteq> [] then [cr_value c] else cr_values c) in
      if list_ex (\<lambda>v. trim_space v = []) raw \<or> raw = [] then None else Some (map trim_space raw))"

section \<open>Validation\<close>

datatype criterion_error = Blank_chip | Bad_criterion

datatype prune_error =
  Name_required | Invalid_prune_mode | Negative_threshold | Invalid_min_rating | Invalid_tier_floor | Blank_tag
| Invalid_criterion nat | No_conditions | No_prune_rule | Prune_db_error

definition validate_criterion :: "(gostring \<Rightarrow> f64 option) \<Rightarrow> criterion \<Rightarrow> criterion_error option" where
  "validate_criterion pf c =
     (let bad = (\<lambda>b. if b then Some Bad_criterion else None) in
      if cr_field c = ''age'' then
        bad (\<not> is_compare_op (cr_op c) \<or> to_lower (cr_unit c) \<noteq> ''days'' \<or> parse_nonneg_int (cr_value c) = None)
      else if cr_field c = ''size'' then
        bad (\<not> is_compare_op (cr_op c) \<or>
          (case criterion_size_bytes pf (cr_value c) (cr_unit c) of None \<Rightarrow> True | Some n \<Rightarrow> n \<le> 0))
      else if cr_field c = ''quality'' then
        bad (\<not> is_compare_op (cr_op c) \<or> trim_space (cr_unit c) \<noteq> [] \<or> \<not> valid_tier_floor (to_lower (trim_space (cr_value c))))
      else if cr_field c = ''tag'' then
        (if cr_op c \<noteq> ''contains'' \<and> cr_op c \<noteq> ''notContains'' \<or> trim_space (cr_unit c) \<noteq> [] \<or>
            validate_tag_match_mode (cr_match c) = None then Some Bad_criterion
         else if tag_criterion_values c = None then Some Blank_chip else None)
      else if cr_field c = ''rating'' then
        bad (\<not> is_compare_op (cr_op c) \<or> to_lower (cr_unit c) \<noteq> ''stars'' \<or>
          (case parse_nonneg_int (cr_value c) of None \<Rightarrow> True | Some n \<Rightarrow> n < 1 \<or> 5 < n))
      else Some Bad_criterion)"

text \<open>The loop over the rows, numbered from 1.\<close>

fun validate_criteria :: "(gostring \<Rightarrow> f64 option) \<Rightarrow> nat \<Rightarrow> criterion list \<Rightarrow> prune_error option" where
  "validate_criteria pf i [] = None"
| "validate_criteria pf i (c # cs) =
     (case validate_criterion pf c of
        None \<Rightarrow> validate_criteria pf (Suc i) cs
      | Some Blank_chip \<Rightarrow> Some Blank_tag
      | Some Bad_criterion \<Rightarrow> Some (Invalid_criterion (Suc i)))"

definition validate_rule :: "(gostring \<Rightarrow> f64 option) \<Rightarrow> prune_rule \<Rightarrow> prune_error option" where
  "validate_rule pf r =
     (if pr_name r = [] then Some Name_required
      else if \<not> valid_prune_mode (pr_mode r) then Some Invalid_prune_mode
      else if pr_age r < 0 \<or> pr_size r < 0 then Some Negative_threshold
      else if pr_min_rating r < 0 \<or> 5 < pr_min_rating r then Some Invalid_min_rating
      else if pr_floor r \<noteq> [] \<and> \<not> valid_tier_floor (pr_floor r) then Some Invalid_tier_floor
      else if list_ex (\<lambda>t. trim_space t = []) (pr_tags r) then Some Blank_tag
      else if pr_criteria r \<noteq> [] then validate_criteria pf 0 (pr_criteria r)
      else if pr_age r = 0 \<and> pr_size r = 0 \<and> pr_floor r = [] \<and> pr_tags r = [] \<and> pr_min_rating r = 0 then Some No_conditions
      else None)"

section \<open>The table of rules\<close>

text \<open>Rows in the order of their ids. A statement may fail, without effect; the stamps are its two times.\<close>

record rule_store =
  rl_rows :: "prune_rule list"
  rl_next :: int

definition create_rule ::
  "(gostring \<Rightarrow> f64 option) \<Rightarrow> bool \<Rightarrow> gostring \<times> gostring \<Rightarrow> prune_rule \<Rightarrow> rule_store \<Rightarrow>
     (prune_error + prune_rule) \<times> rule_store" where
  "create_rule pf fault stamps r st =
     (case validate_rule pf r of
        Some e \<Rightarrow> (Inl e, st)
      | None \<Rightarrow>
          if fault then (Inl Prune_db_error, st)
          else (let row = r\<lparr>pr_id := rl_next st, pr_created := fst stamps, pr_updated := snd stamps\<rparr>
                in (Inr row, st\<lparr>rl_rows := rl_rows st @ [row], rl_next := rl_next st + 1\<rparr>)))"

definition update_rule ::
  "(gostring \<Rightarrow> f64 option) \<Rightarrow> bool \<Rightarrow> gostring \<Rightarrow> prune_rule \<Rightarrow> rule_store \<Rightarrow> (prune_error + prune_rule) \<times> rule_store" where
  "update_rule pf fault stamp r st =
     (case validate_rule pf r of
        Some e \<Rightarrow> (Inl e, st)
      | None \<Rightarrow>
          if fault then (Inl Prune_db_error, st)
          else (case filter (\<lambda>q. pr_id q = pr_id r) (rl_rows st) of
                  [] \<Rightarrow> (Inl No_prune_rule, st)
                | old # _ \<Rightarrow>
                    (let row = r\<lparr>pr_created := pr_created old, pr_updated := stamp\<rparr>
                     in (Inr row, st\<lparr>rl_rows := map (\<lambda>q. if pr_id q = pr_id r then row else q) (rl_rows st)\<rparr>))))"

definition delete_rule :: "bool \<Rightarrow> int \<Rightarrow> rule_store \<Rightarrow> prune_error option \<times> rule_store" where
  "delete_rule fault n st =
     (if fault then (Some Prune_db_error, st)
      else if \<not> list_ex (\<lambda>q. pr_id q = n) (rl_rows st) then (Some No_prune_rule, st)
      else (None, st\<lparr>rl_rows := filter (\<lambda>q. pr_id q \<noteq> n) (rl_rows st)\<rparr>))"

definition list_rules :: "bool \<Rightarrow> rule_store \<Rightarrow> prune_rule list option" where
  "list_rules fault st = (if fault then None else Some (rl_rows st))"

definition list_enabled_for_mode :: "bool \<Rightarrow> gostring \<Rightarrow> rule_store \<Rightarrow> prune_rule list option" where
  "list_enabled_for_mode fault m st =
     (if fault then None else Some (filter (\<lambda>r. pr_mode r = m \<and> pr_enabled r) (rl_rows st)))"

section \<open>Matching\<close>

definition matched_tags :: "gostring list \<Rightarrow> gostring list \<Rightarrow> gostring list" where
  "matched_tags rule_tags item_tags = filter (\<lambda>rt. list_ex (equal_fold rt) item_tags) rule_tags"

text \<open>
  \<open>time.Time.Sub\<close> stops at the bounds of \<open>int64\<close>, and the division of a duration cuts towards zero: a title
  created less than a day in the future is 0 days old.
\<close>

definition time_diff :: "gtime \<Rightarrow> gtime \<Rightarrow> duration" where
  "time_diff a b = max (- (2 ^ 63)) (min (2 ^ 63 - 1) (a - b))"

definition quot_days :: "duration \<Rightarrow> int" where
  "quot_days d = (if d < 0 then - ((- d) div (24 * hour)) else d div (24 * hour))"

definition subject_age_days :: "(gostring \<Rightarrow> gtime option) \<Rightarrow> gostring \<Rightarrow> gtime \<Rightarrow> int option" where
  "subject_age_days pt created now =
     (if created = [] then None
      else (case pt created of None \<Rightarrow> None | Some t \<Rightarrow> Some (quot_days (time_diff now t))))"

definition matches_age :: "(gostring \<Rightarrow> gtime option) \<Rightarrow> gostring \<Rightarrow> int \<Rightarrow> gtime \<Rightarrow> bool" where
  "matches_age pt created days now = (case subject_age_days pt created now of None \<Rightarrow> False | Some a \<Rightarrow> days \<le> a)"

definition matches_tier :: "gostring \<Rightarrow> gostring \<Rightarrow> bool" where
  "matches_tier t floor_tier =
     (case (prune_rank t, prune_rank floor_tier) of (Some a, Some b) \<Rightarrow> a \<le> b | _ \<Rightarrow> False)"

definition match_legacy :: "(gostring \<Rightarrow> gtime option) \<Rightarrow> prune_rule \<Rightarrow> subject \<Rightarrow> gtime \<Rightarrow> bool" where
  "match_legacy pt r s now \<longleftrightarrow>
     (pr_age r \<noteq> 0 \<or> pr_size r \<noteq> 0 \<or> pr_floor r \<noteq> [] \<or> pr_tags r \<noteq> [] \<or> pr_min_rating r \<noteq> 0) \<and>
     (pr_age r \<noteq> 0 \<longrightarrow> matches_age pt (su_created s) (pr_age r) now) \<and>
     (pr_size r \<noteq> 0 \<longrightarrow> pr_size r \<le> su_size s) \<and>
     (pr_floor r \<noteq> [] \<longrightarrow> matches_tier (su_tier s) (pr_floor r)) \<and>
     (pr_tags r \<noteq> [] \<longrightarrow> matched_tags (pr_tags r) (su_tags s) \<noteq> []) \<and>
     (pr_min_rating r \<noteq> 0 \<longrightarrow> 0 < su_rating s \<and> su_rating s < pr_min_rating r)"

definition match_tag_row :: "criterion \<Rightarrow> subject \<Rightarrow> bool" where
  "match_tag_row c s =
     (case (tag_criterion_values c, validate_tag_match_mode (cr_match c)) of
        (Some vs, Some m) \<Rightarrow>
          (let hits = matched_tags vs (su_tags s) in
           if cr_op c = ''contains''
           then (case m of Match_any \<Rightarrow> hits \<noteq> [] | Match_all \<Rightarrow> length hits = length vs)
           else if cr_op c = ''notContains''
           then (case m of Match_any \<Rightarrow> hits = [] | Match_all \<Rightarrow> length hits < length vs)
           else False)
      | _ \<Rightarrow> False)"

definition match_criterion ::
  "(gostring \<Rightarrow> f64 option) \<Rightarrow> (gostring \<Rightarrow> gtime option) \<Rightarrow> criterion \<Rightarrow> subject \<Rightarrow> gtime \<Rightarrow> bool" where
  "match_criterion pf pt c s now =
     (if cr_field c = ''age'' then
        (case (subject_age_days pt (su_created s) now, parse_nonneg_int (cr_value c)) of
           (Some a, Some t) \<Rightarrow> compare_int a t (cr_op c) | _ \<Rightarrow> False)
      else if cr_field c = ''size'' then
        su_size s \<noteq> 0 \<and>
        (case criterion_size_bytes pf (cr_value c) (cr_unit c) of None \<Rightarrow> False | Some t \<Rightarrow> compare_int (su_size s) t (cr_op c))
      else if cr_field c = ''quality'' then
        (case (prune_rank (to_lower (su_tier s)), prune_rank (to_lower (trim_space (cr_value c)))) of
           (Some a, Some t) \<Rightarrow> compare_int a t (cr_op c) | _ \<Rightarrow> False)
      else if cr_field c = ''tag'' then match_tag_row c s
      else if cr_field c = ''rating'' then
        0 < su_rating s \<and> (case parse_nonneg_int (cr_value c) of None \<Rightarrow> False | Some t \<Rightarrow> compare_int (su_rating s) t (cr_op c))
      else False)"

definition match_criteria ::
  "(gostring \<Rightarrow> f64 option) \<Rightarrow> (gostring \<Rightarrow> gtime option) \<Rightarrow> prune_rule \<Rightarrow> subject \<Rightarrow> gtime \<Rightarrow> bool" where
  "match_criteria pf pt r s now \<longleftrightarrow>
     pr_criteria r \<noteq> [] \<and> list_all (\<lambda>c. match_criterion pf pt c s now) (pr_criteria r)"

definition match_rule ::
  "(gostring \<Rightarrow> f64 option) \<Rightarrow> (gostring \<Rightarrow> gtime option) \<Rightarrow> prune_rule \<Rightarrow> subject \<Rightarrow> gtime \<Rightarrow> bool" where
  "match_rule pf pt r s now =
     (if pr_criteria r \<noteq> [] then match_criteria pf pt r s now else match_legacy pt r s now)"

text \<open>One reason per matching rule, in the order of the rules; here the rules themselves.\<close>

definition match_any ::
  "(gostring \<Rightarrow> f64 option) \<Rightarrow> (gostring \<Rightarrow> gtime option) \<Rightarrow> prune_rule list \<Rightarrow> subject \<Rightarrow> gtime \<Rightarrow> prune_rule list" where
  "match_any pf pt rules s now = filter (\<lambda>r. match_rule pf pt r s now) rules"

text \<open>\<open>BestTier\<close>: the best tier so far and its rank.\<close>

fun best_tier_from :: "gostring \<times> int \<Rightarrow> gostring list \<Rightarrow> gostring" where
  "best_tier_from (best, k) [] = best"
| "best_tier_from (best, k) (t # ts) =
     (case prune_rank t of
        None \<Rightarrow> best_tier_from (best, k) ts
      | Some n \<Rightarrow> best_tier_from (if k < n then (t, n) else (best, k)) ts)"

definition best_tier :: "gostring list \<Rightarrow> gostring" where
  "best_tier ts = best_tier_from ([], - 1) ts"

section \<open>Tag rows\<close>

lemma matched_tags_all: "length (matched_tags vs ts) = length vs \<longleftrightarrow> (\<forall>v\<in>set vs. \<exists>t\<in>set ts. equal_fold v t)"
proof -
  have "length (filter P vs) = length vs \<longleftrightarrow> (\<forall>v\<in>set vs. P v)" for P
    by (metis (no_types, lifting) filter_id_conv length_filter_less less_irrefl)
  then show ?thesis by (simp add: matched_tags_def list_ex_iff)
qed

lemma matched_tags_none: "matched_tags vs ts = [] \<longleftrightarrow> \<not> (\<exists>v\<in>set vs. \<exists>t\<in>set ts. equal_fold v t)"
  by (auto simp: matched_tags_def filter_empty_conv list_ex_iff)

lemma matched_tags_le: "length (matched_tags vs ts) \<le> length vs"
  by (simp add: matched_tags_def)

lemma tag_values_nonempty: "tag_criterion_values c = Some vs \<Longrightarrow> vs \<noteq> []"
  by (auto simp: tag_criterion_values_def Let_def split: if_splits)

text \<open>What a tag row means.\<close>

definition tag_row_spec :: "tag_match \<Rightarrow> gostring list \<Rightarrow> gostring list \<Rightarrow> bool" where
  "tag_row_spec m vs ts \<longleftrightarrow>
     (case m of Match_any \<Rightarrow> \<exists>v\<in>set vs. \<exists>t\<in>set ts. equal_fold v t | Match_all \<Rightarrow> \<forall>v\<in>set vs. \<exists>t\<in>set ts. equal_fold v t)"

text \<open>
  A tag row with \<open>contains\<close> matches exactly the titles of which a tag (any) or every chip (all) equals a tag
  whatever its case, and the same row with \<open>notContains\<close> matches exactly the others. An untagged title never has
  what a \<open>contains\<close> row asks for.
\<close>
theorem tag_rows_complement:
  assumes "tag_criterion_values c = Some vs" "validate_tag_match_mode (cr_match c) = Some m"
  shows "(match_tag_row (c\<lparr>cr_op := ''contains''\<rparr>) s \<longleftrightarrow> tag_row_spec m vs (su_tags s)) \<and>
    (match_tag_row (c\<lparr>cr_op := ''notContains''\<rparr>) s \<longleftrightarrow> \<not> tag_row_spec m vs (su_tags s)) \<and>
    (su_tags s = [] \<longrightarrow> \<not> match_tag_row (c\<lparr>cr_op := ''contains''\<rparr>) s)"
proof -
  have v: "tag_criterion_values (c\<lparr>cr_op := x\<rparr>) = Some vs" for x
    unfolding assms(1) [symmetric] by (simp add: tag_criterion_values_def)
  have c: "match_tag_row (c\<lparr>cr_op := ''contains''\<rparr>) s \<longleftrightarrow> tag_row_spec m vs (su_tags s)"
    using assms(2) by (cases m) (simp_all add: match_tag_row_def v tag_row_spec_def matched_tags_none matched_tags_all Let_def)
  have n: "match_tag_row (c\<lparr>cr_op := ''notContains''\<rparr>) s \<longleftrightarrow> \<not> tag_row_spec m vs (su_tags s)"
    using assms(2) matched_tags_le [of vs "su_tags s"] matched_tags_all [of vs "su_tags s"]
    by (cases m) (auto simp add: match_tag_row_def v tag_row_spec_def matched_tags_none Let_def)
  have "\<not> tag_row_spec m vs []" using tag_values_nonempty [OF assms(1)] by (cases m) (auto simp: tag_row_spec_def)
  then show ?thesis unfolding c n by auto
qed

definition demo_tag_row :: criterion where
  "demo_tag_row = \<lparr>cr_field = ''tag'', cr_op = ''contains'', cr_value = [], cr_unit = [], cr_values = [''Drama'', '' Old''], cr_match = ''All''\<rparr>"

definition demo_subject :: subject where
  "demo_subject = \<lparr>su_created = ''2025-01-01'', su_size = 0, su_tier = [], su_tags = [''old'', ''DRAMA''], su_rating = 0\<rparr>"

lemma demo_tag_row_values:
  "tag_criterion_values demo_tag_row = Some [''Drama'', ''Old'']" "validate_tag_match_mode (cr_match demo_tag_row) = Some Match_all"
  by code_simp+

lemma tag_rows_complement_witness:
  "match_tag_row (demo_tag_row\<lparr>cr_op := ''contains''\<rparr>) demo_subject \<and>
   \<not> match_tag_row (demo_tag_row\<lparr>cr_op := ''notContains''\<rparr>) demo_subject"
proof -
  have "tag_row_spec Match_all [''Drama'', ''Old''] (su_tags demo_subject)" by code_simp
  then show ?thesis using tag_rows_complement [OF demo_tag_row_values, of demo_subject] by blast
qed

section \<open>A match needs what it is about\<close>

text \<open>The conditions of a rule, by field; a \<open>notContains\<close> row asks for nothing.\<close>

definition asks_for :: "prune_rule \<Rightarrow> gostring \<Rightarrow> bool" where
  "asks_for r f \<longleftrightarrow>
     (if pr_criteria r \<noteq> [] then \<exists>c\<in>set (pr_criteria r). cr_field c = f \<and> cr_op c \<noteq> ''notContains''
      else f = ''age'' \<and> pr_age r \<noteq> 0 \<or> f = ''size'' \<and> pr_size r \<noteq> 0 \<or> f = ''quality'' \<and> pr_floor r \<noteq> [] \<or>
        f = ''tag'' \<and> pr_tags r \<noteq> [] \<or> f = ''rating'' \<and> pr_min_rating r \<noteq> 0)"

definition captured :: "(gostring \<Rightarrow> gtime option) \<Rightarrow> subject \<Rightarrow> gostring \<Rightarrow> bool" where
  "captured pt s f \<longleftrightarrow>
     f = ''age'' \<and> su_created s \<noteq> [] \<and> pt (su_created s) \<noteq> None \<or> f = ''size'' \<and> su_size s \<noteq> 0 \<or>
     f = ''quality'' \<and> to_lower (su_tier s) \<in> set all_tiers \<or> f = ''tag'' \<and> su_tags s \<noteq> [] \<or> f = ''rating'' \<and> 0 < su_rating s"

lemma prune_rank_tier: "prune_rank t \<noteq> None \<longleftrightarrow> t \<in> set all_tiers"
  by (auto simp: prune_rank_def all_tiers_def tiers split: if_splits)

lemma lower_tier: "t \<in> set all_tiers \<Longrightarrow> to_lower t = t"
  by (auto simp: all_tiers_def tiers to_lower_def lower_char_def Let_def)

lemma age_captured: "subject_age_days pt created now \<noteq> None \<longleftrightarrow> created \<noteq> [] \<and> pt created \<noteq> None"
  by (auto simp: subject_age_days_def split: option.splits)

lemma tag_row_tags: "match_tag_row c s \<Longrightarrow> cr_op c \<noteq> ''notContains'' \<Longrightarrow> su_tags s \<noteq> []"
  using tag_values_nonempty [of c]
  by (auto simp: match_tag_row_def matched_tags_def Let_def split: option.splits tag_match.splits if_splits)

lemma criterion_captured:
  "match_criterion pf pt c s now \<Longrightarrow> cr_field c = ''age'' \<Longrightarrow> su_created s \<noteq> [] \<and> pt (su_created s) \<noteq> None"
  "match_criterion pf pt c s now \<Longrightarrow> cr_field c = ''size'' \<Longrightarrow> su_size s \<noteq> 0"
  "match_criterion pf pt c s now \<Longrightarrow> cr_field c = ''quality'' \<Longrightarrow> to_lower (su_tier s) \<in> set all_tiers"
  "match_criterion pf pt c s now \<Longrightarrow> cr_field c = ''tag'' \<Longrightarrow> match_tag_row c s"
  "match_criterion pf pt c s now \<Longrightarrow> cr_field c = ''rating'' \<Longrightarrow> 0 < su_rating s"
  unfolding age_captured [symmetric, of _ _ now] prune_rank_tier [symmetric] match_criterion_def
  by (simp_all split: option.splits)

lemma criterion_field: "match_criterion pf pt c s now \<Longrightarrow> cr_field c \<in> {''age'', ''size'', ''quality'', ''tag'', ''rating''}"
  by (simp add: match_criterion_def split: if_splits)

lemma row_captured:
  assumes "match_criterion pf pt c s now" "cr_op c \<noteq> ''notContains''"
  shows "captured pt s (cr_field c)"
proof -
  note m = criterion_captured [OF assms(1)]
  from criterion_field [OF assms(1)]
  consider "cr_field c = ''age''" | "cr_field c = ''size''" | "cr_field c = ''quality''" | "cr_field c = ''tag''" | "cr_field c = ''rating''"
    by fast
  then show ?thesis
  proof cases
    case 1 then show ?thesis using m(1) by (simp add: captured_def)
  next
    case 2 then show ?thesis using m(2) by (simp add: captured_def)
  next
    case 3 then show ?thesis using m(3) by (simp add: captured_def)
  next
    case 4 then show ?thesis using tag_row_tags [OF m(4) assms(2)] by (simp add: captured_def)
  next
    case 5 then show ?thesis using m(5) by (simp add: captured_def)
  qed
qed

lemma matches_age_captured: "matches_age pt (su_created s) d now \<Longrightarrow> captured pt s ''age''"
  using age_captured [of pt "su_created s" now] by (simp add: matches_age_def captured_def split: option.splits)

lemma matches_tier_captured: "matches_tier (su_tier s) g \<Longrightarrow> captured pt s ''quality''"
  using prune_rank_tier [of "su_tier s"] lower_tier [of "su_tier s"]
  by (simp add: matches_tier_def captured_def split: option.splits)

lemma legacy_captured:
  assumes "match_legacy pt r s now" "pr_criteria r = []" "0 \<le> pr_size r" "asks_for r f"
  shows "captured pt s f"
proof -
  note m = assms(1) [unfolded match_legacy_def]
  have f: "f = ''age'' \<and> pr_age r \<noteq> 0 \<or> f = ''size'' \<and> pr_size r \<noteq> 0 \<or> f = ''quality'' \<and> pr_floor r \<noteq> [] \<or>
      f = ''tag'' \<and> pr_tags r \<noteq> [] \<or> f = ''rating'' \<and> pr_min_rating r \<noteq> 0"
    using assms(2,4) by (simp add: asks_for_def)
  have "captured pt s ''age''" if "pr_age r \<noteq> 0" using m that matches_age_captured by blast
  moreover have "captured pt s ''size''" if "pr_size r \<noteq> 0" using m that assms(3) by (simp add: captured_def)
  moreover have "captured pt s ''quality''" if "pr_floor r \<noteq> []" using m that matches_tier_captured by blast
  moreover have "captured pt s ''tag''" if "pr_tags r \<noteq> []"
  proof -
    have "matched_tags (pr_tags r) (su_tags s) \<noteq> []" using m that by blast
    then have "su_tags s \<noteq> []" by (auto simp: matched_tags_def)
    then show ?thesis by (simp add: captured_def)
  qed
  moreover have "captured pt s ''rating''" if "pr_min_rating r \<noteq> 0" using m that by (simp add: captured_def)
  ultimately show ?thesis using f by blast
qed

lemma compare_not_contains [simp]: "compare_int a t ''notContains'' = False"
  by (simp add: compare_int_def)

lemma not_contains_row:
  assumes "match_criterion pf pt c s now" "cr_op c = ''notContains''"
  shows "cr_field c = ''tag''"
proof (rule ccontr)
  assume "cr_field c \<noteq> ''tag''"
  then have "\<not> match_criterion pf pt c s now"
    unfolding match_criterion_def assms(2) by (simp only: if_False compare_not_contains) (simp split: option.split)
  then show False using assms(1) by blast
qed

lemma prune_captured_core:
  assumes "validate_rule pf r = None" "match_rule pf pt r s now" "asks_for r f"
  shows "captured pt s f"
proof (cases "pr_criteria r = []")
  case True
  have "0 \<le> pr_size r" using assms(1) by (auto simp: validate_rule_def split: if_splits)
  then show ?thesis using legacy_captured [OF _ True _ assms(3)] assms(2) True by (simp add: match_rule_def)
next
  case False
  then show ?thesis using assms(2,3) row_captured
    by (auto simp: match_rule_def match_criteria_def list_all_iff asks_for_def)
qed

lemma prune_blank_core:
  assumes "validate_rule pf r = None" "match_rule pf pt r s now"
    "\<not> captured pt s ''age'' \<and> \<not> captured pt s ''size'' \<and> \<not> captured pt s ''quality'' \<and> \<not> captured pt s ''tag'' \<and>
     \<not> captured pt s ''rating''"
  shows "pr_criteria r \<noteq> [] \<and> (\<forall>c\<in>set (pr_criteria r). cr_field c = ''tag'' \<and> cr_op c = ''notContains'')"
proof -
  have fields: "captured pt s f \<Longrightarrow> f \<in> {''age'', ''size'', ''quality'', ''tag'', ''rating''}" for f
    by (auto simp: captured_def)
  have no: "\<not> asks_for r f" for f using prune_captured_core [OF assms(1,2), of f] fields [of f] assms(3) by auto
  have crit: "pr_criteria r \<noteq> []"
    using no [of "''age''"] no [of "''size''"] no [of "''quality''"] no [of "''tag''"] no [of "''rating''"] assms(2)
    by (auto simp: asks_for_def match_rule_def match_legacy_def)
  then show ?thesis using no assms(2) not_contains_row
    by (auto simp: asks_for_def match_rule_def match_criteria_def list_all_iff)
qed

text \<open>
  C25. A valid rule matches a title only if everything it asks for was captured: the creation time can be read, the
  size is not 0, the tier is one of the four, there are tags, there is a rating. A title of which nothing is
  captured is matched only by rules all of whose rows are \<open>notContains\<close> tag rows.
\<close>
theorem prune_fails_closed:
  assumes "validate_rule pf r = None" "match_rule pf pt r s now"
  shows "(asks_for r f \<longrightarrow> captured pt s f) \<and>
    (\<not> captured pt s ''age'' \<and> \<not> captured pt s ''size'' \<and> \<not> captured pt s ''quality'' \<and> \<not> captured pt s ''tag'' \<and>
      \<not> captured pt s ''rating'' \<longrightarrow> pr_criteria r \<noteq> [] \<and> (\<forall>c\<in>set (pr_criteria r). cr_field c = ''tag'' \<and> cr_op c = ''notContains''))"
  using prune_captured_core [OF assms] prune_blank_core [OF assms] by blast

definition no_float :: "gostring \<Rightarrow> f64 option" where
  "no_float t = None"

definition demo_time :: "gostring \<Rightarrow> gtime option" where
  "demo_time t = (if t = ''2025-01-01'' then Some 0 else None)"

definition demo_rule :: prune_rule where
  "demo_rule = \<lparr>pr_id = 1, pr_name = ''old'', pr_mode = ''movies'', pr_age = 0, pr_size = 0, pr_floor = [], pr_tags = [], pr_min_rating = 0,
     pr_criteria = [\<lparr>cr_field = ''age'', cr_op = ''gt'', cr_value = '' +30'', cr_unit = ''days'', cr_values = [], cr_match = []\<rparr>,
       \<lparr>cr_field = ''tag'', cr_op = ''notContains'', cr_value = ''keep'', cr_unit = [], cr_values = [], cr_match = []\<rparr>],
     pr_enabled = True, pr_created = [], pr_updated = []\<rparr>"

lemma demo_rule_valid: "validate_rule no_float demo_rule = None"
  by code_simp

lemma demo_rule_matches: "match_rule no_float demo_time demo_rule demo_subject (31 * 24 * hour)"
  by code_simp

lemma prune_fails_closed_witness:
  "match_rule no_float demo_time demo_rule demo_subject (31 * 24 * hour) \<and> captured demo_time demo_subject ''age''"
proof -
  have "asks_for demo_rule ''age''" by code_simp
  then show ?thesis using prune_fails_closed [OF demo_rule_valid demo_rule_matches, of "''age''"] demo_rule_matches by blast
qed

section \<open>No stored rule matches everything\<close>

lemma validate_criteria_all: "validate_criteria pf i cs = None \<Longrightarrow> c \<in> set cs \<Longrightarrow> validate_criterion pf c = None"
  by (induction pf i cs rule: validate_criteria.induct) (auto split: option.splits criterion_error.splits)

definition blank_subject :: subject where
  "blank_subject = \<lparr>su_created = [], su_size = 0, su_tier = [], su_tags = [], su_rating = 0\<rparr>"

lemma blank_uncaptured:
  "\<not> captured pt blank_subject ''age'' \<and> \<not> captured pt blank_subject ''size'' \<and> \<not> captured pt blank_subject ''quality'' \<and>
   \<not> captured pt blank_subject ''tag'' \<and> \<not> captured pt blank_subject ''rating''"
  by (simp add: captured_def blank_subject_def to_lower_def all_tiers_def tiers)

lemma tag_row_chips:
  "validate_criterion pf c = None \<Longrightarrow> cr_field c = ''tag'' \<Longrightarrow>
   (\<exists>vs. tag_criterion_values c = Some vs) \<and> (\<exists>m. validate_tag_match_mode (cr_match c) = Some m)"
  by (auto simp: validate_criterion_def Let_def split: if_splits)

lemma not_contains_spares:
  assumes "validate_criterion pf c = None" "cr_field c = ''tag''" "cr_op c = ''notContains''"
  shows "\<exists>s. \<not> match_criterion pf pt c s now"
proof -
  obtain vs m where v: "tag_criterion_values c = Some vs" "validate_tag_match_mode (cr_match c) = Some m"
    using tag_row_chips [OF assms(1,2)] by blast
  have ne: "vs \<noteq> []" by (rule tag_values_nonempty [OF v(1)])
  have "\<exists>v. equal_fold v v \<and> v \<in> set vs" using ne by (cases vs) auto
  then have any: "matched_tags vs vs \<noteq> []" unfolding matched_tags_none by blast
  have "length (matched_tags vs vs) = length vs" unfolding matched_tags_all by (meson equal_fold_refl)
  then have "\<not> match_tag_row c (blank_subject\<lparr>su_tags := vs\<rparr>)"
    using any v assms(3) by (cases m) (simp_all add: match_tag_row_def Let_def)
  then show ?thesis using assms(2) by (auto simp: match_criterion_def)
qed

lemma valid_rule_spares:
  assumes "validate_rule pf r = None"
  shows "\<exists>s. \<not> match_rule pf pt r s now"
proof (cases "match_rule pf pt r blank_subject now")
  case True
  have rows: "pr_criteria r \<noteq> []" "\<forall>c\<in>set (pr_criteria r). cr_field c = ''tag'' \<and> cr_op c = ''notContains''"
    using prune_blank_core [OF assms True blank_uncaptured] by blast+
  obtain c where mem: "c \<in> set (pr_criteria r)" using rows(1) by (meson list.set_sel(1))
  then have c: "c \<in> set (pr_criteria r)" "cr_field c = ''tag''" "cr_op c = ''notContains''" using rows(2) by blast+
  have "validate_criteria pf 0 (pr_criteria r) = None" using assms rows(1) by (simp add: validate_rule_def split: if_splits)
  from not_contains_spares [OF validate_criteria_all [OF this c(1)] c(2,3)]
  obtain s where "\<not> match_criterion pf pt c s now" by blast
  then have "\<not> match_rule pf pt r s now" using c(1) rows(1) by (auto simp: match_rule_def match_criteria_def list_all_iff)
  then show ?thesis by blast
qed blast

text \<open>The table: valid rules with distinct ids that were handed out.\<close>

definition rules_ok :: "(gostring \<Rightarrow> f64 option) \<Rightarrow> rule_store \<Rightarrow> bool" where
  "rules_ok pf st \<longleftrightarrow> (\<forall>r\<in>set (rl_rows st). validate_rule pf r = None \<and> pr_id r < rl_next st) \<and> distinct (map pr_id (rl_rows st))"

lemma validate_rule_stamped [simp]:
  "validate_rule pf (r\<lparr>pr_id := n, pr_created := c, pr_updated := u\<rparr>) = validate_rule pf r"
  "validate_rule pf (r\<lparr>pr_created := c, pr_updated := u\<rparr>) = validate_rule pf r"
  "validate_rule pf (r\<lparr>pr_id := n\<rparr>) = validate_rule pf r"
  by (simp_all add: validate_rule_def)

lemma create_rule_ok: "rules_ok pf st \<Longrightarrow> rules_ok pf (snd (create_rule pf fault stamps r st))"
  unfolding create_rule_def
  by (cases "validate_rule pf r"; cases fault) (force simp: rules_ok_def Let_def)+

lemma update_rule_ok:
  assumes "rules_ok pf st" shows "rules_ok pf (snd (update_rule pf fault stamp r st))"
proof (cases "validate_rule pf r = None \<and> \<not> fault \<and> filter (\<lambda>q. pr_id q = pr_id r) (rl_rows st) \<noteq> []")
  case True
  then obtain old rest where old: "filter (\<lambda>q. pr_id q = pr_id r) (rl_rows st) = old # rest" by (auto simp: neq_Nil_conv)
  let ?row = "r\<lparr>pr_created := pr_created old, pr_updated := stamp\<rparr>"
  have "old \<in> set (rl_rows st) \<and> pr_id old = pr_id r" using filter_eq_ConsD [OF old] by auto
  then have "pr_id r < rl_next st" using assms by (auto simp: rules_ok_def)
  moreover have "map pr_id (map (\<lambda>q. if pr_id q = pr_id r then ?row else q) qs) = map pr_id qs" for qs by auto
  ultimately show ?thesis using True old assms by (auto simp: rules_ok_def update_rule_def Let_def simp del: map_map)
next
  case False
  then show ?thesis using assms by (auto simp: update_rule_def split: option.splits list.splits)
qed

lemma delete_rule_ok: "rules_ok pf st \<Longrightarrow> rules_ok pf (snd (delete_rule fault n st))"
  by (auto simp: rules_ok_def delete_rule_def intro: distinct_map_filter)


definition demo_rules :: rule_store where
  "demo_rules = \<lparr>rl_rows = [demo_rule], rl_next = 2\<rparr>"


section \<open>The best tier\<close>

lemma best_tier_from_bound:
  "prune_rank b = Some k \<Longrightarrow>
   \<exists>m. prune_rank (best_tier_from (b, k) ts) = Some m \<and> k \<le> m \<and> (\<forall>t\<in>set ts. \<forall>n. prune_rank t = Some n \<longrightarrow> n \<le> m)"
proof (induction ts arbitrary: b k)
  case (Cons t ts)
  show ?case
  proof (cases "prune_rank t")
    case (Some n)
    show ?thesis
    proof (cases "k < n")
      case True
      then show ?thesis using Cons.IH [OF Some] Some by force
    next
      case False
      then show ?thesis using Cons.IH [OF Cons.prems] Some by force
    qed
  qed (use Cons in auto)
qed simp

lemma prune_rank_nonneg: "prune_rank t = Some n \<Longrightarrow> 0 \<le> n"
  by (auto simp: prune_rank_def split: if_splits)

lemma best_tier_is_best:
  "t \<in> set ts \<Longrightarrow> prune_rank t = Some n \<Longrightarrow> \<exists>m. prune_rank (best_tier ts) = Some m \<and> n \<le> m"
  unfolding best_tier_def
proof (induction ts)
  case (Cons u us)
  show ?case
  proof (cases "prune_rank u")
    case None
    then show ?thesis using Cons by auto
  next
    case (Some k)
    then show ?thesis using best_tier_from_bound [OF Some, of us] prune_rank_nonneg [OF Some] Cons.prems by auto
  qed
qed simp

end
