(* ===== verification/Purge.thy ===== *)
theory Purge
  imports Purge_Files Prune_Rules Library_Items Proposals
begin

text \<open>
  Purge (\<open>internal/purge\<close>): staging the titles that enabled rules match, deleting an approved one, and removing an
  owned title or some of its seasons. Movies are the titles of \<open>Library_Items\<close>; the tables of shows follow
  \<open>internal/library/library_series.go\<close> and \<open>library_episode_files.go\<close>. Adult scenes, reasons and the cleanup of
  cached comparison scores are left out.
\<close>

section \<open>Shows\<close>

record show_row =
  sr_id :: int
  sr_tmdb :: int
  sr_title :: gostring
  sr_root :: gostring
  sr_created :: gostring
  sr_rating :: int

record episode =
  ep_id :: int
  ep_show :: int
  ep_season :: int
  ep_number :: int
  ep_path :: gostring
  ep_size :: int
  ep_tier :: gostring

record episode_file =
  ef_id :: int
  ef_episode :: int
  ef_path :: gostring
  ef_primary :: bool

record show_tables =
  sh_rows :: "show_row list"
  sh_episodes :: "episode list"
  sh_files :: "episode_file list"
  sh_tags :: "(int \<times> gostring) list"
  sh_monitored :: "(int \<times> int) list"

definition get_series :: "bool \<Rightarrow> int \<Rightarrow> show_tables \<Rightarrow> item_error + show_row" where
  "get_series fault n t =
     (if fault then Inl Item_db_error
      else case filter (\<lambda>s. sr_id s = n) (sh_rows t) of [] \<Rightarrow> Inl Item_missing | s # _ \<Rightarrow> Inr s)"

definition list_episodes :: "bool \<Rightarrow> int \<Rightarrow> show_tables \<Rightarrow> episode list option" where
  "list_episodes fault n t =
     (if fault then None
      else Some (sort_key ep_season (sort_key ep_number (filter (\<lambda>e. ep_show e = n) (sh_episodes t)))))"

definition list_episode_files :: "bool \<Rightarrow> int \<Rightarrow> show_tables \<Rightarrow> episode_file list option" where
  "list_episode_files fault n t =
     (if fault then None
      else (let fs = filter (\<lambda>f. ef_episode f = n) (sh_files t) in Some (filter ef_primary fs @ filter (\<lambda>f. \<not> ef_primary f) fs)))"

definition series_tags :: "bool \<Rightarrow> int \<Rightarrow> show_tables \<Rightarrow> gostring list option" where
  "series_tags fault n t = (if fault then None else Some (map snd (filter (\<lambda>x. fst x = n) (sh_tags t))))"

text \<open>The files of an episode go with it (\<open>ON DELETE CASCADE\<close>).\<close>

definition drop_episodes :: "(episode \<Rightarrow> bool) \<Rightarrow> show_tables \<Rightarrow> show_tables" where
  "drop_episodes P t =
     t\<lparr>sh_episodes := filter (\<lambda>e. \<not> P e) (sh_episodes t),
       sh_files := filter (\<lambda>f. \<not> list_ex (\<lambda>e. P e \<and> ep_id e = ef_episode f) (sh_episodes t)) (sh_files t)\<rparr>"

text \<open>One transaction.\<close>

definition delete_series :: "bool \<Rightarrow> int \<Rightarrow> show_tables \<Rightarrow> bool \<times> show_tables" where
  "delete_series fault n t =
     (if fault then (False, t)
      else (True, (drop_episodes (\<lambda>e. ep_show e = n) t)\<lparr>sh_tags := filter (\<lambda>x. fst x \<noteq> n) (sh_tags t),
        sh_monitored := filter (\<lambda>x. fst x \<noteq> n) (sh_monitored t), sh_rows := filter (\<lambda>s. sr_id s \<noteq> n) (sh_rows t)\<rparr>))"

definition delete_episode :: "bool \<Rightarrow> int \<Rightarrow> show_tables \<Rightarrow> bool \<times> show_tables" where
  "delete_episode fault n t = (if fault then (False, t) else (True, drop_episodes (\<lambda>e. ep_id e = n) t))"

definition clear_season_monitored :: "bool \<Rightarrow> int \<Rightarrow> int \<Rightarrow> show_tables \<Rightarrow> bool \<times> show_tables" where
  "clear_season_monitored fault n season t =
     (if fault then (False, t) else (True, t\<lparr>sh_monitored := filter (\<lambda>x. x \<noteq> (n, season)) (sh_monitored t)\<rparr>))"

section \<open>Staging\<close>

definition movie_subject :: "item \<Rightarrow> gostring list \<Rightarrow> subject" where
  "movie_subject i tags =
     \<lparr>su_created = it_created i, su_size = it_size i, su_tier = it_tier i, su_tags = tags, su_rating = it_rating i\<rparr>"

definition movie_purge_proposal :: "item \<Rightarrow> proposal" where
  "movie_purge_proposal i = zero_proposal\<lparr>p_mode := ''movies'', p_workflow := wf_purge, p_status := Pending, p_name := it_title i,
     p_path := it_path i, p_root := it_root i, p_title := it_title i, p_tmdb := it_tmdb i, p_tracked := it_id i\<rparr>"

text \<open>\<open>faults\<close> says for which titles the tags cannot be read, which ends the scan.\<close>

fun stage_movies ::
  "(subject \<Rightarrow> prune_rule list) \<Rightarrow> (int \<Rightarrow> bool) \<Rightarrow> catalogue \<Rightarrow> item list \<Rightarrow> proposal list option" where
  "stage_movies matches faults cat [] = Some []"
| "stage_movies matches faults cat (i # is) =
     (case item_tags (faults (it_id i)) (it_id i) cat of
        None \<Rightarrow> None
      | Some tags \<Rightarrow>
          (case stage_movies matches faults cat is of
             None \<Rightarrow> None
           | Some ps \<Rightarrow> Some (if matches (movie_subject i tags) = [] then ps else movie_purge_proposal i # ps)))"

definition purge_scan_library ::
  "(gostring \<Rightarrow> f64 option) \<Rightarrow> (gostring \<Rightarrow> gtime option) \<Rightarrow> bool \<Rightarrow> (int \<Rightarrow> bool) \<Rightarrow> prune_rule list \<Rightarrow> gtime \<Rightarrow> catalogue \<Rightarrow>
     proposal list option" where
  "purge_scan_library pf pt fault faults rules now cat =
     (if fault then None
      else stage_movies (\<lambda>s. match_any pf pt rules s now) faults cat
        (sort_key it_title (filter (\<lambda>i. it_mode i = ''movies'') (ct_items cat))))"

definition any_rule_needs_episode_aggregation :: "prune_rule list \<Rightarrow> bool" where
  "any_rule_needs_episode_aggregation rules \<longleftrightarrow>
     list_ex (\<lambda>r. pr_size r \<noteq> 0 \<or> pr_floor r \<noteq> [] \<or>
       list_ex (\<lambda>c. cr_field c = ''size'' \<or> cr_field c = ''quality'') (pr_criteria r)) rules"

definition series_subject :: "episode list \<Rightarrow> int \<times> gostring" where
  "series_subject es = (sum_list (map ep_size es), best_tier (map ep_tier es))"

definition show_subject :: "show_row \<Rightarrow> gostring list \<Rightarrow> int \<times> gostring \<Rightarrow> subject" where
  "show_subject s tags agg =
     \<lparr>su_created = sr_created s, su_size = fst agg, su_tier = snd agg, su_tags = tags, su_rating = sr_rating s\<rparr>"

definition show_purge_proposal :: "show_row \<Rightarrow> proposal" where
  "show_purge_proposal s = zero_proposal\<lparr>p_mode := ''series'', p_workflow := wf_purge, p_status := Pending, p_name := sr_title s,
     p_path := sr_root s, p_root := sr_root s, p_title := sr_title s, p_tmdb := sr_tmdb s, p_tracked := sr_id s\<rparr>"

fun stage_shows ::
  "(subject \<Rightarrow> prune_rule list) \<Rightarrow> bool \<Rightarrow> bool \<Rightarrow> (int \<Rightarrow> bool) \<Rightarrow> (int \<Rightarrow> bool) \<Rightarrow> show_tables \<Rightarrow> show_row list \<Rightarrow> proposal list option" where
  "stage_shows matches has_rules need tag_faults ep_faults t [] = Some []"
| "stage_shows matches has_rules need tag_faults ep_faults t (s # ss) =
     (case series_tags (tag_faults (sr_id s)) (sr_id s) t of
        None \<Rightarrow> None
      | Some tags \<Rightarrow>
          (case (if \<not> has_rules then Some []
                 else if need then (case list_episodes (ep_faults (sr_id s)) (sr_id s) t of
                     None \<Rightarrow> None | Some es \<Rightarrow> Some (matches (show_subject s tags (series_subject es))))
                 else Some (matches (show_subject s tags (0, [])))) of
             None \<Rightarrow> None
           | Some reasons \<Rightarrow>
               (case stage_shows matches has_rules need tag_faults ep_faults t ss of
                  None \<Rightarrow> None
                | Some ps \<Rightarrow> Some (if reasons = [] then ps else show_purge_proposal s # ps))))"

definition purge_scan_series ::
  "(gostring \<Rightarrow> f64 option) \<Rightarrow> (gostring \<Rightarrow> gtime option) \<Rightarrow> bool \<Rightarrow> (int \<Rightarrow> bool) \<Rightarrow> (int \<Rightarrow> bool) \<Rightarrow> prune_rule list \<Rightarrow> gtime \<Rightarrow>
     show_tables \<Rightarrow> proposal list option" where
  "purge_scan_series pf pt fault tag_faults ep_faults rules now t =
     (if fault then None
      else stage_shows (\<lambda>s. match_any pf pt rules s now) (rules \<noteq> []) (any_rule_needs_episode_aggregation rules) tag_faults ep_faults t
        (sort_key sr_title (sh_rows t)))"

section \<open>Deleting\<close>

record purge_state =
  pg_disk :: "gostring list"
  pg_cat :: catalogue
  pg_shows :: show_tables

text \<open>\<open>removeOwnedMovie\<close>; \<open>fl k\<close> is the failure of its statement \<open>k\<close>.\<close>

definition remove_owned_movie ::
  "purge_env \<Rightarrow> (nat \<Rightarrow> bool) \<Rightarrow> int \<Rightarrow> purge_state \<Rightarrow> purge_error option \<times> gostring list \<times> purge_state" where
  "remove_owned_movie env fl n st =
     (case get_item (fl 0) n (pg_cat st) of
        Inl _ \<Rightarrow> (Some Purge_load, [], st)
      | Inr i \<Rightarrow>
          (case list_files (fl 1) (it_id i) (pg_cat st) of
             None \<Rightarrow> (Some Purge_list, [], st)
           | Some fs \<Rightarrow>
               (case remove_tracked_media env (it_path i # map if_path fs) (it_root i) (pg_disk st) of
                  (Some e, changes, disk) \<Rightarrow> (Some e, changes, st\<lparr>pg_disk := disk\<rparr>)
                | (None, changes, disk) \<Rightarrow>
                    (case delete_library_item (fl 2) (it_id i) (pg_cat st) of
                       (False, _) \<Rightarrow> (Some Purge_delete_row, changes, st\<lparr>pg_disk := disk\<rparr>)
                     | (True, cat) \<Rightarrow> (None, changes, st\<lparr>pg_disk := disk, pg_cat := cat\<rparr>)))))"

definition purge_apply_library ::
  "purge_env \<Rightarrow> (nat \<Rightarrow> bool) \<Rightarrow> proposal \<Rightarrow> purge_state \<Rightarrow> purge_error option \<times> gostring list \<times> purge_state" where
  "purge_apply_library env fl p st =
     (if p_status p \<noteq> Pending then (Some Purge_not_pending, [], st)
      else if p_tracked p = 0 then (Some Purge_no_id, [], st)
      else remove_owned_movie env fl (p_tracked p) st)"

text \<open>The paths of a list of episodes; \<open>faults\<close> says for which episodes the files cannot be listed.\<close>

fun collect_episode_paths :: "(int \<Rightarrow> bool) \<Rightarrow> show_tables \<Rightarrow> episode list \<Rightarrow> gostring list option" where
  "collect_episode_paths faults t [] = Some []"
| "collect_episode_paths faults t (e # es) =
     (case list_episode_files (faults (ep_id e)) (ep_id e) t of
        None \<Rightarrow> None
      | Some fs \<Rightarrow>
          (case collect_episode_paths faults t es of None \<Rightarrow> None | Some ps \<Rightarrow> Some (ep_path e # map ef_path fs @ ps)))"

definition purge_apply_series ::
  "purge_env \<Rightarrow> (nat \<Rightarrow> bool) \<Rightarrow> (int \<Rightarrow> bool) \<Rightarrow> proposal \<Rightarrow> purge_state \<Rightarrow> purge_error option \<times> gostring list \<times> purge_state" where
  "purge_apply_series env fl faults p st =
     (if p_status p \<noteq> Pending then (Some Purge_not_pending, [], st)
      else if p_tracked p = 0 then (Some Purge_no_id, [], st)
      else
        (case (get_series (fl 0) (p_tracked p) (pg_shows st), list_episodes (fl 1) (p_tracked p) (pg_shows st)) of
           (Inl _, _) \<Rightarrow> (Some Purge_load, [], st)
         | (Inr s, None) \<Rightarrow> (Some Purge_list, [], st)
         | (Inr s, Some es) \<Rightarrow>
             (case collect_episode_paths faults (pg_shows st) es of
                None \<Rightarrow> (Some Purge_list, [], st)
              | Some ps \<Rightarrow>
                  (case remove_tracked_media env ps (sr_root s) (pg_disk st) of
                     (Some e, changes, disk) \<Rightarrow> (Some e, changes, st\<lparr>pg_disk := disk\<rparr>)
                   | (None, changes, disk) \<Rightarrow>
                       (case delete_series (fl 2) (p_tracked p) (pg_shows st) of
                          (False, _) \<Rightarrow> (Some Purge_delete_row, changes, st\<lparr>pg_disk := disk\<rparr>)
                        | (True, t) \<Rightarrow> (None, changes, st\<lparr>pg_disk := disk, pg_shows := t\<rparr>))))))"

section \<open>Removing seasons\<close>

record remove_spec =
  rs_entire :: bool
  rs_seasons :: "int list"

fun unique_ints :: "int list \<Rightarrow> int list \<Rightarrow> int list option" where
  "unique_ints seen [] = Some []"
| "unique_ints seen (n # ns) =
     (if n < 0 then None
      else if n \<in> set seen then unique_ints seen ns
      else (case unique_ints (n # seen) ns of None \<Rightarrow> None | Some ms \<Rightarrow> Some (n # ms)))"

definition normalize_seasons :: "remove_spec \<Rightarrow> int list option" where
  "normalize_seasons spec =
     (if rs_entire spec \<and> rs_seasons spec \<noteq> [] then None
      else if rs_entire spec then Some []
      else if rs_seasons spec = [] then None
      else unique_ints [] (rs_seasons spec))"

text \<open>Statements that are run one by one; \<open>fl k\<close> is the failure of the \<open>k\<close>th.\<close>

fun run_each :: "(bool \<Rightarrow> 'a \<Rightarrow> show_tables \<Rightarrow> bool \<times> show_tables) \<Rightarrow> (nat \<Rightarrow> bool) \<Rightarrow> nat \<Rightarrow> 'a list \<Rightarrow> show_tables \<Rightarrow> bool \<times> show_tables" where
  "run_each stmt fl k [] t = (True, t)"
| "run_each stmt fl k (x # xs) t = (case stmt (fl k) x t of (False, t1) \<Rightarrow> (False, t1) | (True, t1) \<Rightarrow> run_each stmt fl (Suc k) xs t1)"

text \<open>The rows, once the files are gone: the show if nothing of it is kept, else the episodes and the season flags.\<close>

definition delete_removed_rows ::
  "(nat \<Rightarrow> bool) \<Rightarrow> (nat \<Rightarrow> bool) \<Rightarrow> (nat \<Rightarrow> bool) \<Rightarrow> int \<Rightarrow> bool \<Rightarrow> int list \<Rightarrow> episode list \<Rightarrow> show_tables \<Rightarrow>
     (purge_error + bool) \<times> show_tables" where
  "delete_removed_rows fl row_fl season_fl n whole seasons gone t =
     (if whole
      then (case delete_series (fl 2) n t of (False, t1) \<Rightarrow> (Inl Purge_delete_row, t1) | (True, t1) \<Rightarrow> (Inr True, t1))
      else (case run_each (\<lambda>f e. delete_episode f (ep_id e)) row_fl 0 gone t of
              (False, t1) \<Rightarrow> (Inl Purge_delete_row, t1)
            | (True, t1) \<Rightarrow>
                (case run_each (\<lambda>f m. clear_season_monitored f n m) season_fl 0 seasons t1 of
                   (False, t2) \<Rightarrow> (Inl Purge_delete_row, t2) | (True, t2) \<Rightarrow> (Inr False, t2))))"

definition remove_episodes ::
  "purge_env \<Rightarrow> (nat \<Rightarrow> bool) \<Rightarrow> (int \<Rightarrow> bool) \<Rightarrow> (nat \<Rightarrow> bool) \<Rightarrow> (nat \<Rightarrow> bool) \<Rightarrow> show_row \<Rightarrow> bool \<Rightarrow> int list \<Rightarrow>
     episode list \<Rightarrow> episode list \<Rightarrow> purge_state \<Rightarrow> (purge_error + bool) \<times> gostring list \<times> purge_state" where
  "remove_episodes env fl faults row_fl season_fl s entire seasons gone kept st =
     (case (collect_episode_paths faults (pg_shows st) gone, collect_episode_paths faults (pg_shows st) kept) of
        (Some rps, Some kps) \<Rightarrow>
          (let dps = filter (\<lambda>p. p \<notin> set (unique_non_empty_paths kps)) (unique_non_empty_paths rps) in
           case remove_tracked_media_keeping env dps (sr_root s) kps (pg_disk st) of
             (Some e, changes, disk) \<Rightarrow> (Inl e, changes, st\<lparr>pg_disk := disk\<rparr>)
           | (None, changes, disk) \<Rightarrow>
               (let (r, t) = delete_removed_rows fl row_fl season_fl (sr_id s) (entire \<or> kept = []) seasons gone (pg_shows st)
                in (r, changes, st\<lparr>pg_disk := disk, pg_shows := t\<rparr>)))
      | _ \<Rightarrow> (Inl Purge_list, [], st))"

definition remove_owned_series ::
  "purge_env \<Rightarrow> (nat \<Rightarrow> bool) \<Rightarrow> (int \<Rightarrow> bool) \<Rightarrow> (nat \<Rightarrow> bool) \<Rightarrow> (nat \<Rightarrow> bool) \<Rightarrow> int \<Rightarrow> remove_spec \<Rightarrow> purge_state \<Rightarrow>
     (purge_error + bool) \<times> gostring list \<times> purge_state" where
  "remove_owned_series env fl faults row_fl season_fl n spec st =
     (case normalize_seasons spec of
        None \<Rightarrow> (Inl Purge_remove_spec, [], st)
      | Some seasons \<Rightarrow>
          (case get_series (fl 0) n (pg_shows st) of
             Inl _ \<Rightarrow> (Inl Purge_load, [], st)
           | Inr s \<Rightarrow>
               (case list_episodes (fl 1) n (pg_shows st) of
                  None \<Rightarrow> (Inl Purge_list, [], st)
                | Some es \<Rightarrow>
                    (let removed = (\<lambda>e. rs_entire spec \<or> ep_season e \<in> set seasons); gone = filter removed es in
                     if \<not> rs_entire spec \<and> gone = [] then (Inl Purge_remove_spec, [], st)
                     else remove_episodes env fl faults row_fl season_fl s (rs_entire spec) seasons gone (filter (\<lambda>e. \<not> removed e) es) st))))"

end
