(* ===== verification/Purge_Facts.thy ===== *)
theory Purge_Facts
  imports Purge
begin

text \<open>
  What purging takes: the scan stages exactly the matching titles and reads episodes only when a rule asks for
  them; an apply takes the staged title and its files, together with whatever lies in their folders; a removal of
  seasons spares the other seasons.
\<close>

section \<open>Episodes are read when they matter\<close>

lemma match_criterion_no_aggregate:
  assumes "cr_field c \<noteq> ''size''" "cr_field c \<noteq> ''quality''"
  shows "match_criterion pf pt c (s\<lparr>su_size := a, su_tier := b\<rparr>) now = match_criterion pf pt c s now"
proof -
  have "su_created (s\<lparr>su_size := a, su_tier := b\<rparr>) = su_created s" "su_tags (s\<lparr>su_size := a, su_tier := b\<rparr>) = su_tags s"
    "su_rating (s\<lparr>su_size := a, su_tier := b\<rparr>) = su_rating s" by simp_all
  then show ?thesis unfolding match_criterion_def match_tag_row_def by (simp only: assms if_False)
qed

lemma match_rule_no_aggregate:
  assumes "\<not> any_rule_needs_episode_aggregation rules" "r \<in> set rules"
  shows "match_rule pf pt r (s\<lparr>su_size := a, su_tier := b\<rparr>) now = match_rule pf pt r s now"
proof -
  have none: "pr_size r = 0" "pr_floor r = []" "\<And>c. c \<in> set (pr_criteria r) \<Longrightarrow> cr_field c \<noteq> ''size'' \<and> cr_field c \<noteq> ''quality''"
    using assms unfolding any_rule_needs_episode_aggregation_def list_ex_iff by blast+
  have "match_criteria pf pt r (s\<lparr>su_size := a, su_tier := b\<rparr>) now = match_criteria pf pt r s now"
    unfolding match_criteria_def list_all_iff using match_criterion_no_aggregate none(3) by blast
  then show ?thesis using none(1,2) by (simp add: match_rule_def match_legacy_def)
qed

lemma match_any_no_aggregate:
  assumes "\<not> any_rule_needs_episode_aggregation rules"
  shows "match_any pf pt rules (show_subject s tags agg) now = match_any pf pt rules (show_subject s tags (0, [])) now"
proof -
  have "show_subject s tags agg = (show_subject s tags (0, []))\<lparr>su_size := fst agg, su_tier := snd agg\<rparr>"
    by (simp add: show_subject_def)
  then show ?thesis unfolding match_any_def
    by (simp only:) (rule filter_cong, simp_all only: match_rule_no_aggregate [OF assms])
qed

lemma stage_shows_cong:
  assumes "\<And>s tags agg. matches (show_subject s tags agg) = matches (show_subject s tags (0, []))" "\<And>n. \<not> ep_faults n"
  shows "stage_shows matches True False tag_faults ep_faults t ss = stage_shows matches True True tag_faults ep_faults t ss"
proof (induction ss)
  case (Cons s ss)
  have "matches (show_subject s tags (series_subject es)) = matches (show_subject s tags (0, []))" for tags es
    by (rule assms(1))
  then show ?case using Cons.IH assms(2) by (simp add: list_episodes_def split: option.split)
qed simp

lemma stage_shows_no_rules:
  "(\<And>s. matches s = []) \<Longrightarrow> (\<And>n. \<not> ep_faults n) \<Longrightarrow>
   stage_shows matches False need tag_faults ep_faults t ss = stage_shows matches True True tag_faults ep_faults t ss"
  by (induction ss) (simp_all add: list_episodes_def split: option.split)


section \<open>A staged title\<close>

lemma stage_movies_spec:
  "stage_movies matches faults cat is = Some ps \<Longrightarrow>
   ps = map movie_purge_proposal (filter (\<lambda>i. matches (movie_subject i (map snd (filter (\<lambda>t. fst t = it_id i) (ct_tags cat)))) \<noteq> []) is)"
  by (induction "is" arbitrary: ps) (auto simp: item_tags_def split: option.splits if_splits)

lemma purge_scan_matched:
  assumes "purge_scan_library pf pt fault faults rules now cat = Some ps" "p \<in> set ps"
  shows "\<exists>i\<in>set (ct_items cat). it_mode i = ''movies'' \<and> p = movie_purge_proposal i \<and>
    match_any pf pt rules (movie_subject i (map snd (filter (\<lambda>t. fst t = it_id i) (ct_tags cat)))) now \<noteq> []"
proof -
  have "stage_movies (\<lambda>s. match_any pf pt rules s now) faults cat (sort_key it_title (filter (\<lambda>i. it_mode i = ''movies'') (ct_items cat))) = Some ps"
    using assms(1) by (simp add: purge_scan_library_def split: if_splits)
  from stage_movies_spec [OF this] assms(2) show ?thesis by auto
qed

lemma removal_basic:
  assumes "remove_tracked_media_keeping env paths base keep disk = (e, changes, disk')"
  shows "set changes \<subseteq> set paths - {[]} \<and> set disk' \<subseteq> set disk \<and> set disk' \<inter> path_clean ` set changes = {} \<and>
    (e = None \<longrightarrow> set changes = set paths - {[]})"
proof -
  let ?ps = "unique_non_empty_paths paths"
  obtain e1 ch d1 where r: "remove_each env ?ps disk = (e1, ch, d1)" by (rule prod_cases3)
  note each = remove_each_spec [OF r]
  obtain e2 d2 where r2: "remove_dirs env (unique_non_empty_paths keep) (pe_order env (safe_dirs ?ps base)) d1 = (e2, d2)" by fastforce
  have "set ch \<subseteq> set ?ps" using each by (metis Un_upper1 set_append)
  then have ch: "set ch \<subseteq> set paths - {[]}" by simp
  have d1: "set d1 \<subseteq> set disk" "set d1 \<inter> path_clean ` set ch = {}" using each by auto
  have d2: "set d2 \<subseteq> set d1" using remove_dirs_spec [OF r2] by blast
  have all: "e1 = None \<Longrightarrow> set ch = set paths - {[]}" using each by auto
  show ?thesis
    using assms r r2 ch d1 d2 all by (cases e1) (auto simp: remove_tracked_media_keeping_def Let_def)
qed

definition title_paths :: "catalogue \<Rightarrow> item \<Rightarrow> gostring set" where
  "title_paths cat i = insert (it_path i) (if_path ` {f \<in> set (ct_files cat). if_item f = it_id i}) - {[]}"

definition without_title :: "int \<Rightarrow> catalogue \<Rightarrow> catalogue" where
  "without_title n cat = snd (delete_library_item False n cat)"

lemma set_listed: "list_files fault n cat = Some fs \<Longrightarrow> set fs = {f \<in> set (ct_files cat). if_item f = n}"
  by (auto simp: list_files_def files_of_def Let_def split: if_splits)

lemma get_item_unique:
  assumes "cat_ok cat" "i \<in> set (ct_items cat)" "get_item fault (it_id i) cat = Inr j"
  shows "j = i"
proof -
  have "j \<in> set (ct_items cat)" "it_id j = it_id i"
    using assms(3) by (auto simp: get_item_def split: if_splits list.splits dest!: filter_eq_ConsD)
  then show ?thesis using assms(1,2) by (auto simp: cat_ok_def distinct_map inj_on_def)
qed

lemma remove_movie_spec:
  assumes "cat_ok (pg_cat st)" "i \<in> set (ct_items (pg_cat st))" "remove_owned_movie env fl (it_id i) st = (e, changes, st')"
  shows "set changes \<subseteq> title_paths (pg_cat st) i \<and> pg_shows st' = pg_shows st \<and>
    (if e = None then pg_cat st' = without_title (it_id i) (pg_cat st) \<and> set changes = title_paths (pg_cat st) i \<and>
        set (pg_disk st') \<inter> path_clean ` title_paths (pg_cat st) i = {} \<and>
        (\<exists>fs. set fs = {f \<in> set (ct_files (pg_cat st)). if_item f = it_id i} \<and>
           remove_tracked_media env (it_path i # map if_path fs) (it_root i) (pg_disk st) = (None, changes, pg_disk st'))
     else pg_cat st' = pg_cat st)"
proof (cases "get_item (fl 0) (it_id i) (pg_cat st)")
  case Inl
  then show ?thesis using assms(3) by (auto simp: remove_owned_movie_def)
next
  case (Inr j)
  then have j: "j = i" using get_item_unique assms(1,2) by blast
  show ?thesis
  proof (cases "list_files (fl 1) (it_id i) (pg_cat st)")
    case None
    then show ?thesis using assms(3) Inr j by (auto simp: remove_owned_movie_def)
  next
    case (Some fs)
    obtain e1 ch disk where r: "remove_tracked_media env (it_path i # map if_path fs) (it_root i) (pg_disk st) = (e1, ch, disk)"
      by (rule prod_cases3)
    have paths: "set (it_path i # map if_path fs) - {[]} = title_paths (pg_cat st) i"
      using set_listed [OF Some] by (auto simp: title_paths_def)
    note b = removal_basic [OF r [unfolded remove_tracked_media_def], unfolded paths]
    have del: "delete_library_item (fl 2) (it_id i) (pg_cat st) = (if fl 2 then (False, pg_cat st) else (True, without_title (it_id i) (pg_cat st)))"
      by (simp add: delete_library_item_def without_title_def)
    have out: "(e, changes, st') = (case e1 of Some x \<Rightarrow> (Some x, ch, st\<lparr>pg_disk := disk\<rparr>)
        | None \<Rightarrow> if fl 2 then (Some Purge_delete_row, ch, st\<lparr>pg_disk := disk\<rparr>)
            else (None, ch, st\<lparr>pg_disk := disk, pg_cat := without_title (it_id i) (pg_cat st)\<rparr>))"
      using assms(3) Inr j Some r del by (auto simp: remove_owned_movie_def split: option.splits)
    show ?thesis
    proof (cases "e1 = None \<and> \<not> fl 2")
      case True
      then show ?thesis using out b r set_listed [OF Some] by auto
    next
      case False
      then show ?thesis using out b by (cases e1) auto
    qed
  qed
qed



section \<open>Seasons\<close>

definition episode_paths :: "show_tables \<Rightarrow> episode \<Rightarrow> gostring set" where
  "episode_paths t e = insert (ep_path e) (ef_path ` {f \<in> set (sh_files t). ef_episode f = ep_id e})"

lemma set_listed_episode:
  "list_episode_files fault n t = Some fs \<Longrightarrow> set fs = {f \<in> set (sh_files t). ef_episode f = n}"
  by (auto simp: list_episode_files_def Let_def split: if_splits)

lemma collect_set:
  "collect_episode_paths faults t es = Some ps \<Longrightarrow> set ps = (\<Union>e\<in>set es. episode_paths t e)"
proof (induction es arbitrary: ps)
  case (Cons e es)
  then obtain fs qs where c: "list_episode_files (faults (ep_id e)) (ep_id e) t = Some fs" "collect_episode_paths faults t es = Some qs"
    "ps = ep_path e # map ef_path fs @ qs" by (auto split: option.splits)
  then have "set ps = insert (ep_path e) (ef_path ` set fs) \<union> set qs" by auto
  then show ?case unfolding set_listed_episode [OF c(1)] Cons.IH [OF c(2)] by (simp add: episode_paths_def)
qed simp

lemma delete_each:
  "run_each (\<lambda>f e. delete_episode f (ep_id e)) fl k es t = (ok, t1) \<Longrightarrow>
   set (sh_episodes t1) \<subseteq> set (sh_episodes t) \<and> (\<forall>e\<in>set (sh_episodes t). ep_id e \<notin> ep_id ` set es \<longrightarrow> e \<in> set (sh_episodes t1)) \<and>
   (ok \<longrightarrow> (\<forall>e\<in>set (sh_episodes t1). ep_id e \<notin> ep_id ` set es))"
proof (induction es arbitrary: k t)
  case (Cons e es)
  show ?case
  proof (cases "fl k")
    case False
    let ?t = "drop_episodes (\<lambda>x. ep_id x = ep_id e) t"
    have r: "run_each (\<lambda>f e. delete_episode f (ep_id e)) fl (Suc k) es ?t = (ok, t1)"
      using Cons.prems False by (simp add: delete_episode_def [of False])
    have "set (sh_episodes ?t) = {x \<in> set (sh_episodes t). ep_id x \<noteq> ep_id e}" by (auto simp: drop_episodes_def)
    then show ?thesis using Cons.IH [OF r] by auto
  qed (use Cons.prems in \<open>auto simp: delete_episode_def [of True]\<close>)
qed simp

lemma clear_each: "run_each (\<lambda>f m. clear_season_monitored f n m) fl k ms t = (ok, t1) \<Longrightarrow> sh_episodes t1 = sh_episodes t"
  by (induction ms arbitrary: k t) (auto simp: clear_season_monitored_def split: if_splits)

lemma delete_rows_episodes:
  assumes "delete_removed_rows fl row_fl season_fl n False seasons gone t = (r, t1)"
  shows "set (sh_episodes t1) \<subseteq> set (sh_episodes t) \<and> (\<forall>e\<in>set (sh_episodes t). ep_id e \<notin> ep_id ` set gone \<longrightarrow> e \<in> set (sh_episodes t1)) \<and>
    (\<forall>g. r = Inr g \<longrightarrow> \<not> g \<and> (\<forall>e\<in>set (sh_episodes t1). ep_id e \<notin> ep_id ` set gone))"
proof -
  obtain ok u where d: "run_each (\<lambda>f e. delete_episode f (ep_id e)) row_fl 0 gone t = (ok, u)" by fastforce
  obtain ok2 v where c: "run_each (\<lambda>f m. clear_season_monitored f n m) season_fl 0 seasons u = (ok2, v)" by fastforce
  note del = delete_each [OF d] and clr = clear_each [OF c]
  have out: "r = (if ok \<and> ok2 then Inr False else Inl Purge_delete_row)" "sh_episodes t1 = sh_episodes u"
    using assms d c clr by (auto simp: delete_removed_rows_def split: bool.splits)
  show ?thesis unfolding out(2) using del out(1) by (auto split: if_splits)
qed

definition clean_or_empty :: "gostring \<Rightarrow> bool" where
  "clean_or_empty p \<longleftrightarrow> p = [] \<or> is_rooted p \<and> path_clean p = p"

lemma get_series_row: "get_series fault n t = Inr s \<Longrightarrow> s \<in> set (sh_rows t) \<and> sr_id s = n"
  unfolding get_series_def by (auto split: if_splits list.splits dest!: filter_eq_ConsD)

lemma remove_episodes_spares:
  assumes "is_rooted (sr_root s)" "\<forall>q\<in>set (pg_disk st). is_rooted q \<and> path_clean q = q" "\<And>ds. set (pe_order env ds) = set ds"
    "\<forall>x\<in>set gone \<union> set kept. \<forall>p\<in>episode_paths (pg_shows st) x. clean_or_empty p"
    "remove_episodes env fl faults row_fl season_fl s False seasons gone kept st = (r, changes, st')"
    "e \<in> set kept" "set kept \<subseteq> set (sh_episodes (pg_shows st))" "ep_id e \<notin> ep_id ` set gone"
  shows "e \<in> set (sh_episodes (pg_shows st')) \<and>
    (\<forall>p\<in>episode_paths (pg_shows st) e. p \<in> set (pg_disk st) \<longrightarrow> p \<in> set (pg_disk st')) \<and>
    (\<forall>g. r = Inr g \<longrightarrow> \<not> g \<and> (\<forall>x\<in>set (sh_episodes (pg_shows st')). ep_id x \<notin> ep_id ` set gone) \<and>
       (\<forall>x\<in>set gone. \<forall>p\<in>episode_paths (pg_shows st) x. p \<in> set (pg_disk st') \<longrightarrow> (\<exists>y\<in>set kept. p \<in> episode_paths (pg_shows st) y)))"
proof (cases "collect_episode_paths faults (pg_shows st) gone = None \<or> collect_episode_paths faults (pg_shows st) kept = None")
  case True
  then have "r = Inl Purge_list \<and> st' = st" using assms(5) by (auto simp: remove_episodes_def split: option.splits)
  then show ?thesis using assms(6,7) by auto
next
  case False
  then obtain rps kps where c: "collect_episode_paths faults (pg_shows st) gone = Some rps" "collect_episode_paths faults (pg_shows st) kept = Some kps"
    by auto
  let ?dps = "filter (\<lambda>p. p \<notin> set (unique_non_empty_paths kps)) (unique_non_empty_paths rps)"
  obtain e1 ch disk where m: "remove_tracked_media_keeping env ?dps (sr_root s) kps (pg_disk st) = (e1, ch, disk)" by (rule prod_cases3)
  obtain r1 t1 where d: "delete_removed_rows fl row_fl season_fl (sr_id s) False seasons gone (pg_shows st) = (r1, t1)" by fastforce
  have kept: "kept \<noteq> []" using assms(6) by auto
  have out: "pg_disk st' = disk" "(case e1 of Some x \<Rightarrow> r = Inl x \<and> pg_shows st' = pg_shows st | None \<Rightarrow> r = r1 \<and> pg_shows st' = t1)"
    using assms(5) c m d kept by (auto simp: remove_episodes_def Let_def split: option.splits)
  note sets = collect_set [OF c(1)] collect_set [OF c(2)]
  have clean: "clean_or_empty p" if "p \<in> set rps \<union> set kps" for p using that assms(4) unfolding sets by blast
  have keep: "\<forall>k\<in>set kps. k \<noteq> [] \<longrightarrow> is_rooted k" using clean by (auto simp: clean_or_empty_def)
  have stays: "p \<in> set disk" if p: "p \<in> episode_paths (pg_shows st) e" "p \<in> set (pg_disk st)" for p
  proof -
    have k: "p \<in> set kps" using p(1) assms(6) unfolding sets by blast
    have ne: "p \<noteq> []" "path_clean p = p" using assms(2) p(2) by (auto simp: is_rooted_def has_prefix_def)
    have "path_clean q \<noteq> p" if "q \<in> set ?dps" for q
    proof -
      have "clean_or_empty q" "q \<noteq> []" "q \<notin> set kps" using that clean by auto
      then show ?thesis using k by (auto simp: clean_or_empty_def)
    qed
    then show ?thesis using kept_file_stays [OF assms(1,2) keep assms(3) m k ne(1)] p(2) ne(2) by auto
  qed
  note rows = delete_rows_episodes [OF d]
  have left: "\<exists>y\<in>set kept. p \<in> episode_paths (pg_shows st) y"
    if ok: "e1 = None" and x: "x \<in> set gone" "p \<in> episode_paths (pg_shows st) x" "p \<in> set disk" for x p
  proof (rule ccontr)
    assume none: "\<not> ?thesis"
    note b = removal_basic [OF m]
    have disk: "p \<in> set (pg_disk st)" using b x(3) by blast
    have ne: "p \<noteq> []" "path_clean p = p" using assms(2) disk by (auto simp: is_rooted_def has_prefix_def)
    have "p \<in> set rps" "p \<notin> set kps" using x(1,2) none unfolding sets by blast+
    then have "p \<in> set ch" using b ok ne(1) by auto
    then have "p \<in> path_clean ` set ch" using ne(2) by (metis image_eqI)
    then show False using b x(3) by blast
  qed
  show ?thesis
  proof (cases e1)
    case None
    then show ?thesis using out rows stays left assms(6-8) by auto
  next
    case (Some y)
    then show ?thesis using out stays assms(6,7) by auto
  qed
qed

text \<open>
  C7. Removing seasons of a show leaves the episodes of its other seasons in the catalogue with every file of
  theirs, also those they share with a removed episode or a folder; when it succeeds, the removed episodes are
  gone with every file that no kept episode has, and the show stays.
\<close>
theorem season_removal_spares:
  assumes "normalize_seasons spec = Some seasons" "\<not> rs_entire spec" "distinct (map ep_id (sh_episodes (pg_shows st)))"
    "\<forall>s\<in>set (sh_rows (pg_shows st)). sr_id s = n \<longrightarrow> is_rooted (sr_root s)"
    "\<forall>q\<in>set (pg_disk st). is_rooted q \<and> path_clean q = q" "\<And>ds. set (pe_order env ds) = set ds"
    "\<forall>x\<in>set (sh_episodes (pg_shows st)). ep_show x = n \<longrightarrow> (\<forall>p\<in>episode_paths (pg_shows st) x. clean_or_empty p)"
    "remove_owned_series env fl faults row_fl season_fl n spec st = (r, changes, st')"
    "e \<in> set (sh_episodes (pg_shows st))" "ep_show e = n" "ep_season e \<notin> set seasons"
  shows "e \<in> set (sh_episodes (pg_shows st')) \<and>
    (\<forall>p\<in>episode_paths (pg_shows st) e. p \<in> set (pg_disk st) \<longrightarrow> p \<in> set (pg_disk st')) \<and>
    (\<forall>g. r = Inr g \<longrightarrow> \<not> g \<and>
       (\<forall>x\<in>set (sh_episodes (pg_shows st)). ep_show x = n \<longrightarrow> ep_season x \<in> set seasons \<longrightarrow>
          x \<notin> set (sh_episodes (pg_shows st')) \<and>
          (\<forall>p\<in>episode_paths (pg_shows st) x. p \<in> set (pg_disk st') \<longrightarrow>
             (\<exists>y\<in>set (sh_episodes (pg_shows st)). ep_show y = n \<and> ep_season y \<notin> set seasons \<and> p \<in> episode_paths (pg_shows st) y))))"
proof (cases "(\<exists>x. get_series (fl 0) n (pg_shows st) = Inl x) \<or> fl 1")
  case True
  then have "st' = st \<and> (\<exists>x. r = Inl x)"
    using assms(1,8) by (auto simp: remove_owned_series_def list_episodes_def split: sum.splits)
  then show ?thesis using assms(9) by auto
next
  case False
  then obtain s where s: "get_series (fl 0) n (pg_shows st) = Inr s" "\<not> fl 1" by (cases "get_series (fl 0) n (pg_shows st)") auto
  let ?es = "sort_key ep_season (sort_key ep_number (filter (\<lambda>e. ep_show e = n) (sh_episodes (pg_shows st))))"
  obtain gone kept where g: "gone = filter (\<lambda>e. ep_season e \<in> set seasons) ?es" and k: "kept = filter (\<lambda>e. ep_season e \<notin> set seasons) ?es"
    by blast
  have sets: "set gone = {x \<in> set (sh_episodes (pg_shows st)). ep_show x = n \<and> ep_season x \<in> set seasons}"
    "set kept = {x \<in> set (sh_episodes (pg_shows st)). ep_show x = n \<and> ep_season x \<notin> set seasons}" unfolding g k by auto
  show ?thesis
  proof (cases "gone = []")
    case True
    then have "st' = st \<and> r = Inl Purge_remove_spec"
      using assms(1,2,8) s unfolding g by (simp add: remove_owned_series_def list_episodes_def)
    then show ?thesis using assms(9) by auto
  next
    case False
    then have re: "remove_episodes env fl faults row_fl season_fl s False seasons gone kept st = (r, changes, st')"
      using assms(1,2,8) s unfolding g k by (simp add: remove_owned_series_def list_episodes_def)
    have root: "is_rooted (sr_root s)" using get_series_row [OF s(1)] assms(4) by blast
    have e: "e \<in> set kept" using assms(9-11) unfolding sets by simp
    have sub: "set kept \<subseteq> set (sh_episodes (pg_shows st))" unfolding sets by blast
    have inj: "ep_id x \<noteq> ep_id y" if "x \<in> set (sh_episodes (pg_shows st))" "y \<in> set (sh_episodes (pg_shows st))" "x \<noteq> y" for x y
      using assms(3) that by (auto simp: distinct_map inj_on_def)
    have new: "ep_id e \<notin> ep_id ` set gone" using inj assms(9,11) unfolding sets by blast
    have clean: "\<forall>x\<in>set gone \<union> set kept. \<forall>p\<in>episode_paths (pg_shows st) x. clean_or_empty p"
      using assms(7) unfolding sets by blast
    note spares = remove_episodes_spares [OF root assms(5,6) clean re e sub new]
    have "\<not> g \<and> (\<forall>x\<in>set gone. x \<notin> set (sh_episodes (pg_shows st')) \<and>
        (\<forall>p\<in>episode_paths (pg_shows st) x. p \<in> set (pg_disk st') \<longrightarrow> (\<exists>y\<in>set kept. p \<in> episode_paths (pg_shows st) y)))"
      if "r = Inr g" for g
      using spares [THEN conjunct2, THEN conjunct2, rule_format, OF that] by blast
    then have "\<forall>g. r = Inr g \<longrightarrow> \<not> g \<and> (\<forall>x\<in>set gone. x \<notin> set (sh_episodes (pg_shows st')) \<and>
        (\<forall>p\<in>episode_paths (pg_shows st) x. p \<in> set (pg_disk st') \<longrightarrow> (\<exists>y\<in>set kept. p \<in> episode_paths (pg_shows st) y)))"
      by (intro allI impI)
    then show ?thesis
      using spares [THEN conjunct1] spares [THEN conjunct2, THEN conjunct1] by (simp add: sets) blast
  qed
qed

section \<open>Examples\<close>

definition demo_title :: "int \<Rightarrow> gostring \<Rightarrow> int \<Rightarrow> item" where
  "demo_title n path stars = \<lparr>it_id = n, it_mode = ''movies'', it_tmdb = n, it_title = ''Title'', it_year = 2000, it_path = path,
     it_root = ''/movies/'', it_size = 0, it_tier = [], it_rating = stars, it_watch = False, it_phash = [], it_phash_size = 0,
     it_phash_mtime = [], it_created = ''2025-01-01'', it_genres = [], it_cast = []\<rparr>"

definition demo_shows :: show_tables where
  "demo_shows = \<lparr>sh_rows = [\<lparr>sr_id = 1, sr_tmdb = 7, sr_title = ''Show'', sr_root = ''/tv'', sr_created = ''2025-01-01'', sr_rating = 2\<rparr>],
     sh_episodes =
       [\<lparr>ep_id = 1, ep_show = 1, ep_season = 2, ep_number = 1, ep_path = ''/tv/Show/s2e1.mkv'', ep_size = 5, ep_tier = ''low''\<rparr>,
        \<lparr>ep_id = 2, ep_show = 1, ep_season = 1, ep_number = 1, ep_path = ''/tv/Show/s1e1.mkv'', ep_size = 6, ep_tier = ''high''\<rparr>,
        \<lparr>ep_id = 3, ep_show = 1, ep_season = 1, ep_number = 2, ep_path = [], ep_size = 0, ep_tier = []\<rparr>],
     sh_files = [\<lparr>ef_id = 1, ef_episode = 2, ef_path = ''/tv/Two/a.mkv'', ef_primary = False\<rparr>], sh_tags = [], sh_monitored = [(1, 1)]\<rparr>"

definition demo_purge :: purge_state where
  "demo_purge = \<lparr>pg_disk = [''/movies/Set/one.mkv'', ''/movies/Set/two.mkv'', ''/movies/three.mkv''] @ demo_tv_disk,
     pg_cat = \<lparr>ct_items = [demo_title 1 ''/movies/Set/one.mkv'' 1, demo_title 2 ''/movies/Set/two.mkv'' 5], ct_files = [], ct_tags = [],
       ct_next_item = 3, ct_next_file = 1\<rparr>,
     pg_shows = demo_shows\<rparr>"

definition rating_rule :: prune_rule where
  "rating_rule = demo_rule\<lparr>pr_min_rating := 3, pr_criteria := []\<rparr>"

lemma demo_purge_ok:
  "cat_ok (pg_cat demo_purge)" "\<forall>q\<in>set (pg_disk demo_purge). is_rooted q \<and> path_clean q = q"
  by (simp add: cat_ok_def demo_purge_def demo_title_def file_paths_unique_def one_primary_def) code_simp


definition staged_demo :: "proposal list" where
  "staged_demo = [movie_purge_proposal (demo_title 1 ''/movies/Set/one.mkv'' 1)]"

lemma staged_demo_scan:
  "purge_scan_library no_float demo_time False (\<lambda>_. False) [rating_rule] 0 (pg_cat demo_purge) = Some staged_demo"
  by code_simp



definition season_one :: remove_spec where
  "season_one = \<lparr>rs_entire = False, rs_seasons = [1, 1]\<rparr>"

lemma season_removal_spares_witness:
  "''/tv/Show/s2e1.mkv'' \<in> set (pg_disk (snd (snd
     (remove_owned_series easy_env (\<lambda>_. False) (\<lambda>_. False) (\<lambda>_. False) (\<lambda>_. False) 1 season_one demo_purge)))) \<and>
   fst (remove_owned_series easy_env (\<lambda>_. False) (\<lambda>_. False) (\<lambda>_. False) (\<lambda>_. False) 1 season_one demo_purge) = Inr False"
proof -
  let ?a = "remove_owned_series easy_env (\<lambda>_. False) (\<lambda>_. False) (\<lambda>_. False) (\<lambda>_. False) 1 season_one demo_purge"
  let ?e = "\<lparr>ep_id = 1, ep_show = 1, ep_season = 2, ep_number = 1, ep_path = ''/tv/Show/s2e1.mkv'', ep_size = 5, ep_tier = ''low''\<rparr>"
  have sh: "pg_shows demo_purge = demo_shows" by (simp add: demo_purge_def)
  have spec: "normalize_seasons season_one = Some [1]" "\<not> rs_entire season_one" by code_simp+
  have dist: "distinct (map ep_id (sh_episodes (pg_shows demo_purge)))" by code_simp
  have roots: "\<forall>s\<in>set (sh_rows (pg_shows demo_purge)). sr_id s = 1 \<longrightarrow> is_rooted (sr_root s)" by code_simp
  have "\<forall>x\<in>set (sh_episodes demo_shows). clean_or_empty (ep_path x)" "\<forall>f\<in>set (sh_files demo_shows). clean_or_empty (ef_path f)"
    by code_simp+
  then have clean: "\<forall>x\<in>set (sh_episodes (pg_shows demo_purge)). ep_show x = 1 \<longrightarrow> (\<forall>p\<in>episode_paths (pg_shows demo_purge) x. clean_or_empty p)"
    unfolding sh episode_paths_def by blast
  have e: "?e \<in> set (sh_episodes (pg_shows demo_purge))" "ep_show ?e = 1" "ep_season ?e \<notin> set [1]"
    by (simp_all add: sh demo_shows_def)
  have a: "?a = (fst ?a, fst (snd ?a), snd (snd ?a))" by simp
  have p: "''/tv/Show/s2e1.mkv'' \<in> episode_paths (pg_shows demo_purge) ?e" by (simp add: episode_paths_def)
  have d: "''/tv/Show/s2e1.mkv'' \<in> set (pg_disk demo_purge)" by (simp add: demo_purge_def demo_tv_disk_def)
  have r: "fst ?a = Inr False" by code_simp
  have "''/tv/Show/s2e1.mkv'' \<in> set (pg_disk (snd (snd ?a)))"
    using season_removal_spares [OF spec dist roots demo_purge_ok(2) easy_order clean a e] p d by blast
  then show ?thesis using r by blast
qed

end
